(* ===== verification/Prelude.thy ===== *)
theory Prelude
  imports Main "HOL-Library.Monad_Syntax"
begin

text \<open>
  Shared material of the development: the theorem collections the component proofs feed, and
  the generic facts about the option monad, association lists and iteration with a threaded
  state. A C function that may run into undefined behaviour (a dereference of freed, null or
  uninitialised memory) is modelled as a function into \<open>option\<close>; \<open>None\<close> is that fault, so a
  theorem of the form \<open>\<exists>r. f x = Some r\<close> is a memory-safety statement.
\<close>

named_theorems keys_simps \<open>keys of hash tables after each operation\<close>
named_theorems view_simps \<open>what an operation leaves unchanged\<close>

type_synonym cstring = string

subsection \<open>Association lists with distinct keys\<close>

abbreviation keys :: "('k \<times> 'v) list \<Rightarrow> 'k list" where
  "keys h \<equiv> map fst h"

lemma map_of_distinct_rev: "distinct (keys h) \<Longrightarrow> map_of (rev h) = map_of h"
  by (rule map_of_inject_set [THEN iffD2]) (auto simp: rev_map [symmetric])

lemma map_of_eq_Some_iff_distinct:
  "distinct (keys h) \<Longrightarrow> map_of h k = Some v \<longleftrightarrow> (k, v) \<in> set h"
  by simp

lemma distinct_keys_eqD:
  "distinct (keys h) \<Longrightarrow> (k, v) \<in> set h \<Longrightarrow> (k, w) \<in> set h \<Longrightarrow> v = w"
  by (metis map_of_is_SomeI option.inject)

lemma distinct_keys_filter: "distinct (keys h) \<Longrightarrow> distinct (keys (filter P h))"
  by (rule distinct_map_filter)

subsection \<open>Insertion and deletion at a position\<close>

definition ins_at :: "nat \<Rightarrow> 'a \<Rightarrow> 'a list \<Rightarrow> 'a list" where
  "ins_at j x ys = take j ys @ x # drop j ys"

definition del_at :: "nat \<Rightarrow> 'a list \<Rightarrow> 'a list" where
  "del_at j ys = take j ys @ drop (Suc j) ys"

lemma length_ins_at [simp]: "length (ins_at j x ys) = Suc (length ys)"
  by (simp add: ins_at_def)

lemma length_del_at [simp]: "j < length ys \<Longrightarrow> length (del_at j ys) = length ys - 1"
  by (simp add: del_at_def)

lemma nth_ins_at:
  "j \<le> length ys \<Longrightarrow> i \<le> length ys \<Longrightarrow>
   ins_at j x ys ! i = (if i < j then ys ! i else if i = j then x else ys ! (i - 1))"
  by (auto simp: ins_at_def nth_append nth_Cons' min_def)

lemma nth_del_at:
  "j < length ys \<Longrightarrow> i < length ys - 1 \<Longrightarrow>
   del_at j ys ! i = (if i < j then ys ! i else ys ! Suc i)"
  by (auto simp: del_at_def nth_append min_def)

lemma map_ins_at: "map f (ins_at j x ys) = ins_at j (f x) (map f ys)"
  by (simp add: ins_at_def take_map drop_map)

lemma map_del_at: "map f (del_at j ys) = del_at j (map f ys)"
  by (simp add: del_at_def take_map drop_map)

lemma set_ins_at: "set (ins_at j x ys) = insert x (set ys)"
  by (metis append_take_drop_id ins_at_def list.set(2) set_append Un_insert_right)

lemma set_del_at_subset: "set (del_at j ys) \<subseteq> set ys"
  by (auto simp: del_at_def dest: in_set_takeD in_set_dropD)

lemma distinct_ins_at: "distinct ys \<Longrightarrow> x \<notin> set ys \<Longrightarrow> distinct (ins_at j x ys)"
  by (auto simp: ins_at_def set_take_disj_set_drop_if_distinct dest: in_set_takeD in_set_dropD)

lemma distinct_del_at: "distinct ys \<Longrightarrow> distinct (del_at j ys)"
  by (auto simp: del_at_def set_take_disj_set_drop_if_distinct)

lemma del_at_notin: "distinct ys \<Longrightarrow> j < length ys \<Longrightarrow> ys ! j \<notin> set (del_at j ys)"
  by (auto simp: del_at_def in_set_conv_nth nth_eq_iff_index_eq)

lemma ins_at_Cons: "ins_at (Suc j) x (y # ys) = y # ins_at j x ys"
  by (simp add: ins_at_def)

lemma ins_at_append: "j \<le> length ys \<Longrightarrow> ins_at j x (ys @ zs) = ins_at j x ys @ zs"
  by (simp add: ins_at_def)

lemma del_at_Cons: "del_at (Suc j) (y # ys) = y # del_at j ys"
  by (simp add: del_at_def)

lemma del_at_append: "j < length ys \<Longrightarrow> del_at j (ys @ zs) = del_at j ys @ zs"
  by (simp add: del_at_def)

lemma ins_at_replicate: "j \<le> n \<Longrightarrow> ins_at j x (replicate n x) = replicate (Suc n) x"
  by (metis ins_at_def append_Cons append_take_drop_id drop_replicate min.absorb1 replicate_Suc
      replicate_add replicate_app_Cons_same take_replicate)

lemma del_at_replicate: "j < n \<Longrightarrow> del_at j (replicate n x) = replicate (n - 1) x"
  by (simp add: del_at_def replicate_add [symmetric])

subsection \<open>The option monad\<close>

lemma bind_Some_iff: "Option.bind m f = Some y \<longleftrightarrow> (\<exists>x. m = Some x \<and> f x = Some y)"
  by (cases m) auto

lemma bind_SomeE: "Option.bind m f = Some y \<Longrightarrow> (\<And>x. m = Some x \<Longrightarrow> f x = Some y \<Longrightarrow> P) \<Longrightarrow> P"
  by (cases m) auto

lemma bind_ex_SomeI:
  "m = Some x \<Longrightarrow> \<exists>y. f x = Some y \<and> Q y \<Longrightarrow> \<exists>y. Option.bind m f = Some y \<and> Q y"
  by auto

end
