(* ===== verification/Cutil_Hash.thy ===== *)
theory Cutil_Hash
  imports Prelude
begin

text \<open>
  The string-keyed hash table of \<^verbatim>\<open>cutil/hash_table.c\<close>. A table is modelled by the list of
  its entries in the order in which \<^verbatim>\<open>HASH_ITER\<close> visits them, which is the order of insertion
  (uthash keeps that order in the \<^verbatim>\<open>prev\<close>/\<^verbatim>\<open>next\<close> chain of the entries).

  A lookup or a removal by key is exact for tables with unique keys. Of two entries with the same key the list model
  takes the younger; the C code takes whichever comes first in its bucket, the younger after
  \<^verbatim>\<open>HASH_ADD_TO_BKT\<close> and the older once \<^verbatim>\<open>HASH_EXPAND_BUCKETS\<close> has reversed the chain. The theories \<open>Uthash\<close> to
  \<open>Uthash_Check\<close> model the links and buckets themselves and show which operations agree with the lists always, and
  which for unique keys. The programs look up and remove by key only in tables with unique keys (the tables of files and of tags, the tags
  of a file, the files of a tag: an invariant of each variant); the tables that can repeat a key, the tags selected by a path and
  the work list of \<^verbatim>\<open>tag_remove\<close>, are only added to, iterated, counted and asked whether they have a key. Where two threads
  put a name into the table of files twice, theory \<open>Fuse_Race\<close> states the later lookup on the model of \<^verbatim>\<open>uthash\<close>.

  The reader/writer lock of a table serialises single calls
  and has no effect of its own in a sequential run, except where a callback of \<^verbatim>\<open>ht_for_each\<close> writes to the table that is
  iterated: theory \<open>Cutil_Lock\<close> models the lock for that case.
\<close>

type_synonym 'a ht = "(cstring \<times> 'a) list"

definition ht_create :: "'a ht" where
  "ht_create = []"

definition ht_entry_count :: "'a ht \<Rightarrow> int" where
  "ht_entry_count h = int (length h)"

text \<open>\<^verbatim>\<open>HASH_FIND_STR\<close> on a table with unique keys: the data of the entry found, \<open>None\<close> for the null pointer.\<close>

definition ht_find :: "'a ht \<Rightarrow> cstring \<Rightarrow> 'a option" where
  "ht_find h key = map_of (rev h) key"

text \<open>\<^verbatim>\<open>HASH_DEL\<close> of the entry that \<^verbatim>\<open>HASH_FIND_STR\<close> finds.\<close>

fun ht_del_first :: "cstring \<Rightarrow> 'a ht \<Rightarrow> 'a ht" where
  "ht_del_first key [] = []"
| "ht_del_first key (e # h) = (if fst e = key then h else e # ht_del_first key h)"

definition ht_del :: "'a ht \<Rightarrow> cstring \<Rightarrow> 'a ht" where
  "ht_del h key = rev (ht_del_first key (rev h))"

text \<open>The operations return the C result code (0 or -1) and the table afterwards.\<close>

definition ht_add_entry :: "'a ht \<Rightarrow> cstring \<Rightarrow> 'a \<Rightarrow> int \<times> 'a ht" where
  "ht_add_entry h key d = (0, h @ [(key, d)])"

definition ht_add_unique_entry :: "'a ht \<Rightarrow> cstring \<Rightarrow> 'a \<Rightarrow> int \<times> 'a ht" where
  "ht_add_unique_entry h key d =
     (case ht_find h key of
        None \<Rightarrow> (0, h @ [(key, d)])
      | Some entry \<Rightarrow> (-1, h))"

definition ht_remove_entry :: "'a ht \<Rightarrow> cstring \<Rightarrow> int \<times> 'a ht" where
  "ht_remove_entry h key =
     (case ht_find h key of
        Some entry \<Rightarrow> (0, ht_del h key)
      | None \<Rightarrow> (-1, h))"

definition ht_has_entry :: "'a ht \<Rightarrow> cstring \<Rightarrow> bool" where
  "ht_has_entry h key \<longleftrightarrow> ht_find h key \<noteq> None"

text \<open>
  \<^verbatim>\<open>ht_get_entry\<close> stores the data through its last argument and returns 0, or returns -1
  and stores nothing: \<open>Some\<close> of the stored value, or \<open>None\<close>.
\<close>

definition ht_get_entry :: "'a ht \<Rightarrow> cstring \<Rightarrow> 'a option" where
  "ht_get_entry h key = ht_find h key"

text \<open>
  \<^verbatim>\<open>ht_for_each\<close> calls its callback on every entry in order; the callback changes the state
  outside the table and may fault.
\<close>

fun ht_for_each :: "'a ht \<Rightarrow> (cstring \<Rightarrow> 'a \<Rightarrow> 's \<Rightarrow> 's option) \<Rightarrow> 's \<Rightarrow> 's option" where
  "ht_for_each [] callback s = Some s"
| "ht_for_each ((key, d) # h) callback s = do {
     s \<leftarrow> callback key d s;
     ht_for_each h callback s
   }"

subsection \<open>What the operations do to keys and entries\<close>

lemma ht_find_None_iff: "ht_find h k = None \<longleftrightarrow> k \<notin> set (keys h)"
  by (auto simp: ht_find_def map_of_eq_None_iff)

lemma ht_has_entry_iff: "ht_has_entry h k \<longleftrightarrow> k \<in> set (keys h)"
  by (auto simp: ht_has_entry_def ht_find_None_iff)

lemma ht_find_SomeD: "ht_find h k = Some d \<Longrightarrow> (k, d) \<in> set h"
  unfolding ht_find_def by (drule map_of_SomeD) simp

lemma ht_find_distinct: "distinct (keys h) \<Longrightarrow> ht_find h k = Some d \<longleftrightarrow> (k, d) \<in> set h"
  by (simp add: ht_find_def map_of_distinct_rev)

lemma ht_del_first_filter:
  "distinct (keys h) \<Longrightarrow> ht_del_first k h = filter (\<lambda>e. fst e \<noteq> k) h"
proof (induction h)
  case Nil
  then show ?case by simp
next
  case (Cons e h)
  show ?case
  proof (cases "fst e = k")
    case True
    with Cons.prems have "filter (\<lambda>e. fst e \<noteq> k) h = h"
      by (intro filter_True ballI) (metis distinct.simps(2) image_eqI list.map(2) set_map)
    with True show ?thesis by simp
  next
    case False
    with Cons show ?thesis by simp
  qed
qed

lemma ht_del_distinct: "distinct (keys h) \<Longrightarrow> ht_del h k = filter (\<lambda>e. fst e \<noteq> k) h"
  by (simp add: ht_del_def ht_del_first_filter rev_map [symmetric] rev_filter)

lemma ht_del_first_notin: "k \<notin> fst ` set h \<Longrightarrow> ht_del_first k h = h"
  by (induction h) auto

lemma ht_remove_distinct:
  "distinct (keys h) \<Longrightarrow> snd (ht_remove_entry h k) = filter (\<lambda>e. fst e \<noteq> k) h"
  by (auto simp: ht_remove_entry_def ht_del_distinct ht_find_None_iff split: option.splits
      intro!: filter_True [symmetric])

lemma ht_remove_absent: "k \<notin> set (keys h) \<Longrightarrow> snd (ht_remove_entry h k) = h"
  by (simp add: ht_remove_entry_def ht_find_None_iff [THEN iffD2])

lemma set_ht_remove:
  "distinct (keys h) \<Longrightarrow> set (snd (ht_remove_entry h k)) = {e \<in> set h. fst e \<noteq> k}"
  by (simp add: ht_remove_distinct)

lemma distinct_ht_remove: "distinct (keys h) \<Longrightarrow> distinct (keys (snd (ht_remove_entry h k)))"
  by (simp add: ht_remove_distinct distinct_keys_filter)

lemma ht_add_unique_eq:
  "snd (ht_add_unique_entry h k d) = (if k \<in> set (keys h) then h else h @ [(k, d)])"
proof (cases "ht_find h k")
  case None
  moreover from this have "k \<notin> set (keys h)" by (metis ht_find_None_iff)
  ultimately show ?thesis by (simp add: ht_add_unique_entry_def)
next
  case (Some e)
  then have "k \<in> set (keys h)" by (metis ht_find_None_iff option.distinct(1))
  with Some show ?thesis by (simp add: ht_add_unique_entry_def)
qed

lemma distinct_ht_add_unique:
  "distinct (keys h) \<Longrightarrow> distinct (keys (snd (ht_add_unique_entry h k d)))"
  by (simp add: ht_add_unique_eq)

lemma ht_add_entry_snd [simp]: "snd (ht_add_entry h k d) = h @ [(k, d)]"
  by (simp add: ht_add_entry_def)

lemma ht_entry_count_pos: "ht_entry_count h > 0 \<longleftrightarrow> h \<noteq> []"
  by (simp add: ht_entry_count_def)

lemma ht_entry_count_zero: "ht_entry_count h = 0 \<longleftrightarrow> h = []"
  by (simp add: ht_entry_count_def)

lemmas ht_table_simps =
  ht_add_unique_eq ht_remove_distinct ht_has_entry_iff distinct_ht_remove distinct_ht_add_unique

subsection \<open>Iteration\<close>

text \<open>A loop whose callback keeps an invariant and never faults ends in a state with it.\<close>

lemma ht_for_each_inv:
  assumes "I s"
    and "\<And>k d s. (k, d) \<in> set h \<Longrightarrow> I s \<Longrightarrow> \<exists>s'. f k d s = Some s' \<and> I s'"
  shows "\<exists>s'. ht_for_each h f s = Some s' \<and> I s'"
  using assms
proof (induction h arbitrary: s)
  case Nil
  then show ?case by simp
next
  case (Cons e h)
  obtain k d where e: "e = (k, d)" by fastforce
  from Cons.prems e obtain s' where "f k d s = Some s'" "I s'"
    by (meson list.set_intros(1))
  moreover have "\<exists>s''. ht_for_each h f s' = Some s'' \<and> I s''"
    using Cons.prems(2) \<open>I s'\<close> by (intro Cons.IH) auto
  ultimately show ?case by (auto simp: e)
qed

text \<open>A run that succeeds keeps what every call keeps.\<close>

lemma ht_for_each_keeps:
  assumes "ht_for_each h f s = Some s'" and "P s"
    and "\<And>k d s s'. (k, d) \<in> set h \<Longrightarrow> f k d s = Some s' \<Longrightarrow> P s \<Longrightarrow> P s'"
  shows "P s'"
  using assms
proof (induction h arbitrary: s)
  case Nil
  then show ?case by simp
next
  case (Cons e h)
  obtain k d where e: "e = (k, d)" by fastforce
  with Cons.prems(1) obtain s1 where s1: "f k d s = Some s1" "ht_for_each h f s1 = Some s'"
    by (auto simp: bind_Some_iff)
  have "P s1" using Cons.prems(3) [OF _ s1(1) Cons.prems(2)] e by simp
  with Cons.IH [OF s1(2)] Cons.prems(3) show ?case by auto
qed

text \<open>The invariant may speak of the entries still to come.\<close>

lemma ht_for_each_rest:
  assumes "I h s"
    and "\<And>k d h s. I ((k, d) # h) s \<Longrightarrow> \<exists>s'. f k d s = Some s' \<and> I h s'"
  shows "\<exists>s'. ht_for_each h f s = Some s' \<and> I [] s'"
  using assms(1)
proof (induction h arbitrary: s)
  case Nil
  then show ?case by simp
next
  case (Cons e h)
  obtain k d where e: "e = (k, d)" by fastforce
  with Cons.prems assms(2) obtain s' where "f k d s = Some s'" "I h s'" by blast
  with Cons.IH show ?case by (auto simp: e)
qed

text \<open>A callback that cannot fault makes the loop a fold.\<close>

lemma ht_for_each_fold:
  "ht_for_each h (\<lambda>k d s. Some (f k d s)) s = Some (fold (\<lambda>(k, d) s. f k d s) h s)"
  by (induction h arbitrary: s) auto

lemma ht_for_each_append:
  "ht_for_each (h @ h') f s = Option.bind (ht_for_each h f s) (ht_for_each h' f)"
proof (induction h arbitrary: s)
  case Nil
  then show ?case by simp
next
  case (Cons e h)
  obtain k d where "e = (k, d)" by fastforce
  with Cons show ?case by (cases "f k d s") auto
qed

lemma ht_for_each_cong:
  "(\<And>k d s. (k, d) \<in> set h \<Longrightarrow> f k d s = g k d s) \<Longrightarrow> ht_for_each h f s = ht_for_each h g s"
proof (induction h arbitrary: s)
  case Nil
  then show ?case by simp
next
  case (Cons e h)
  obtain k d where e: "e = (k, d)" by fastforce
  have "f k d s = g k d s" using Cons.prems e by simp
  moreover have "ht_for_each h f s' = ht_for_each h g s'" for s'
    using Cons.prems by (intro Cons.IH) auto
  ultimately show ?case by (cases "g k d s") (auto simp: e)
qed

subsection \<open>The interface of a table of unique strings\<close>

text \<open>
  What \<^verbatim>\<open>tag.c\<close> and \<^verbatim>\<open>file.c\<close> need of a table: lookup, insertion of a new key, removal and
  the entries an iteration sees, with the usual laws under an invariant.
\<close>

locale string_table =
  fixes empty :: "'t"
    and lookup :: "'t \<Rightarrow> cstring \<Rightarrow> 'v option"
    and add :: "'t \<Rightarrow> cstring \<Rightarrow> 'v \<Rightarrow> 't"
    and remove :: "'t \<Rightarrow> cstring \<Rightarrow> 't"
    and entries :: "'t \<Rightarrow> (cstring \<times> 'v) list"
    and invar :: "'t \<Rightarrow> bool"
  assumes invar_empty: "invar empty"
    and invar_add: "invar h \<Longrightarrow> lookup h k = None \<Longrightarrow> invar (add h k v)"
    and invar_remove: "invar h \<Longrightarrow> invar (remove h k)"
    and entries_empty: "entries empty = []"
    and entries_add: "invar h \<Longrightarrow> lookup h k = None \<Longrightarrow> entries (add h k v) = entries h @ [(k, v)]"
    and entries_remove: "invar h \<Longrightarrow> entries (remove h k) = filter (\<lambda>e. fst e \<noteq> k) (entries h)"
    and lookup_entries: "invar h \<Longrightarrow> lookup h k = map_of (entries h) k"
    and entries_distinct: "invar h \<Longrightarrow> distinct (keys (entries h))"
begin

lemma lookup_after_add:
  "invar h \<Longrightarrow> lookup h k = None \<Longrightarrow>
   lookup (add h k v) j = (if j = k then Some v else lookup h j)"
  by (auto simp: lookup_entries invar_add entries_add map_add_def split: option.splits)

lemma map_of_filter_keys:
  "map_of (filter (\<lambda>e. fst e \<noteq> k) es) j = (if j = k then None else map_of es j)"
  by (induction es) auto

lemma lookup_after_remove:
  "invar h \<Longrightarrow> lookup (remove h k) j = (if j = k then None else lookup h j)"
  by (simp add: lookup_entries invar_remove entries_remove map_of_filter_keys)

lemma remove_after_add:
  "invar h \<Longrightarrow> lookup h k = None \<Longrightarrow> entries (remove (add h k v) k) = entries h"
  by (auto simp: invar_add entries_remove entries_add lookup_entries map_of_eq_None_iff
      intro!: filter_True)

text \<open>The get-or-create idiom: a second call with the same key finds the first result.\<close>

definition intern :: "'t \<Rightarrow> cstring \<Rightarrow> 'v \<Rightarrow> 'v \<times> 't" where
  "intern h k fresh = (case lookup h k of Some v \<Rightarrow> (v, h) | None \<Rightarrow> (fresh, add h k fresh))"

lemma invar_intern: "invar h \<Longrightarrow> invar (snd (intern h k v))"
  by (auto simp: intern_def invar_add split: option.splits)

lemma lookup_intern: "invar h \<Longrightarrow> lookup (snd (intern h k v)) k = Some (fst (intern h k v))"
  by (auto simp: intern_def lookup_after_add split: option.splits)

lemma intern_again: "invar h \<Longrightarrow> intern (snd (intern h k v)) k w = (fst (intern h k v), snd (intern h k v))"
  by (subst intern_def) (simp add: lookup_intern)

end

interpretation ht: string_table ht_create ht_find
  "\<lambda>h k v. snd (ht_add_entry h k v)" "\<lambda>h k. snd (ht_remove_entry h k)" "\<lambda>h. h"
  "\<lambda>h. distinct (keys h)"
proof unfold_locales
  fix h :: "'a ht" and k
  assume "distinct (keys h)"
  then show "ht_find h k = map_of h k"
    by (simp add: ht_find_def map_of_distinct_rev)
qed (auto simp: ht_create_def ht_find_None_iff distinct_keys_filter ht_remove_distinct)

end
