(* ===== verification/Uthash.thy ===== *)
theory Uthash
  imports Cutil_Hash "HOL-Library.Word"
begin

text \<open>
  The hash table below the tables: the macros of \<^verbatim>\<open>cutil/uthash.h\<close> that \<^verbatim>\<open>cutil/hash_table.c\<close> expands,
  and the functions of \<^verbatim>\<open>hash_table.c\<close> over them. An entry is a struct at an address with the links
  of two doubly linked lists, the one of all entries in the order of insertion and the one of its
  bucket. The macros reach an entry from its handle by the offset \<^verbatim>\<open>hho\<close>; here the address of an entry
  stands for both. The handle's pointer to the table is the one table of the state. Counters and hash
  values are 32-bit words. The result \<open>None\<close> is a dereference of a null or freed pointer, an access past
  an array, or a loop that never ends. As elsewhere, allocation succeeds.
\<close>

unbundle bit_operations_syntax

subsection \<open>Entries, buckets and tables\<close>

type_synonym eptr = nat

record 'a entry =
  e_key :: cstring
  e_data :: 'a
  e_prev :: "eptr option"
  e_next :: "eptr option"
  e_hh_prev :: "eptr option"
  e_hh_next :: "eptr option"
  e_keylen :: "32 word"
  e_hashv :: "32 word"

record bucket =
  hh_head :: "eptr option"
  b_count :: "32 word"
  expand_mult :: "32 word"

record ut_table =
  ut_buckets :: "bucket list"
  num_buckets :: "32 word"
  log2_num_buckets :: "32 word"
  num_items :: "32 word"
  ut_tail :: eptr
  ideal_chain_maxlen :: "32 word"
  nonideal_items :: "32 word"
  ineff_expands :: "32 word"
  noexpand :: "32 word"

type_synonym 'a cells = "eptr \<Rightarrow> 'a entry option"

record 'a uht =
  u_head :: "eptr option"
  u_tbl :: "ut_table option"
  u_cells :: "'a cells"
  u_fresh :: eptr

definition HASH_INITIAL_NUM_BUCKETS :: "32 word" where "HASH_INITIAL_NUM_BUCKETS = 32"
definition HASH_INITIAL_NUM_BUCKETS_LOG2 :: "32 word" where "HASH_INITIAL_NUM_BUCKETS_LOG2 = 5"
definition HASH_BKT_CAPACITY_THRESH :: "32 word" where "HASH_BKT_CAPACITY_THRESH = 10"

text \<open>Access to structs and arrays.\<close>

definition cell_upd :: "eptr \<Rightarrow> ('a entry \<Rightarrow> 'a entry) \<Rightarrow> 'a cells \<Rightarrow> 'a cells option" where
  "cell_upd p g C = do { e \<leftarrow> C p; Some (C(p \<mapsto> g e)) }"

text \<open>The write is skipped when the pointer is null, as the macros do with an \<^verbatim>\<open>if\<close>.\<close>

definition link_upd :: "eptr option \<Rightarrow> ('a entry \<Rightarrow> 'a entry) \<Rightarrow> 'a cells \<Rightarrow> 'a cells option" where
  "link_upd po g C = (case po of None \<Rightarrow> Some C | Some p \<Rightarrow> cell_upd p g C)"

definition bucket_at :: "bucket list \<Rightarrow> nat \<Rightarrow> bucket option" where
  "bucket_at bs i = (if i < length bs then Some (bs ! i) else None)"

text \<open>\<^verbatim>\<open>(p)->hh.tbl\<close>\<close>

definition tbl_of :: "eptr option \<Rightarrow> 'a uht \<Rightarrow> ut_table option" where
  "tbl_of po s = do { p \<leftarrow> po; e \<leftarrow> u_cells s p; u_tbl s }"

subsection \<open>The hash function\<close>

definition HASH_JEN_MIX :: "32 word \<times> 32 word \<times> 32 word \<Rightarrow> 32 word \<times> 32 word \<times> 32 word" where
  "HASH_JEN_MIX = (\<lambda>(a, b, c).
     let a = a - b; a = a - c; a = a XOR drop_bit 13 c;
         b = b - c; b = b - a; b = b XOR push_bit 8 a;
         c = c - a; c = c - b; c = c XOR drop_bit 13 b;
         a = a - b; a = a - c; a = a XOR drop_bit 12 c;
         b = b - c; b = b - a; b = b XOR push_bit 16 a;
         c = c - a; c = c - b; c = c XOR drop_bit 5 b;
         a = a - b; a = a - c; a = a XOR drop_bit 3 c;
         b = b - c; b = b - a; b = b XOR push_bit 10 a;
         c = c - a; c = c - b; c = c XOR drop_bit 15 b
     in (a, b, c))"

text \<open>Four bytes of the key from position \<open>n\<close>.\<close>

definition jen_word :: "32 word list \<Rightarrow> nat \<Rightarrow> 32 word" where
  "jen_word key n = key ! n + push_bit 8 (key ! (n + 1)) + push_bit 16 (key ! (n + 2)) + push_bit 24 (key ! (n + 3))"

fun jen_loop :: "nat \<Rightarrow> 32 word list \<Rightarrow> 32 word \<times> 32 word \<times> 32 word \<Rightarrow>
    nat \<times> 32 word list \<times> 32 word \<times> 32 word \<times> 32 word" where
  "jen_loop k key (i, j, hashv) =
     (if k \<ge> 12
      then jen_loop (k - 12) (drop 12 key)
             (HASH_JEN_MIX (i + jen_word key 0, j + jen_word key 4, hashv + jen_word key 8))
      else (k, key, i, j, hashv))"

declare jen_loop.simps [simp del]

text \<open>The cases of the \<^verbatim>\<open>switch\<close> fall through: byte \<open>n\<close> is added when more than \<open>n\<close> bytes are left.\<close>

definition jen_rest :: "nat \<Rightarrow> 32 word list \<Rightarrow> nat \<Rightarrow> nat \<Rightarrow> 32 word" where
  "jen_rest k key n sh = (if k > n then push_bit sh (key ! n) else 0)"

definition HASH_JEN :: "cstring \<Rightarrow> 32 word \<Rightarrow> 32 word" where
  "HASH_JEN key keylen =
     (let (k, key, i, j, hashv) = jen_loop (unat keylen) (map of_char key) (0x9e3779b9, 0x9e3779b9, 0xfeedbeef);
          hashv = hashv + keylen;
          hashv = hashv + jen_rest k key 10 24 + jen_rest k key 9 16 + jen_rest k key 8 8;
          j = j + jen_rest k key 7 24 + jen_rest k key 6 16 + jen_rest k key 5 8 + jen_rest k key 4 0;
          i = i + jen_rest k key 3 24 + jen_rest k key 2 16 + jen_rest k key 1 8 + jen_rest k key 0 0;
          (i, j, hashv) = HASH_JEN_MIX (i, j, hashv)
      in hashv)"

definition HASH_TO_BKT :: "32 word \<Rightarrow> 32 word \<Rightarrow> nat" where
  "HASH_TO_BKT hashv num_bkts = unat (hashv AND (num_bkts - 1))"

definition keylen_of :: "cstring \<Rightarrow> 32 word" where
  "keylen_of key = of_nat (length key)"

definition hash_of :: "cstring \<Rightarrow> 32 word" where
  "hash_of key = HASH_JEN key (keylen_of key)"

subsection \<open>Finding an entry\<close>

definition HASH_KEYCMP :: "cstring \<Rightarrow> cstring \<Rightarrow> 32 word \<Rightarrow> bool" where
  "HASH_KEYCMP a b len \<longleftrightarrow> take (unat len) a = take (unat len) b"

partial_function (option) find_in_bkt :: "'a cells \<Rightarrow> cstring \<Rightarrow> eptr option \<Rightarrow> eptr option option" where
  "find_in_bkt C key out =
     (case out of
        None \<Rightarrow> Some None
      | Some p \<Rightarrow> do {
          e \<leftarrow> C p;
          if e_keylen e = keylen_of key \<and> HASH_KEYCMP (e_key e) key (keylen_of key) then Some (Some p)
          else find_in_bkt C key (e_hh_next e)
        })"

definition HASH_FIND_STR :: "'a uht \<Rightarrow> cstring \<Rightarrow> eptr option option" where
  "HASH_FIND_STR s key =
     (case u_head s of
        None \<Rightarrow> Some None
      | Some h \<Rightarrow> do {
          t \<leftarrow> tbl_of (Some h) s;
          b \<leftarrow> bucket_at (ut_buckets t) (HASH_TO_BKT (hash_of key) (num_buckets t));
          find_in_bkt (u_cells s) key (hh_head b)
        })"

subsection \<open>Doubling the buckets\<close>

text \<open>The inner loop moves the entries of one chain to the heads of their new chains.\<close>

partial_function (option) expand_chain ::
    "32 word \<Rightarrow> 32 word \<Rightarrow> eptr option \<Rightarrow> 'a cells \<times> bucket list \<times> 32 word \<Rightarrow> ('a cells \<times> bucket list \<times> 32 word) option" where
  "expand_chain num ideal thh st =
     (case thh of
        None \<Rightarrow> Some st
      | Some p \<Rightarrow>
          (case st of (C, new, nonideal) \<Rightarrow> do {
             e \<leftarrow> C p;
             let hh_nxt = e_hh_next e;
             let bkt = HASH_TO_BKT (e_hashv e) (num * 2);
             b \<leftarrow> bucket_at new bkt;
             let cnt = b_count b + 1;
             let over = ideal < cnt;
             if over \<and> ideal = 0 then None
             else do {
               C \<leftarrow> cell_upd p (\<lambda>e. e\<lparr>e_hh_prev := None, e_hh_next := hh_head b\<rparr>) C;
               C \<leftarrow> link_upd (hh_head b) (\<lambda>e. e\<lparr>e_hh_prev := Some p\<rparr>) C;
               expand_chain num ideal hh_nxt
                 (C, new[bkt := \<lparr>hh_head = Some p, b_count = cnt,
                       expand_mult = if over then cnt div ideal else expand_mult b\<rparr>],
                  if over then nonideal + 1 else nonideal)
             }
           }))"

fun expand_loop :: "32 word \<Rightarrow> 32 word \<Rightarrow> bucket list \<Rightarrow> nat list \<Rightarrow> 'a cells \<times> bucket list \<times> 32 word \<Rightarrow>
    ('a cells \<times> bucket list \<times> 32 word) option" where
  "expand_loop num ideal old [] st = Some st"
| "expand_loop num ideal old (i # is) st = do {
     b \<leftarrow> bucket_at old i;
     st \<leftarrow> expand_chain num ideal (hh_head b) st;
     expand_loop num ideal old is st
   }"

definition empty_bucket :: bucket where
  "empty_bucket = \<lparr>hh_head = None, b_count = 0, expand_mult = 0\<rparr>"

text \<open>A shift by 32 or more is undefined.\<close>

definition HASH_EXPAND_BUCKETS :: "'a cells \<times> ut_table \<Rightarrow> ('a cells \<times> ut_table) option" where
  "HASH_EXPAND_BUCKETS = (\<lambda>(C, t).
     if log2_num_buckets t + 1 \<ge> 32 then None
     else do {
       let new = replicate (2 * unat (num_buckets t)) empty_bucket;
       let ideal = drop_bit (unat (log2_num_buckets t + 1)) (num_items t) +
             (if num_items t AND (num_buckets t * 2 - 1) \<noteq> 0 then 1 else 0);
       (C, new, nonideal) \<leftarrow> expand_loop (num_buckets t) ideal (ut_buckets t) [0..<unat (num_buckets t)] (C, new, 0);
       let ineff = (if nonideal > drop_bit 1 (num_items t) then ineff_expands t + 1 else 0);
       Some (C, t\<lparr>ideal_chain_maxlen := ideal, nonideal_items := nonideal, num_buckets := num_buckets t * 2,
         log2_num_buckets := log2_num_buckets t + 1, ut_buckets := new, ineff_expands := ineff,
         noexpand := if ineff > 1 then 1 else noexpand t\<rparr>)
     })"

subsection \<open>Adding an entry\<close>

definition HASH_ADD_TO_BKT :: "nat \<Rightarrow> eptr \<Rightarrow> 'a cells \<times> ut_table \<Rightarrow> ('a cells \<times> ut_table) option" where
  "HASH_ADD_TO_BKT i p = (\<lambda>(C, t). do {
     b \<leftarrow> bucket_at (ut_buckets t) i;
     let cnt = b_count b + 1;
     C \<leftarrow> cell_upd p (\<lambda>e. e\<lparr>e_hh_next := hh_head b, e_hh_prev := None\<rparr>) C;
     C \<leftarrow> link_upd (hh_head b) (\<lambda>e. e\<lparr>e_hh_prev := Some p\<rparr>) C;
     let t = t\<lparr>ut_buckets := (ut_buckets t)[i := b\<lparr>b_count := cnt, hh_head := Some p\<rparr>]\<rparr>;
     if cnt \<ge> (expand_mult b + 1) * HASH_BKT_CAPACITY_THRESH \<and> noexpand t \<noteq> 1
     then HASH_EXPAND_BUCKETS (C, t)
     else Some (C, t)
   })"

definition HASH_MAKE_TABLE :: "eptr \<Rightarrow> ut_table" where
  "HASH_MAKE_TABLE head = \<lparr>ut_buckets = replicate 32 empty_bucket, num_buckets = HASH_INITIAL_NUM_BUCKETS,
     log2_num_buckets = HASH_INITIAL_NUM_BUCKETS_LOG2, num_items = 0, ut_tail = head, ideal_chain_maxlen = 0,
     nonideal_items = 0, ineff_expands = 0, noexpand = 0\<rparr>"

text \<open>\<open>HASH_ADD_STR\<close> of the entry at \<open>p\<close>, whose key is set.\<close>

definition HASH_ADD_STR :: "eptr \<Rightarrow> 'a uht \<Rightarrow> 'a uht option" where
  "HASH_ADD_STR p s = do {
     C \<leftarrow> cell_upd p (\<lambda>e. e\<lparr>e_next := None, e_keylen := keylen_of (e_key e)\<rparr>) (u_cells s);
     (C, h, t) \<leftarrow>
       (case u_head s of
          None \<Rightarrow> do {
            C \<leftarrow> cell_upd p (\<lambda>e. e\<lparr>e_prev := None\<rparr>) C;
            Some (C, p, HASH_MAKE_TABLE p)
          }
        | Some h \<Rightarrow> do {
            t \<leftarrow> tbl_of (Some h) s;
            C \<leftarrow> cell_upd (ut_tail t) (\<lambda>e. e\<lparr>e_next := Some p\<rparr>) C;
            C \<leftarrow> cell_upd p (\<lambda>e. e\<lparr>e_prev := Some (ut_tail t)\<rparr>) C;
            Some (C, h, t\<lparr>ut_tail := p\<rparr>)
          });
     let t = t\<lparr>num_items := num_items t + 1\<rparr>;
     e \<leftarrow> C p;
     let hashv = hash_of (e_key e);
     C \<leftarrow> cell_upd p (\<lambda>e. e\<lparr>e_hashv := hashv\<rparr>) C;
     (C, t) \<leftarrow> HASH_ADD_TO_BKT (HASH_TO_BKT hashv (num_buckets t)) p (C, t);
     Some (s\<lparr>u_head := Some h, u_tbl := Some t, u_cells := C\<rparr>)
   }"

subsection \<open>Deleting an entry\<close>

definition HASH_DEL_IN_BKT :: "nat \<Rightarrow> eptr \<Rightarrow> 'a cells \<times> ut_table \<Rightarrow> ('a cells \<times> ut_table) option" where
  "HASH_DEL_IN_BKT i p = (\<lambda>(C, t). do {
     b \<leftarrow> bucket_at (ut_buckets t) i;
     e \<leftarrow> C p;
     let b = b\<lparr>b_count := b_count b - 1, hh_head := if hh_head b = Some p then e_hh_next e else hh_head b\<rparr>;
     C \<leftarrow> link_upd (e_hh_prev e) (\<lambda>q. q\<lparr>e_hh_next := e_hh_next e\<rparr>) C;
     e \<leftarrow> C p;
     C \<leftarrow> link_upd (e_hh_next e) (\<lambda>q. q\<lparr>e_hh_prev := e_hh_prev e\<rparr>) C;
     Some (C, t\<lparr>ut_buckets := (ut_buckets t)[i := b]\<rparr>)
   })"

definition HASH_DEL :: "eptr \<Rightarrow> 'a uht \<Rightarrow> 'a uht option" where
  "HASH_DEL p s = do {
     e \<leftarrow> u_cells s p;
     t \<leftarrow> tbl_of (u_head s) s;
     if e_prev e = None \<and> e_next e = None
     then Some (s\<lparr>u_head := None, u_tbl := None\<rparr>)
     else do {
       t \<leftarrow> (if p = ut_tail t then do { q \<leftarrow> e_prev e; Some (t\<lparr>ut_tail := q\<rparr>) } else Some t);
       (C, h) \<leftarrow>
         (case e_prev e of
            Some q \<Rightarrow> do { C \<leftarrow> cell_upd q (\<lambda>x. x\<lparr>e_next := e_next e\<rparr>) (u_cells s); Some (C, u_head s) }
          | None \<Rightarrow> Some (u_cells s, e_next e));
       e \<leftarrow> C p;
       C \<leftarrow> link_upd (e_next e) (\<lambda>x. x\<lparr>e_prev := e_prev e\<rparr>) C;
       e \<leftarrow> C p;
       _ \<leftarrow> tbl_of h (s\<lparr>u_cells := C\<rparr>);
       (C, t) \<leftarrow> HASH_DEL_IN_BKT (HASH_TO_BKT (e_hashv e) (num_buckets t)) p (C, t);
       Some (s\<lparr>u_head := h, u_tbl := Some (t\<lparr>num_items := num_items t - 1\<rparr>), u_cells := C\<rparr>)
     }
   }"

subsection \<open>The functions of \<^verbatim>\<open>hash_table.c\<close>\<close>

definition uh_create :: "'a uht" where
  "uh_create = \<lparr>u_head = None, u_tbl = None, u_cells = Map.empty, u_fresh = 0\<rparr>"

definition uh_entry_count :: "'a uht \<Rightarrow> int option" where
  "uh_entry_count s =
     (case u_head s of None \<Rightarrow> Some 0 | Some h \<Rightarrow> do { t \<leftarrow> tbl_of (Some h) s; Some (sint (num_items t)) })"

text \<open>A new entry: the fields that \<^verbatim>\<open>malloc\<close> leaves open are set before they are read.\<close>

definition uh_new_entry :: "cstring \<Rightarrow> 'a \<Rightarrow> 'a uht \<Rightarrow> eptr \<times> 'a uht" where
  "uh_new_entry key d s =
     (u_fresh s, s\<lparr>u_fresh := Suc (u_fresh s), u_cells := (u_cells s)(u_fresh s \<mapsto>
        \<lparr>e_key = key, e_data = d, e_prev = None, e_next = None, e_hh_prev = None, e_hh_next = None,
         e_keylen = 0, e_hashv = 0\<rparr>)\<rparr>)"

definition uh_add_entry :: "'a uht \<Rightarrow> cstring \<Rightarrow> 'a \<Rightarrow> (int \<times> 'a uht) option" where
  "uh_add_entry s key d = do {
     let (p, s) = uh_new_entry key d s;
     s \<leftarrow> HASH_ADD_STR p s;
     Some (0, s)
   }"

definition uh_add_unique_entry :: "'a uht \<Rightarrow> cstring \<Rightarrow> 'a \<Rightarrow> (int \<times> 'a uht) option" where
  "uh_add_unique_entry s key d = do {
     entry \<leftarrow> HASH_FIND_STR s key;
     case entry of
       None \<Rightarrow> do {
         let (p, s) = uh_new_entry key d s;
         s \<leftarrow> HASH_ADD_STR p s;
         Some (0, s)
       }
     | Some _ \<Rightarrow> Some (-1, s)
   }"

definition uh_free_entry :: "eptr \<Rightarrow> 'a uht \<Rightarrow> 'a uht option" where
  "uh_free_entry p s = do { e \<leftarrow> u_cells s p; Some (s\<lparr>u_cells := (u_cells s)(p := None)\<rparr>) }"

definition uh_remove_entry :: "'a uht \<Rightarrow> cstring \<Rightarrow> (int \<times> 'a uht) option" where
  "uh_remove_entry s key = do {
     entry \<leftarrow> HASH_FIND_STR s key;
     case entry of
       Some p \<Rightarrow> do {
         s \<leftarrow> HASH_DEL p s;
         s \<leftarrow> uh_free_entry p s;
         Some (0, s)
       }
     | None \<Rightarrow> Some (-1, s)
   }"

definition uh_has_entry :: "'a uht \<Rightarrow> cstring \<Rightarrow> bool option" where
  "uh_has_entry s key = do { entry \<leftarrow> HASH_FIND_STR s key; Some (entry \<noteq> None) }"

text \<open>The data stored through the last argument, or \<open>None\<close> with the result -1.\<close>

definition uh_get_entry :: "'a uht \<Rightarrow> cstring \<Rightarrow> 'a option option" where
  "uh_get_entry s key = do {
     entry \<leftarrow> HASH_FIND_STR s key;
     case entry of
       None \<Rightarrow> Some None
     | Some p \<Rightarrow> do { e \<leftarrow> u_cells s p; Some (Some (e_data e)) }
   }"

definition next_of :: "'a cells \<Rightarrow> eptr option \<Rightarrow> eptr option option" where
  "next_of C po = (case po of None \<Rightarrow> Some None | Some p \<Rightarrow> do { e \<leftarrow> C p; Some (e_next e) })"

text \<open>\<^verbatim>\<open>HASH_ITER\<close>: the successor is read before the body runs, so the body may free the entry.\<close>

partial_function (option) uh_free_loop :: "eptr option \<Rightarrow> eptr option \<Rightarrow> 'a uht \<Rightarrow> 'a uht option" where
  "uh_free_loop el tmp s =
     (case el of
        None \<Rightarrow> Some s
      | Some p \<Rightarrow> do {
          s \<leftarrow> HASH_DEL p s;
          s \<leftarrow> uh_free_entry p s;
          nxt \<leftarrow> next_of (u_cells s) tmp;
          uh_free_loop tmp nxt s
        })"

definition uh_free :: "'a uht \<Rightarrow> 'a uht option" where
  "uh_free s = do { tmp \<leftarrow> next_of (u_cells s) (u_head s); uh_free_loop (u_head s) tmp s }"

partial_function (option) uh_iter ::
    "'a cells \<Rightarrow> (cstring \<Rightarrow> 'a \<Rightarrow> 's \<Rightarrow> 's option) \<Rightarrow> eptr option \<Rightarrow> eptr option \<Rightarrow> 's \<Rightarrow> 's option" where
  "uh_iter C callback el tmp st =
     (case el of
        None \<Rightarrow> Some st
      | Some p \<Rightarrow> do {
          e \<leftarrow> C p;
          st \<leftarrow> callback (e_key e) (e_data e) st;
          nxt \<leftarrow> next_of C tmp;
          uh_iter C callback tmp nxt st
        })"

definition uh_for_each :: "'a uht \<Rightarrow> (cstring \<Rightarrow> 'a \<Rightarrow> 's \<Rightarrow> 's option) \<Rightarrow> 's \<Rightarrow> 's option" where
  "uh_for_each s callback st = do {
     tmp \<leftarrow> next_of (u_cells s) (u_head s);
     uh_iter (u_cells s) callback (u_head s) tmp st
   }"

declare find_in_bkt.simps [code] expand_chain.simps [code] uh_free_loop.simps [code] uh_iter.simps [code]

end
