(* ===== verification/Uthash_Inv.thy ===== *)
theory Uthash_Inv
  imports Uthash
begin

text \<open>
  The invariant of a \<^verbatim>\<open>uthash\<close> table: the entries form a doubly linked list in the order of insertion,
  and each bucket a doubly linked list of the entries whose hash value selects it. The first part is on
  doubly linked lists over any pair of link fields, since an entry is in two of them.
\<close>

subsection \<open>Doubly linked segments\<close>

text \<open>
  \<open>dll nx pv C p xs q\<close>: the structs at \<open>xs\<close> are linked forwards by \<open>nx\<close> up to \<open>q\<close> and backwards by
  \<open>pv\<close> down to \<open>p\<close>.
\<close>

definition first_or :: "'p list \<Rightarrow> 'p option \<Rightarrow> 'p option" where
  "first_or xs q = (case xs of [] \<Rightarrow> q | x # _ \<Rightarrow> Some x)"

definition last_or :: "'p option \<Rightarrow> 'p list \<Rightarrow> 'p option" where
  "last_or p xs = (if xs = [] then p else Some (last xs))"

fun dll :: "('e \<Rightarrow> 'p option) \<Rightarrow> ('e \<Rightarrow> 'p option) \<Rightarrow> ('p \<Rightarrow> 'e option) \<Rightarrow> 'p option \<Rightarrow> 'p list \<Rightarrow> 'p option \<Rightarrow> bool" where
  "dll nx pv C p [] q \<longleftrightarrow> True"
| "dll nx pv C p (x # xs) q \<longleftrightarrow>
     (\<exists>e. C x = Some e \<and> pv e = p \<and> nx e = first_or xs q) \<and> dll nx pv C (Some x) xs q"

lemma first_or_simps [simp]: "first_or [] q = q" "first_or (x # xs) q = Some x"
  by (simp_all add: first_or_def)

lemma last_or_simps [simp]: "last_or p [] = p" "last_or p (xs @ [x]) = Some x"
  by (simp_all add: last_or_def)

lemma first_or_append: "first_or (xs @ ys) q = first_or xs (first_or ys q)"
  by (cases xs) simp_all

lemma last_or_Cons [simp]: "last_or p (x # xs) = last_or (Some x) xs"
  by (simp add: last_or_def)

lemma first_or_None: "first_or xs None = None \<longleftrightarrow> xs = []"
  by (cases xs) simp_all

lemma last_or_None: "last_or None xs = None \<longleftrightarrow> xs = []"
  by (simp add: last_or_def)

lemma first_or_hd: "first_or xs None = Some x \<Longrightarrow> xs \<noteq> [] \<and> hd xs = x"
  by (cases xs) simp_all

lemma first_or_in: "first_or xs None = Some x \<Longrightarrow> x \<in> set xs"
  by (cases xs) simp_all

lemma last_or_in: "last_or None xs = Some x \<Longrightarrow> x \<in> set xs"
  by (auto simp: last_or_def split: if_splits)

lemma dll_append:
  "dll nx pv C p (xs @ ys) q \<longleftrightarrow> dll nx pv C p xs (first_or ys q) \<and> dll nx pv C (last_or p xs) ys q"
  by (induction xs arbitrary: p) (auto simp: first_or_append)

lemma dll_live: "dll nx pv C p xs q \<Longrightarrow> x \<in> set xs \<Longrightarrow> \<exists>e. C x = Some e"
  by (induction xs arbitrary: p) auto

text \<open>Only the two link fields of the structs of the segment matter.\<close>

lemma dll_cong:
  "(\<And>x. x \<in> set xs \<Longrightarrow> map_option (\<lambda>e. (nx e, pv e)) (D x) = map_option (\<lambda>e. (nx e, pv e)) (C x)) \<Longrightarrow>
   dll nx pv D p xs q \<longleftrightarrow> dll nx pv C p xs q"
proof (induction xs arbitrary: p)
  case Nil
  then show ?case by simp
next
  case (Cons x xs)
  have "map_option (\<lambda>e. (nx e, pv e)) (D x) = map_option (\<lambda>e. (nx e, pv e)) (C x)" using Cons.prems by simp
  then have "(\<exists>e. D x = Some e \<and> pv e = p \<and> nx e = first_or xs q) \<longleftrightarrow>
      (\<exists>e. C x = Some e \<and> pv e = p \<and> nx e = first_or xs q)" by (cases "D x"; cases "C x") auto
  with Cons show ?case by simp
qed

lemma dll_upd_other [simp]: "x \<notin> set xs \<Longrightarrow> dll nx pv (C(x := v)) p xs q \<longleftrightarrow> dll nx pv C p xs q"
  by (rule dll_cong) auto

lemma dll_upd_same:
  "C x = Some e \<Longrightarrow> nx e' = nx e \<Longrightarrow> pv e' = pv e \<Longrightarrow> dll nx pv (C(x \<mapsto> e')) p xs q \<longleftrightarrow> dll nx pv C p xs q"
  by (rule dll_cong) auto

lemma dll_set_last:
  assumes "dll nx pv C p (xs @ [x]) q" and "x \<notin> set xs" and "C x = Some e" and "nx e' = q'" and "pv e' = pv e"
  shows "dll nx pv (C(x \<mapsto> e')) p (xs @ [x]) q'"
  using assms by (auto simp: dll_append)

lemma dll_set_first:
  assumes "dll nx pv C p (x # xs) q" and "x \<notin> set xs" and "C x = Some e" and "pv e' = p'" and "nx e' = nx e"
  shows "dll nx pv (C(x \<mapsto> e')) p' (x # xs) q"
  using assms by auto

text \<open>Taking one struct out of the middle: its neighbours are linked with each other.\<close>

lemma dll_unlink:
  assumes d: "dll nx pv C None (xs @ x # ys) None" and dist: "distinct (xs @ x # ys)"
    and a: "\<And>a. last_or None xs = Some a \<Longrightarrow> \<exists>e e'. C a = Some e \<and> D a = Some e' \<and> nx e' = first_or ys None \<and> pv e' = pv e"
    and b: "\<And>b. first_or ys None = Some b \<Longrightarrow> \<exists>e e'. C b = Some e \<and> D b = Some e' \<and> pv e' = last_or None xs \<and> nx e' = nx e"
    and same: "\<And>y. y \<noteq> x \<Longrightarrow> last_or None xs \<noteq> Some y \<Longrightarrow> first_or ys None \<noteq> Some y \<Longrightarrow>
      map_option (\<lambda>e. (nx e, pv e)) (D y) = map_option (\<lambda>e. (nx e, pv e)) (C y)"
  shows "dll nx pv D None (xs @ ys) None"
proof -
  have xs: "dll nx pv C None xs (Some x)" and ys: "dll nx pv C (Some x) ys None"
    using d by (simp_all add: dll_append)
  have "dll nx pv D None xs (first_or ys None)"
  proof (cases xs rule: rev_cases)
    case (snoc zs z)
    from a [of z] snoc obtain e e' where e: "C z = Some e" "D z = Some e'" "nx e' = first_or ys None" "pv e' = pv e"
      by auto
    have "dll nx pv D None zs (Some z) \<longleftrightarrow> dll nx pv C None zs (Some z)"
      by (rule dll_cong, rule same) (use dist snoc in \<open>auto dest: first_or_in\<close>)
    with xs snoc e show ?thesis by (auto simp: dll_append)
  qed simp
  moreover have "dll nx pv D (last_or None xs) ys None"
  proof (cases ys)
    case (Cons z zs)
    from b [of z] Cons obtain e e' where e: "C z = Some e" "D z = Some e'" "pv e' = last_or None xs" "nx e' = nx e"
      by auto
    have "dll nx pv D (Some z) zs None \<longleftrightarrow> dll nx pv C (Some z) zs None"
      by (rule dll_cong, rule same) (use dist Cons in \<open>auto dest: last_or_in\<close>)
    with ys Cons e show ?thesis by auto
  qed simp
  ultimately show ?thesis by (simp add: dll_append)
qed

subsection \<open>Buckets\<close>

lemma HASH_TO_BKT_less: "num \<noteq> 0 \<Longrightarrow> HASH_TO_BKT h num < unat num"
proof -
  assume "num \<noteq> 0"
  have "unat (h AND (num - 1)) \<le> unat (num - 1)" by (simp add: word_and_le1 flip: word_le_nat_alt)
  also have "\<dots> < unat num" using \<open>num \<noteq> 0\<close> by (rule measure_unat)
  finally show ?thesis by (simp add: HASH_TO_BKT_def)
qed

definition entry_ok :: "'a entry \<Rightarrow> bool" where
  "entry_ok e \<longleftrightarrow> length (e_key e) < 2 ^ 32 \<and> e_keylen e = keylen_of (e_key e) \<and> e_hashv e = hash_of (e_key e)"

text \<open>The bucket that an entry belongs to when there are \<open>num\<close>.\<close>

definition bkt_of :: "'a cells \<Rightarrow> 32 word \<Rightarrow> eptr \<Rightarrow> nat" where
  "bkt_of C num p = HASH_TO_BKT (e_hashv (the (C p))) num"

text \<open>The buckets \<open>bks\<close> have the chains \<open>bs\<close>, and these hold the entries \<open>P\<close>.\<close>

definition chain_ok :: "'a cells \<Rightarrow> eptr set \<Rightarrow> 32 word \<Rightarrow> nat \<Rightarrow> bucket \<Rightarrow> eptr list \<Rightarrow> bool" where
  "chain_ok C P num i b xs \<longleftrightarrow> hh_head b = first_or xs None \<and> b_count b = of_nat (length xs) \<and>
     dll e_hh_next e_hh_prev C None xs None \<and> distinct xs \<and> set xs = {p \<in> P. bkt_of C num p = i}"

definition buckets_ok :: "'a cells \<Rightarrow> eptr set \<Rightarrow> 32 word \<Rightarrow> bucket list \<Rightarrow> eptr list list \<Rightarrow> bool" where
  "buckets_ok C P num bks bs \<longleftrightarrow> length bks = unat num \<and> length bs = unat num \<and>
     (\<forall>i < unat num. chain_ok C P num i (bks ! i) (bs ! i))"

definition tbl_ok :: "'a cells \<Rightarrow> eptr list \<Rightarrow> eptr list list \<Rightarrow> ut_table \<Rightarrow> bool" where
  "tbl_ok C ps bs t \<longleftrightarrow> unat (num_buckets t) = 2 ^ unat (log2_num_buckets t) \<and> ps \<noteq> [] \<and> ut_tail t = last ps \<and>
     num_items t = of_nat (length ps) \<and> length ps < 2 ^ 32 \<and>
     buckets_ok C (set ps) (num_buckets t) (ut_buckets t) bs"

text \<open>The whole table, with the entries \<open>ps\<close> in order and nothing else allocated.\<close>

definition uok :: "eptr list \<Rightarrow> eptr list list \<Rightarrow> 'a uht \<Rightarrow> bool" where
  "uok ps bs s \<longleftrightarrow> dll e_next e_prev (u_cells s) None ps None \<and> distinct ps \<and> dom (u_cells s) = set ps \<and>
     (\<forall>p\<in>set ps. p < u_fresh s) \<and> (\<forall>p e. u_cells s p = Some e \<longrightarrow> entry_ok e) \<and> u_head s = first_or ps None \<and>
     (case u_tbl s of None \<Rightarrow> ps = [] | Some t \<Rightarrow> tbl_ok (u_cells s) ps bs t)"

text \<open>The entry list that a table stands for.\<close>

definition entry_at :: "'a cells \<Rightarrow> eptr \<Rightarrow> cstring \<times> 'a" where
  "entry_at C p = (e_key (the (C p)), e_data (the (C p)))"

definition repr :: "'a uht \<Rightarrow> 'a ht \<Rightarrow> bool" where
  "repr s h \<longleftrightarrow> (\<exists>ps bs. uok ps bs s \<and> h = map (entry_at (u_cells s)) ps)"

lemma uokD:
  assumes "uok ps bs s"
  shows "dll e_next e_prev (u_cells s) None ps None" "distinct ps" "dom (u_cells s) = set ps"
    "\<And>p. p \<in> set ps \<Longrightarrow> p < u_fresh s" "\<And>p e. u_cells s p = Some e \<Longrightarrow> entry_ok e" "u_head s = first_or ps None"
    "u_tbl s = None \<Longrightarrow> ps = []" "\<And>t. u_tbl s = Some t \<Longrightarrow> tbl_ok (u_cells s) ps bs t"
  using assms by (auto simp: uok_def split: option.splits)

lemma uok_cell: "uok ps bs s \<Longrightarrow> p \<in> set ps \<Longrightarrow> \<exists>e. u_cells s p = Some e \<and> entry_ok e"
  using uokD(3,5) by (metis domD)

text \<open>A table with entries has its table struct, reached from the head.\<close>

lemma uok_tbl:
  assumes "uok ps bs s" and "ps \<noteq> []"
  obtains t where "u_tbl s = Some t" "tbl_ok (u_cells s) ps bs t" "u_head s = Some (hd ps)" "tbl_of (Some (hd ps)) s = Some t"
proof -
  obtain t where t: "u_tbl s = Some t" using assms uokD(7) by (cases "u_tbl s") auto
  moreover have "u_head s = Some (hd ps)" using uokD(6) [OF assms(1)] assms(2) by (cases ps) simp_all
  moreover obtain e where "u_cells s (hd ps) = Some e" using uok_cell [OF assms(1), of "hd ps"] assms(2) by auto
  ultimately show thesis using that [OF t uokD(8) [OF assms(1) t]] by (simp add: tbl_of_def)
qed

lemma tbl_ok_num: "tbl_ok C ps bs t \<Longrightarrow> num_buckets t \<noteq> 0"
  by (auto simp: tbl_ok_def)

lemma buckets_ok_bucket:
  assumes "buckets_ok C P num bks bs" and "num \<noteq> 0"
  shows "bucket_at bks (HASH_TO_BKT h num) = Some (bks ! HASH_TO_BKT h num)"
    and "chain_ok C P num (HASH_TO_BKT h num) (bks ! HASH_TO_BKT h num) (bs ! HASH_TO_BKT h num)"
  using assms HASH_TO_BKT_less [of num h] by (simp_all add: buckets_ok_def bucket_at_def)

subsection \<open>Finding\<close>

lemma keycmp_iff:
  assumes "length a < 2 ^ 32" "length b < 2 ^ 32"
  shows "keylen_of a = keylen_of b \<and> HASH_KEYCMP a b (keylen_of b) \<longleftrightarrow> a = b"
proof -
  have "unat (keylen_of x) = length x" if "length x < 2 ^ 32" for x
    using that by (simp add: keylen_of_def unat_of_nat take_bit_nat_eq_self)
  with assms show ?thesis by (auto simp: HASH_KEYCMP_def dest: arg_cong [where f = unat])
qed

text \<open>The walk along a chain stops at the first entry with the key.\<close>

lemma find_in_bkt_chain:
  assumes "dll e_hh_next e_hh_prev C p xs None" and "\<And>x e. x \<in> set xs \<Longrightarrow> C x = Some e \<Longrightarrow> entry_ok e"
    and "length key < 2 ^ 32"
  shows "find_in_bkt C key (first_or xs None) = Some (find (\<lambda>x. fst (entry_at C x) = key) xs)"
  using assms(1,2)
proof (induction xs arbitrary: p)
  case Nil
  then show ?case by (simp add: find_in_bkt.simps)
next
  case (Cons x xs)
  then obtain e where e: "C x = Some e" "e_hh_next e = first_or xs None" by auto
  have "entry_ok e" by (rule Cons.prems(2) [of x]) (simp_all add: e)
  then have "e_keylen e = keylen_of key \<and> HASH_KEYCMP (e_key e) key (keylen_of key) \<longleftrightarrow> e_key e = key"
    using keycmp_iff [of "e_key e" key] assms(3) by (simp add: entry_ok_def)
  moreover have "find_in_bkt C key (first_or xs None) = Some (find (\<lambda>x. fst (entry_at C x) = key) xs)"
    using Cons by (metis dll.simps(2) list.set_intros(2))
  ultimately show ?case using e by (simp add: find_in_bkt.simps [of C key "Some x"] entry_at_def)
qed

lemma find_key_None: "find (\<lambda>x. fst (entry_at C x) = key) xs = None \<longleftrightarrow> key \<notin> fst ` entry_at C ` set xs"
  by (auto simp: find_None_iff)

text \<open>Finding a key returns the null pointer, or an entry with the key.\<close>

lemma HASH_FIND_STR_spec:
  assumes "uok ps bs s" and key: "length key < 2 ^ 32"
  shows "\<exists>r. HASH_FIND_STR s key = Some r \<and>
    (case r of None \<Rightarrow> key \<notin> fst ` entry_at (u_cells s) ` set ps
     | Some p \<Rightarrow> p \<in> set ps \<and> fst (entry_at (u_cells s) p) = key)"
proof (cases "ps = []")
  case True
  then show ?thesis using uokD(6) [OF assms(1)] by (simp add: HASH_FIND_STR_def)
next
  case False
  obtain t where t: "tbl_ok (u_cells s) ps bs t" "u_head s = Some (hd ps)" "tbl_of (Some (hd ps)) s = Some t"
    by (rule uok_tbl [OF assms(1) False])
  let ?i = "HASH_TO_BKT (hash_of key) (num_buckets t)" and ?C = "u_cells s"
  have bk: "buckets_ok ?C (set ps) (num_buckets t) (ut_buckets t) bs" using t(1) by (simp add: tbl_ok_def)
  note b = buckets_ok_bucket [OF bk tbl_ok_num [OF t(1)], of "hash_of key"]
  from b(2) have ch: "hh_head (ut_buckets t ! ?i) = first_or (bs ! ?i) None"
    "dll e_hh_next e_hh_prev ?C None (bs ! ?i) None" "set (bs ! ?i) = {p \<in> set ps. bkt_of ?C (num_buckets t) p = ?i}"
    by (simp_all add: chain_ok_def)
  have "find_in_bkt ?C key (first_or (bs ! ?i) None) = Some (find (\<lambda>x. fst (entry_at ?C x) = key) (bs ! ?i))"
    using find_in_bkt_chain [OF ch(2) _ key] uokD(5) [OF assms(1)] by blast
  then have run: "HASH_FIND_STR s key = Some (find (\<lambda>x. fst (entry_at ?C x) = key) (bs ! ?i))"
    using t b(1) ch(1) by (simp add: HASH_FIND_STR_def)
  have all: "p \<in> set (bs ! ?i)" if p: "p \<in> set ps" "fst (entry_at ?C p) = key" for p
  proof -
    obtain e where e: "?C p = Some e" "entry_ok e" using uok_cell [OF assms(1) p(1)] by blast
    with p(2) have "bkt_of ?C (num_buckets t) p = ?i" by (simp add: bkt_of_def entry_at_def entry_ok_def)
    with p(1) show ?thesis unfolding ch(3) by blast
  qed
  show ?thesis
  proof (cases "find (\<lambda>x. fst (entry_at ?C x) = key) (bs ! ?i)")
    case None
    then have "\<forall>p\<in>set (bs ! ?i). fst (entry_at ?C p) \<noteq> key" by (simp add: find_None_iff)
    with all run None show ?thesis by auto
  next
    case (Some p)
    with run ch(3) show ?thesis by (auto simp: find_Some_iff)
  qed
qed

end
