(* ===== verification/Uthash_Expand.thy ===== *)
theory Uthash_Expand
  imports Uthash_Inv
begin

text \<open>
  Putting an entry at the head of its bucket, and doubling the number of buckets: both change only
  the links inside buckets, and keep the bucket invariant.
\<close>

subsection \<open>Changes of bucket links only\<close>

definition unhh :: "'a entry \<Rightarrow> 'a entry" where
  "unhh e = e\<lparr>e_hh_prev := None, e_hh_next := None\<rparr>"

definition hh_only :: "'a cells \<Rightarrow> 'a cells \<Rightarrow> bool" where
  "hh_only C D \<longleftrightarrow> (\<forall>p. map_option unhh (D p) = map_option unhh (C p))"

lemma unhh_simps [simp]:
  "unhh (e\<lparr>e_hh_prev := v\<rparr>) = unhh e" "unhh (e\<lparr>e_hh_next := w\<rparr>) = unhh e"
  by (simp_all add: unhh_def)

lemma unhh_eqD:
  assumes "unhh d = unhh e"
  shows "e_key d = e_key e" "e_data d = e_data e" "e_prev d = e_prev e" "e_next d = e_next e"
    "e_keylen d = e_keylen e" "e_hashv d = e_hashv e"
  using assms by (cases d; cases e; simp add: unhh_def)+

lemma hh_only_refl [simp]: "hh_only C C"
  by (simp add: hh_only_def)

lemma hh_only_trans: "hh_only C D \<Longrightarrow> hh_only D E \<Longrightarrow> hh_only C E"
  by (simp add: hh_only_def)

lemma hh_only_upd: "C p = Some e \<Longrightarrow> unhh e' = unhh e \<Longrightarrow> hh_only C (C(p \<mapsto> e'))"
  by (simp add: hh_only_def)

lemma hh_only_cell:
  assumes "hh_only C D"
  shows "C p = Some e \<Longrightarrow> \<exists>d. D p = Some d \<and> unhh d = unhh e" "D p = Some d \<Longrightarrow> \<exists>e. C p = Some e \<and> unhh d = unhh e"
  using assms unfolding hh_only_def by (metis option.map_disc_iff option.map_sel option.sel not_None_eq)+

lemma hh_only_dom: "hh_only C D \<Longrightarrow> dom D = dom C"
  by (auto dest: hh_only_cell)

lemma hh_only_at:
  assumes "hh_only C D" and "C p = Some e"
  shows "bkt_of D num p = bkt_of C num p" "entry_at D p = entry_at C p"
proof -
  obtain d where "D p = Some d" "unhh d = unhh e" using hh_only_cell(1) [OF assms] by blast
  with assms(2) unhh_eqD [of d e] show "bkt_of D num p = bkt_of C num p" "entry_at D p = entry_at C p"
    by (simp_all add: bkt_of_def entry_at_def)
qed

lemma hh_only_entry_ok: "hh_only C D \<Longrightarrow> \<forall>p e. C p = Some e \<longrightarrow> entry_ok e \<Longrightarrow> D p = Some d \<Longrightarrow> entry_ok d"
proof -
  assume "hh_only C D" "\<forall>p e. C p = Some e \<longrightarrow> entry_ok e" "D p = Some d"
  then obtain e where "entry_ok e" "unhh d = unhh e" using hh_only_cell(2) by metis
  then show "entry_ok d" by (simp add: entry_ok_def unhh_eqD [of d e])
qed

lemma hh_only_dll: "hh_only C D \<Longrightarrow> dll e_next e_prev D p xs q \<longleftrightarrow> dll e_next e_prev C p xs q"
proof (rule dll_cong)
  fix x
  assume "hh_only C D"
  then have "map_option unhh (D x) = map_option unhh (C x)" by (simp add: hh_only_def)
  then show "map_option (\<lambda>e. (e_next e, e_prev e)) (D x) = map_option (\<lambda>e. (e_next e, e_prev e)) (C x)"
    by (cases "D x"; cases "C x") (auto dest: unhh_eqD)
qed

subsection \<open>An entry at the head of its bucket\<close>

lemma push_chain:
  assumes "dll e_hh_next e_hh_prev C None xs None" "p \<notin> set xs" "distinct xs" "C p = Some e"
  shows "\<exists>D. link_upd (first_or xs None) (\<lambda>e. e\<lparr>e_hh_prev := Some p\<rparr>)
        (C(p \<mapsto> e\<lparr>e_hh_prev := None, e_hh_next := first_or xs None\<rparr>)) = Some D \<and>
      dll e_hh_next e_hh_prev D None (p # xs) None \<and> hh_only C D \<and> (\<forall>q. q \<notin> set (p # xs) \<longrightarrow> D q = C q)"
proof (cases xs)
  case Nil
  with assms show ?thesis by (simp add: link_upd_def hh_only_upd)
next
  case (Cons x ys)
  with assms(1) obtain a where a: "C x = Some a" by auto
  let ?D = "C(p \<mapsto> e\<lparr>e_hh_prev := None, e_hh_next := first_or xs None\<rparr>)"
  let ?E = "?D(x \<mapsto> a\<lparr>e_hh_prev := Some p\<rparr>)"
  have "x \<noteq> p" "x \<notin> set ys" using assms(2,3) Cons by auto
  then have "link_upd (first_or xs None) (\<lambda>e. e\<lparr>e_hh_prev := Some p\<rparr>) ?D = Some ?E"
    using a Cons by (simp add: link_upd_def cell_upd_def)
  moreover have "dll e_hh_next e_hh_prev ?E None (p # xs) None"
    using assms(1,2) Cons a \<open>x \<noteq> p\<close> \<open>x \<notin> set ys\<close> by auto
  moreover have "hh_only C ?E"
    using hh_only_upd [where C = C and p = p and e = e and e' = "e\<lparr>e_hh_prev := None, e_hh_next := first_or xs None\<rparr>"] a assms(4) \<open>x \<noteq> p\<close>
    by (simp add: hh_only_def)
  ultimately show ?thesis using Cons by auto
qed

lemma chain_ok_frame:
  assumes "chain_ok C P num i b xs" and "p \<notin> P" and "bkt_of C num p \<noteq> i"
    and "\<And>q. q \<in> set xs \<Longrightarrow> D q = C q" and "hh_only C D" and "\<And>q. q \<in> insert p P \<Longrightarrow> C q \<noteq> None"
  shows "chain_ok D (insert p P) num i b xs"
proof -
  have "bkt_of D num q = bkt_of C num q" if "q \<in> insert p P" for q
    using hh_only_at(1) [OF assms(5)] assms(6) [OF that] by blast
  then have "{q \<in> insert p P. bkt_of D num q = i} = {q \<in> P. bkt_of C num q = i}" using assms(3) by auto
  moreover have "dll e_hh_next e_hh_prev D None xs None \<longleftrightarrow> dll e_hh_next e_hh_prev C None xs None"
    by (rule dll_cong) (simp add: assms(4))
  ultimately show ?thesis using assms(1) by (simp add: chain_ok_def)
qed

lemma buckets_push:
  assumes bk: "buckets_ok C P num bks bs" and p: "p \<notin> P" "C p = Some e" and P: "\<And>q. q \<in> P \<Longrightarrow> C q \<noteq> None"
    and num: "num \<noteq> 0" and i: "i = bkt_of C num p"
    and b': "hh_head b' = Some p" "b_count b' = b_count (bks ! i) + 1"
  shows "\<exists>D. link_upd (hh_head (bks ! i)) (\<lambda>e. e\<lparr>e_hh_prev := Some p\<rparr>)
        (C(p \<mapsto> e\<lparr>e_hh_prev := None, e_hh_next := hh_head (bks ! i)\<rparr>)) = Some D \<and>
      buckets_ok D (insert p P) num (bks[i := b']) (bs[i := p # bs ! i]) \<and> hh_only C D \<and>
      (\<forall>q. q \<notin> insert p P \<longrightarrow> D q = C q)"
proof -
  have il: "i < unat num" "i < length bks" "i < length bs"
    using HASH_TO_BKT_less [OF num] bk by (simp_all add: i bkt_of_def buckets_ok_def)
  have ch: "chain_ok C P num j (bks ! j) (bs ! j)" if "j < unat num" for j using bk that by (simp add: buckets_ok_def)
  have sets: "set (bs ! j) = {q \<in> P. bkt_of C num q = j}" if "j < unat num" for j using ch [OF that] by (simp add: chain_ok_def)
  have pi: "p \<notin> set (bs ! i)" using p(1) sets [OF il(1)] by simp
  note ci = ch [OF il(1), unfolded chain_ok_def]
  obtain D where D: "link_upd (first_or (bs ! i) None) (\<lambda>e. e\<lparr>e_hh_prev := Some p\<rparr>)
        (C(p \<mapsto> e\<lparr>e_hh_prev := None, e_hh_next := first_or (bs ! i) None\<rparr>)) = Some D"
      "dll e_hh_next e_hh_prev D None (p # bs ! i) None" "hh_only C D" "\<forall>q. q \<notin> set (p # bs ! i) \<longrightarrow> D q = C q"
    using push_chain [where C = C and xs = "bs ! i" and p = p and e = e] pi p(2) ci by blast
  have live: "C q \<noteq> None" if "q \<in> insert p P" for q using that p(2) P by auto
  have bkt: "bkt_of D num q = bkt_of C num q" if "q \<in> insert p P" for q
    using hh_only_at(1) [OF D(3)] live [OF that] by blast
  have "chain_ok D (insert p P) num j (bks[i := b'] ! j) (bs[i := p # bs ! i] ! j)" if j: "j < unat num" for j
  proof (cases "j = i")
    case True
    have "{q \<in> insert p P. bkt_of D num q = i} = insert p {q \<in> P. bkt_of C num q = i}" using bkt i by auto
    with True il D(2) b' ci pi show ?thesis by (simp add: chain_ok_def sets [OF il(1)])
  next
    case False
    have "D q = C q" if "q \<in> set (bs ! j)" for q
      using that D(4) False p(1) sets [OF j] sets [OF il(1)] by auto
    then have "chain_ok D (insert p P) num j (bks ! j) (bs ! j)"
      using chain_ok_frame [OF ch [OF j] p(1) _ _ D(3) live] False i by blast
    with False show ?thesis by simp
  qed
  then have "buckets_ok D (insert p P) num (bks[i := b']) (bs[i := p # bs ! i])" using bk by (simp add: buckets_ok_def)
  moreover have "D q = C q" if "q \<notin> insert p P" for q using that D(4) sets [OF il(1)] by auto
  ultimately show ?thesis using D(1,3) ci by auto
qed

subsection \<open>Doubling\<close>

text \<open>
  The loops of \<open>HASH_EXPAND_BUCKETS\<close>: the entries moved so far are in the new buckets, those not yet
  moved are as they were at the start (in \<open>A\<close>).
\<close>

definition moving :: "'a cells \<Rightarrow> 32 word \<Rightarrow> eptr set \<Rightarrow> 'a cells \<times> bucket list \<times> 32 word \<Rightarrow> bool" where
  "moving A num P = (\<lambda>(C, new, nonideal).
     hh_only A C \<and> (\<forall>q. q \<notin> P \<longrightarrow> C q = A q) \<and> (\<exists>bs. buckets_ok C P num new bs))"

lemma moving_step:
  assumes m: "moving A num P (C, new, ni)" and p: "p \<notin> P" "A p = Some e" and P: "P \<subseteq> dom A"
    and num: "num \<noteq> 0"
  obtains b D where "bucket_at new (HASH_TO_BKT (e_hashv e) num) = Some b"
    "link_upd (hh_head b) (\<lambda>e. e\<lparr>e_hh_prev := Some p\<rparr>) (C(p \<mapsto> e\<lparr>e_hh_prev := None, e_hh_next := hh_head b\<rparr>)) = Some D"
    "\<And>mult ni'. moving A num (insert p P) (D, new[HASH_TO_BKT (e_hashv e) num :=
       \<lparr>hh_head = Some p, b_count = b_count b + 1, expand_mult = mult\<rparr>], ni')"
proof -
  obtain bs where h: "hh_only A C" "\<forall>q. q \<notin> P \<longrightarrow> C q = A q" and bk: "buckets_ok C P num new bs"
    using m by (auto simp: moving_def)
  have cp: "C p = Some e" using h(2) p by simp
  let ?i = "HASH_TO_BKT (e_hashv e) num"
  have i: "?i = bkt_of C num p" by (simp add: bkt_of_def cp)
  have live: "C q \<noteq> None" if "q \<in> P" for q using that P hh_only_dom [OF h(1)] by auto
  have b: "bucket_at new ?i = Some (new ! ?i)" by (rule buckets_ok_bucket(1) [OF bk num])
  have push: "\<exists>D. link_upd (hh_head (new ! ?i)) (\<lambda>e. e\<lparr>e_hh_prev := Some p\<rparr>)
        (C(p \<mapsto> e\<lparr>e_hh_prev := None, e_hh_next := hh_head (new ! ?i)\<rparr>)) = Some D \<and>
      buckets_ok D (insert p P) num (new[?i := \<lparr>hh_head = Some p, b_count = b_count (new ! ?i) + 1, expand_mult = mult\<rparr>])
        (bs[?i := p # bs ! ?i]) \<and> hh_only C D \<and> (\<forall>q. q \<notin> insert p P \<longrightarrow> D q = C q)" for mult
    by (rule buckets_push [OF bk p(1) cp live num i]) simp_all
  from push [of 0] obtain D where D: "link_upd (hh_head (new ! ?i)) (\<lambda>e. e\<lparr>e_hh_prev := Some p\<rparr>)
        (C(p \<mapsto> e\<lparr>e_hh_prev := None, e_hh_next := hh_head (new ! ?i)\<rparr>)) = Some D" by blast
  have "moving A num (insert p P) (D, new[?i := \<lparr>hh_head = Some p, b_count = b_count (new ! ?i) + 1, expand_mult = mult\<rparr>], ni')"
    for mult ni'
    using push [of mult] D h hh_only_trans [OF h(1)] unfolding moving_def by auto
  with that b D show thesis by blast
qed

lemma expand_chain_moves:
  assumes "dll e_hh_next e_hh_prev A pv xs None" and "distinct xs" and "set xs \<inter> P = {}" and "P \<subseteq> dom A"
    and "moving A (num * 2) P st" and num: "num * 2 \<noteq> 0" and ideal: "ideal \<noteq> 0"
  shows "\<exists>st'. expand_chain num ideal (first_or xs None) st = Some st' \<and> moving A (num * 2) (P \<union> set xs) st'"
  using assms(1-5)
proof (induction xs arbitrary: pv P st)
  case Nil
  then show ?case by (simp add: expand_chain.simps)
next
  case (Cons x xs)
  obtain e where e: "A x = Some e" "e_hh_next e = first_or xs None" "dll e_hh_next e_hh_prev A (Some x) xs None"
    using Cons.prems(1) by auto
  obtain C new ni where st: "st = (C, new, ni)" by (cases st)
  have xP: "x \<notin> P" and cx: "C x = Some e" using Cons.prems(3,5) e(1) by (auto simp: st moving_def)
  let ?i = "HASH_TO_BKT (e_hashv e) (num * 2)"
  obtain b D where b: "bucket_at new ?i = Some b"
    and D: "link_upd (hh_head b) (\<lambda>e. e\<lparr>e_hh_prev := Some x\<rparr>) (C(x \<mapsto> e\<lparr>e_hh_prev := None, e_hh_next := hh_head b\<rparr>)) = Some D"
    and mv: "\<And>mult ni'. moving A (num * 2) (insert x P) (D, new[?i :=
       \<lparr>hh_head = Some x, b_count = b_count b + 1, expand_mult = mult\<rparr>], ni')"
    using moving_step [OF Cons.prems(5) [unfolded st] xP e(1) Cons.prems(4) num] by blast
  let ?over = "ideal < b_count b + 1"
  let ?st = "(D, new[?i := \<lparr>hh_head = Some x, b_count = b_count b + 1,
      expand_mult = if ?over then (b_count b + 1) div ideal else expand_mult b\<rparr>], if ?over then ni + 1 else ni)"
  have "expand_chain num ideal (Some x) st = expand_chain num ideal (first_or xs None) ?st"
    using b D cx ideal e(2) by (simp add: st expand_chain.simps [of num ideal "Some x"] cell_upd_def Let_def)
  moreover have "\<exists>st'. expand_chain num ideal (first_or xs None) ?st = Some st' \<and>
      moving A (num * 2) (insert x P \<union> set xs) st'"
    by (rule Cons.IH [OF e(3)]) (use Cons.prems(2-4) e(1) mv in auto)
  ultimately show ?case by simp
qed

text \<open>The outer loop, over the indices \<open>is\<close> of old buckets with the chains \<open>bs\<close>.\<close>

lemma expand_loop_moves:
  assumes bk: "buckets_ok A Q num old bs" and Q: "Q \<subseteq> dom A" and num: "num * 2 \<noteq> 0" and ideal: "ideal \<noteq> 0"
    and "\<forall>i\<in>set is. i < unat num" and "distinct is" and "\<forall>i\<in>set is. set (bs ! i) \<inter> P = {}" and "P \<subseteq> dom A"
    and "moving A (num * 2) P st"
  shows "\<exists>st'. expand_loop num ideal old is st = Some st' \<and>
    moving A (num * 2) (P \<union> (\<Union>i\<in>set is. set (bs ! i))) st'"
  using assms(5-9)
proof (induction "is" arbitrary: P st)
  case Nil
  then show ?case by simp
next
  case (Cons i "is")
  have i: "i < unat num" using Cons.prems(1) by simp
  have ch: "chain_ok A Q num j (old ! j) (bs ! j)" if "j < unat num" for j using bk that by (simp add: buckets_ok_def)
  have b: "bucket_at old i = Some (old ! i)" "hh_head (old ! i) = first_or (bs ! i) None"
    using bk i ch [OF i] by (simp_all add: bucket_at_def buckets_ok_def chain_ok_def)
  obtain st1 where st1: "expand_chain num ideal (first_or (bs ! i) None) st = Some st1" "moving A (num * 2) (P \<union> set (bs ! i)) st1"
    using expand_chain_moves [where xs = "bs ! i" and A = A and P = P and st = st and pv = None and num = num and ideal = ideal]
      ch [OF i] Cons.prems num ideal unfolding chain_ok_def by auto
  have sub: "set (bs ! i) \<subseteq> dom A" using ch [OF i] Q by (auto simp: chain_ok_def)
  have dis: "set (bs ! j) \<inter> set (bs ! i) = {}" if "j \<in> set is" for j
  proof -
    have "j < unat num" "j \<noteq> i" using that Cons.prems(1,2) by auto
    with ch [of j] ch [OF i] show ?thesis by (auto simp: chain_ok_def)
  qed
  have "\<exists>st'. expand_loop num ideal old is st1 = Some st' \<and>
      moving A (num * 2) ((P \<union> set (bs ! i)) \<union> (\<Union>i\<in>set is. set (bs ! i))) st'"
    by (rule Cons.IH [OF _ _ _ _ st1(2)]) (use Cons.prems sub dis in auto)
  with b st1(1) show ?case by (simp add: Un_assoc)
qed

lemma double_num:
  fixes num log :: "32 word"
  assumes "unat num = 2 ^ unat log" and "unat log < 31"
  shows "unat (num * 2) = 2 * unat num" "unat (log + 1) = unat log + 1" "num * 2 = 2 ^ (unat log + 1)"
proof -
  have "2 * unat num = 2 ^ (unat log + 1)" using assms(1) by simp
  also have "\<dots> \<le> 2 ^ 31" using assms(2) by (intro power_increasing) auto
  finally have "unat num * 2 < 2 ^ LENGTH(32)" by simp
  then show "unat (num * 2) = 2 * unat num" using unat_mult_lem [of num 2] by simp
  show "unat (log + 1) = unat log + 1" using assms(2) unat_add_lem [of log 1] by simp
  have "num * 2 = of_nat (unat num) * 2" by simp
  also have "\<dots> = of_nat (2 ^ unat log) * 2" by (simp only: assms(1))
  also have "\<dots> = 2 ^ (unat log + 1)" by simp
  finally show "num * 2 = 2 ^ (unat log + 1)" .
qed

text \<open>The ideal length of a chain is at least 1, so that the division by it is defined.\<close>

lemma ideal_positive:
  fixes x :: "32 word"
  assumes "x \<noteq> 0" and "0 < n"
  shows "drop_bit n x + (if x AND (2 ^ n - 1) \<noteq> 0 then 1 else 0) \<noteq> 0"
proof (cases "x AND (2 ^ n - 1) = 0")
  case True
  then have "take_bit n x = 0" by (simp add: take_bit_eq_mask mask_eq_decr_exp)
  with bits_ident [of n x] assms(1) have "drop_bit n x \<noteq> 0" by auto
  with True show ?thesis by simp
next
  case False
  have lt: "unat x < 2 ^ 32" using unsigned_less [of x, where ?'a = nat] by simp
  have "unat (drop_bit n x) = unat x div 2 ^ n" by (simp only: unat_drop_bit_eq drop_bit_eq_div [where 'a = nat])
  also have "\<dots> \<le> unat x div 2" using assms(2) by (intro div_le_mono2) (cases n; simp)+
  also have "\<dots> < 2 ^ 31" using lt by (simp add: less_mult_imp_div_less)
  finally have "unat (drop_bit n x + 1) = unat (drop_bit n x) + 1" using unat_add_lem [of "drop_bit n x" 1] by simp
  then have "drop_bit n x + 1 \<noteq> 0" by (metis add_is_0 one_neq_zero unat_0)
  with False show ?thesis by simp
qed

lemma moving_start: "unat num = n \<Longrightarrow> moving A num {} (A, replicate n empty_bucket, ni)"
  by (auto simp: moving_def buckets_ok_def chain_ok_def empty_bucket_def intro!: exI [of _ "replicate n []"])

lemma HASH_EXPAND_BUCKETS_ok:
  assumes t: "tbl_ok A ps bs t" and ps: "set ps \<subseteq> dom A" and l: "unat (log2_num_buckets t) < 31"
  shows "\<exists>D t' bs'. HASH_EXPAND_BUCKETS (A, t) = Some (D, t') \<and> tbl_ok D ps bs' t' \<and> hh_only A D \<and>
    (\<forall>q. q \<notin> set ps \<longrightarrow> D q = A q) \<and> unat (log2_num_buckets t') = unat (log2_num_buckets t) + 1"
proof -
  let ?n = "unat (num_buckets t)" and ?l = "unat (log2_num_buckets t)"
  have n: "?n = 2 ^ ?l" and bk: "buckets_ok A (set ps) (num_buckets t) (ut_buckets t) bs"
    and items: "num_items t = of_nat (length ps)" "length ps < 2 ^ 32" "ps \<noteq> []"
    using t by (simp_all add: tbl_ok_def)
  note dbl = double_num [OF n l]
  have nz: "num_buckets t * 2 \<noteq> 0" using dbl(1) n by auto
  have "num_items t \<noteq> 0"
  proof
    assume "num_items t = 0"
    then have "unat (of_nat (length ps) :: 32 word) = 0" using items(1) by simp
    then show False using items(2,3) by (simp add: unat_of_nat take_bit_nat_eq_self)
  qed
  define ideal where "ideal = drop_bit (unat (log2_num_buckets t + 1)) (num_items t) +
      (if num_items t AND (num_buckets t * 2 - 1) \<noteq> 0 then 1 else 0)"
  have ideal: "ideal \<noteq> 0" unfolding ideal_def dbl(2,3) by (rule ideal_positive) (use \<open>num_items t \<noteq> 0\<close> in simp_all)
  have sets: "set (bs ! i) = {p \<in> set ps. bkt_of A (num_buckets t) p = i}" if "i < ?n" for i
    using bk that by (simp add: buckets_ok_def chain_ok_def)
  have "\<exists>st'. expand_loop (num_buckets t) ideal (ut_buckets t) [0..<?n] (A, replicate (2 * ?n) empty_bucket, 0) = Some st' \<and>
      moving A (num_buckets t * 2) ({} \<union> (\<Union>i\<in>set [0..<?n]. set (bs ! i))) st'"
    by (rule expand_loop_moves [OF bk ps nz ideal]) (use moving_start dbl(1) in auto)
  moreover have "(\<Union>i\<in>set [0..<?n]. set (bs ! i)) = set ps"
  proof -
    have "bkt_of A (num_buckets t) p < ?n" for p
      unfolding bkt_of_def by (rule HASH_TO_BKT_less) (use n in auto)
    with sets show ?thesis by auto
  qed
  ultimately obtain D new ni where run: "expand_loop (num_buckets t) ideal (ut_buckets t) [0..<?n]
      (A, replicate (2 * ?n) empty_bucket, 0) = Some (D, new, ni)" and mv: "moving A (num_buckets t * 2) (set ps) (D, new, ni)"
    by (auto simp del: set_upt)
  let ?t = "\<lambda>ine noe. t\<lparr>ideal_chain_maxlen := ideal, nonideal_items := ni, num_buckets := num_buckets t * 2,
         log2_num_buckets := log2_num_buckets t + 1, ut_buckets := new, ineff_expands := ine, noexpand := noe\<rparr>"
  have "\<not> log2_num_buckets t + 1 \<ge> 32" using dbl(2) l by (simp add: word_le_nat_alt)
  with run obtain ine noe where "HASH_EXPAND_BUCKETS (A, t) = Some (D, ?t ine noe)"
    by (simp add: HASH_EXPAND_BUCKETS_def Let_def flip: ideal_def)
  moreover obtain bs' where "buckets_ok D (set ps) (num_buckets t * 2) new bs'" "hh_only A D" "\<forall>q. q \<notin> set ps \<longrightarrow> D q = A q"
    using mv by (auto simp: moving_def)
  moreover from this t have "tbl_ok D ps bs' (?t ine noe)" using dbl n by (simp add: tbl_ok_def)
  ultimately show ?thesis using dbl(2) by auto
qed

end
