(* ===== verification/Uthash_Add.thy ===== *)
theory Uthash_Add
  imports Uthash_Expand
begin

text \<open>Adding an entry keeps the invariant and appends to the list of entries.\<close>

lemma buckets_ok_cong:
  fixes C D :: "'a cells"
  assumes "\<And>q. q \<in> P \<Longrightarrow> \<exists>e d. C q = Some e \<and> D q = Some d \<and> e_hh_next d = e_hh_next e \<and>
    e_hh_prev d = e_hh_prev e \<and> e_hashv d = e_hashv e"
  shows "buckets_ok D P num bks bs \<longleftrightarrow> buckets_ok C P num bks bs"
proof -
  have bkt: "bkt_of D num q = bkt_of C num q" if "q \<in> P" for q
    using assms [OF that] by (auto simp: bkt_of_def)
  have "chain_ok D P num i b xs \<longleftrightarrow> chain_ok C P num i b xs" for i b xs
  proof (cases "set xs = {p \<in> P. bkt_of C num p = i}")
    case True
    have m: "map_option (\<lambda>e. (e_hh_next e, e_hh_prev e)) (D q) = map_option (\<lambda>e. (e_hh_next e, e_hh_prev e)) (C q)"
      if "q \<in> set xs" for q
      using assms [of q] that True by auto
    have "dll e_hh_next e_hh_prev D None xs None \<longleftrightarrow> dll e_hh_next e_hh_prev C None xs None"
      by (rule dll_cong) (rule m)
    with bkt show ?thesis by (auto simp: chain_ok_def)
  next
    case False
    with bkt show ?thesis by (auto simp: chain_ok_def)
  qed
  then show ?thesis by (simp add: buckets_ok_def)
qed

lemma HASH_ADD_TO_BKT_ok:
  assumes num: "unat (num_buckets t) = 2 ^ unat (log2_num_buckets t)" and l: "unat (log2_num_buckets t) < 31"
    and bk: "buckets_ok C (set ps) (num_buckets t) (ut_buckets t) bs"
    and p: "p \<notin> set ps" "C p = Some e" and ps: "set ps \<subseteq> dom C" and tail: "ut_tail t = p"
    and items: "num_items t = of_nat (length (ps @ [p]))" "length (ps @ [p]) < 2 ^ 32"
    and i: "i = HASH_TO_BKT (e_hashv e) (num_buckets t)"
  shows "\<exists>D t' bs'. HASH_ADD_TO_BKT i p (C, t) = Some (D, t') \<and> tbl_ok D (ps @ [p]) bs' t' \<and> hh_only C D"
proof -
  let ?b = "ut_buckets t ! i"
  let ?b' = "?b\<lparr>b_count := b_count ?b + 1, hh_head := Some p\<rparr>"
  let ?t = "t\<lparr>ut_buckets := (ut_buckets t)[i := ?b']\<rparr>"
  have nz: "num_buckets t \<noteq> 0" using num by auto
  have i': "i = bkt_of C (num_buckets t) p" by (simp add: i bkt_of_def p(2))
  have at: "bucket_at (ut_buckets t) i = Some ?b" using buckets_ok_bucket(1) [OF bk nz] by (simp add: i)
  obtain D where D: "link_upd (hh_head ?b) (\<lambda>e. e\<lparr>e_hh_prev := Some p\<rparr>)
        (C(p \<mapsto> e\<lparr>e_hh_prev := None, e_hh_next := hh_head ?b\<rparr>)) = Some D"
      "buckets_ok D (insert p (set ps)) (num_buckets t) ((ut_buckets t)[i := ?b']) (bs[i := p # bs ! i])" "hh_only C D"
    using buckets_push [OF bk p _ nz i', of ?b'] ps by auto
  have comm: "e\<lparr>e_hh_prev := None, e_hh_next := v\<rparr> = e\<lparr>e_hh_next := v, e_hh_prev := None\<rparr>" for v by simp
  have t: "tbl_ok D (ps @ [p]) (bs[i := p # bs ! i]) ?t" using num tail items D(2) by (simp add: tbl_ok_def)
  have sub: "set (ps @ [p]) \<subseteq> dom D" using hh_only_dom [OF D(3)] ps p(2) by auto
  have "HASH_ADD_TO_BKT i p (C, t) =
      (if b_count ?b + 1 \<ge> (expand_mult ?b + 1) * HASH_BKT_CAPACITY_THRESH \<and> noexpand ?t \<noteq> 1
       then HASH_EXPAND_BUCKETS (D, ?t) else Some (D, ?t))"
    using at D(1) [unfolded comm] p(2) by (simp add: HASH_ADD_TO_BKT_def cell_upd_def Let_def)
  moreover obtain D' t' bs' where "HASH_EXPAND_BUCKETS (D, ?t) = Some (D', t')" "tbl_ok D' (ps @ [p]) bs' t'" "hh_only D D'"
    using HASH_EXPAND_BUCKETS_ok [OF t sub] l by auto
  ultimately show ?thesis using t D(3) hh_only_trans [OF D(3)] by (cases "b_count ?b + 1 \<ge> (expand_mult ?b + 1) * HASH_BKT_CAPACITY_THRESH \<and> noexpand ?t \<noteq> 1") auto
qed

text \<open>The cells when the new entry has been linked behind the last, with its hash value.\<close>

definition linked :: "eptr list \<Rightarrow> eptr \<Rightarrow> cstring \<Rightarrow> 'a \<Rightarrow> 'a cells \<Rightarrow> 'a cells" where
  "linked ps p key d C =
     (if ps = [] then C else C(last ps := map_option (\<lambda>a. a\<lparr>e_next := Some p\<rparr>) (C (last ps))))
     (p \<mapsto> \<lparr>e_key = key, e_data = d, e_prev = last_or None ps, e_next = None, e_hh_prev = None, e_hh_next = None,
           e_keylen = keylen_of key, e_hashv = hash_of key\<rparr>)"

lemma linked_old:
  assumes "uok ps bs s" and "q \<in> set ps" and "p \<notin> set ps"
  obtains e d' where "u_cells s q = Some e" "linked ps p key d (u_cells s) q = Some d'" "e_hh_next d' = e_hh_next e"
    "e_hh_prev d' = e_hh_prev e" "e_hashv d' = e_hashv e" "e_key d' = e_key e" "e_data d' = e_data e" "entry_ok d'"
    "e_prev d' = e_prev e" "q \<noteq> last ps \<Longrightarrow> d' = e" "e_next d' = (if q = last ps then Some p else e_next e)"
proof -
  obtain e where e: "u_cells s q = Some e" "entry_ok e" using uok_cell [OF assms(1,2)] by blast
  show thesis
  proof (cases "q = last ps")
    case True
    with e(1) assms(2,3) have "linked ps p key d (u_cells s) q = Some (e\<lparr>e_next := Some p\<rparr>)" by (auto simp: linked_def)
    from that [OF e(1) this] e(2) True show thesis by (simp add: entry_ok_def)
  next
    case False
    with e(1) assms(2,3) have "linked ps p key d (u_cells s) q = Some e" by (auto simp: linked_def)
    from that [OF e(1) this] e(2) False show thesis by simp
  qed
qed

lemma linked_ok:
  assumes ok: "uok ps bs s" and p: "p \<notin> set ps" and key: "length key < 2 ^ 32"
  shows "dll e_next e_prev (linked ps p key d (u_cells s)) None (ps @ [p]) None"
    and "dom (linked ps p key d (u_cells s)) = set (ps @ [p])"
    and "\<And>q e. linked ps p key d (u_cells s) q = Some e \<Longrightarrow> entry_ok e"
    and "map (entry_at (linked ps p key d (u_cells s))) (ps @ [p]) = map (entry_at (u_cells s)) ps @ [(key, d)]"
    and "buckets_ok (linked ps p key d (u_cells s)) (set ps) num bks bs' \<longleftrightarrow> buckets_ok (u_cells s) (set ps) num bks bs'"
proof -
  let ?C = "linked ps p key d (u_cells s)"
  note old = linked_old [OF ok _ p, where key = key and d = d]
  have at: "?C p = Some \<lparr>e_key = key, e_data = d, e_prev = last_or None ps, e_next = None, e_hh_prev = None,
      e_hh_next = None, e_keylen = keylen_of key, e_hashv = hash_of key\<rparr>" by (simp add: linked_def)
  have "dll e_next e_prev ?C None ps (Some p)"
  proof (cases ps rule: rev_cases)
    case (snoc zs z)
    then obtain a where a: "u_cells s z = Some a" using uok_cell [OF ok, of z] by auto
    have "dll e_next e_prev ((u_cells s)(z \<mapsto> a\<lparr>e_next := Some p\<rparr>)) None (zs @ [z]) (Some p)"
      by (rule dll_set_last) (use uokD(1,2) [OF ok] snoc a in auto)
    moreover have "?C = ((u_cells s)(z \<mapsto> a\<lparr>e_next := Some p\<rparr>))(p := ?C p)" using snoc a by (simp add: linked_def)
    ultimately show ?thesis using snoc p by (metis dll_upd_other)
  qed simp
  with at show "dll e_next e_prev ?C None (ps @ [p]) None" by (simp add: dll_append)
  show dom: "dom ?C = set (ps @ [p])" using uokD(3) [OF ok] by (auto simp: linked_def domIff)
  show "entry_ok e" if "?C q = Some e" for q e
  proof (cases "q = p")
    case True
    with that at key show ?thesis by (auto simp: entry_ok_def)
  next
    case False
    then have "q \<in> set ps" using dom that by auto
    with that show ?thesis by (metis old option.inject)
  qed
  have "entry_at ?C q = entry_at (u_cells s) q" if "q \<in> set ps" for q
    by (rule old [OF that]) (simp add: entry_at_def)
  then show "map (entry_at ?C) (ps @ [p]) = map (entry_at (u_cells s)) ps @ [(key, d)]" using at by (simp add: entry_at_def)
  show "buckets_ok ?C (set ps) num bks bs' \<longleftrightarrow> buckets_ok (u_cells s) (set ps) num bks bs'"
    by (rule buckets_ok_cong) (metis old)
qed

text \<open>The buckets may be doubled once more: fewer than \<open>2 ^ 31\<close> of them.\<close>

definition roomy :: "'a uht \<Rightarrow> bool" where
  "roomy s \<longleftrightarrow> (case u_tbl s of None \<Rightarrow> True | Some t \<Rightarrow> unat (log2_num_buckets t) < 31)"

text \<open>The table struct before the entry is put into its bucket.\<close>

definition grown_tbl :: "eptr \<Rightarrow> 'a uht \<Rightarrow> ut_table" where
  "grown_tbl p s = (case u_tbl s of None \<Rightarrow> (HASH_MAKE_TABLE p)\<lparr>num_items := 1\<rparr>
     | Some t \<Rightarrow> t\<lparr>ut_tail := p, num_items := num_items t + 1\<rparr>)"

lemma HASH_ADD_STR_links:
  assumes ok: "uok ps bs s" and p: "p = u_fresh s"
  shows "HASH_ADD_STR p (snd (uh_new_entry key d s)) = do {
      (C, t) \<leftarrow> HASH_ADD_TO_BKT (HASH_TO_BKT (hash_of key) (num_buckets (grown_tbl p s))) p
         (linked ps p key d (u_cells s), grown_tbl p s);
      Some (s\<lparr>u_fresh := Suc p, u_head := Some (hd (ps @ [p])), u_tbl := Some t, u_cells := C\<rparr>)
    }"
proof (cases "ps = []")
  case True
  have "u_tbl s = None" using uokD(8) [OF ok] True by (cases "u_tbl s") (auto simp: tbl_ok_def)
  moreover have "u_head s = None" using uokD(6) [OF ok] True by simp
  ultimately show ?thesis using True p
    by (simp add: HASH_ADD_STR_def uh_new_entry_def cell_upd_def grown_tbl_def linked_def HASH_MAKE_TABLE_def Let_def)
next
  case False
  obtain t where t: "u_tbl s = Some t" "tbl_ok (u_cells s) ps bs t" "u_head s = Some (hd ps)" "tbl_of (Some (hd ps)) s = Some t"
    by (rule uok_tbl [OF ok False])
  have tail: "ut_tail t = last ps" using t(2) by (simp add: tbl_ok_def)
  have new: "hd ps \<noteq> p" "last ps \<noteq> p" using uokD(4) [OF ok, of "hd ps"] uokD(4) [OF ok, of "last ps"] False p by auto
  obtain a b where "u_cells s (hd ps) = Some a" "u_cells s (last ps) = Some b"
    using uok_cell [OF ok, of "hd ps"] uok_cell [OF ok, of "last ps"] False by auto
  with t new tail False p show ?thesis
    by (simp add: HASH_ADD_STR_def uh_new_entry_def cell_upd_def grown_tbl_def linked_def tbl_of_def last_or_def Let_def
        fun_upd_twist)
qed

lemma make_table_buckets: "buckets_ok C {} HASH_INITIAL_NUM_BUCKETS (ut_buckets (HASH_MAKE_TABLE p)) (replicate 32 [])"
  by (auto simp: buckets_ok_def chain_ok_def HASH_MAKE_TABLE_def HASH_INITIAL_NUM_BUCKETS_def empty_bucket_def)

lemma grown_tbl_ok:
  assumes ok: "uok ps bs s" and room: "roomy s"
  shows "unat (num_buckets (grown_tbl p s)) = 2 ^ unat (log2_num_buckets (grown_tbl p s))"
    "unat (log2_num_buckets (grown_tbl p s)) < 31" "ut_tail (grown_tbl p s) = p"
    "num_items (grown_tbl p s) = of_nat (length (ps @ [p]))"
    "\<exists>bs'. buckets_ok (u_cells s) (set ps) (num_buckets (grown_tbl p s)) (ut_buckets (grown_tbl p s)) bs'"
proof -
  have "unat (num_buckets (grown_tbl p s)) = 2 ^ unat (log2_num_buckets (grown_tbl p s)) \<and>
    unat (log2_num_buckets (grown_tbl p s)) < 31 \<and> ut_tail (grown_tbl p s) = p \<and>
    num_items (grown_tbl p s) = of_nat (length (ps @ [p])) \<and>
    (\<exists>bs'. buckets_ok (u_cells s) (set ps) (num_buckets (grown_tbl p s)) (ut_buckets (grown_tbl p s)) bs')"
  proof (cases "u_tbl s")
    case None
    then have "ps = []" using uokD(7) [OF ok] by simp
    with None make_table_buckets [of "u_cells s" p] show ?thesis
      by (auto simp: grown_tbl_def HASH_MAKE_TABLE_def HASH_INITIAL_NUM_BUCKETS_def HASH_INITIAL_NUM_BUCKETS_LOG2_def)
  next
    case (Some t)
    with uokD(8) [OF ok Some] room show ?thesis by (auto simp: grown_tbl_def tbl_ok_def roomy_def)
  qed
  then show "unat (num_buckets (grown_tbl p s)) = 2 ^ unat (log2_num_buckets (grown_tbl p s))"
    "unat (log2_num_buckets (grown_tbl p s)) < 31" "ut_tail (grown_tbl p s) = p"
    "num_items (grown_tbl p s) = of_nat (length (ps @ [p]))"
    "\<exists>bs'. buckets_ok (u_cells s) (set ps) (num_buckets (grown_tbl p s)) (ut_buckets (grown_tbl p s)) bs'"
    by blast+
qed

lemma HASH_ADD_STR_ok:
  assumes ok: "uok ps bs s" and key: "length key < 2 ^ 32" and len: "length ps + 1 < 2 ^ 32" and room: "roomy s"
  shows "\<exists>s' bs'. HASH_ADD_STR (u_fresh s) (snd (uh_new_entry key d s)) = Some s' \<and> uok (ps @ [u_fresh s]) bs' s' \<and>
    map (entry_at (u_cells s')) (ps @ [u_fresh s]) = map (entry_at (u_cells s)) ps @ [(key, d)]"
proof -
  let ?p = "u_fresh s" and ?C = "linked ps (u_fresh s) key d (u_cells s)" and ?t = "grown_tbl (u_fresh s) s"
  have p: "?p \<notin> set ps" using uokD(4) [OF ok] by blast
  note lk = linked_ok [OF ok p key, where d = d]
  note g = grown_tbl_ok [OF ok room, of ?p]
  obtain e where e: "?C ?p = Some e" "e_hashv e = hash_of key" by (simp add: linked_def)
  have sub: "set ps \<subseteq> dom ?C" using lk(2) by auto
  have len': "length (ps @ [?p]) < 2 ^ 32" using len by simp
  obtain bs0 where bk: "buckets_ok ?C (set ps) (num_buckets ?t) (ut_buckets ?t) bs0" using g(5) lk(5) by blast
  have i: "HASH_TO_BKT (hash_of key) (num_buckets ?t) = HASH_TO_BKT (e_hashv e) (num_buckets ?t)" by (simp add: e(2))
  obtain D t' bs' where D: "HASH_ADD_TO_BKT (HASH_TO_BKT (hash_of key) (num_buckets ?t)) ?p (?C, ?t) = Some (D, t')"
    "tbl_ok D (ps @ [?p]) bs' t'" "hh_only ?C D"
    using HASH_ADD_TO_BKT_ok [OF g(1,2) bk p e(1) sub g(3,4) len' i] by blast
  let ?s = "s\<lparr>u_fresh := Suc ?p, u_head := Some (hd (ps @ [?p])), u_tbl := Some t', u_cells := D\<rparr>"
  have run: "HASH_ADD_STR ?p (snd (uh_new_entry key d s)) = Some ?s"
    using D(1) by (simp add: HASH_ADD_STR_links [OF ok refl])
  have dist: "distinct (ps @ [?p])" using uokD(2) [OF ok] p by simp
  have fresh: "q < Suc ?p" if "q \<in> set (ps @ [?p])" for q using uokD(4) [OF ok, of q] that by auto
  have "uok (ps @ [?p]) bs' ?s"
    unfolding uok_def using lk(1) dist hh_only_dom [OF D(3)] lk(2) fresh hh_only_entry_ok [OF D(3)] lk(3) D(2)
    by (simp add: hh_only_dll [OF D(3)] first_or_def split: list.splits)
  moreover have "map (entry_at D) (ps @ [?p]) = map (entry_at ?C) (ps @ [?p])"
  proof (rule map_cong [OF refl])
    fix q assume "q \<in> set (ps @ [?p])"
    then obtain c where "?C q = Some c" using lk(2) by (metis domD)
    then show "entry_at D q = entry_at ?C q" by (rule hh_only_at(2) [OF D(3)])
  qed
  ultimately show ?thesis using run lk(4) by (intro exI [of _ ?s] exI [of _ bs']) simp
qed

end
