(* ===== verification/Uthash_Del.thy ===== *)
theory Uthash_Del
  imports Uthash_Add
begin

text \<open>Deleting and freeing an entry keeps the invariant and takes it out of the list of entries.\<close>

definition upd_at :: "eptr option \<Rightarrow> ('a entry \<Rightarrow> 'a entry) \<Rightarrow> 'a cells \<Rightarrow> 'a cells" where
  "upd_at po g C = (\<lambda>q. if po = Some q then map_option g (C q) else C q)"

lemma link_upd_live: "(\<And>q. po = Some q \<Longrightarrow> C q \<noteq> None) \<Longrightarrow> link_upd po g C = Some (upd_at po g C)"
  by (cases po) (auto simp: link_upd_def cell_upd_def upd_at_def fun_eq_iff split: option.splits)

lemma upd_at_dom [simp]: "dom (upd_at po g C) = dom C"
  by (auto simp: upd_at_def domIff split: if_splits)

lemma upd_at_None [simp]: "upd_at None g C = C"
  by (simp add: upd_at_def)

text \<open>The neighbours of a struct are linked with each other.\<close>

lemma unlink_neighbours:
  assumes d: "dll nx pv C None (xs @ x # ys) None" and dist: "distinct (xs @ x # ys)"
    and f: "\<And>e v. nx (f v e) = v" "\<And>e v. pv (f v e) = pv e" and g: "\<And>e v. pv (g v e) = v" "\<And>e v. nx (g v e) = nx e"
  shows "dll nx pv ((upd_at (first_or ys None) (g (last_or None xs)) (upd_at (last_or None xs) (f (first_or ys None)) C))
    (x := v)) None (xs @ ys) None"
proof -
  let ?D = "upd_at (first_or ys None) (g (last_or None xs)) (upd_at (last_or None xs) (f (first_or ys None)) C)"
  have live: "\<exists>e. C y = Some e" if "y \<in> set (xs @ x # ys)" for y by (rule dll_live [OF d that])
  have apart: "last_or None xs \<noteq> first_or ys None" if "last_or None xs \<noteq> None"
    using that dist last_or_in [of xs] first_or_in [of ys] by fastforce
  have "dll nx pv ?D None (xs @ ys) None"
  proof (rule dll_unlink [OF d dist])
    fix a assume a: "last_or None xs = Some a"
    then obtain e where "C a = Some e" using live [of a] last_or_in [OF a] by auto
    with a apart show "\<exists>e e'. C a = Some e \<and> ?D a = Some e' \<and> nx e' = first_or ys None \<and> pv e' = pv e"
      by (auto simp: upd_at_def f)
  next
    fix b assume b: "first_or ys None = Some b"
    then obtain e where "C b = Some e" using live [of b] first_or_in [OF b] by auto
    with b apart show "\<exists>e e'. C b = Some e \<and> ?D b = Some e' \<and> pv e' = last_or None xs \<and> nx e' = nx e"
      by (cases "last_or None xs") (auto simp: upd_at_def g)
  next
    fix y assume "last_or None xs \<noteq> Some y" "first_or ys None \<noteq> Some y"
    then show "map_option (\<lambda>e. (nx e, pv e)) (?D y) = map_option (\<lambda>e. (nx e, pv e)) (C y)" by (simp add: upd_at_def)
  qed
  then show ?thesis using dist by simp
qed

lemma dll_at:
  assumes "dll nx pv C None (xs @ x # ys) None" and "C x = Some e"
  shows "nx e = first_or ys None" "pv e = last_or None xs"
  using assms by (auto simp: dll_append)

subsection \<open>Out of the bucket\<close>

lemma HASH_DEL_IN_BKT_ok:
  assumes bk: "buckets_ok C P (num_buckets t) (ut_buckets t) bs" and p: "p \<in> P" "C p = Some e" and P: "P \<subseteq> dom C"
    and num: "num_buckets t \<noteq> 0" and i: "i = HASH_TO_BKT (e_hashv e) (num_buckets t)"
  shows "\<exists>D bks bs'. HASH_DEL_IN_BKT i p (C, t) = Some (D, t\<lparr>ut_buckets := bks\<rparr>) \<and> hh_only C D \<and>
    buckets_ok (D(p := None)) (P - {p}) (num_buckets t) bks bs'"
proof -
  let ?num = "num_buckets t" and ?b = "ut_buckets t ! i"
  have i': "i = bkt_of C ?num p" by (simp add: i bkt_of_def p(2))
  have il: "i < unat ?num" using HASH_TO_BKT_less [OF num] by (simp add: i)
  have ch: "chain_ok C P ?num j (ut_buckets t ! j) (bs ! j)" if "j < unat ?num" for j using bk that by (simp add: buckets_ok_def)
  note ci = ch [OF il, unfolded chain_ok_def]
  have "p \<in> set (bs ! i)" using ci p(1) i' by auto
  then obtain us vs where uv: "bs ! i = us @ p # vs" by (meson split_list)
  have d: "dll e_hh_next e_hh_prev C None (us @ p # vs) None" and dist: "distinct (us @ p # vs)"
    and hd: "hh_head ?b = first_or (us @ p # vs) None" using ci uv by simp_all
  note e = dll_at [OF d p(2)]
  let ?C1 = "upd_at (last_or None us) (\<lambda>q. q\<lparr>e_hh_next := first_or vs None\<rparr>) C"
  let ?D = "upd_at (first_or vs None) (\<lambda>q. q\<lparr>e_hh_prev := last_or None us\<rparr>) ?C1"
  let ?b' = "?b\<lparr>b_count := b_count ?b - 1, hh_head := if hh_head ?b = Some p then first_or vs None else hh_head ?b\<rparr>"
  have live: "C q \<noteq> None" if "q \<in> set (us @ p # vs)" for q using dll_live [OF d that] by auto
  have c1: "?C1 p = Some e" using dist p(2) last_or_in [of us p] by (auto simp: upd_at_def)
  have run: "HASH_DEL_IN_BKT i p (C, t) = Some (?D, t\<lparr>ut_buckets := (ut_buckets t)[i := ?b']\<rparr>)"
  proof -
    have "link_upd (last_or None us) (\<lambda>q. q\<lparr>e_hh_next := first_or vs None\<rparr>) C = Some ?C1"
      by (rule link_upd_live) (use live last_or_in [of us] in auto)
    moreover have "link_upd (first_or vs None) (\<lambda>q. q\<lparr>e_hh_prev := last_or None us\<rparr>) ?C1 = Some ?D"
      by (rule link_upd_live) (use live first_or_in [of vs] in \<open>auto simp: upd_at_def\<close>)
    moreover have "bucket_at (ut_buckets t) i = Some ?b" using bk il by (simp add: bucket_at_def buckets_ok_def)
    ultimately show ?thesis using p(2) e c1 by (simp add: HASH_DEL_IN_BKT_def Let_def)
  qed
  have h: "hh_only C ?D" by (simp add: hh_only_def upd_at_def option.map_comp comp_def)
  have bkt: "bkt_of (?D(p := None)) ?num q = bkt_of C ?num q" if "q \<in> P - {p}" for q
    using hh_only_at(1) [OF h] that P by (auto simp: bkt_of_def)
  have "chain_ok (?D(p := None)) (P - {p}) ?num j ((ut_buckets t)[i := ?b'] ! j) (bs[i := us @ vs] ! j)"
    if j: "j < unat ?num" for j
  proof (cases "j = i")
    case True
    have "dll e_hh_next e_hh_prev (?D(p := None)) None (us @ vs) None"
      using unlink_neighbours [OF d dist, where f = "\<lambda>v e. e\<lparr>e_hh_next := v\<rparr>" and g = "\<lambda>v e. e\<lparr>e_hh_prev := v\<rparr>"] by simp
    moreover have "set (us @ vs) = {q \<in> P - {p}. bkt_of (?D(p := None)) ?num q = i}"
    proof -
      have "set (us @ vs) = set (us @ p # vs) - {p}" using dist by auto
      also have "\<dots> = {q \<in> P - {p}. bkt_of C ?num q = i}" using ci uv by auto
      finally show ?thesis using bkt by auto
    qed
    moreover have "hh_head ?b' = first_or (us @ vs) None" using hd dist by (cases us) (auto simp: first_or_append)
    moreover have "b_count ?b' = of_nat (length (us @ vs))" using ci uv by simp
    moreover have "distinct (us @ vs)" using dist by simp
    ultimately show ?thesis using True il bk by (simp add: chain_ok_def buckets_ok_def)
  next
    case False
    have same: "(?D(p := None)) q = C q" if "q \<in> set (bs ! j)" for q
    proof -
      have "q \<notin> set (bs ! i)" using ch [OF j] ch [OF il] that False by (auto simp: chain_ok_def)
      with uv show ?thesis using last_or_in [of us q] first_or_in [of vs q] by (auto simp: upd_at_def)
    qed
    have "dll e_hh_next e_hh_prev (?D(p := None)) None (bs ! j) None \<longleftrightarrow> dll e_hh_next e_hh_prev C None (bs ! j) None"
      by (rule dll_cong) (simp only: same)
    moreover have "{q \<in> P - {p}. bkt_of (?D(p := None)) ?num q = j} = {q \<in> P. bkt_of C ?num q = j}" using bkt False i' by auto
    ultimately show ?thesis using ch [OF j] False by (simp add: chain_ok_def)
  qed
  then have "buckets_ok (?D(p := None)) (P - {p}) ?num ((ut_buckets t)[i := ?b']) (bs[i := us @ vs])"
    using bk by (simp add: buckets_ok_def)
  with run h show ?thesis by blast
qed

subsection \<open>Out of the list of entries\<close>

lemma HASH_DEL_single:
  assumes ok: "uok [p] bs s"
  shows "\<exists>s'. do { s \<leftarrow> HASH_DEL p s; uh_free_entry p s } = Some s' \<and> uok [] [] s' \<and> u_fresh s' = u_fresh s"
proof -
  obtain t where "tbl_of (Some p) s = Some t" "u_head s = Some p" using uok_tbl [OF ok] by auto
  moreover obtain e where "u_cells s p = Some e" "e_prev e = None" "e_next e = None" using uokD(1) [OF ok] by auto
  moreover have "dom (u_cells s) = {p}" using uokD(3) [OF ok] by simp
  then have "(u_cells s)(p := None) = Map.empty" by (auto simp: fun_eq_iff)
  ultimately show ?thesis by (auto simp: HASH_DEL_def uh_free_entry_def uok_def)
qed

text \<open>The cells after the neighbours in the list of all entries have been linked.\<close>

definition unlinked :: "eptr list \<Rightarrow> eptr list \<Rightarrow> 'a cells \<Rightarrow> 'a cells" where
  "unlinked xs ys C = upd_at (first_or ys None) (\<lambda>x. x\<lparr>e_prev := last_or None xs\<rparr>)
     (upd_at (last_or None xs) (\<lambda>x. x\<lparr>e_next := first_or ys None\<rparr>) C)"

lemma unlinked_at:
  assumes "C q = Some e"
  shows "\<exists>d. unlinked xs ys C q = Some d \<and> e_hh_next d = e_hh_next e \<and> e_hh_prev d = e_hh_prev e \<and> e_hashv d = e_hashv e \<and>
    e_key d = e_key e \<and> e_data d = e_data e \<and> e_keylen d = e_keylen e"
  using assms by (auto simp: unlinked_def upd_at_def)

lemma HASH_DEL_links:
  assumes ok: "uok (xs @ p # ys) bs s" and more: "xs @ ys \<noteq> []" and t: "u_tbl s = Some t" and e: "u_cells s p = Some e"
  shows "HASH_DEL p s = do {
      (C, t) \<leftarrow> HASH_DEL_IN_BKT (HASH_TO_BKT (e_hashv e) (num_buckets t)) p
        (unlinked xs ys (u_cells s), t\<lparr>ut_tail := last (xs @ ys)\<rparr>);
      Some (s\<lparr>u_head := first_or (xs @ ys) None, u_tbl := Some (t\<lparr>num_items := num_items t - 1\<rparr>), u_cells := C\<rparr>)
    }"
proof -
  note d = uokD(1) [OF ok] and dist = uokD(2) [OF ok]
  note l = dll_at [OF d e]
  have live: "u_cells s q \<noteq> None" if "q \<in> set (xs @ p # ys)" for q using dll_live [OF d that] by auto
  have one: "\<not> (e_prev e = None \<and> e_next e = None)" using more l by (auto simp: first_or_None last_or_None)
  obtain t' where t': "tbl_of (u_head s) s = Some t'" "u_tbl s = Some t'" "u_head s = Some (hd (xs @ p # ys))"
    "tbl_ok (u_cells s) (xs @ p # ys) bs t'"
    using uok_tbl [OF ok] by (metis append_is_Nil_conv list.distinct(1))
  have tt: "t' = t" using t t'(2) by simp
  let ?C1 = "upd_at (last_or None xs) (\<lambda>x. x\<lparr>e_next := first_or ys None\<rparr>) (u_cells s)"
  have tail: "(if p = ut_tail t then do { q \<leftarrow> e_prev e; Some (t\<lparr>ut_tail := q\<rparr>) } else Some t) =
      Some (t\<lparr>ut_tail := last (xs @ ys)\<rparr>)"
  proof (cases "ys = []")
    case True
    with t'(4) tt l more show ?thesis by (simp add: tbl_ok_def last_or_def)
  next
    case False
    then have "last ys \<noteq> p" using dist by auto
    with False t'(4) tt show ?thesis by (simp add: tbl_ok_def)
  qed
  have prev: "(case e_prev e of
            Some q \<Rightarrow> do { C \<leftarrow> cell_upd q (\<lambda>x. x\<lparr>e_next := e_next e\<rparr>) (u_cells s); Some (C, u_head s) }
          | None \<Rightarrow> Some (u_cells s, e_next e)) = Some (?C1, first_or (xs @ ys) None)"
  proof (cases xs rule: rev_cases)
    case Nil
    with l show ?thesis by simp
  next
    case (snoc zs z)
    have "link_upd (last_or None xs) (\<lambda>x. x\<lparr>e_next := first_or ys None\<rparr>) (u_cells s) = Some ?C1"
      by (rule link_upd_live) (use live last_or_in [of xs] in auto)
    with snoc l t'(3) show ?thesis by (cases zs) (simp_all add: link_upd_def first_or_append)
  qed
  have c1: "?C1 p = Some e" and c2: "unlinked xs ys (u_cells s) p = Some e"
    using e dist last_or_in [of xs p] first_or_in [of ys p] by (auto simp: upd_at_def unlinked_def)
  have nxt: "link_upd (e_next e) (\<lambda>x. x\<lparr>e_prev := e_prev e\<rparr>) ?C1 = Some (unlinked xs ys (u_cells s))"
    unfolding l unlinked_def by (rule link_upd_live) (use live first_or_in [of ys] in \<open>auto simp: upd_at_def\<close>)
  have h: "\<exists>t''. tbl_of (first_or (xs @ ys) None) (s\<lparr>u_cells := unlinked xs ys (u_cells s)\<rparr>) = Some t''"
  proof -
    obtain q where q: "first_or (xs @ ys) None = Some q" using more by (metis first_or_None not_None_eq)
    then have "u_cells s q \<noteq> None" using live [of q] first_or_in [OF q] by auto
    then obtain d where "unlinked xs ys (u_cells s) q = Some d" using unlinked_at by blast
    with q t show ?thesis by (simp add: tbl_of_def)
  qed
  show ?thesis
    unfolding HASH_DEL_def e t'(1) tt Option.bind.simps tail prev prod.case if_not_P [OF one] c1 nxt c2
    using h by (auto simp: HASH_DEL_IN_BKT_def Let_def split: bind_splits)
qed

lemma unlinked_ok:
  assumes ok: "uok (xs @ p # ys) bs s"
  shows "dll e_next e_prev ((unlinked xs ys (u_cells s))(p := None)) None (xs @ ys) None"
    and "dom (unlinked xs ys (u_cells s)) = set (xs @ p # ys)"
    and "\<And>q d. unlinked xs ys (u_cells s) q = Some d \<Longrightarrow> entry_ok d"
    and "q \<in> set (xs @ p # ys) \<Longrightarrow> entry_at (unlinked xs ys (u_cells s)) q = entry_at (u_cells s) q"
    and "buckets_ok (unlinked xs ys (u_cells s)) (set (xs @ p # ys)) num bks bs' \<longleftrightarrow>
      buckets_ok (u_cells s) (set (xs @ p # ys)) num bks bs'"
proof -
  let ?C = "unlinked xs ys (u_cells s)"
  note d = uokD(1) [OF ok] and dist = uokD(2) [OF ok]
  show "dll e_next e_prev (?C(p := None)) None (xs @ ys) None"
    unfolding unlinked_def
    using unlink_neighbours [OF d dist, where f = "\<lambda>v e. e\<lparr>e_next := v\<rparr>" and g = "\<lambda>v e. e\<lparr>e_prev := v\<rparr>"] by simp
  show dom: "dom ?C = set (xs @ p # ys)" using uokD(3) [OF ok] by (simp add: unlinked_def)
  have at: "\<exists>e d. u_cells s q = Some e \<and> entry_ok e \<and> ?C q = Some d \<and> e_hh_next d = e_hh_next e \<and>
      e_hh_prev d = e_hh_prev e \<and> e_hashv d = e_hashv e \<and> e_key d = e_key e \<and> e_data d = e_data e \<and> e_keylen d = e_keylen e"
    if "q \<in> set (xs @ p # ys)" for q
    using uok_cell [OF ok that] unlinked_at by blast
  show "entry_ok d" if "?C q = Some d" for q d
  proof -
    have "q \<in> set (xs @ p # ys)" using dom that by blast
    from at [OF this] that show ?thesis by (auto simp: entry_ok_def)
  qed
  show "entry_at ?C q = entry_at (u_cells s) q" if "q \<in> set (xs @ p # ys)"
    using at [OF that] by (auto simp: entry_at_def)
  show "buckets_ok ?C (set (xs @ p # ys)) num bks bs' \<longleftrightarrow> buckets_ok (u_cells s) (set (xs @ p # ys)) num bks bs'"
    by (rule buckets_ok_cong) (use at in blast)
qed

lemma HASH_DEL_more:
  assumes ok: "uok (xs @ p # ys) bs s" and more: "xs @ ys \<noteq> []"
  shows "\<exists>s' bs'. do { s \<leftarrow> HASH_DEL p s; uh_free_entry p s } = Some s' \<and> uok (xs @ ys) bs' s' \<and>
    (\<forall>q\<in>set (xs @ ys). entry_at (u_cells s') q = entry_at (u_cells s) q)"
proof -
  let ?ps = "xs @ p # ys" and ?C = "unlinked xs ys (u_cells s)"
  obtain t where t: "u_tbl s = Some t" "tbl_ok (u_cells s) ?ps bs t" by (rule uok_tbl [OF ok]) auto
  obtain e where e: "u_cells s p = Some e" using uok_cell [OF ok, of p] by auto
  note un = unlinked_ok [OF ok]
  obtain d where d: "?C p = Some d" "e_hashv d = e_hashv e" using unlinked_at [where C = "u_cells s" and q = p and e = e] e by blast
  let ?t = "t\<lparr>ut_tail := last (xs @ ys)\<rparr>"
  have bk: "buckets_ok ?C (set ?ps) (num_buckets ?t) (ut_buckets ?t) bs" using t(2) un(5) by (simp add: tbl_ok_def)
  have nz: "num_buckets ?t \<noteq> 0" using tbl_ok_num [OF t(2)] by simp
  have sub: "set ?ps \<subseteq> dom ?C" using un(2) by simp
  have "p \<in> set ?ps" by simp
  then obtain D bks bs' where D: "HASH_DEL_IN_BKT (HASH_TO_BKT (e_hashv d) (num_buckets ?t)) p (?C, ?t) =
      Some (D, ?t\<lparr>ut_buckets := bks\<rparr>)" "hh_only ?C D"
    "buckets_ok (D(p := None)) (set ?ps - {p}) (num_buckets ?t) bks bs'"
    using HASH_DEL_IN_BKT_ok [OF bk _ d(1) sub nz refl] by blast
  let ?t' = "?t\<lparr>ut_buckets := bks, num_items := num_items t - 1\<rparr>"
  let ?s = "s\<lparr>u_head := first_or (xs @ ys) None, u_tbl := Some ?t', u_cells := D(p := None)\<rparr>"
  have dist: "distinct ?ps" by (rule uokD(2) [OF ok])
  have set': "set ?ps - {p} = set (xs @ ys)" using dist by auto
  have Dp: "D p \<noteq> None" using hh_only_cell(1) [OF D(2) d(1)] by auto
  have run: "do { s \<leftarrow> HASH_DEL p s; uh_free_entry p s } = Some ?s"
    using D(1) Dp d(2) by (auto simp: HASH_DEL_links [OF ok more t(1) e] uh_free_entry_def)
  have "dll e_next e_prev (D(p := None)) None (xs @ ys) None"
  proof -
    have "dll e_next e_prev ?C None (xs @ ys) None" using un(1) dist by simp
    then show ?thesis using dist by (simp add: hh_only_dll [OF D(2)])
  qed
  moreover have "tbl_ok (D(p := None)) (xs @ ys) bs' ?t'"
    using t(2) D(3) set' more by (auto simp: tbl_ok_def)
  moreover have "dom (D(p := None)) = set (xs @ ys)" using hh_only_dom [OF D(2)] un(2) set' by auto
  moreover have "entry_ok x" if "(D(p := None)) q = Some x" for q x
    using hh_only_entry_ok [OF D(2), of q x] un(3) that by (auto split: if_splits)
  moreover have "q < u_fresh s" if "q \<in> set (xs @ ys)" for q using uokD(4) [OF ok, of q] that by auto
  ultimately have "uok (xs @ ys) bs' ?s" using dist by (simp add: uok_def)
  moreover have "entry_at (D(p := None)) q = entry_at (u_cells s) q" if "q \<in> set (xs @ ys)" for q
  proof -
    have q: "q \<in> set ?ps" "q \<noteq> p" using that dist by auto
    then obtain c where "?C q = Some c" using un(2) by blast
    from hh_only_at(2) [OF D(2) this] un(4) [OF q(1)] q(2) show ?thesis by (simp add: entry_at_def)
  qed
  ultimately show ?thesis using run by (intro exI [of _ ?s] exI [of _ bs']) simp
qed

lemma HASH_DEL_ok:
  assumes ok: "uok (xs @ p # ys) bs s"
  obtains s1 s' bs' where "HASH_DEL p s = Some s1" "uh_free_entry p s1 = Some s'" "uok (xs @ ys) bs' s'"
    "\<And>q. q \<in> set (xs @ ys) \<Longrightarrow> entry_at (u_cells s') q = entry_at (u_cells s) q"
proof -
  have "\<exists>s' bs'. do { s \<leftarrow> HASH_DEL p s; uh_free_entry p s } = Some s' \<and> uok (xs @ ys) bs' s' \<and>
    (\<forall>q\<in>set (xs @ ys). entry_at (u_cells s') q = entry_at (u_cells s) q)"
  proof (cases "xs @ ys = []")
    case True
    with HASH_DEL_single [of p bs s] ok show ?thesis by auto
  next
    case False
    from HASH_DEL_more [OF ok this] show ?thesis .
  qed
  then show thesis using that by (auto simp: bind_eq_Some_conv)
qed

end
