(* ===== verification/Uthash_Props.thy ===== *)
theory Uthash_Props
  imports Uthash_Del
begin

text \<open>
  The functions of \<^verbatim>\<open>hash_table.c\<close> over the macros of \<^verbatim>\<open>uthash.h\<close> do what \<open>Cutil_Hash\<close> says of lists of
  entries. What the lists leave out is which of two entries with one key is found: the chain of a
  bucket has the younger entry first, until the buckets are doubled, which turns the chains round.
\<close>

subsection \<open>Simulation of each function\<close>

lemma reprE:
  assumes "repr s h"
  obtains ps bs where "uok ps bs s" "h = map (entry_at (u_cells s)) ps" "length ps = length h"
  using assms by (auto simp: repr_def)

lemma repr_create: "repr uh_create ht_create"
  by (simp add: repr_def uok_def uh_create_def ht_create_def)

lemma repr_entry_count:
  assumes "repr s h" and "length h < 2 ^ 31"
  shows "uh_entry_count s = Some (ht_entry_count h)"
proof -
  obtain ps bs where ps: "uok ps bs s" "length ps = length h" using assms(1) by (rule reprE)
  show ?thesis
  proof (cases "ps = []")
    case True
    with ps uokD(6) [OF ps(1)] show ?thesis by (simp add: uh_entry_count_def ht_entry_count_def)
  next
    case False
    obtain t where t: "tbl_ok (u_cells s) ps bs t" "u_head s = Some (hd ps)" "tbl_of (Some (hd ps)) s = Some t"
      by (rule uok_tbl [OF ps(1) False])
    have "sint (of_nat (length h) :: 32 word) = int (length h)"
    proof -
      have "sint (word_of_int (int (length h)) :: 32 word) = signed_take_bit 31 (int (length h))" by (simp only: sint_sbintrunc') simp
      also have "\<dots> = int (length h)" using assms(2) by (intro signed_take_bit_int_eq_self) auto
      finally show ?thesis by simp
    qed
    with t ps(2) show ?thesis by (simp add: uh_entry_count_def tbl_ok_def ht_entry_count_def)
  qed
qed

lemma repr_find:
  assumes "repr s h" and "length key < 2 ^ 32"
  obtains r where "HASH_FIND_STR s key = Some r" "r = None \<longleftrightarrow> key \<notin> set (keys h)"
    "\<forall>p. r = Some p \<longrightarrow> (\<exists>e. u_cells s p = Some e \<and> (key, e_data e) \<in> set h)"
proof -
  obtain ps bs where ps: "uok ps bs s" "h = map (entry_at (u_cells s)) ps" using assms(1) by (rule reprE)
  obtain r where r: "HASH_FIND_STR s key = Some r"
    "case r of None \<Rightarrow> key \<notin> fst ` entry_at (u_cells s) ` set ps
     | Some p \<Rightarrow> p \<in> set ps \<and> fst (entry_at (u_cells s) p) = key"
    using HASH_FIND_STR_spec [OF ps(1) assms(2)] by blast
  have keys: "set (keys h) = fst ` entry_at (u_cells s) ` set ps" by (simp add: ps(2) image_image)
  have "\<exists>e. u_cells s p = Some e \<and> (key, e_data e) \<in> set h" if "r = Some p" for p
  proof -
    have p: "p \<in> set ps" "fst (entry_at (u_cells s) p) = key" using r(2) that by simp_all
    obtain e where e: "u_cells s p = Some e" using uok_cell [OF ps(1) p(1)] by blast
    with p(2) have "entry_at (u_cells s) p = (key, e_data e)" by (simp add: entry_at_def)
    with p(1) have "(key, e_data e) \<in> set h" unfolding ps(2) by (metis image_eqI image_set)
    with e show ?thesis by blast
  qed
  moreover have "r = None \<longleftrightarrow> key \<notin> set (keys h)" using r(2) unfolding keys by (cases r) auto
  ultimately show thesis using that r(1) by blast
qed

lemma repr_has_entry:
  assumes "repr s h" and "length key < 2 ^ 32"
  shows "uh_has_entry s key = Some (ht_has_entry h key)"
proof -
  obtain r where "HASH_FIND_STR s key = Some r" "r = None \<longleftrightarrow> key \<notin> set (keys h)" by (rule repr_find [OF assms])
  then show ?thesis by (cases r) (simp_all add: uh_has_entry_def ht_has_entry_iff)
qed

text \<open>Entries with one key have the same data.\<close>

definition coherent :: "'a ht \<Rightarrow> bool" where
  "coherent h \<longleftrightarrow> (\<forall>k d e. (k, d) \<in> set h \<longrightarrow> (k, e) \<in> set h \<longrightarrow> d = e)"

lemma distinct_coherent: "distinct (keys h) \<Longrightarrow> coherent h"
  by (auto simp: coherent_def dest: distinct_keys_eqD)

lemma repr_get_entry:
  assumes "repr s h" and "length key < 2 ^ 32"
  shows "\<exists>r. uh_get_entry s key = Some r \<and> (r = None \<longleftrightarrow> key \<notin> set (keys h)) \<and> (\<forall>d. r = Some d \<longrightarrow> (key, d) \<in> set h)"
proof -
  obtain r where r: "HASH_FIND_STR s key = Some r" "r = None \<longleftrightarrow> key \<notin> set (keys h)"
    "\<forall>p. r = Some p \<longrightarrow> (\<exists>e. u_cells s p = Some e \<and> (key, e_data e) \<in> set h)"
    by (rule repr_find [OF assms])
  show ?thesis
  proof (cases r)
    case None
    with r show ?thesis by (simp add: uh_get_entry_def)
  next
    case (Some p)
    with r show ?thesis by (auto simp: uh_get_entry_def)
  qed
qed

lemma repr_get_coherent:
  assumes "repr s h" and "length key < 2 ^ 32" and c: "coherent h"
  shows "uh_get_entry s key = Some (ht_get_entry h key)"
proof -
  obtain r where r: "uh_get_entry s key = Some r" "r = None \<longleftrightarrow> key \<notin> set (keys h)" "\<forall>d. r = Some d \<longrightarrow> (key, d) \<in> set h"
    using repr_get_entry [OF assms(1,2)] by blast
  have "r = ht_find h key"
  proof (cases "ht_find h key")
    case None
    with r(2) show ?thesis using ht_find_None_iff [of h key] by simp
  next
    case (Some d)
    then obtain d' where "r = Some d'" using r(2) ht_find_None_iff [of h key] by (cases r) auto
    with r(3) ht_find_SomeD [OF Some] c Some show ?thesis by (auto simp: coherent_def)
  qed
  with r(1) show ?thesis by (simp add: ht_get_entry_def)
qed

lemma repr_add_entry:
  assumes "repr s h" and "length key < 2 ^ 32" and "length h + 1 < 2 ^ 32" and "roomy s"
  shows "\<exists>s'. uh_add_entry s key d = Some (fst (ht_add_entry h key d), s') \<and> repr s' (snd (ht_add_entry h key d))"
proof -
  obtain ps bs where ps: "uok ps bs s" "h = map (entry_at (u_cells s)) ps" "length ps = length h" using assms(1) by (rule reprE)
  have len: "length ps + 1 < 2 ^ 32" using assms(3) ps(3) by simp
  obtain s' bs' where s': "HASH_ADD_STR (u_fresh s) (snd (uh_new_entry key d s)) = Some s'" "uok (ps @ [u_fresh s]) bs' s'"
    "map (entry_at (u_cells s')) (ps @ [u_fresh s]) = map (entry_at (u_cells s)) ps @ [(key, d)]"
    using HASH_ADD_STR_ok [OF ps(1) assms(2) len assms(4)] by blast
  have "uh_add_entry s key d = Some (0, s')"
    using s'(1) by (simp add: uh_add_entry_def uh_new_entry_def Let_def)
  moreover have "repr s' (h @ [(key, d)])" using s'(2,3) ps(2) unfolding repr_def by metis
  ultimately show ?thesis by (simp add: ht_add_entry_def)
qed

lemma repr_add_unique_entry:
  assumes "repr s h" and "length key < 2 ^ 32" and "length h + 1 < 2 ^ 32" and "roomy s"
  shows "\<exists>s'. uh_add_unique_entry s key d = Some (fst (ht_add_unique_entry h key d), s') \<and>
    repr s' (snd (ht_add_unique_entry h key d))"
proof -
  obtain r where r: "HASH_FIND_STR s key = Some r" "r = None \<longleftrightarrow> key \<notin> set (keys h)" by (rule repr_find [OF assms(1,2)])
  show ?thesis
  proof (cases "ht_find h key")
    case None
    with r have "r = None" using ht_find_None_iff [of h key] by simp
    with r(1) have "uh_add_unique_entry s key d = uh_add_entry s key d" by (simp add: uh_add_unique_entry_def uh_add_entry_def)
    moreover have "ht_add_unique_entry h key d = ht_add_entry h key d"
      using None by (simp add: ht_add_unique_entry_def ht_add_entry_def)
    ultimately show ?thesis using repr_add_entry [OF assms] by simp
  next
    case (Some e)
    then obtain p where "r = Some p" using r(2) ht_find_None_iff [of h key] by (cases r) auto
    with r(1) assms(1) Some show ?thesis by (simp add: uh_add_unique_entry_def ht_add_unique_entry_def)
  qed
qed

text \<open>Removing takes out one entry with the key, and the entry if there is only one.\<close>

lemma repr_remove_entry:
  assumes "repr s h" and "length key < 2 ^ 32"
  shows "if key \<in> set (keys h)
    then \<exists>s' xs d ys. uh_remove_entry s key = Some (0, s') \<and> h = xs @ (key, d) # ys \<and> repr s' (xs @ ys)
    else uh_remove_entry s key = Some (- 1, s)"
proof -
  obtain ps bs where ps: "uok ps bs s" "h = map (entry_at (u_cells s)) ps" using assms(1) by (rule reprE)
  obtain r where r: "HASH_FIND_STR s key = Some r"
    "case r of None \<Rightarrow> key \<notin> fst ` entry_at (u_cells s) ` set ps
     | Some p \<Rightarrow> p \<in> set ps \<and> fst (entry_at (u_cells s) p) = key"
    using HASH_FIND_STR_spec [OF ps(1) assms(2)] by blast
  have keys: "set (keys h) = fst ` entry_at (u_cells s) ` set ps" by (simp add: ps(2) image_image)
  show ?thesis
  proof (cases r)
    case None
    with r keys show ?thesis by (simp add: uh_remove_entry_def)
  next
    case (Some p)
    with r(2) have p: "p \<in> set ps" "fst (entry_at (u_cells s) p) = key" by simp_all
    then obtain xs ys where xy: "ps = xs @ p # ys" by (meson split_list)
    obtain s1 s' bs' where d: "HASH_DEL p s = Some s1" "uh_free_entry p s1 = Some s'" "uok (xs @ ys) bs' s'"
      "\<And>q. q \<in> set (xs @ ys) \<Longrightarrow> entry_at (u_cells s') q = entry_at (u_cells s) q"
      using HASH_DEL_ok [OF ps(1) [unfolded xy]] by blast
    let ?f = "entry_at (u_cells s)"
    have "map (entry_at (u_cells s')) (xs @ ys) = map ?f (xs @ ys)" using d(4) by (simp only: map_eq_conv) blast
    then have "repr s' (map ?f xs @ map ?f ys)" using d(3) unfolding repr_def by (metis map_append)
    moreover have "h = map ?f xs @ (key, snd (?f p)) # map ?f ys" using ps(2) xy p(2) by (simp add: prod_eq_iff)
    moreover have "uh_remove_entry s key = Some (0, s')" using r(1) Some d(1,2) by (simp add: uh_remove_entry_def)
    ultimately show ?thesis by auto
  qed
qed

lemma repr_remove_unique:
  assumes "repr s h" and "length key < 2 ^ 32" and dist: "distinct (keys h)"
  shows "\<exists>s'. uh_remove_entry s key = Some (fst (ht_remove_entry h key), s') \<and> repr s' (snd (ht_remove_entry h key))"
proof (cases "key \<in> set (keys h)")
  case True
  then obtain s' xs d ys where s': "uh_remove_entry s key = Some (0, s')" "h = xs @ (key, d) # ys" "repr s' (xs @ ys)"
    using repr_remove_entry [OF assms(1,2)] by auto
  have "filter (\<lambda>e. fst e \<noteq> key) h = xs @ ys"
  proof -
    have "filter (\<lambda>e. fst e \<noteq> key) xs = xs" by (rule filter_True) (use dist s'(2) in \<open>auto intro: rev_image_eqI\<close>)
    moreover have "filter (\<lambda>e. fst e \<noteq> key) ys = ys" by (rule filter_True) (use dist s'(2) in \<open>auto intro: rev_image_eqI\<close>)
    ultimately show ?thesis using s'(2) by simp
  qed
  moreover have "fst (ht_remove_entry h key) = 0"
    using True ht_find_None_iff [of h key] by (auto simp: ht_remove_entry_def split: option.split)
  ultimately show ?thesis using s'(1,3) by (auto simp: ht_remove_distinct [OF dist])
next
  case False
  then have "ht_find h key = None" by (simp add: ht_find_None_iff)
  with False repr_remove_entry [OF assms(1,2)] assms(1) show ?thesis by (simp add: ht_remove_entry_def)
qed

subsection \<open>Iteration\<close>

lemma next_of_first:
  assumes "dll e_next e_prev C p xs None"
  shows "next_of C (first_or xs None) = Some (first_or (tl xs) None)"
  using assms by (cases xs) (auto simp: next_of_def)

lemma uh_iter_list:
  assumes "dll e_next e_prev C p xs None"
  shows "uh_iter C f (first_or xs None) (first_or (tl xs) None) st = ht_for_each (map (entry_at C) xs) f st"
  using assms
proof (induction xs arbitrary: p st)
  case Nil
  then show ?case by (simp add: uh_iter.simps)
next
  case (Cons x xs)
  obtain e where e: "C x = Some e" "dll e_next e_prev C (Some x) xs None" using Cons.prems by auto
  with Cons.IH [OF e(2)] next_of_first [OF e(2)] show ?case
    by (simp add: uh_iter.simps [of C f "Some x"] entry_at_def)
qed

lemma repr_for_each:
  assumes "repr s h"
  shows "uh_for_each s f st = ht_for_each h f st"
proof -
  obtain ps bs where ps: "uok ps bs s" "h = map (entry_at (u_cells s)) ps" using assms by (rule reprE)
  note d = uokD(1) [OF ps(1)]
  show ?thesis using next_of_first [OF d] uh_iter_list [OF d] uokD(6) [OF ps(1)] by (simp add: uh_for_each_def ps(2))
qed

lemma uh_free_loop_all:
  assumes "uok ps bs s"
  shows "\<exists>s' bs'. uh_free_loop (first_or ps None) (first_or (tl ps) None) s = Some s' \<and> uok [] bs' s'"
  using assms
proof (induction ps arbitrary: s bs)
  case Nil
  then show ?case by (auto simp: uh_free_loop.simps)
next
  case (Cons p ps)
  have "uok ([] @ p # ps) bs s" using Cons.prems by simp
  then obtain s1 s' bs' where "HASH_DEL p s = Some s1" "uh_free_entry p s1 = Some s'" "uok ([] @ ps) bs' s'"
    by (rule HASH_DEL_ok)
  then have d: "HASH_DEL p s = Some s1" "uh_free_entry p s1 = Some s'" "uok ps bs' s'" by simp_all
  have "uh_free_loop (Some p) (first_or ps None) s = uh_free_loop (first_or ps None) (first_or (tl ps) None) s'"
    using d(1,2) next_of_first [OF uokD(1) [OF d(3)]] by (simp add: uh_free_loop.simps [of "Some p"])
  with Cons.IH [OF d(3)] show ?case by simp
qed

lemma repr_free:
  assumes "repr s h"
  shows "\<exists>s'. uh_free s = Some s' \<and> u_head s' = None \<and> u_tbl s' = None \<and> u_cells s' = Map.empty"
proof -
  obtain ps bs where ps: "uok ps bs s" using assms by (rule reprE)
  obtain s' bs' where s': "uh_free_loop (first_or ps None) (first_or (tl ps) None) s = Some s'" "uok [] bs' s'"
    using uh_free_loop_all [OF ps] by blast
  have "u_tbl s' = None" using uokD(8) [OF s'(2)] by (cases "u_tbl s'") (auto simp: tbl_ok_def)
  moreover have "u_head s' = None" "u_cells s' = Map.empty" using uokD(3,6) [OF s'(2)] by auto
  moreover have "uh_free s = Some s'"
    using s'(1) next_of_first [OF uokD(1) [OF ps]] uokD(6) [OF ps] by (simp add: uh_free_def)
  ultimately show ?thesis by blast
qed

end
