(* ===== verification/Uthash_Check.thy ===== *)
theory Uthash_Check
  imports Uthash_Props
begin

text \<open>
  The integrity check \<^verbatim>\<open>HASH_FSCK\<close> that \<^verbatim>\<open>uthash\<close> runs after each change in a debugging build, and the
  properties of the hash table. The first mismatch ends the process; here the check answers \<open>False\<close>.
\<close>

subsection \<open>The check\<close>

text \<open>One walk along a list, forwards by \<open>nx\<close> with \<open>pv\<close> compared: the number of structs.\<close>

partial_function (option) fsck_walk :: "('a entry \<Rightarrow> eptr option) \<Rightarrow> ('a entry \<Rightarrow> eptr option) \<Rightarrow> 'a cells \<Rightarrow>
    eptr option \<Rightarrow> eptr option \<Rightarrow> 32 word \<Rightarrow> 32 word option option" where
  "fsck_walk nx pv C prev thh cnt =
     (case thh of
        None \<Rightarrow> Some (Some cnt)
      | Some p \<Rightarrow> do {
          e \<leftarrow> C p;
          if pv e \<noteq> prev then Some None
          else fsck_walk nx pv C (Some p) (nx e) (cnt + 1)
        })"

fun fsck_buckets :: "'a cells \<Rightarrow> bucket list \<Rightarrow> nat list \<Rightarrow> 32 word \<Rightarrow> 32 word option option" where
  "fsck_buckets C bks [] cnt = Some (Some cnt)"
| "fsck_buckets C bks (i # is) cnt = do {
     b \<leftarrow> bucket_at bks i;
     r \<leftarrow> fsck_walk e_hh_next e_hh_prev C None (hh_head b) 0;
     case r of
       None \<Rightarrow> Some None
     | Some bkt_count \<Rightarrow>
         if b_count b \<noteq> bkt_count then Some None else fsck_buckets C bks is (cnt + bkt_count)
   }"

definition HASH_FSCK :: "'a uht \<Rightarrow> bool option" where
  "HASH_FSCK s =
     (case u_head s of
        None \<Rightarrow> Some True
      | Some h \<Rightarrow> do {
          t \<leftarrow> tbl_of (Some h) s;
          r \<leftarrow> fsck_buckets (u_cells s) (ut_buckets t) [0..<unat (num_buckets t)] 0;
          case r of
            None \<Rightarrow> Some False
          | Some cnt \<Rightarrow>
              if cnt \<noteq> num_items t then Some False
              else do {
                r \<leftarrow> fsck_walk e_next e_prev (u_cells s) None (Some h) 0;
                Some (r = Some (num_items t))
              }
        })"

lemma fsck_walk_dll:
  "dll nx pv C p xs None \<Longrightarrow> fsck_walk nx pv C p (first_or xs None) cnt = Some (Some (cnt + of_nat (length xs)))"
proof (induction xs arbitrary: p cnt)
  case Nil
  then show ?case by (simp add: fsck_walk.simps)
next
  case (Cons x xs)
  then obtain e where "C x = Some e" "pv e = p" "nx e = first_or xs None" "dll nx pv C (Some x) xs None" by auto
  with Cons.IH [of "Some x" "cnt + 1"] show ?case by (simp add: fsck_walk.simps [of nx pv C p "Some x"])
qed

lemma fsck_buckets_ok:
  assumes bk: "buckets_ok C P num bks bs" and "\<forall>i\<in>set is. i < unat num"
  shows "fsck_buckets C bks is cnt = Some (Some (cnt + of_nat (\<Sum>i\<leftarrow>is. length (bs ! i))))"
  using assms(2)
proof (induction "is" arbitrary: cnt)
  case Nil
  then show ?case by simp
next
  case (Cons i "is")
  then have "chain_ok C P num i (bks ! i) (bs ! i)" "bucket_at bks i = Some (bks ! i)"
    using bk by (simp_all add: buckets_ok_def bucket_at_def)
  with fsck_walk_dll [of e_hh_next e_hh_prev C None "bs ! i" 0] Cons show ?case by (simp add: chain_ok_def add.assoc)
qed

text \<open>The chains partition the entries.\<close>

lemma chains_length:
  assumes bk: "buckets_ok C (set ps) num bks bs" and num: "num \<noteq> 0" and ps: "distinct ps"
  shows "(\<Sum>i\<leftarrow>[0..<unat num]. length (bs ! i)) = length ps"
proof -
  have ch: "distinct (bs ! i)" "set (bs ! i) = {p \<in> set ps. bkt_of C num p = i}" if "i < unat num" for i
    using bk that by (simp_all add: buckets_ok_def chain_ok_def)
  have "(\<Sum>i\<leftarrow>[0..<unat num]. length (bs ! i)) = (\<Sum>i\<in>{..<unat num}. card (set (bs ! i)))"
    by (simp add: interv_sum_list_conv_sum_set_nat atLeast0LessThan distinct_card ch(1))
  also have "\<dots> = card (\<Union>i\<in>{..<unat num}. set (bs ! i))"
    by (rule card_UN_disjoint [symmetric]) (auto simp: ch(2))
  also have "(\<Union>i\<in>{..<unat num}. set (bs ! i)) = set ps"
    using HASH_TO_BKT_less [OF num] by (auto simp: ch(2) bkt_of_def)
  finally show ?thesis using ps by (simp add: distinct_card)
qed

subsection \<open>Properties\<close>

text \<open>
  C33. The hash table over \<^verbatim>\<open>uthash\<close>, with its buckets, two doubly linked lists and doubling, implements a list
  of entries: on a table that stands for the list \<open>h\<close>, no function of \<^verbatim>\<open>hash_table.c\<close> faults or loops
  for ever; counting, testing for a key, adding, adding a new key only, and iterating answer as
  for the list and leave a table for the new list; looking a key up finds an entry with the key if there is one;
  and freeing the table frees every entry and the table. The bounds: keys and tables below \<open>2 ^ 31\<close> and
  fewer than \<open>2 ^ 31\<close> buckets.
\<close>

theorem hash_table_refines:
  assumes "repr s h" and "length key < 2 ^ 32" and "length h + 1 < 2 ^ 31" and "roomy s"
  shows "uh_entry_count s = Some (ht_entry_count h) \<and>
    uh_has_entry s key = Some (ht_has_entry h key) \<and>
    (\<exists>s'. uh_add_entry s key d = Some (fst (ht_add_entry h key d), s') \<and> repr s' (snd (ht_add_entry h key d))) \<and>
    (\<exists>s'. uh_add_unique_entry s key d = Some (fst (ht_add_unique_entry h key d), s') \<and>
      repr s' (snd (ht_add_unique_entry h key d))) \<and>
    uh_for_each s f st = ht_for_each h f st \<and>
    (\<exists>r. uh_get_entry s key = Some r \<and> (case r of None \<Rightarrow> key \<notin> set (keys h) | Some d \<Rightarrow> (key, d) \<in> set h)) \<and>
    (\<exists>s'. uh_free s = Some s' \<and> u_cells s' = Map.empty \<and> u_tbl s' = None)"
proof -
  have "\<exists>r. uh_get_entry s key = Some r \<and> (case r of None \<Rightarrow> key \<notin> set (keys h) | Some d \<Rightarrow> (key, d) \<in> set h)"
    using repr_get_entry [OF assms(1,2)] by (auto split: option.split)
  with assms(3) show ?thesis
    using repr_entry_count [OF assms(1)] repr_has_entry [OF assms(1,2)] repr_add_entry [OF assms(1,2) _ assms(4)]
      repr_add_unique_entry [OF assms(1,2) _ assms(4)] repr_for_each [OF assms(1)] repr_free [OF assms(1)] by auto
qed

lemma hash_table_refines_witness:
  "uh_has_entry (uh_create :: nat uht) ''k'' = Some (ht_has_entry (ht_create :: nat ht) ''k'') \<and>
   (\<exists>s'. uh_add_entry uh_create ''k'' (7::nat) = Some (0, s') \<and> repr s' [(''k'', 7)])"
proof -
  have "roomy (uh_create :: nat uht)" by (simp add: roomy_def uh_create_def)
  from hash_table_refines [OF repr_create _ _ this, of "''k''" 7 "\<lambda>k d s. Some s" "()"]
  show ?thesis by (simp add: ht_create_def ht_add_entry_def)
qed

text \<open>
  C34. On tables with unique keys, which is what the file systems keep wherever they remove entries or read
  their data, the two functions that depend on the choice among equal keys agree with the list as
  well: looking a key up returns its data, and removing it leaves the list without it.
\<close>

theorem unique_table_refines:
  assumes "repr s h" and "length key < 2 ^ 32" and "distinct (keys h)"
  shows "uh_get_entry s key = Some (ht_get_entry h key) \<and>
    (\<exists>s'. uh_remove_entry s key = Some (fst (ht_remove_entry h key), s') \<and> repr s' (snd (ht_remove_entry h key)))"
  using repr_get_coherent [OF assms(1,2) distinct_coherent [OF assms(3)]] repr_remove_unique [OF assms] by blast

lemma unique_table_refines_witness:
  "\<exists>s s'. repr s [(''k'', 7::nat)] \<and> uh_get_entry s ''k'' = Some (Some 7) \<and> uh_remove_entry s ''k'' = Some (0, s') \<and> repr s' []"
proof -
  obtain s where s: "repr s [(''k'', 7::nat)]"
    using repr_add_entry [OF repr_create, of "''k''" 7] by (auto simp: ht_create_def ht_add_entry_def roomy_def uh_create_def)
  from unique_table_refines [OF s, of "''k''"] s show ?thesis
    by (auto simp: ht_get_entry_def ht_find_def ht_remove_entry_def ht_del_def)
qed

text \<open>Helper of the next property: the invariant of the proofs above implies the check.\<close>

lemma repr_fsck:
  assumes "repr s h"
  shows "HASH_FSCK s = Some True"
proof -
  obtain ps bs where ps: "uok ps bs s" using assms by (rule reprE)
  show ?thesis
  proof (cases "ps = []")
    case True
    with uokD(6) [OF ps] show ?thesis by (simp add: HASH_FSCK_def)
  next
    case False
    obtain t where t: "tbl_ok (u_cells s) ps bs t" "u_head s = Some (hd ps)" "tbl_of (Some (hd ps)) s = Some t"
      by (rule uok_tbl [OF ps False])
    have bk: "buckets_ok (u_cells s) (set ps) (num_buckets t) (ut_buckets t) bs" and n: "num_items t = of_nat (length ps)"
      using t(1) by (simp_all add: tbl_ok_def)
    have "fsck_buckets (u_cells s) (ut_buckets t) [0..<unat (num_buckets t)] 0 = Some (Some (num_items t))"
      using fsck_buckets_ok [OF bk, of "[0..<unat (num_buckets t)]" 0] chains_length [OF bk tbl_ok_num [OF t(1)] uokD(2) [OF ps]]
      by (simp add: n)
    moreover have "first_or ps None = Some (hd ps)" using False by (cases ps) simp_all
    then have "fsck_walk e_next e_prev (u_cells s) None (Some (hd ps)) 0 = Some (Some (num_items t))"
      using fsck_walk_dll [OF uokD(1) [OF ps], of 0] by (simp add: n)
    ultimately show ?thesis using t(2,3) by (simp add: HASH_FSCK_def)
  qed
qed

text \<open>
  The tables that a program can build: \<open>uh_create\<close>, and what adding and removing leave, also with
  repeated keys. The bounds are those of the counters: keys below \<open>2 ^ 32\<close> characters, a number of
  entries that the signed result of \<^verbatim>\<open>ht_entry_count\<close> can tell, and fewer than \<open>2 ^ 31\<close> buckets.
\<close>

definition has_room :: "'a uht \<Rightarrow> bool" where
  "has_room s \<longleftrightarrow> roomy s \<and> (\<exists>n. uh_entry_count s = Some n \<and> n < 2 ^ 31 - 1)"

inductive built :: "'a uht \<Rightarrow> bool" where
  create: "built uh_create"
| add: "built s \<Longrightarrow> has_room s \<Longrightarrow> length key < 2 ^ 32 \<Longrightarrow> uh_add_entry s key d = Some (r, s') \<Longrightarrow> built s'"
| add_unique: "built s \<Longrightarrow> has_room s \<Longrightarrow> length key < 2 ^ 32 \<Longrightarrow>
    uh_add_unique_entry s key d = Some (r, s') \<Longrightarrow> built s'"
| remove: "built s \<Longrightarrow> length key < 2 ^ 32 \<Longrightarrow> uh_remove_entry s key = Some (r, s') \<Longrightarrow> built s'"

lemma has_room_length: "repr s h \<Longrightarrow> length h < 2 ^ 31 \<Longrightarrow> has_room s \<Longrightarrow> roomy s \<and> length h + 1 < 2 ^ 31"
  by (auto simp: has_room_def repr_entry_count ht_entry_count_def)

lemma repr_add_step:
  assumes "repr s h" and "length h < 2 ^ 31" and "has_room s" and "length key < 2 ^ 32"
  obtains r s' h' r' s'' h'' where "uh_add_entry s key d = Some (r, s')" "repr s' h'" "length h' < 2 ^ 31"
    "uh_add_unique_entry s key d = Some (r', s'')" "repr s'' h''" "length h'' < 2 ^ 31"
proof -
  have b: "roomy s" "length h + 1 < 2 ^ 31" "length h + 1 < 2 ^ 32" using has_room_length [OF assms(1-3)] by simp_all
  have "length (snd (ht_add_entry h key d)) < 2 ^ 31" "length (snd (ht_add_unique_entry h key d)) < 2 ^ 31"
    using b(2) by (simp_all add: ht_add_entry_def ht_add_unique_entry_def split: option.split)
  then show thesis
    using that repr_add_entry [OF assms(1,4) b(3,1), of d] repr_add_unique_entry [OF assms(1,4) b(3,1), of d] by blast
qed

lemma repr_remove_step:
  assumes "repr s h" and "length h < 2 ^ 31" and "length key < 2 ^ 32"
  obtains r s' h' where "uh_remove_entry s key = Some (r, s')" "repr s' h'" "length h' < 2 ^ 31"
proof (cases "key \<in> set (keys h)")
  case True
  then obtain s' xs d ys where s: "uh_remove_entry s key = Some (0, s')" "h = xs @ (key, d) # ys" "repr s' (xs @ ys)"
    using repr_remove_entry [OF assms(1,3)] by auto
  then have "length (xs @ ys) < 2 ^ 31" using assms(2) by simp
  with s(1,3) show thesis by (rule that)
next
  case False
  then have "uh_remove_entry s key = Some (- 1, s)" using repr_remove_entry [OF assms(1,3)] by simp
  from this assms(1,2) show thesis by (rule that)
qed

lemma built_repr: "built s \<Longrightarrow> \<exists>h. repr s h \<and> length h < 2 ^ 31"
proof (induction rule: built.induct)
  case create
  then show ?case using repr_create by (auto simp: ht_create_def)
next
  case (add s key d r s')
  then obtain h where "repr s h" "length h < 2 ^ 31" by blast
  with add.hyps show ?case by (metis Pair_inject option.inject repr_add_step)
next
  case (add_unique s key d r s')
  then obtain h where "repr s h" "length h < 2 ^ 31" by blast
  with add_unique.hyps show ?case by (metis Pair_inject option.inject repr_add_step)
next
  case (remove s key r s')
  then obtain h where "repr s h" "length h < 2 ^ 31" by blast
  with remove.hyps show ?case by (metis Pair_inject option.inject repr_remove_step)
qed

text \<open>
  C35. Every table that the functions build, by adding, adding new keys only and removing in any order,
  passes \<^verbatim>\<open>uthash\<close>'s own integrity check: both lists are linked alike in both directions, and the
  counters of the buckets and of the table are the numbers of entries. Each of the three functions
  returns on such a table, and the check passes again after it, also where keys are repeated and where
  the buckets are doubled.
\<close>

theorem integrity_check_passes:
  assumes "built s" and "length key < 2 ^ 32"
  shows "HASH_FSCK s = Some True \<and>
    (has_room s \<longrightarrow> (\<exists>s'. uh_add_entry s key d = Some (0, s') \<and> built s' \<and> HASH_FSCK s' = Some True)) \<and>
    (has_room s \<longrightarrow> (\<exists>r s'. uh_add_unique_entry s key d = Some (r, s') \<and> built s' \<and> HASH_FSCK s' = Some True)) \<and>
    (\<exists>r s'. uh_remove_entry s key = Some (r, s') \<and> built s' \<and> HASH_FSCK s' = Some True)"
proof -
  have ok: "HASH_FSCK s = Some True" if "built s" for s :: "'a uht" using built_repr [OF that] repr_fsck by blast
  obtain h where h: "repr s h" "length h < 2 ^ 31" using built_repr [OF assms(1)] by blast
  have "r = 0" if "uh_add_entry s key d = Some (r, s')" for r s'
    using that by (auto simp: uh_add_entry_def Let_def bind_eq_Some_conv split: prod.splits)
  moreover have "\<exists>r s' r' s''. uh_add_entry s key d = Some (r, s') \<and> uh_add_unique_entry s key d = Some (r', s'')"
    if "has_room s" by (rule repr_add_step [OF h that assms(2), of d]) blast
  moreover have "\<exists>r s'. uh_remove_entry s key = Some (r, s')" by (rule repr_remove_step [OF h assms(2)]) blast
  ultimately show ?thesis using ok built.intros assms by (metis (no_types, lifting))
qed

lemma integrity_check_passes_witness:
  "\<exists>s s'. built s \<and> repr s [(''k'', 7::nat)] \<and> HASH_FSCK s = Some True \<and>
     uh_remove_entry s ''k'' = Some (0, s') \<and> HASH_FSCK s' = Some True"
proof -
  have r0: "has_room (uh_create :: nat uht)" "roomy (uh_create :: nat uht)"
    by (simp_all add: has_room_def roomy_def uh_create_def uh_entry_count_def)
  obtain s1 where s1: "uh_add_entry uh_create ''k'' (7::nat) = Some (0, s1)" "repr s1 [(''k'', 7)]"
    using repr_add_entry [OF repr_create _ _ r0(2), of "''k''" 7] by (auto simp: ht_create_def ht_add_entry_def)
  have b1: "built s1" using built.add [OF built.create r0(1) _ s1(1)] by simp
  obtain s2 where "uh_remove_entry s1 ''k'' = Some (0, s2)"
    using repr_remove_entry [OF s1(2), of "''k''"] by auto
  with integrity_check_passes [OF b1, of "''k''"] b1 s1(2) show ?thesis by auto
qed

end
