(* ===== verification/Cutil_List.thy ===== *)
theory Cutil_List
  imports Cutil_Hash "HOL-Library.Word"
begin

text \<open>
  The linked list of \<^verbatim>\<open>cutil/list.c\<close> and \<^verbatim>\<open>cutil/list_node.h\<close>: heap nodes between a front and
  a back sentinel, elements numbered from 1, and a cursor that remembers the node of the last
  access so that a loop over the indices is linear. Node addresses are natural numbers, the
  heap of nodes is a partial map, freed nodes are out of its domain, and the \<^verbatim>\<open>next\<close> field of a
  new node is uninitialised (\<open>None\<close>) as \<^verbatim>\<open>node_new\<close> leaves it. \<^verbatim>\<open>unsigned int\<close> positions are
  32-bit words. Elements are \<open>'a option\<close>, \<open>None\<close> being the null pointer. The
  representation predicate \<open>clist_repr\<close> relates a list object to the sequence it stands for.
\<close>

type_synonym addr = nat

record 'a list_node =
  node_data :: "'a option"
  next_node :: "addr option"
  is_sentinel :: int

record 'a clist =
  nodes :: "addr \<Rightarrow> 'a list_node option"
  brk :: addr
  front_sentinel :: addr
  cursor :: addr
  size_of :: nat
  curpos :: "32 word"
  list_flags :: int
  freed_elements :: "'a option list"

definition SENTINEL_NODE :: int where "SENTINEL_NODE = 1"

definition LI_ELEM :: int where "LI_ELEM = 2"

definition LI_FREE :: int where "LI_FREE = 4"

text \<open>The last field is no part of the struct: it logs the calls of the list's free function.\<close>

text \<open>The node macros of \<^verbatim>\<open>list_node.h\<close>; an access through a bad address faults.\<close>

definition node_new :: "'a option \<Rightarrow> int \<Rightarrow> 'a clist \<Rightarrow> addr \<times> 'a clist" where
  "node_new da sen l =
     (brk l, l\<lparr>nodes := (nodes l)(brk l \<mapsto> \<lparr>node_data = da, next_node = None, is_sentinel = sen\<rparr>),
               brk := Suc (brk l)\<rparr>)"

definition node_get_next :: "'a clist \<Rightarrow> addr \<Rightarrow> addr option" where
  "node_get_next l no = do { n \<leftarrow> nodes l no; next_node n }"

definition node_set_next :: "addr \<Rightarrow> addr \<Rightarrow> 'a clist \<Rightarrow> 'a clist option" where
  "node_set_next no ne l = do {
     n \<leftarrow> nodes l no;
     Some (l\<lparr>nodes := (nodes l)(no \<mapsto> n\<lparr>next_node := Some ne\<rparr>)\<rparr>)
   }"

definition node_get_data :: "'a clist \<Rightarrow> addr \<Rightarrow> 'a option option" where
  "node_get_data l no = do { n \<leftarrow> nodes l no; Some (node_data n) }"

definition node_is_sentinel :: "'a clist \<Rightarrow> addr \<Rightarrow> bool option" where
  "node_is_sentinel l no = do { n \<leftarrow> nodes l no; Some (is_sentinel n \<noteq> 0) }"

definition node_free :: "addr \<Rightarrow> 'a clist \<Rightarrow> 'a clist option" where
  "node_free no l = do {
     n \<leftarrow> nodes l no;
     Some (l\<lparr>nodes := (nodes l)(no := None)\<rparr>)
   }"

subsection \<open>The operations\<close>

text \<open>\<^verbatim>\<open>node = node_get_next(node)\<close>, \<open>k\<close> times.\<close>

fun advance :: "'a clist \<Rightarrow> nat \<Rightarrow> addr \<Rightarrow> addr option" where
  "advance l 0 node = Some node"
| "advance l (Suc k) node = do { node \<leftarrow> node_get_next l node; advance l k node }"

definition list_get_node :: "'a clist \<Rightarrow> 32 word \<Rightarrow> (addr \<times> 'a clist) option" where
  "list_get_node l n = do {
     let (k, node) = (if curpos l \<le> n then (n - curpos l, cursor l) else (n, front_sentinel l));
     node \<leftarrow> advance l (unat k) node;
     Some (node, l\<lparr>cursor := node, curpos := n\<rparr>)
   }"

definition list_size :: "'a clist \<Rightarrow> nat" where
  "list_size l = size_of l"

definition list_insert :: "'a clist \<Rightarrow> 32 word \<Rightarrow> 'a option \<Rightarrow> 'a clist option" where
  "list_insert l n element = do {
     (previous, l) \<leftarrow> list_get_node l (n - 1);
     let (tmp, l) = node_new element 0 l;
     nxt \<leftarrow> node_get_next l previous;
     l \<leftarrow> node_set_next tmp nxt l;
     l \<leftarrow> node_set_next previous tmp l;
     Some (l\<lparr>size_of := size_of l + 1\<rparr>)
   }"

definition list_append :: "'a clist \<Rightarrow> 'a option \<Rightarrow> 'a clist option" where
  "list_append l element = list_insert l (of_nat (list_size l + 1)) element"

text \<open>
  \<^verbatim>\<open>list_new\<close>: the sentinels, and with \<^verbatim>\<open>LI_ELEM\<close> the elements of the argument list up to its
  terminating null pointer. The free function of \<^verbatim>\<open>LI_FREE\<close> is only recorded in the flags.
\<close>

fun list_append_args :: "'a clist \<Rightarrow> 'a list \<Rightarrow> 'a clist option" where
  "list_append_args l [] = Some l"
| "list_append_args l (arg # args) = do { l \<leftarrow> list_append l (Some arg); list_append_args l args }"

definition list_new :: "int \<Rightarrow> 'a list \<Rightarrow> 'a clist option" where
  "list_new fl args = do {
     let l = \<lparr>nodes = Map.empty, brk = 0, front_sentinel = 0, cursor = 0,
              size_of = 0, curpos = 0, list_flags = 0, freed_elements = []\<rparr>;
     let (front, l) = node_new None SENTINEL_NODE l;
     let (back, l) = node_new None 1 l;
     l \<leftarrow> node_set_next front back l;
     let l = l\<lparr>front_sentinel := front, list_flags := fl, cursor := front, curpos := 0, size_of := 0\<rparr>;
     if (fl div LI_ELEM) mod 2 \<noteq> 0 then list_append_args l args else Some l
   }"

definition list_get :: "'a clist \<Rightarrow> 32 word \<Rightarrow> ('a option \<times> 'a clist) option" where
  "list_get l n = do {
     (node, l) \<leftarrow> list_get_node l n;
     d \<leftarrow> node_get_data l node;
     Some (d, l)
   }"

definition list_add :: "'a clist \<Rightarrow> 'a option \<Rightarrow> 'a clist option" where
  "list_add l element = do {
     let (tmp, l) = node_new element 0 l;
     nxt \<leftarrow> node_get_next l (front_sentinel l);
     l \<leftarrow> node_set_next tmp nxt l;
     l \<leftarrow> node_set_next (front_sentinel l) tmp l;
     Some (l\<lparr>size_of := size_of l + 1\<rparr>)
   }"

text \<open>\<^verbatim>\<open>if ((list->flags & LI_FREE) != 0) list->free_element(...)\<close>.\<close>

definition free_element :: "'a clist \<Rightarrow> 'a option \<Rightarrow> 'a clist" where
  "free_element l d = (if (list_flags l div LI_FREE) mod 2 \<noteq> 0 then l\<lparr>freed_elements := freed_elements l @ [d]\<rparr> else l)"

definition list_remove :: "'a clist \<Rightarrow> 32 word \<Rightarrow> 'a clist option" where
  "list_remove l n = do {
     (previous, l) \<leftarrow> list_get_node l (n - 1);
     tmp \<leftarrow> node_get_next l previous;
     nxt \<leftarrow> node_get_next l tmp;
     l \<leftarrow> node_set_next previous nxt l;
     d \<leftarrow> node_get_data l tmp;
     let l = free_element l d;
     l \<leftarrow> node_free tmp l;
     Some (l\<lparr>size_of := size_of l - 1\<rparr>)
   }"

text \<open>
  The index loops. \<open>list_fold_from l i n f s\<close> is
  \<^verbatim>\<open>for (; n > 0; ++i, --n) s = f(list_get(l, i), s)\<close>; the list object is threaded because
  \<^verbatim>\<open>list_get\<close> moves the cursor.
\<close>

fun list_fold_from ::
  "'a clist \<Rightarrow> nat \<Rightarrow> nat \<Rightarrow> ('a option \<Rightarrow> 's \<Rightarrow> 's option) \<Rightarrow> 's \<Rightarrow> ('s \<times> 'a clist) option" where
  "list_fold_from l i 0 f s = Some (s, l)"
| "list_fold_from l i (Suc n) f s = do {
     (d, l) \<leftarrow> list_get l (of_nat i);
     s \<leftarrow> f d s;
     list_fold_from l (Suc i) n f s
   }"

definition list_each_r ::
  "'a clist \<Rightarrow> ('a option \<Rightarrow> 's \<Rightarrow> 's option) \<Rightarrow> 's \<Rightarrow> ('s \<times> 'a clist) option" where
  "list_each_r l f s = list_fold_from l 1 (list_size l) f s"

definition list_append_list :: "'a clist \<Rightarrow> 'a clist \<Rightarrow> ('a clist \<times> 'a clist) option" where
  "list_append_list l1 l2 =
     list_fold_from l2 1 (list_size l2) (\<lambda>d l1. list_append l1 d) l1"

definition list_copy :: "'a clist \<Rightarrow> ('a clist \<times> 'a clist) option" where
  "list_copy l = do { n \<leftarrow> list_new 0 []; list_append_list n l }"

definition list_map_r ::
  "'a clist \<Rightarrow> ('a option \<Rightarrow> 'b option) \<Rightarrow> ('b clist \<times> 'a clist) option" where
  "list_map_r l f = do {
     ret \<leftarrow> list_new 0 [];
     list_fold_from l 1 (list_size l) (\<lambda>d ret. list_append ret (f d)) ret
   }"

text \<open>
  \<^verbatim>\<open>list_to_array\<close> and \<^verbatim>\<open>list_to_hashtable\<close> run their index from 0 to \<^verbatim>\<open>size - 1\<close>, although
  elements are numbered from 1.
\<close>

definition list_to_array :: "'a clist \<Rightarrow> ('a option list \<times> 'a clist) option" where
  "list_to_array l =
     list_fold_from l 0 (list_size l) (\<lambda>d array. Some (array @ [d])) []"

definition list_to_hashtable ::
  "'a clist \<Rightarrow> ('a option \<Rightarrow> cstring option) \<Rightarrow> ('a option ht \<times> 'a clist) option" where
  "list_to_hashtable l element_keyname =
     list_fold_from l 0 (list_size l)
       (\<lambda>el h. do { key \<leftarrow> element_keyname el; Some (snd (ht_add_entry h key el)) }) ht_create"

text \<open>
  The loop of \<^verbatim>\<open>list_remove_value\<close> stops at the back sentinel; every round moves one node
  forward, so the number of allocated nodes bounds its rounds and serves as fuel.
\<close>

fun list_remove_value_loop :: "nat \<Rightarrow> 'a option \<Rightarrow> addr \<Rightarrow> 'a clist \<Rightarrow> 'a clist option" where
  "list_remove_value_loop 0 value n l = None"
| "list_remove_value_loop (Suc fuel) value n l = do {
     nxt \<leftarrow> node_get_next l n;
     sen \<leftarrow> node_is_sentinel l nxt;
     d \<leftarrow> node_get_data l nxt;
     l \<leftarrow> (if \<not> sen \<and> d = value then do {
              let l = l\<lparr>size_of := size_of l - 1\<rparr>;
              nn \<leftarrow> node_get_next l nxt;
              l \<leftarrow> node_set_next n nn l;
              node_free nxt l
            } else Some l);
     n \<leftarrow> node_get_next l n;
     sen \<leftarrow> node_is_sentinel l n;
     if sen then Some l else list_remove_value_loop fuel value n l
   }"

definition list_remove_value :: "'a clist \<Rightarrow> 'a option \<Rightarrow> 'a clist option" where
  "list_remove_value l value = list_remove_value_loop (brk l) value (front_sentinel l) l"

text \<open>\<^verbatim>\<open>list_free\<close> frees every node; with \<^verbatim>\<open>LI_FREE\<close> the elements are handed to the free function.\<close>

fun list_free_loop :: "nat \<Rightarrow> addr \<Rightarrow> 'a clist \<Rightarrow> (addr \<times> 'a clist) option" where
  "list_free_loop 0 node l = None"
| "list_free_loop (Suc fuel) node l = do {
     sen \<leftarrow> node_is_sentinel l node;
     if sen then Some (node, l)
     else do {
       tmp \<leftarrow> node_get_next l node;
       d \<leftarrow> node_get_data l node;
       let l = free_element l d;
       l \<leftarrow> node_free node l;
       list_free_loop fuel tmp l
     }
   }"

definition list_free :: "'a clist \<Rightarrow> 'a clist option" where
  "list_free l = do {
     node \<leftarrow> node_get_next l (front_sentinel l);
     (node, l) \<leftarrow> list_free_loop (brk l) node l;
     l \<leftarrow> node_free node l;
     node_free (front_sentinel l) l
   }"

text \<open>\<^verbatim>\<open>ht_to_list\<close> of \<^verbatim>\<open>hash_table.c\<close> prepends every entry's data to a new list.\<close>

definition ht_to_list :: "'a ht \<Rightarrow> 'a clist option" where
  "ht_to_list h = do {
     l \<leftarrow> list_new 0 [];
     ht_for_each h (\<lambda>key d l. list_add l (Some d)) l
   }"

subsection \<open>The sequence a list object stands for\<close>

definition node_datas :: "'a clist \<Rightarrow> addr list \<Rightarrow> 'a option option list" where
  "node_datas l ps = map (node_get_data l) ps"

definition node_nexts :: "'a clist \<Rightarrow> addr list \<Rightarrow> addr option list" where
  "node_nexts l ps = map (node_get_next l) ps"

definition node_sents :: "'a clist \<Rightarrow> addr list \<Rightarrow> bool option list" where
  "node_sents l ps = map (node_is_sentinel l) ps"

text \<open>
  \<open>clist_at l ps xs\<close>: the nodes of \<open>l\<close> are, in order, at the addresses \<open>ps\<close> (both
  sentinels included) and their data are \<open>xs\<close>. \<open>cursor_ok\<close>: the cursor points at the node
  whose position it remembers.
\<close>

definition clist_at :: "'a clist \<Rightarrow> addr list \<Rightarrow> 'a option list \<Rightarrow> bool" where
  "clist_at l ps xs \<longleftrightarrow>
     distinct ps \<and> (\<forall>p\<in>set ps. p < brk l) \<and> ps \<noteq> [] \<and> hd ps = front_sentinel l \<and>
     node_datas l ps = map Some (None # xs @ [None]) \<and>
     node_nexts l (butlast ps) = map Some (tl ps) \<and>
     node_sents l ps = map Some (True # replicate (length xs) False @ [True]) \<and>
     size_of l = length xs \<and> length xs + 2 < 2 ^ 32"

definition cursor_ok :: "'a clist \<Rightarrow> addr list \<Rightarrow> bool" where
  "cursor_ok l ps \<longleftrightarrow> unat (curpos l) < length ps \<and> cursor l = ps ! unat (curpos l)"

definition clist_repr :: "'a clist \<Rightarrow> 'a option list \<Rightarrow> bool" where
  "clist_repr l xs \<longleftrightarrow> (\<exists>ps. clist_at l ps xs \<and> cursor_ok l ps)"

lemma clist_at_length: "clist_at l ps xs \<Longrightarrow> length ps = length xs + 2"
  unfolding clist_at_def node_datas_def
  by (metis (no_types, lifting) add_2_eq_Suc' length_Cons length_append_singleton length_map)

lemma clist_at_next:
  assumes "clist_at l ps xs" and "i < length xs + 1"
  shows "node_get_next l (ps ! i) = Some (ps ! Suc i)"
proof -
  have len: "length ps = length xs + 2" by (rule clist_at_length [OF assms(1)])
  from assms(1) have "map (node_get_next l) (butlast ps) = map Some (tl ps)"
    by (simp add: clist_at_def node_nexts_def)
  then have "map (node_get_next l) (butlast ps) ! i = map Some (tl ps) ! i" by simp
  with len assms(2) show ?thesis by (simp add: nth_butlast nth_tl)
qed

lemma clist_at_data:
  assumes "clist_at l ps xs" and "i < length xs + 2"
  shows "node_get_data l (ps ! i) = Some ((None # xs @ [None]) ! i)"
proof -
  have len: "length ps = length xs + 2" by (rule clist_at_length [OF assms(1)])
  from assms(1) have "map (node_get_data l) ps ! i = map Some (None # xs @ [None]) ! i"
    by (simp add: clist_at_def node_datas_def)
  with len assms(2) show ?thesis by (simp del: list.map)
qed

lemma clist_at_sent:
  assumes "clist_at l ps xs" and "i < length xs + 2"
  shows "node_is_sentinel l (ps ! i) = Some (i = 0 \<or> i = length xs + 1)"
proof -
  have len: "length ps = length xs + 2" by (rule clist_at_length [OF assms(1)])
  from assms(1) have "map (node_is_sentinel l) ps ! i
      = map Some (True # replicate (length xs) False @ [True]) ! i"
    by (simp add: clist_at_def node_sents_def)
  with len assms(2) show ?thesis
    by (auto simp: nth_Cons nth_append simp del: list.map split: nat.splits)
qed

lemma advance_at:
  "clist_at l ps xs \<Longrightarrow> i + k < length xs + 2 \<Longrightarrow> advance l k (ps ! i) = Some (ps ! (i + k))"
  by (induction k arbitrary: i) (auto simp: clist_at_next)

text \<open>An access reaches the node of its position and leaves the cursor there.\<close>

lemma list_get_node_at:
  assumes at: "clist_at l ps xs" and cur: "cursor_ok l ps" and n: "unat n < length xs + 2"
  shows "list_get_node l n = Some (ps ! unat n, l\<lparr>cursor := ps ! unat n, curpos := n\<rparr>)"
proof (cases "curpos l \<le> n")
  case True
  then have "unat (n - curpos l) = unat n - unat (curpos l)" "unat (curpos l) \<le> unat n"
    by (simp_all add: unat_sub word_le_nat_alt)
  with at n have "advance l (unat (n - curpos l)) (ps ! unat (curpos l)) = Some (ps ! unat n)"
    by (simp add: advance_at)
  with True cur show ?thesis by (simp add: list_get_node_def cursor_ok_def)
next
  case False
  from at have "front_sentinel l = ps ! 0" by (metis clist_at_def hd_conv_nth)
  with False at n show ?thesis by (simp add: list_get_node_def advance_at [where i = 0, simplified])
qed

lemma clist_at_cursor [simp]:
  "clist_at (l\<lparr>cursor := c, curpos := n\<rparr>) ps xs = clist_at l ps xs"
  by (simp add: clist_at_def node_datas_def node_nexts_def node_sents_def node_get_data_def [abs_def]
      node_get_next_def [abs_def] node_is_sentinel_def [abs_def])

lemma cursor_ok_set: "unat n < length ps \<Longrightarrow> cursor_ok (l\<lparr>cursor := ps ! unat n, curpos := n\<rparr>) ps"
  by (simp add: cursor_ok_def)

lemma clist_repr_size: "clist_repr l xs \<Longrightarrow> list_size l = length xs"
  by (auto simp: clist_repr_def clist_at_def list_size_def)

lemma list_get_repr:
  assumes "clist_repr l xs" and "unat n < length xs + 2"
  shows "\<exists>l'. list_get l n = Some ((None # xs @ [None]) ! unat n, l') \<and> clist_repr l' xs"
proof -
  from assms(1) obtain ps where at: "clist_at l ps xs" and cur: "cursor_ok l ps"
    by (auto simp: clist_repr_def)
  let ?l = "l\<lparr>cursor := ps ! unat n, curpos := n\<rparr>"
  have "list_get l n = Some ((None # xs @ [None]) ! unat n, ?l)"
    using list_get_node_at [OF at cur assms(2)] clist_at_data [of ?l ps xs "unat n"] at assms(2)
    by (simp add: list_get_def)
  moreover have "clist_repr ?l xs"
    using at assms(2) clist_at_length [OF at] cursor_ok_set [of n ps l]
    by (auto simp: clist_repr_def simp del: cursor_ok_def)
  ultimately show ?thesis by blast
qed

text \<open>Introduction of \<open>clist_at\<close> with the links stated position by position.\<close>

lemma clist_atI:
  assumes "distinct ps" and "\<And>p. p \<in> set ps \<Longrightarrow> p < brk l" and "hd ps = front_sentinel l"
    and "length ps = length xs + 2"
    and "node_datas l ps = map Some (None # xs @ [None])"
    and "node_sents l ps = map Some (True # replicate (length xs) False @ [True])"
    and "\<And>i. i < length xs + 1 \<Longrightarrow> node_get_next l (ps ! i) = Some (ps ! Suc i)"
    and "size_of l = length xs" and "length xs + 2 < 2 ^ 32"
  shows "clist_at l ps xs"
proof -
  have "node_nexts l (butlast ps) = map Some (tl ps)"
    by (rule nth_equalityI) (use assms(4,7) in \<open>auto simp: node_nexts_def nth_butlast nth_tl\<close>)
  with assms show ?thesis unfolding clist_at_def by force
qed

text \<open>The common tail of \<^verbatim>\<open>list_insert\<close> and \<^verbatim>\<open>list_add\<close>: a new node linked in after another.\<close>

definition link_after :: "addr \<Rightarrow> 'a option \<Rightarrow> 'a clist \<Rightarrow> 'a clist option" where
  "link_after previous element l = do {
     let (tmp, l) = node_new element 0 l;
     nxt \<leftarrow> node_get_next l previous;
     l \<leftarrow> node_set_next tmp nxt l;
     l \<leftarrow> node_set_next previous tmp l;
     Some (l\<lparr>size_of := size_of l + 1\<rparr>)
   }"

lemma link_after_at:
  assumes at: "clist_at l ps xs" and j: "j \<le> length xs" and bound: "length xs + 3 < 2 ^ 32"
  shows "\<exists>l'. link_after (ps ! j) x l = Some l' \<and>
    clist_at l' (ins_at (Suc j) (brk l) ps) (ins_at j x xs) \<and>
    cursor l' = cursor l \<and> curpos l' = curpos l"
proof -
  let ?p = "ps ! j" and ?a = "brk l" and ?ps = "ins_at (Suc j) (brk l) ps"
  have len: "length ps = length xs + 2" by (rule clist_at_length [OF at])
  have lt: "\<And>p. p \<in> set ps \<Longrightarrow> p < brk l" and dist: "distinct ps"
    using at by (auto simp: clist_at_def)
  have pin: "?p \<in> set ps" using len j by simp
  from clist_at_next [OF at, of j] j obtain n where
    n: "nodes l ?p = Some n" "next_node n = Some (ps ! Suc j)"
    by (auto simp: node_get_next_def bind_Some_iff)
  have neq: "?p \<noteq> ?a" "?a \<notin> set ps" using lt [OF pin] lt by auto
  let ?l = "l\<lparr>nodes := (nodes l)(?a \<mapsto> \<lparr>node_data = x, next_node = Some (ps ! Suc j), is_sentinel = 0\<rparr>,
                                ?p \<mapsto> n\<lparr>next_node := Some ?a\<rparr>),
              brk := Suc ?a, size_of := Suc (size_of l)\<rparr>"
  have run: "link_after ?p x l = Some ?l"
    using n neq by (simp add: link_after_def node_new_def node_get_next_def node_set_next_def)
  have d: "node_get_data ?l r = (if r = ?a then Some x else node_get_data l r)" for r
    using n neq by (simp add: node_get_data_def)
  have t: "node_is_sentinel ?l r = (if r = ?a then Some False else node_is_sentinel l r)" for r
    using n neq by (simp add: node_is_sentinel_def)
  have nx: "node_get_next ?l r = (if r = ?p then Some ?a
      else if r = ?a then Some (ps ! Suc j) else node_get_next l r)" for r
    using n neq by (simp add: node_get_next_def)
  have "clist_at ?l ?ps (ins_at j x xs)"
  proof (rule clist_atI)
    show "distinct ?ps" using dist neq by (simp add: distinct_ins_at)
    show "p < brk ?l" if "p \<in> set ?ps" for p using that lt by (auto simp: set_ins_at less_Suc_eq)
    show "hd ?ps = front_sentinel ?l"
      using at by (cases ps) (auto simp: clist_at_def ins_at_def)
    show "length ?ps = length (ins_at j x xs) + 2" using len by simp
    have "map (node_get_data ?l) ps = map (node_get_data l) ps"
      and "map (node_is_sentinel ?l) ps = map (node_is_sentinel l) ps"
      using neq by (auto simp: d t)
    moreover have "map (node_get_data l) ps = map Some (None # xs @ [None])"
      and "map (node_is_sentinel l) ps = map Some (True # replicate (length xs) False @ [True])"
      using at by (simp_all add: clist_at_def node_datas_def node_sents_def)
    ultimately show "node_datas ?l ?ps = map Some (None # ins_at j x xs @ [None])"
      and "node_sents ?l ?ps = map Some (True # replicate (length (ins_at j x xs)) False @ [True])"
      using j by (simp_all add: node_datas_def node_sents_def map_ins_at d t ins_at_Cons
          ins_at_append ins_at_replicate del: replicate_Suc)
    show "node_get_next ?l (?ps ! i) = Some (?ps ! Suc i)" if "i < length (ins_at j x xs) + 1" for i
    proof -
      have inj: "ps ! m = ps ! k \<longleftrightarrow> m = k" if "m < length ps" "k < length ps" for m k
        using dist that by (simp add: nth_eq_iff_index_eq)
      have na: "ps ! m \<noteq> ?a" if "m < length ps" for m using neq(2) that by (metis nth_mem)
      consider "i < j" | "i = j" | "i = Suc j" | "i > Suc j" by linarith
      then show ?thesis
        using that j len clist_at_next [OF at, of i] clist_at_next [OF at, of "i - 1"]
        by cases (simp_all add: nx nth_ins_at inj na neq neq(1) [symmetric], linarith?)
    qed
    show "size_of ?l = length (ins_at j x xs)" using at by (simp add: clist_at_def)
    show "length (ins_at j x xs) + 2 < 2 ^ 32" using bound by simp
  qed
  with run show ?thesis by auto
qed

lemma list_insert_link:
  "list_insert l n x = Option.bind (list_get_node l (n - 1)) (\<lambda>(previous, l). link_after previous x l)"
  by (simp add: list_insert_def link_after_def)

lemma list_add_link: "list_add l x = link_after (front_sentinel l) x l"
  by (simp add: list_add_def link_after_def node_new_def node_set_next_def Let_def
      cong: if_cong)

lemma clist_at_front: "clist_at l ps xs \<Longrightarrow> ps ! 0 = front_sentinel l"
  by (metis clist_at_def hd_conv_nth)

text \<open>\<^verbatim>\<open>list_insert\<close> at position \<open>n\<close> (from 1) inserts before the element now there.\<close>

lemma list_insert_repr:
  assumes "clist_repr l xs" and n: "1 \<le> unat n" "unat n \<le> length xs + 1"
    and bound: "length xs + 3 < 2 ^ 32"
  shows "\<exists>l'. list_insert l n x = Some l' \<and> clist_repr l' (ins_at (unat n - 1) x xs)"
proof -
  from assms(1) obtain ps where at: "clist_at l ps xs" and cur: "cursor_ok l ps"
    by (auto simp: clist_repr_def)
  have n1: "unat (n - 1) = unat n - 1"
    using n(1) by (metis unat_1 unat_sub word_le_nat_alt)
  let ?l = "l\<lparr>cursor := ps ! unat (n - 1), curpos := n - 1\<rparr>"
  have len: "length ps = length xs + 2" by (rule clist_at_length [OF at])
  have get: "list_get_node l (n - 1) = Some (ps ! unat (n - 1), ?l)"
    using list_get_node_at [OF at cur, of "n - 1"] n n1 by simp
  have j: "unat (n - 1) \<le> length xs" using n n1 by simp
  obtain l' where l': "link_after (ps ! unat (n - 1)) x ?l = Some l'"
    "clist_at l' (ins_at (Suc (unat (n - 1))) (brk ?l) ps) (ins_at (unat (n - 1)) x xs)"
    "cursor l' = cursor ?l" "curpos l' = curpos ?l"
    using link_after_at [of ?l ps xs "unat (n - 1)" x] at j bound by (metis clist_at_cursor)
  have "cursor_ok l' (ins_at (Suc (unat (n - 1))) (brk ?l) ps)"
    using l'(3,4) n n1 len by (simp add: cursor_ok_def nth_ins_at)
  with l' get n1 show ?thesis by (auto simp: list_insert_link clist_repr_def)
qed

lemma list_append_repr:
  assumes "clist_repr l xs" and bound: "length xs + 3 < 2 ^ 32"
  shows "\<exists>l'. list_append l x = Some l' \<and> clist_repr l' (xs @ [x])"
proof -
  have "unat (of_nat (length xs + 1) :: 32 word) = length xs + 1"
    using bound by (simp add: unat_of_nat del: of_nat_Suc of_nat_add)
  with list_insert_repr [OF assms(1), of "of_nat (length xs + 1)" x] bound
  show ?thesis
    by (simp add: list_append_def clist_repr_size [OF assms(1)] ins_at_def del: of_nat_Suc of_nat_add)
qed

text \<open>
  \<^verbatim>\<open>list_add\<close> moves every element one position up and leaves the cursor where it was: the
  representation is kept when the cursor is still at the front sentinel.
\<close>

lemma list_add_repr:
  assumes "clist_repr l xs" and c: "curpos l = 0" and bound: "length xs + 3 < 2 ^ 32"
  shows "\<exists>l'. list_add l x = Some l' \<and> clist_repr l' (x # xs) \<and> curpos l' = 0"
proof -
  from assms(1) obtain ps where at: "clist_at l ps xs" and cur: "cursor_ok l ps"
    by (auto simp: clist_repr_def)
  obtain l' where l': "link_after (ps ! 0) x l = Some l'"
    "clist_at l' (ins_at (Suc 0) (brk l) ps) (ins_at 0 x xs)"
    "cursor l' = cursor l" "curpos l' = curpos l"
    using link_after_at [OF at, of 0 x] bound by auto
  have "cursor_ok l' (ins_at (Suc 0) (brk l) ps)"
    using l'(3,4) c cur clist_at_length [OF at] by (simp add: cursor_ok_def nth_ins_at)
  with l' c show ?thesis
    by (auto simp: list_add_link clist_at_front [OF at] clist_repr_def ins_at_def)
qed

lemma list_new_repr: "\<exists>l. list_new 0 [] = Some l \<and> clist_repr l [] \<and> curpos l = 0"
proof -
  let ?l = "\<lparr>nodes = [Suc 0 \<mapsto> \<lparr>node_data = None, next_node = None, is_sentinel = 1\<rparr>,
               0 \<mapsto> \<lparr>node_data = None, next_node = Some (Suc 0), is_sentinel = 1\<rparr>],
     brk = 2, front_sentinel = 0, cursor = 0, size_of = 0, curpos = 0, list_flags = 0, freed_elements = []\<rparr>"
  have "list_new 0 [] = Some ?l"
    by (simp add: list_new_def node_new_def node_set_next_def SENTINEL_NODE_def LI_ELEM_def
        numeral_2_eq_2)
  moreover have "clist_at ?l [0, 1] []"
    by (rule clist_atI) (auto simp: node_datas_def node_sents_def node_get_data_def
        node_is_sentinel_def node_get_next_def)
  moreover have "cursor_ok ?l [0, 1]" by (simp add: cursor_ok_def)
  ultimately show ?thesis by (auto simp: clist_repr_def)
qed

text \<open>A loop over the indices \<open>i, \<dots>, i + n - 1\<close> visits those elements in order.\<close>

lemma list_fold_from_repr:
  assumes "clist_repr l xs" and "i + n \<le> length xs + 2"
    and "ht_for_each (map (\<lambda>d. ([], d)) (take n (drop i (None # xs @ [None])))) (\<lambda>_. f) s = Some s'"
  shows "\<exists>l'. list_fold_from l i n f s = Some (s', l') \<and> clist_repr l' xs"
  using assms
proof (induction n arbitrary: l i s)
  case 0
  then show ?case by simp
next
  case (Suc n)
  let ?ys = "None # xs @ [None]"
  have i: "i < length ?ys" using Suc.prems(2) by simp
  have "length xs + 2 < 2 ^ 32" using Suc.prems(1) by (auto simp: clist_repr_def clist_at_def)
  with i have w: "unat (of_nat i :: 32 word) = i" by (simp add: unat_of_nat)
  with list_get_repr [OF Suc.prems(1), of "of_nat i"] i obtain l1 where
    l1: "list_get l (of_nat i) = Some (?ys ! i, l1)" "clist_repr l1 xs" by auto
  have split: "take (Suc n) (drop i ?ys) = ?ys ! i # take n (drop (Suc i) ?ys)"
    using i by (simp only: Cons_nth_drop_Suc [symmetric] take_Suc_Cons)
  from Suc.prems(3) obtain s1 where s1: "f (?ys ! i) s = Some s1"
    "ht_for_each (map (\<lambda>d. ([], d)) (take n (drop (Suc i) ?ys))) (\<lambda>_. f) s1 = Some s'"
    unfolding split by (auto simp: bind_Some_iff)
  with Suc.IH [OF l1(2) _ s1(2)] Suc.prems(2) l1(1) show ?case by simp
qed

text \<open>The loops that start at 1 see exactly the elements, those that start at 0 the front
  sentinel's null pointer and all elements but the last.\<close>

abbreviation elem_calls :: "'a option list \<Rightarrow> 'a option ht" where
  "elem_calls ys \<equiv> map (\<lambda>d. ([], d)) ys"

lemma list_each_r_repr:
  assumes "clist_repr l xs" and "ht_for_each (elem_calls xs) (\<lambda>_. f) s = Some s'"
  shows "\<exists>l'. list_each_r l f s = Some (s', l') \<and> clist_repr l' xs"
  using list_fold_from_repr [OF assms(1), of 1 "length xs" f s s'] assms
  by (simp add: list_each_r_def clist_repr_size)

lemma list_to_array_repr:
  assumes "clist_repr l xs"
  shows "\<exists>l'. list_to_array l = Some (take (length xs) (None # xs), l') \<and> clist_repr l' xs"
proof -
  have "ht_for_each (elem_calls ys) (\<lambda>_ d array. Some (array @ [d])) acc = Some (acc @ ys)" for ys acc
    by (induction ys arbitrary: acc) auto
  from list_fold_from_repr [OF assms, of 0 "length xs", OF _ this [of _ "[]"]]
    take_append [of "length xs" "None # xs" "[None]"]
  show ?thesis by (simp add: list_to_array_def clist_repr_size [OF assms])
qed

lemma list_append_calls:
  assumes "clist_repr r ys" and "length ys + length zs + 2 < 2 ^ 32"
  shows "\<exists>r'. ht_for_each (elem_calls zs) (\<lambda>_ d r. list_append r (f d)) r = Some r'
    \<and> clist_repr r' (ys @ map f zs)"
  using assms
proof (induction zs arbitrary: r ys)
  case Nil
  then show ?case by simp
next
  case (Cons z zs)
  obtain r' where "list_append r (f z) = Some r'" "clist_repr r' (ys @ [f z])"
    using list_append_repr [OF Cons.prems(1), of "f z"] Cons.prems(2) by auto
  with Cons.IH [of r' "ys @ [f z]"] Cons.prems(2) show ?case by auto
qed

lemma list_map_r_repr:
  fixes f :: "'a option \<Rightarrow> 'b option"
  assumes "clist_repr l xs"
  shows "\<exists>r l'. list_map_r l f = Some (r, l') \<and> clist_repr r (map f xs) \<and> clist_repr l' xs"
proof -
  obtain r :: "'b clist" where r: "list_new 0 [] = Some r" "clist_repr r []" using list_new_repr by blast
  have "length xs + 2 < 2 ^ 32" using assms by (auto simp: clist_repr_def clist_at_def)
  with list_append_calls [OF r(2), of xs f] obtain r' where
    r': "ht_for_each (elem_calls xs) (\<lambda>_ d r. list_append r (f d)) r = Some r'"
    "clist_repr r' (map f xs)" by auto
  with list_fold_from_repr [OF assms, of 1 "length xs" "\<lambda>d r. list_append r (f d)" r r'] r(1)
  show ?thesis by (auto simp: list_map_r_def clist_repr_size [OF assms])
qed

lemma list_append_list_repr:
  assumes "clist_repr l1 ys" and "clist_repr l2 xs" and "length ys + length xs + 2 < 2 ^ 32"
  shows "\<exists>l1' l2'. list_append_list l1 l2 = Some (l1', l2') \<and> clist_repr l1' (ys @ xs) \<and> clist_repr l2' xs"
proof -
  from list_append_calls [OF assms(1), of xs id] assms(3) obtain r where
    "ht_for_each (elem_calls xs) (\<lambda>_ d r. list_append r d) l1 = Some r" "clist_repr r (ys @ xs)"
    by auto
  with list_fold_from_repr [OF assms(2), of 1 "length xs" "\<lambda>d r. list_append r d" l1 r]
  show ?thesis by (auto simp: list_append_list_def clist_repr_size [OF assms(2)])
qed

lemma list_copy_repr:
  fixes l :: "'a clist"
  assumes "clist_repr l xs"
  shows "\<exists>n l'. list_copy l = Some (n, l') \<and> clist_repr n xs \<and> clist_repr l' xs"
proof -
  obtain r :: "'a clist" where r: "list_new 0 [] = Some r" "clist_repr r []" using list_new_repr by blast
  have "length xs + 2 < 2 ^ 32" using assms by (auto simp: clist_repr_def clist_at_def)
  with list_append_list_repr [OF r(2) assms] r(1) show ?thesis by (auto simp: list_copy_def)
qed

text \<open>\<^verbatim>\<open>ht_to_list\<close>: the data in the reverse order of insertion.\<close>

lemma list_add_calls:
  assumes "clist_repr l xs" and "curpos l = 0" and "length xs + length h + 2 < 2 ^ 32"
  shows "\<exists>l'. ht_for_each h (\<lambda>key d l. list_add l (Some d)) l = Some l' \<and>
    clist_repr l' (rev (map (Some \<circ> snd) h) @ xs) \<and> curpos l' = 0"
  using assms
proof (induction h arbitrary: l xs)
  case Nil
  then show ?case by simp
next
  case (Cons e h)
  obtain l' where "list_add l (Some (snd e)) = Some l'" "clist_repr l' (Some (snd e) # xs)" "curpos l' = 0"
    using list_add_repr [OF Cons.prems(1,2), of "Some (snd e)"] Cons.prems(3) by auto
  with Cons.IH [of l' "Some (snd e) # xs"] Cons.prems(3) show ?case by (cases e) auto
qed

lemma ht_to_list_repr:
  fixes h :: "'a ht"
  assumes "length h + 2 < 2 ^ 32"
  shows "\<exists>l. ht_to_list h = Some l \<and> clist_repr l (rev (map (Some \<circ> snd) h))"
proof -
  obtain r :: "'a clist" where "list_new 0 [] = Some r" "clist_repr r []" "curpos r = 0"
    using list_new_repr by blast
  with list_add_calls [of r "[]" h] assms show ?thesis by (auto simp: ht_to_list_def)
qed

text \<open>\<^verbatim>\<open>list_remove\<close> unlinks and frees the node of position \<open>n\<close>.\<close>

lemma free_element_fields [simp]:
  "nodes (free_element l d) = nodes l" "brk (free_element l d) = brk l"
  "front_sentinel (free_element l d) = front_sentinel l" "cursor (free_element l d) = cursor l"
  "curpos (free_element l d) = curpos l" "size_of (free_element l d) = size_of l"
  by (simp_all add: free_element_def)

text \<open>The common part of \<^verbatim>\<open>list_remove\<close> and \<^verbatim>\<open>list_remove_value\<close>.\<close>

lemma unlink_next_at:
  assumes at: "clist_at l ps xs" and j: "j < length xs"
    and l': "nodes l' = (nodes l)(ps ! j \<mapsto> n\<lparr>next_node := Some (ps ! (j + 2))\<rparr>, ps ! Suc j := None)"
      "nodes l (ps ! j) = Some n" "brk l' = brk l" "front_sentinel l' = front_sentinel l"
      "size_of l' = size_of l - 1"
  shows "clist_at l' (del_at (Suc j) ps) (del_at j xs)"
proof -
  let ?p = "ps ! j" and ?t = "ps ! Suc j" and ?ps = "del_at (Suc j) ps"
  have len: "length ps = length xs + 2" by (rule clist_at_length [OF at])
  have dist: "distinct ps" and lt: "\<And>p. p \<in> set ps \<Longrightarrow> p < brk l"
    using at by (auto simp: clist_at_def)
  have inj: "ps ! m = ps ! k \<longleftrightarrow> m = k" if "m < length ps" "k < length ps" for m k
    using dist that by (simp add: nth_eq_iff_index_eq)
  have pt: "?p \<noteq> ?t" using inj j len by simp
  have tnot: "?t \<notin> set ?ps" using del_at_notin [OF dist, of "Suc j"] j len by simp
  have d: "node_get_data l' r = node_get_data l r" "node_is_sentinel l' r = node_is_sentinel l r"
    if "r \<noteq> ?t" for r
    using that l'(1,2) pt by (auto simp: node_get_data_def node_is_sentinel_def)
  have nx: "node_get_next l' r = (if r = ?p then Some (ps ! (j + 2)) else node_get_next l r)"
    if "r \<noteq> ?t" for r
    using that l'(1,2) pt by (auto simp: node_get_next_def)
  show ?thesis
  proof (rule clist_atI)
    show "distinct ?ps" using dist by (rule distinct_del_at)
    show "p < brk l'" if "p \<in> set ?ps" for p
      using that lt l'(3) set_del_at_subset by (metis subsetD)
    show "hd ?ps = front_sentinel l'"
      using at l'(4) by (cases ps) (auto simp: clist_at_def del_at_def)
    show "length ?ps = length (del_at j xs) + 2" using len j by simp
    have "map (node_get_data l') ?ps = map (node_get_data l) ?ps"
      "map (node_is_sentinel l') ?ps = map (node_is_sentinel l) ?ps"
      by (metis map_eq_conv d(1) tnot, metis map_eq_conv d(2) tnot)
    moreover have "map (node_get_data l) ps = map Some (None # xs @ [None])"
      and "map (node_is_sentinel l) ps = map Some (True # replicate (length xs) False @ [True])"
      using at by (simp_all add: clist_at_def node_datas_def node_sents_def)
    ultimately show "node_datas l' ?ps = map Some (None # del_at j xs @ [None])"
      and "node_sents l' ?ps = map Some (True # replicate (length (del_at j xs)) False @ [True])"
      using j by (simp_all add: node_datas_def node_sents_def map_del_at del_at_Cons
          del_at_append del_at_replicate del: replicate_Suc)
    show "node_get_next l' (?ps ! i) = Some (?ps ! Suc i)" if "i < length (del_at j xs) + 1" for i
    proof -
      consider "i < j" | "i = j" | "i > j" by linarith
      then show ?thesis
        using that j len clist_at_next [OF at, of i] clist_at_next [OF at, of "Suc i"]
        by cases (simp_all add: nx nth_del_at inj)
    qed
    show "size_of l' = length (del_at j xs)" using at j l'(5) by (simp add: clist_at_def)
    show "length (del_at j xs) + 2 < 2 ^ 32" using at j by (auto simp: clist_at_def)
  qed
qed

lemma list_remove_repr:
  assumes "clist_repr l xs" and n: "1 \<le> unat n" "unat n \<le> length xs"
  shows "\<exists>l'. list_remove l n = Some l' \<and> clist_repr l' (del_at (unat n - 1) xs)"
proof -
  from assms(1) obtain ps where at: "clist_at l ps xs" and cur: "cursor_ok l ps"
    by (auto simp: clist_repr_def)
  have n1: "unat (n - 1) = unat n - 1"
    using n(1) by (metis unat_1 unat_sub word_le_nat_alt)
  define j where "j = unat (n - 1)"
  have j: "j < length xs" and jn: "unat n - 1 = j" using n n1 by (simp_all add: j_def)
  let ?l = "l\<lparr>cursor := ps ! j, curpos := n - 1\<rparr>"
  have len: "length ps = length xs + 2" by (rule clist_at_length [OF at])
  have get: "list_get_node l (n - 1) = Some (ps ! j, ?l)"
    using list_get_node_at [OF at cur, of "n - 1"] j by (simp add: j_def)
  have at': "clist_at ?l ps xs" using at by simp
  obtain nd where nd: "nodes l (ps ! j) = Some nd" "next_node nd = Some (ps ! Suc j)"
    using clist_at_next [OF at, of j] j by (auto simp: node_get_next_def bind_Some_iff)
  obtain td where td: "nodes l (ps ! Suc j) = Some td" "next_node td = Some (ps ! (j + 2))"
    using clist_at_next [OF at, of "Suc j"] j by (auto simp: node_get_next_def bind_Some_iff)
  have neq: "ps ! j \<noteq> ps ! Suc j"
    using at j len by (simp add: clist_at_def nth_eq_iff_index_eq)
  obtain l' where l': "list_remove l n = Some l'"
    "nodes l' = (nodes l)(ps ! j \<mapsto> nd\<lparr>next_node := Some (ps ! (j + 2))\<rparr>, ps ! Suc j := None)"
    "brk l' = brk ?l" "front_sentinel l' = front_sentinel ?l" "size_of l' = size_of ?l - 1"
    "cursor l' = cursor ?l" "curpos l' = curpos ?l"
    using get nd td neq
    by (simp add: list_remove_def node_get_next_def node_set_next_def node_get_data_def node_free_def)
  have "clist_at l' (del_at (Suc j) ps) (del_at j xs)"
    using unlink_next_at [OF at' j _ _ l'(3-5), of nd] l'(2) nd(1) by simp
  moreover have "cursor_ok l' (del_at (Suc j) ps)"
    using l'(6,7) j len by (simp add: cursor_ok_def nth_del_at j_def [symmetric])
  ultimately show ?thesis using l'(1) jn by (auto simp: clist_repr_def)
qed

end
