(* ===== verification/Cutil_String.thy ===== *)
theory Cutil_String
  imports Cutil_List "HOL-Library.Sublist"
begin

text \<open>
  The string helpers of \<^verbatim>\<open>cutil/string2.c\<close> and \<^verbatim>\<open>fuse/util.c\<close>, over C strings without their
  terminating null character. The libc functions they call (\<^verbatim>\<open>strtok_r\<close>, \<^verbatim>\<open>strstr\<close>,
  \<^verbatim>\<open>vsnprintf\<close>, the POSIX \<^verbatim>\<open>basename\<close> and \<^verbatim>\<open>dirname\<close> of \<^verbatim>\<open>libgen.h\<close>) are modelled by what POSIX
  says of them. The result of a function that splits is an array of pointers, \<open>None\<close> being a
  slot that was never written.
\<close>

subsection \<open>Characters\<close>

text \<open>\<^verbatim>\<open>character_is_in_string\<close>: a loop to the end of the string.\<close>

fun character_is_in_string :: "char \<Rightarrow> cstring \<Rightarrow> bool" where
  "character_is_in_string c [] = False"
| "character_is_in_string c (x # str) = (if c = x then True else character_is_in_string c str)"

text \<open>\<^verbatim>\<open>strstripc\<close> looks at \<^verbatim>\<open>str[strlen(str) - 1]\<close>, which is outside an empty string.\<close>

definition strstripc :: "cstring \<Rightarrow> char \<Rightarrow> cstring option" where
  "strstripc str c =
     (if str = [] then None
      else if str ! (length str - 1) = c then Some (take (length str - 1) str) else Some str)"

definition strstrip :: "cstring \<Rightarrow> cstring option" where
  "strstrip str = strstripc str (CHR 0x0A)"

fun str_replace_char :: "cstring \<Rightarrow> char \<Rightarrow> char \<Rightarrow> cstring" where
  "str_replace_char [] from to = []"
| "str_replace_char (x # rep) from to = (if x = from then to else x) # str_replace_char rep from to"

definition string_have_extension :: "cstring \<Rightarrow> cstring \<Rightarrow> bool" where
  "string_have_extension filename extension =
     (let l = length filename; e = length extension
      in if l < e then False else extension = drop (l - e) filename)"

text \<open>\<^verbatim>\<open>get_character_count\<close> of \<^verbatim>\<open>util.c\<close>.\<close>

fun get_character_count :: "cstring \<Rightarrow> char \<Rightarrow> int" where
  "get_character_count [] c = 0"
| "get_character_count (x # str) c = (if x = c then 1 else 0) + get_character_count str c"

subsection \<open>Formatting into a growing buffer\<close>

text \<open>
  \<^verbatim>\<open>vsnprintf(buf, n, ...)\<close> of a formatted text: the first \<open>n - 1\<close> characters and a null
  character, the rest of the buffer unchanged; it returns the length of the whole text.
\<close>

definition vsnprintf :: "char list \<Rightarrow> nat \<Rightarrow> cstring \<Rightarrow> nat \<times> char list" where
  "vsnprintf buf n txt =
     (length txt,
      if n = 0 then buf
      else let w = take (n - 1) txt in w @ CHR 0x00 # drop (length w + 1) buf)"

definition HEURISTIC_SIZE :: nat where "HEURISTIC_SIZE = 64"

text \<open>
  The library's own \<^verbatim>\<open>asprintf\<close>: one try into 64 bytes, a second into a buffer of the right
  size. The result is the buffer and its text's length.
\<close>

definition asprintf :: "cstring \<Rightarrow> nat \<times> char list" where
  "asprintf txt =
     (let buf = replicate HEURISTIC_SIZE (CHR 0x00);
          (n, buf) = vsnprintf buf HEURISTIC_SIZE txt
      in if n \<ge> HEURISTIC_SIZE
         then let buf = buf @ replicate (n + 1 - length buf) (CHR 0x00)
              in (n, snd (vsnprintf buf (n + 1) txt))
         else (n, buf))"

text \<open>The C string a buffer holds.\<close>

definition c_str :: "char list \<Rightarrow> cstring" where
  "c_str buf = takeWhile (\<lambda>c. c \<noteq> CHR 0x00) buf"

lemma c_str_text: "CHR 0x00 \<notin> set txt \<Longrightarrow> c_str (txt @ CHR 0x00 # rest) = txt"
  unfolding c_str_def by (subst takeWhile_append2) auto

lemma asprintf_text:
  assumes "CHR 0x00 \<notin> set txt"
  shows "fst (asprintf txt) = length txt \<and> c_str (snd (asprintf txt)) = txt"
  using assms
  by (auto simp: asprintf_def vsnprintf_def HEURISTIC_SIZE_def Let_def c_str_text)

subsection \<open>Splitting\<close>

text \<open>
  \<^verbatim>\<open>strtok_r\<close>: skip the delimiters, take up to the next one, remember the text after it.
\<close>

definition strtok_r :: "cstring \<Rightarrow> cstring \<Rightarrow> (cstring \<times> cstring) option" where
  "strtok_r str delim =
     (let s = dropWhile (\<lambda>c. c \<in> set delim) str
      in if s = [] then None
         else Some (takeWhile (\<lambda>c. c \<notin> set delim) s, tl (dropWhile (\<lambda>c. c \<notin> set delim) s)))"

lemma strtok_r_shorter: "strtok_r str delim = Some (p, rest) \<Longrightarrow> length rest < length str"
proof -
  assume a: "strtok_r str delim = Some (p, rest)"
  let ?s = "dropWhile (\<lambda>c. c \<in> set delim) str"
  from a have "?s \<noteq> []" and "rest = tl (dropWhile (\<lambda>c. c \<notin> set delim) ?s)"
    by (auto simp: strtok_r_def Let_def split: if_splits)
  moreover have "length (dropWhile (\<lambda>c. c \<notin> set delim) ?s) \<le> length ?s"
    and "length ?s \<le> length str"
    by (rule length_dropWhile_le)+
  ultimately show ?thesis by (cases "?s") (auto simp del: length_dropWhile_le)
qed

text \<open>The tokens that repeated calls return.\<close>

function tokens :: "cstring \<Rightarrow> cstring \<Rightarrow> cstring list" where
  "tokens str delim =
     (case strtok_r str delim of None \<Rightarrow> [] | Some (p, rest) \<Rightarrow> p # tokens rest delim)"
  by pat_completeness auto
termination
  by (relation "measure (\<lambda>(str, delim). length str)") (auto simp: strtok_r_shorter)

declare tokens.simps [simp del]

text \<open>\<^verbatim>\<open>while (p != NULL) \{ list_add(li, strdup(p)); p = strtok_r(...); \}\<close>\<close>

function string_split_loop :: "cstring \<Rightarrow> cstring \<Rightarrow> cstring clist \<Rightarrow> cstring clist option" where
  "string_split_loop strw delim li =
     (case strtok_r strw delim of
        None \<Rightarrow> Some li
      | Some (p, rest) \<Rightarrow> do {
          li \<leftarrow> list_add li (Some p);
          string_split_loop rest delim li
        })"
  by pat_completeness auto
termination
  by (relation "measure (\<lambda>(strw, delim, li). length strw)") (auto simp: strtok_r_shorter)

declare string_split_loop.simps [simp del]

text \<open>
  The second half of both splitting functions: an array filled from its end with the
  elements of the list, which \<^verbatim>\<open>list_add\<close> collected in reverse.
\<close>

definition fill_array :: "cstring clist \<Rightarrow> (nat \<times> cstring option list) option" where
  "fill_array li = do {
     let s = list_size li;
     ((i, buf), li) \<leftarrow> list_fold_from li 1 s
        (\<lambda>d (i, buf). Some (i + 1, buf[s - i := d])) (1, replicate s None);
     Some (s, buf)
   }"

definition string_split :: "cstring \<Rightarrow> cstring \<Rightarrow> (nat \<times> cstring option list) option" where
  "string_split str delim = do {
     li \<leftarrow> list_new 0 [];
     li \<leftarrow> string_split_loop str delim li;
     fill_array li
   }"

text \<open>\<^verbatim>\<open>strstr\<close>: the text from the first occurrence on, with the text before it.\<close>

fun strstr :: "cstring \<Rightarrow> cstring \<Rightarrow> (cstring \<times> cstring) option" where
  "strstr str needle =
     (if prefix needle str then Some ([], str)
      else case str of
        [] \<Rightarrow> None
      | c # str \<Rightarrow> map_option (\<lambda>(before, from). (c # before, from)) (strstr str needle))"

declare strstr.simps [simp del]

text \<open>
  \<^verbatim>\<open>string_split2\<close> cuts at every occurrence of the whole delimiter. With an empty delimiter
  its loop never ends, so it is a function that may have no result.
\<close>

partial_function (option) string_split2_loop ::
  "cstring \<Rightarrow> cstring \<Rightarrow> cstring clist \<Rightarrow> cstring clist option" where
  "string_split2_loop str_ptr1 delim li =
     (case strstr str_ptr1 delim of
        None \<Rightarrow> list_add li (Some str_ptr1)
      | Some (before, str_ptr2) \<Rightarrow> do {
          li \<leftarrow> list_add li (Some before);
          string_split2_loop (drop (length delim) str_ptr2) delim li
        })"

definition string_split2 :: "cstring \<Rightarrow> cstring \<Rightarrow> (nat \<times> cstring option list) option" where
  "string_split2 str delim = do {
     li \<leftarrow> list_new 0 [];
     li \<leftarrow> string_split2_loop str delim li;
     fill_array li
   }"

subsection \<open>What the splitting functions return\<close>

lemma fill_array_calls:
  assumes "i + length ds = n + 1" and "length buf = n" and "1 \<le> i"
  shows "\<exists>buf'. ht_for_each (elem_calls ds) (\<lambda>_ d (i, buf). Some (i + 1, buf[n - i := d])) (i, buf)
      = Some (n + 1, buf') \<and> length buf' = n \<and>
      (\<forall>k < n. buf' ! k = (if n - k \<ge> i then ds ! (n - k - i) else buf ! k))"
  using assms
proof (induction ds arbitrary: i buf)
  case Nil
  then show ?case by auto
next
  case (Cons d ds)
  have "\<exists>buf'. ht_for_each (elem_calls ds) (\<lambda>_ d (i, buf). Some (i + 1, buf[n - i := d]))
      (i + 1, buf[n - i := d]) = Some (n + 1, buf') \<and> length buf' = n \<and>
      (\<forall>k < n. buf' ! k = (if n - k \<ge> i + 1 then ds ! (n - k - (i + 1)) else buf[n - i := d] ! k))"
    by (rule Cons.IH) (use Cons.prems in auto)
  then obtain buf' where b: "ht_for_each (elem_calls ds)
      (\<lambda>_ d (i, buf). Some (i + 1, buf[n - i := d])) (i + 1, buf[n - i := d]) = Some (n + 1, buf')"
    "length buf' = n" "\<forall>k < n. buf' ! k =
       (if n - k \<ge> i + 1 then ds ! (n - k - (i + 1)) else buf[n - i := d] ! k)" by blast
  have "buf' ! k = (if n - k \<ge> i then (d # ds) ! (n - k - i) else buf ! k)" if k: "k < n" for k
  proof -
    consider "n - k \<ge> i + 1" | "n - k = i" | "n - k < i" by linarith
    then show ?thesis
    proof cases
      case 1
      then have "n - k - i = Suc (n - k - (i + 1))" by simp
      with 1 b(3) k show ?thesis by simp
    next
      case 2
      with k have "n - i = k" by simp
      with 2 b(3) k Cons.prems show ?thesis by (simp add: nth_list_update)
    next
      case 3
      with b(3) k Cons.prems show ?thesis by (auto simp: nth_list_update)
    qed
  qed
  with b show ?case by auto
qed

lemma fill_array_repr:
  assumes "clist_repr li (rev xs)"
  shows "fill_array li = Some (length xs, xs)"
proof -
  let ?n = "length xs"
  have size: "list_size li = ?n" using clist_repr_size [OF assms] by simp
  obtain buf where b: "ht_for_each (elem_calls (rev xs)) (\<lambda>_ d (i, buf). Some (i + 1, buf[?n - i := d]))
      (1, replicate ?n None) = Some (?n + 1, buf)" "length buf = ?n"
      "\<forall>k < ?n. buf ! k = (if ?n - k \<ge> 1 then rev xs ! (?n - k - 1) else replicate ?n None ! k)"
    using fill_array_calls [of 1 "rev xs" ?n "replicate ?n None"] by auto
  have "buf = xs"
    by (rule nth_equalityI) (use b in \<open>auto simp: rev_nth\<close>)
  with list_fold_from_repr [OF assms, of 1 ?n] b(1) show ?thesis
    by (fastforce simp: fill_array_def size)
qed

lemma string_split_loop_repr:
  assumes "clist_repr li xs" and "curpos li = 0" and "length xs + length (tokens str delim) + 2 < 2 ^ 32"
  shows "\<exists>li'. string_split_loop str delim li = Some li' \<and>
    clist_repr li' (rev (map Some (tokens str delim)) @ xs) \<and> curpos li' = 0"
  using assms
proof (induction str delim li arbitrary: xs rule: string_split_loop.induct)
  case (1 str delim li)
  show ?case
  proof (cases "strtok_r str delim")
    case None
    with "1.prems" show ?thesis
      by (simp add: string_split_loop.simps [of str] tokens.simps [of str])
  next
    case (Some pr)
    obtain p rest where pr: "pr = (p, rest)" by fastforce
    with Some have tk: "tokens str delim = p # tokens rest delim"
      by (simp add: tokens.simps [of str])
    obtain li1 where li1: "list_add li (Some p) = Some li1" "clist_repr li1 (Some p # xs)" "curpos li1 = 0"
      using list_add_repr [OF "1.prems"(1,2), of "Some p"] "1.prems"(3) tk by auto
    with "1.IH" [OF Some pr [symmetric] li1] "1.prems"(3) tk show ?thesis
      by (auto simp: string_split_loop.simps [of str] Some pr)
  qed
qed

text \<open>\<^verbatim>\<open>string_split\<close> returns the tokens in their order.\<close>

lemma string_split_tokens:
  assumes "length (tokens str delim) + 2 < 2 ^ 32"
  shows "string_split str delim = Some (length (tokens str delim), map Some (tokens str delim))"
proof -
  obtain r :: "cstring clist" where r: "list_new 0 [] = Some r" "clist_repr r []" "curpos r = 0"
    using list_new_repr by blast
  with string_split_loop_repr [OF r(2,3), of str delim] assms obtain li where
    "string_split_loop str delim r = Some li" "clist_repr li (rev (map Some (tokens str delim)))"
    by auto
  with r fill_array_repr [of li "map Some (tokens str delim)"] show ?thesis
    by (simp add: string_split_def)
qed

end
