(* ===== verification/Cutil_Props.thy ===== *)
theory Cutil_Props
  imports Cutil_String
begin

text \<open>
  The contracts of the utility library \<^verbatim>\<open>cutil\<close>: hash tables as maps with unique keys, linked
  lists as sequences numbered from 1, and the splitting of strings.
\<close>

subsection \<open>Removal of values and of whole lists\<close>

text \<open>What \<^verbatim>\<open>list_remove_value\<close> leaves: the element behind a removed one is not looked at.\<close>

fun skip_remove :: "'a \<Rightarrow> 'a list \<Rightarrow> 'a list" where
  "skip_remove v [] = []"
| "skip_remove v [x] = (if x = v then [] else [x])"
| "skip_remove v (x # y # ys) = (if x = v then y # skip_remove v ys else x # skip_remove v (y # ys))"

lemma clist_at_node:
  assumes "clist_at l ps xs" and "i < length xs + 1"
  obtains n where "nodes l (ps ! i) = Some n" "next_node n = Some (ps ! Suc i)"
  using clist_at_next [OF assms] by (auto simp: node_get_next_def bind_Some_iff)

lemma unlink_value_at:
  assumes at: "clist_at l ps xs" and j: "j < length xs"
  shows "\<exists>l'. (do {
        let l = l\<lparr>size_of := size_of l - 1\<rparr>;
        nn \<leftarrow> node_get_next l (ps ! Suc j);
        l \<leftarrow> node_set_next (ps ! j) nn l;
        node_free (ps ! Suc j) l
      }) = Some l' \<and> clist_at l' (del_at (Suc j) ps) (del_at j xs)"
proof -
  obtain n where n: "nodes l (ps ! j) = Some n" by (rule clist_at_node [OF at, of j]) (use j in auto)
  obtain t where t: "nodes l (ps ! Suc j) = Some t" "next_node t = Some (ps ! (j + 2))"
    by (rule clist_at_node [OF at, of "Suc j"]) (use j in auto)
  have neq: "ps ! j \<noteq> ps ! Suc j"
    using at j clist_at_length [OF at] by (simp add: clist_at_def nth_eq_iff_index_eq)
  let ?l = "l\<lparr>size_of := size_of l - 1,
      nodes := (nodes l)(ps ! j \<mapsto> n\<lparr>next_node := Some (ps ! (j + 2))\<rparr>, ps ! Suc j := None)\<rparr>"
  have "clist_at ?l (del_at (Suc j) ps) (del_at j xs)"
    by (rule unlink_next_at [OF at j, where n = n]) (simp_all add: n)
  then show ?thesis
    using n t neq by (simp add: node_get_next_def node_set_next_def node_free_def)
qed

text \<open>One round of the loop at the node before \<open>x\<close>.\<close>

lemma remove_value_keep:
  assumes at: "clist_at l ps (as @ x # zs)" and x: "x \<noteq> v"
  shows "list_remove_value_loop (Suc f) v (ps ! length as) l = list_remove_value_loop f v (ps ! Suc (length as)) l"
  using clist_at_next [OF at, of "length as"] clist_at_sent [OF at, of "Suc (length as)"]
    clist_at_data [OF at, of "Suc (length as)"] x by (simp add: nth_append)

lemma remove_value_drop:
  assumes at: "clist_at l ps (as @ v # zs)"
  shows "\<exists>l'. clist_at l' (del_at (Suc (length as)) ps) (as @ zs) \<and>
    list_remove_value_loop (Suc f) v (ps ! length as) l =
      (if zs = [] then Some l' else list_remove_value_loop f v (del_at (Suc (length as)) ps ! Suc (length as)) l')"
proof -
  let ?ps = "del_at (Suc (length as)) ps"
  have del: "del_at (length as) (as @ v # zs) = as @ zs" by (simp add: del_at_def)
  obtain l' where l': "(do {
        let l = l\<lparr>size_of := size_of l - 1\<rparr>;
        nn \<leftarrow> node_get_next l (ps ! Suc (length as));
        l \<leftarrow> node_set_next (ps ! length as) nn l;
        node_free (ps ! Suc (length as)) l
      }) = Some l'" "clist_at l' ?ps (as @ zs)"
    using unlink_value_at [OF at, of "length as"] unfolding del by auto
  have same: "?ps ! length as = ps ! length as"
    using clist_at_length [OF at] by (simp add: nth_del_at)
  have "node_get_next l' (ps ! length as) = Some (?ps ! Suc (length as))"
    using clist_at_next [OF l'(2), of "length as"] by (simp add: same)
  moreover have "node_is_sentinel l' (?ps ! Suc (length as)) = Some (zs = [])"
    using clist_at_sent [OF l'(2), of "Suc (length as)"] by simp
  ultimately show ?thesis
    using clist_at_next [OF at, of "length as"] clist_at_sent [OF at, of "Suc (length as)"]
      clist_at_data [OF at, of "Suc (length as)"] l' by (intro exI [of _ l']) (simp add: nth_append)
qed

lemma list_remove_value_loop_at:
  assumes "clist_at l ps (as @ xs)" and "length xs < fuel"
  shows "\<exists>l' ps'. list_remove_value_loop fuel v (ps ! length as) l = Some l' \<and>
    clist_at l' ps' (as @ skip_remove v xs)"
  using assms
proof (induction v xs arbitrary: as l ps fuel rule: skip_remove.induct)
  case (1 v)
  then obtain f where f: "fuel = Suc f" by (cases fuel) auto
  from 1 have at: "clist_at l ps as" by simp
  show ?case
    using clist_at_next [OF at, of "length as"] clist_at_sent [OF at, of "Suc (length as)"]
      clist_at_data [OF at, of "Suc (length as)"] at by (auto simp: f)
next
  case (2 v x)
  then obtain f where f: "fuel = Suc (Suc f)" by (cases fuel; cases "fuel - 1") auto
  show ?case
  proof (cases "x = v")
    case True
    with remove_value_drop [of l ps as v "[]" "Suc f"] "2.prems"(1) show ?thesis by (auto simp: f)
  next
    case False
    have at: "clist_at l ps ((as @ [x]) @ [])" using "2.prems"(1) by simp
    from False remove_value_keep [OF "2.prems"(1), of v "Suc f"] show ?thesis
      using clist_at_next [OF at, of "Suc (length as)"] clist_at_sent [OF at, of "length as + 2"]
        clist_at_data [OF at, of "length as + 2"] "2.prems"(1) by (auto simp: f)
  qed
next
  case (3 v x y ys)
  then obtain f where f: "fuel = Suc f" by (cases fuel) auto
  show ?case
  proof (cases "x = v")
    case True
    let ?ps = "del_at (Suc (length as)) ps"
    from True remove_value_drop [of l ps as v "y # ys" f] "3.prems"(1) obtain l' where
      l': "clist_at l' ?ps ((as @ [y]) @ ys)"
        "list_remove_value_loop fuel v (ps ! length as) l = list_remove_value_loop f v (?ps ! Suc (length as)) l'"
      by (auto simp: f)
    from "3.IH"(1) [OF True l'(1), of f] l'(2) "3.prems"(2) True show ?thesis by (auto simp: f)
  next
    case False
    have "clist_at l ps ((as @ [x]) @ y # ys)" using "3.prems"(1) by simp
    from "3.IH"(2) [OF False this, of f] remove_value_keep [OF "3.prems"(1) False, of f] "3.prems"(2) False
    show ?thesis by (auto simp: f)
  qed
qed

text \<open>The rounds of \<^verbatim>\<open>list_free\<close>: after \<open>i\<close> of them the first \<open>i\<close> element nodes are gone.\<close>

lemma distinct_bounded_length: "distinct ps \<Longrightarrow> (\<forall>p\<in>set ps. p < (n::nat)) \<Longrightarrow> length ps \<le> n"
  using card_mono [of "{..<n}" "set ps"] distinct_card [of ps] by fastforce

lemma kept_node:
  assumes "clist_at l ps xs" and "i \<le> length xs"
  shows "ps ! Suc i \<notin> set (take i (tl ps))"
  using assms(2) clist_at_length [OF assms(1)] assms(1)
  by (auto simp: clist_at_def in_set_conv_nth nth_tl nth_eq_iff_index_eq)

lemma list_free_loop_at:
  assumes at: "clist_at l ps xs" and i: "i \<le> length xs" and fuel: "length xs - i < fuel"
    and m: "nodes m = nodes l |` (- set (take i (tl ps)))" "list_flags m = list_flags l"
    and fr: "freed_elements m = freed_elements l @ (if (list_flags l div LI_FREE) mod 2 \<noteq> 0 then take i xs else [])"
  shows "\<exists>m'. list_free_loop fuel (ps ! Suc i) m = Some (ps ! Suc (length xs), m') \<and>
    nodes m' = nodes l |` (- set (take (length xs) (tl ps))) \<and> front_sentinel m' = front_sentinel m \<and>
    freed_elements m' = freed_elements l @ (if (list_flags l div LI_FREE) mod 2 \<noteq> 0 then xs else [])"
  using i fuel m fr
proof (induction "length xs - i" arbitrary: i m fuel)
  case 0
  then have i: "i = length xs" by simp
  have nd: "nodes m (ps ! Suc i) = nodes l (ps ! Suc i)"
    using 0(4) kept_node [OF at, of i] i by simp
  obtain f where f: "fuel = Suc f" using 0(3) by (cases fuel) auto
  have "node_is_sentinel m (ps ! Suc i) = Some True"
    using clist_at_sent [OF at, of "Suc i"] nd i by (simp add: node_is_sentinel_def)
  with 0 i show ?case by (simp add: f)
next
  case (Suc n)
  then have i: "i < length xs" by simp
  have nd: "nodes m (ps ! Suc i) = nodes l (ps ! Suc i)"
    using Suc.prems(3) kept_node [OF at, of i] i by simp
  obtain f where f: "fuel = Suc f" using Suc.prems(2) by (cases fuel) auto
  let ?m = "free_element m (xs ! i)"
  let ?m' = "?m\<lparr>nodes := (nodes ?m)(ps ! Suc i := None)\<rparr>"
  obtain nx where nx: "nodes l (ps ! Suc i) = Some nx"
    by (rule clist_at_node [OF at, of "Suc i"]) (use i in auto)
  have step: "list_free_loop fuel (ps ! Suc i) m = list_free_loop f (ps ! Suc (Suc i)) ?m'"
    using clist_at_next [OF at, of "Suc i"] clist_at_sent [OF at, of "Suc i"] clist_at_data [OF at, of "Suc i"]
      nd i nx by (simp add: f node_is_sentinel_def node_get_next_def node_get_data_def node_free_def nth_append)
  have tl: "take (Suc i) (tl ps) = take i (tl ps) @ [ps ! Suc i]"
    using clist_at_length [OF at] i by (simp add: take_Suc_conv_app_nth nth_tl)
  have "nodes ?m' = nodes l |` (- set (take (Suc i) (tl ps)))"
    using Suc.prems(3) by (auto simp: tl restrict_map_def fun_eq_iff)
  moreover have "list_flags ?m' = list_flags l" using Suc.prems(4) by (simp add: free_element_def)
  moreover have "freed_elements ?m' = freed_elements l @
      (if (list_flags l div LI_FREE) mod 2 \<noteq> 0 then take (Suc i) xs else [])"
    using Suc.prems(4,5) i by (simp add: free_element_def take_Suc_conv_app_nth)
  ultimately show ?case
    using Suc.hyps(1) [of "Suc i" f ?m'] Suc.hyps(2) Suc.prems(2) i step by (simp add: f)
qed

lemma list_free_at:
  assumes "clist_at l ps xs"
  shows "\<exists>l'. list_free l = Some l' \<and> (\<forall>p\<in>set ps. nodes l' p = None) \<and>
    freed_elements l' = freed_elements l @ (if (list_flags l div LI_FREE) mod 2 \<noteq> 0 then xs else [])"
proof -
  have len: "length ps = length xs + 2" by (rule clist_at_length [OF assms])
  have dist: "distinct ps" and "\<forall>p\<in>set ps. p < brk l" using assms by (auto simp: clist_at_def)
  with len have fuel: "length xs - 0 < brk l" using distinct_bounded_length [of ps "brk l"] by simp
  obtain m where m: "list_free_loop (brk l) (ps ! 1) l = Some (ps ! Suc (length xs), m)"
    "nodes m = nodes l |` (- set (take (length xs) (tl ps)))" "front_sentinel m = front_sentinel l"
    "freed_elements m = freed_elements l @ (if (list_flags l div LI_FREE) mod 2 \<noteq> 0 then xs else [])"
    using list_free_loop_at [OF assms, of 0 "brk l" l] fuel by (auto simp: restrict_map_def)
  have nx: "node_get_next l (front_sentinel l) = Some (ps ! 1)"
    using clist_at_next [OF assms, of 0] clist_at_front [OF assms] by simp
  have bk: "nodes m (ps ! Suc (length xs)) = nodes l (ps ! Suc (length xs))"
    using m(2) kept_node [OF assms, of "length xs"] by simp
  obtain bn where bn: "nodes l (ps ! Suc (length xs)) = Some bn"
    using clist_at_data [OF assms, of "Suc (length xs)"] by (auto simp: node_get_data_def bind_Some_iff)
  have front: "nodes m (ps ! 0) = nodes l (ps ! 0)"
    using m(2) dist len by (auto simp: restrict_map_def in_set_conv_nth nth_tl nth_eq_iff_index_eq)
  obtain fn where fn: "nodes l (ps ! 0) = Some fn"
    using clist_at_data [OF assms, of 0] by (auto simp: node_get_data_def bind_Some_iff)
  have neq: "ps ! 0 \<noteq> ps ! Suc (length xs)" using dist len by (simp add: nth_eq_iff_index_eq)
  let ?l = "m\<lparr>nodes := (nodes m)(ps ! Suc (length xs) := None, ps ! 0 := None)\<rparr>"
  let ?m = "m\<lparr>nodes := (nodes m)(ps ! Suc (length xs) := None)\<rparr>"
  have a: "node_free (ps ! Suc (length xs)) m = Some ?m" by (simp add: node_free_def bk bn)
  have "nodes ?m (ps ! 0) = Some fn" using front fn neq by simp
  then have b: "node_free (ps ! 0) ?m = Some ?l" by (simp only: node_free_def) simp
  have fs: "front_sentinel ?m = ps ! 0" by (simp add: m(3) clist_at_front [OF assms])
  have "list_free l = Some ?l"
    unfolding list_free_def nx bind.bind_lunit m(1) prod.case a fs b by (rule refl)
  moreover have "nodes ?l p = None" if p: "p \<in> set ps" for p
  proof -
    obtain k where "k < length ps" "ps ! k = p" using p unfolding in_set_conv_nth by blast
    with len have k: "k < length xs + 2" "p = ps ! k" by simp_all
    consider "k = 0" | "k = Suc (length xs)" | "0 < k" "k \<le> length xs" using k(1) by linarith
    then show ?thesis
    proof cases
      case 3
      then have "p = take (length xs) (tl ps) ! (k - 1)" "k - 1 < length (take (length xs) (tl ps))"
        using k(2) len by (simp_all add: nth_tl)
      then have "p \<in> set (take (length xs) (tl ps))" by (metis nth_mem)
      then show ?thesis by (simp add: m(2))
    qed (use k in simp_all)
  qed
  ultimately show ?thesis using m(4) by (intro exI [of _ ?l]) simp
qed

subsection \<open>Tables and lists\<close>

text \<open>
  A hash table whose keys are unique is a map: an added or removed key is found as such,
  every other key as before, and the operations on unique keys keep it so.
\<close>
theorem table_is_map:
  assumes "distinct (keys h)"
  shows "ht_get_entry (snd (ht_add_unique_entry h k v)) j =
      (if j = k \<and> \<not> ht_has_entry h k then Some v else ht_get_entry h j) \<and>
    fst (ht_add_unique_entry h k v) = (if ht_has_entry h k then -1 else 0) \<and>
    ht_get_entry (snd (ht_remove_entry h k)) j = (if j = k then None else ht_get_entry h j) \<and>
    fst (ht_remove_entry h k) = (if ht_has_entry h k then 0 else -1) \<and>
    distinct (keys (snd (ht_add_unique_entry h k v))) \<and> distinct (keys (snd (ht_remove_entry h k)))"
proof -
  have "snd (ht_add_unique_entry h k v) = (if ht_has_entry h k then h else snd (ht_add_entry h k v))"
    "fst (ht_add_unique_entry h k v) = (if ht_has_entry h k then -1 else 0)"
    "fst (ht_remove_entry h k) = (if ht_has_entry h k then 0 else -1)"
    by (auto simp: ht_add_unique_entry_def ht_has_entry_def ht_remove_entry_def split: option.splits)
  with ht.lookup_after_remove [OF assms, of k j] ht.invar_remove [OF assms, of k] show ?thesis
    using ht.lookup_after_add [OF assms, of k v j] ht.invar_add [OF assms, of k v] assms
    by (auto simp: ht_get_entry_def ht_has_entry_def)
qed

theorem table_is_map_witness:
  "ht_get_entry (snd (ht_remove_entry [(''a'', 1 :: nat), (''b'', 2)] ''a'')) ''b'' = Some 2"
  using table_is_map [of "[(''a'', 1 :: nat), (''b'', 2)]" "''a''" 0 "''b''"]
  by (simp add: ht_get_entry_def ht_find_def)

text \<open>
  C38. A list object implements a sequence: \<^verbatim>\<open>list_get\<close>, \<^verbatim>\<open>list_insert\<close>, \<^verbatim>\<open>list_append\<close> and
  \<^verbatim>\<open>list_remove\<close> at a position from 1 to the size do what they say, with the cursor moved on.
\<close>
theorem list_is_sequence:
  assumes "clist_repr l xs" and "1 \<le> unat n" and "unat n \<le> length xs" and "length xs + 3 < 2 ^ 32"
  shows "(\<exists>l'. list_get l n = Some (xs ! (unat n - 1), l') \<and> clist_repr l' xs) \<and>
    (\<exists>l'. list_insert l n x = Some l' \<and> clist_repr l' (take (unat n - 1) xs @ x # drop (unat n - 1) xs)) \<and>
    (\<exists>l'. list_append l x = Some l' \<and> clist_repr l' (xs @ [x])) \<and>
    (\<exists>l'. list_remove l n = Some l' \<and> clist_repr l' (take (unat n - 1) xs @ drop (unat n) xs)) \<and>
    list_size l = length xs"
proof (intro conjI)
  obtain k where "unat n = Suc k" using assms(2) by (cases "unat n") auto
  with assms(3) have "(None # xs @ [None]) ! unat n = xs ! (unat n - 1)" by (simp add: nth_append)
  with list_get_repr [OF assms(1), of n] assms(3)
  show "\<exists>l'. list_get l n = Some (xs ! (unat n - 1), l') \<and> clist_repr l' xs" by simp
  show "\<exists>l'. list_insert l n x = Some l' \<and> clist_repr l' (take (unat n - 1) xs @ x # drop (unat n - 1) xs)"
    using list_insert_repr [OF assms(1,2) _ assms(4), of x] assms(3) by (simp add: ins_at_def)
  show "\<exists>l'. list_remove l n = Some l' \<and> clist_repr l' (take (unat n - 1) xs @ drop (unat n) xs)"
    using list_remove_repr [OF assms(1-3)] assms(2) by (simp add: del_at_def)
qed (use list_append_repr [OF assms(1,4)] clist_repr_size [OF assms(1)] in auto)

theorem list_is_sequence_witness:
  "\<exists>l l'. list_new LI_ELEM [''a'', ''b''] = Some l \<and> list_remove l 1 = Some l' \<and> clist_repr l' [Some ''b'']"
proof -
  obtain l0 :: "cstring clist" where l0: "list_new 0 [] = Some l0" "clist_repr l0 []" using list_new_repr by blast
  let ?l0 = "l0\<lparr>list_flags := LI_ELEM\<rparr>"
  have r0: "clist_repr ?l0 []" using l0(2)
    by (simp add: clist_repr_def clist_at_def cursor_ok_def node_datas_def node_nexts_def node_sents_def
        node_get_data_def [abs_def] node_get_next_def [abs_def] node_is_sentinel_def [abs_def])
  obtain l1 where l1: "list_append ?l0 (Some ''a'') = Some l1" "clist_repr l1 [Some ''a'']"
    using list_append_repr [OF r0] by auto
  obtain l2 where l2: "list_append l1 (Some ''b'') = Some l2" "clist_repr l2 [Some ''a'', Some ''b'']"
    using list_append_repr [OF l1(2)] by auto
  have "list_new LI_ELEM [''a'', ''b''] = list_append_args ?l0 [''a'', ''b'']"
    using l0(1) by (auto simp: list_new_def LI_ELEM_def node_new_def node_set_next_def)
  then have n: "list_new LI_ELEM [''a'', ''b''] = Some l2" using l1 l2 by simp
  have "1 \<le> unat (1 :: 32 word)" "unat (1 :: 32 word) \<le> length [Some ''a'', Some ''b'']"
    "length [Some ''a'', Some ''b''] + 3 < 2 ^ 32" by simp_all
  from list_is_sequence [OF l2(2) this, of None] n show ?thesis by auto
qed

text \<open>
  \<^verbatim>\<open>list_map\<close>, \<^verbatim>\<open>list_copy\<close> and \<^verbatim>\<open>list_append_list\<close> act on the whole sequence, but
  \<^verbatim>\<open>list_to_array\<close>, whose index runs from 0, returns a null pointer first and leaves the last
  element out.
\<close>
theorem list_traversals:
  fixes f :: "'a option \<Rightarrow> 'b option"
  assumes "clist_repr l xs"
  shows "(\<exists>r l'. list_map_r l f = Some (r, l') \<and> clist_repr r (map f xs) \<and> clist_repr l' xs) \<and>
    (\<exists>r l'. list_copy l = Some (r, l') \<and> clist_repr r xs \<and> clist_repr l' xs) \<and>
    (\<exists>l'. list_to_array l = Some (if xs = [] then [] else None # butlast xs, l') \<and> clist_repr l' xs)"
proof -
  have "take (length xs) (None # xs) = (if xs = [] then [] else None # butlast xs)"
    by (cases xs) (simp_all add: butlast_conv_take)
  with list_map_r_repr [OF assms, of f] list_copy_repr [OF assms] list_to_array_repr [OF assms] show ?thesis by simp
qed

theorem list_traversals_witness:
  "\<exists>l :: nat clist. \<exists>l' l''. list_new 0 [] = Some l \<and> list_append l (Some 5) = Some l' \<and> list_to_array l' = Some ([None], l'')"
proof -
  obtain l :: "nat clist" where l: "list_new 0 [] = Some l" "clist_repr l []" using list_new_repr by blast
  obtain l' where l': "list_append l (Some 5) = Some l'" "clist_repr l' [Some 5]"
    using list_append_repr [OF l(2), of "Some 5"] by auto
  from list_traversals [OF l'(2), of "id :: nat option \<Rightarrow> nat option"] l l' show ?thesis by auto
qed

text \<open>
  C39. \<^verbatim>\<open>list_remove_value\<close> and \<^verbatim>\<open>list_free\<close> end without touching freed nodes; the first passes over
  the element behind each one it removes, the second frees every node and, for a list that owns
  its elements, hands each element to the free function once, in order.
\<close>
theorem list_removal_loops:
  assumes "clist_at l ps xs"
  shows "(\<exists>l' ps'. list_remove_value l v = Some l' \<and> clist_at l' ps' (skip_remove v xs)) \<and>
    (\<exists>l'. list_free l = Some l' \<and> (\<forall>p\<in>set ps. nodes l' p = None) \<and>
      freed_elements l' = freed_elements l @ (if (list_flags l div LI_FREE) mod 2 \<noteq> 0 then xs else []))"
proof -
  have "distinct ps" "\<forall>p\<in>set ps. p < brk l" using assms by (auto simp: clist_at_def)
  then have "length xs < brk l" using distinct_bounded_length [of ps "brk l"] clist_at_length [OF assms] by simp
  with list_remove_value_loop_at [of l ps "[]" xs "brk l" v] assms list_free_at [OF assms] clist_at_front [OF assms]
  show ?thesis by (simp add: list_remove_value_def)
qed

theorem list_removal_loops_witness:
  "\<exists>l :: nat clist. \<exists>l' ps'. clist_repr l [Some 1, Some 1, Some 2] \<and> list_remove_value l (Some 1) = Some l' \<and>
     clist_at l' ps' [Some 1, Some 2]"
proof -
  obtain l :: "nat clist" where "clist_repr l []" using list_new_repr by blast
  from list_append_calls [OF this, of "[Some 1, Some 1, Some 2]" id] obtain l where
    l: "clist_repr l [Some 1, Some 1, Some (2 :: nat)]" by auto
  then obtain ps where at: "clist_at l ps [Some 1, Some 1, Some 2]" by (auto simp: clist_repr_def)
  from list_removal_loops [OF at, of "Some 1"] l show ?thesis by auto
qed

subsection \<open>Splitting strings\<close>

lemma filter_dropWhile_tl: "filter P (dropWhile P s) = filter P (tl (dropWhile P s))"
  by (induction s) auto

lemma tokens_chars:
  "(\<forall>t\<in>set (tokens str delim). t \<noteq> [] \<and> set t \<inter> set delim = {}) \<and>
   concat (tokens str delim) = filter (\<lambda>c. c \<notin> set delim) str"
proof (induction str delim rule: tokens.induct)
  case (1 str delim)
  let ?s = "dropWhile (\<lambda>c. c \<in> set delim) str"
  let ?p = "takeWhile (\<lambda>c. c \<notin> set delim) ?s" and ?d = "dropWhile (\<lambda>c. c \<notin> set delim) ?s"
  have lead: "filter (\<lambda>c. c \<notin> set delim) str = filter (\<lambda>c. c \<notin> set delim) ?s"
    by (induction str) auto
  show ?case
  proof (cases "?s = []")
    case True
    then have "strtok_r str delim = None" by (simp add: strtok_r_def)
    moreover have "filter (\<lambda>c. c \<notin> set delim) str = []" unfolding lead True by simp
    ultimately show ?thesis by (simp add: tokens.simps [of str])
  next
    case False
    then have st: "strtok_r str delim = Some (?p, tl ?d)" by (simp only: strtok_r_def Let_def if_False)
    then have tk: "tokens str delim = ?p # tokens (tl ?d) delim" by (simp add: tokens.simps [of str])
    have "hd ?s \<notin> set delim" using hd_dropWhile [OF False] .
    then have "?p \<noteq> []" using False by (cases ?s) auto
    moreover have "set ?p \<inter> set delim = {}" by (auto dest: set_takeWhileD)
    moreover have "filter (\<lambda>c. c \<notin> set delim) ?s = ?p @ filter (\<lambda>c. c \<notin> set delim) (tl ?d)"
    proof -
      have "filter (\<lambda>c. c \<notin> set delim) ?s = filter (\<lambda>c. c \<notin> set delim) ?p @ filter (\<lambda>c. c \<notin> set delim) ?d"
        by (metis filter_append takeWhile_dropWhile_id)
      also have "filter (\<lambda>c. c \<notin> set delim) ?p = ?p" by (rule filter_True) (auto dest: set_takeWhileD)
      also have "filter (\<lambda>c. c \<notin> set delim) ?d = filter (\<lambda>c. c \<notin> set delim) (tl ?d)"
        by (rule filter_dropWhile_tl)
      finally show ?thesis .
    qed
    ultimately show ?thesis using "1.IH" [OF st refl] by (simp add: tk lead)
  qed
qed

text \<open>
  \<^verbatim>\<open>string_split\<close> returns the tokens in their order: none is empty or has a delimiter in it,
  and together they are the text without its delimiters.
\<close>
theorem string_split_ok:
  assumes "length str + 2 < 2 ^ 32"
  shows "\<exists>ts. string_split str delim = Some (length ts, map Some ts) \<and>
    (\<forall>t\<in>set ts. t \<noteq> [] \<and> set t \<inter> set delim = {}) \<and> concat ts = filter (\<lambda>c. c \<notin> set delim) str"
proof -
  note ok = tokens_chars [of str delim]
  have "length ts \<le> length (concat ts)" if "\<forall>t\<in>set ts. t \<noteq> []" for ts :: "cstring list"
    using that by (induction ts) (auto simp: Suc_le_eq add_less_le_mono less_Suc_eq_le simp flip: length_greater_0_conv)
  with ok have "length (tokens str delim) \<le> length (filter (\<lambda>c. c \<notin> set delim) str)" by metis
  with length_filter_le [of "\<lambda>c. c \<notin> set delim" str] assms have "length (tokens str delim) + 2 < 2 ^ 32" by linarith
  from string_split_tokens [OF this] ok show ?thesis by blast
qed

theorem string_split_ok_witness:
  "\<exists>ts. string_split ''/y//f'' ''/'' = Some (length ts, map Some ts) \<and> concat ts = ''yf''"
  using string_split_ok [of "''/y//f''" "''/''"] by auto

text \<open>The pieces between the occurrences of a delimiter, and the text that joins them again.\<close>

fun join_with :: "cstring \<Rightarrow> cstring list \<Rightarrow> cstring" where
  "join_with d [] = []"
| "join_with d [p] = p"
| "join_with d (p # ps) = p @ d @ join_with d ps"

lemma strstr_Some: "strstr str d = Some (b, f) \<Longrightarrow> str = b @ f \<and> prefix d f"
proof (induction str arbitrary: b)
  case Nil
  then show ?case by (subst (asm) strstr.simps) (auto split: if_splits)
next
  case (Cons c str)
  show ?case
  proof (cases "prefix d (c # str)")
    case True
    with Cons.prems show ?thesis by (subst (asm) strstr.simps) auto
  next
    case False
    then have "strstr (c # str) d = map_option (\<lambda>(b, f). (c # b, f)) (strstr str d)"
      by (subst strstr.simps) simp
    with Cons.prems obtain b' where b': "strstr str d = Some (b', f)" "b = c # b'" by auto
    from Cons.IH [OF b'(1)] b'(2) show ?thesis by simp
  qed
qed

lemma split2_pieces:
  assumes "d \<noteq> []"
  shows "clist_repr li xs \<Longrightarrow> curpos li = 0 \<Longrightarrow> length xs + length str + 3 < 2 ^ 32 \<Longrightarrow>
    \<exists>ps li'. string_split2_loop str d li = Some li' \<and> clist_repr li' (rev (map Some ps) @ xs) \<and>
      ps \<noteq> [] \<and> join_with d ps = str"
proof (induction "length str" arbitrary: str li xs rule: less_induct)
  case less
  show ?case
  proof (cases "strstr str d")
    case None
    obtain li' where li': "list_add li (Some str) = Some li'" "clist_repr li' (Some str # xs)"
      using list_add_repr [OF less.prems(1,2), of "Some str"] less.prems(3) by auto
    with None show ?thesis
      by (intro exI [of _ "[str]"] exI [of _ li']) (simp add: string_split2_loop.simps)
  next
    case (Some bf)
    obtain b f where bf: "bf = (b, f)" by fastforce
    then have str: "str = b @ f" "prefix d f" using strstr_Some Some by auto
    then have f: "f = d @ drop (length d) f" by (auto simp: prefix_def)
    then have len: "length f = length d + length (drop (length d) f)" by (metis length_append)
    have "length str = length b + length f" "0 < length d" using str(1) assms by simp_all
    with len have shorter: "length (drop (length d) f) < length str" by linarith
    obtain li1 where li1: "list_add li (Some b) = Some li1" "clist_repr li1 (Some b # xs)" "curpos li1 = 0"
      using list_add_repr [OF less.prems(1,2), of "Some b"] less.prems(3) by auto
    have "length (Some b # xs) + length (drop (length d) f) + 3 < 2 ^ 32"
      using shorter less.prems(3) by simp
    from less.hyps [OF shorter li1(2,3) this] obtain ps li' where
      ps: "string_split2_loop (drop (length d) f) d li1 = Some li'"
        "clist_repr li' (rev (map Some ps) @ Some b # xs)" "ps \<noteq> []" "join_with d ps = drop (length d) f" by auto
    have "string_split2_loop str d li = Some li'"
      using li1(1) ps(1) by (subst string_split2_loop.simps) (simp add: Some bf)
    moreover have "join_with d (b # ps) = str" using ps(3,4) str(1) f by (cases ps) auto
    ultimately show ?thesis using ps(2) by (intro exI [of _ "b # ps"] exI [of _ li']) simp
  qed
qed

lemma split2_empty: "string_split2_loop str d li = Some r \<Longrightarrow> d \<noteq> []"
proof (rule string_split2_loop.raw_induct [where P = "\<lambda>str d li r. d \<noteq> []"])
  fix loop :: "cstring \<Rightarrow> cstring \<Rightarrow> cstring clist \<Rightarrow> cstring clist option" and str d li r
  assume IH: "\<And>str d li r. loop str d li = Some r \<Longrightarrow> d \<noteq> []"
    and body: "(case strstr str d of None \<Rightarrow> list_add li (Some str)
      | Some (before, str_ptr2) \<Rightarrow> do { li \<leftarrow> list_add li (Some before); loop (drop (length d) str_ptr2) d li }) = Some r"
  show "d \<noteq> []"
  proof
    assume "d = []"
    moreover have "strstr str [] = Some ([], str)" by (subst strstr.simps) simp
    ultimately show False using body IH by (auto simp: bind_Some_iff)
  qed
qed

text \<open>
  C40. \<^verbatim>\<open>string_split2\<close> ends for every delimiter but the empty one, and joining what it returns
  with the delimiter gives the text back.
\<close>
theorem string_split2_join:
  assumes "length str + 3 < 2 ^ 32"
  shows "(d \<noteq> [] \<longrightarrow> (\<exists>ps. string_split2 str d = Some (length ps, map Some ps) \<and> join_with d ps = str)) \<and>
    string_split2 str [] = None"
proof (intro conjI impI)
  obtain r :: "cstring clist" where r: "list_new 0 [] = Some r" "clist_repr r []" "curpos r = 0"
    using list_new_repr by blast
  show "\<exists>ps. string_split2 str d = Some (length ps, map Some ps) \<and> join_with d ps = str" if d: "d \<noteq> []"
  proof -
    have "length ([] :: cstring option list) + length str + 3 < 2 ^ 32" using assms by simp
    from split2_pieces [OF d r(2,3) this] obtain ps li' where
      "string_split2_loop str d r = Some li'" "clist_repr li' (rev (map Some ps))" "join_with d ps = str" by auto
    with r(1) fill_array_repr [of li' "map Some ps"] show ?thesis
      by (intro exI [of _ ps]) (simp add: string_split2_def)
  qed
  show "string_split2 str [] = None"
    using r(1) split2_empty [of str "[]" r] by (cases "string_split2_loop str [] r") (auto simp: string_split2_def)
qed

theorem string_split2_join_witness:
  "\<exists>ps. string_split2 ''a, b'' '', '' = Some (length ps, map Some ps) \<and> join_with '', '' ps = ''a, b''"
  using string_split2_join [of "''a, b''" "'', ''"] by simp

text \<open>
  The library's \<^verbatim>\<open>asprintf\<close> returns the length and a buffer that holds the whole text, also
  where the text is longer than the first buffer.
\<close>
theorem asprintf_holds_text:
  assumes "CHR 0x00 \<notin> set txt"
  shows "fst (asprintf txt) = length txt \<and> c_str (snd (asprintf txt)) = txt \<and>
    length (snd (asprintf txt)) > length txt"
proof -
  have "length (snd (asprintf txt)) > length txt"
    by (auto simp: asprintf_def vsnprintf_def HEURISTIC_SIZE_def Let_def)
  with asprintf_text [OF assms] show ?thesis by simp
qed

theorem asprintf_holds_text_witness: "c_str (snd (asprintf (replicate 100 (CHR ''x'')))) = replicate 100 (CHR ''x'')"
  using asprintf_holds_text [of "replicate 100 (CHR ''x'')"] by simp

end
