(* ===== verification/Posix.thy ===== *)
theory Posix
  imports Prelude "HOL-Library.Word"
begin

unbundle bit_operations_syntax

text \<open>
  The operating system under the tag file systems. A system call is a function of the model's
  parameter \<open>os\<close>, over a world of any type \<open>'w\<close>; its result is \<open>Inl errno\<close> where the call
  returns -1, and \<open>Inr\<close> of what it returns otherwise. Nothing else is assumed of it, except
  where a theorem names a documented behaviour as a hypothesis.
\<close>

definition EPERM :: int where "EPERM = 1"
definition ENOENT :: int where "ENOENT = 2"
definition EIO :: int where "EIO = 5"
definition EBADF :: int where "EBADF = 9"
definition ENOMEM :: int where "ENOMEM = 12"
definition EEXIST :: int where "EEXIST = 17"
definition ENOTDIR :: int where "ENOTDIR = 20"
definition EISDIR :: int where "EISDIR = 21"
definition EINVAL :: int where "EINVAL = 22"
definition ENOSYS :: int where "ENOSYS = 38"
definition ENODATA :: int where "ENODATA = 61"
definition EREMOTE :: int where "EREMOTE = 66"

lemmas errno_defs = EPERM_def ENOENT_def EIO_def EBADF_def ENOMEM_def EEXIST_def ENOTDIR_def
  EISDIR_def EINVAL_def ENOSYS_def ENODATA_def EREMOTE_def

text \<open>The largest \<^verbatim>\<open>long\<close>, and the poll events of \<^verbatim>\<open>poll.h\<close>.\<close>

definition LONG_MAX :: int where "LONG_MAX = 2 ^ 63 - 1"

definition POLLIN :: "32 word" where "POLLIN = 1"

definition POLLOUT :: "32 word" where "POLLOUT = 4"

record stat =
  st_mode :: "32 word"
  st_size :: int
  st_ino :: "64 word"
  st_atim :: "int \<times> int"
  st_mtim :: "int \<times> int"

text \<open>The all-zero \<^verbatim>\<open>struct stat\<close>.\<close>

definition stat0 :: stat where
  "stat0 = \<lparr>st_mode = 0, st_size = 0, st_ino = 0, st_atim = (0, 0), st_mtim = (0, 0)\<rparr>"

definition S_ISDIR :: "32 word \<Rightarrow> bool" where
  "S_ISDIR m \<longleftrightarrow> m AND 0xF000 = 0x4000"

record 'w os =
  os_stat :: "cstring \<Rightarrow> 'w \<Rightarrow> int + stat"
  os_readdir :: "'w \<Rightarrow> (cstring \<times> bool) list"
  os_open :: "cstring \<Rightarrow> 32 word \<Rightarrow> 'w \<Rightarrow> (int + int) \<times> 'w"
  os_close :: "int \<Rightarrow> 'w \<Rightarrow> (int + unit) \<times> 'w"
  os_lseek :: "int \<Rightarrow> int \<Rightarrow> 'w \<Rightarrow> (int + unit) \<times> 'w"
  os_read :: "int \<Rightarrow> nat \<Rightarrow> 'w \<Rightarrow> (int + char list) \<times> 'w"
  os_write :: "int \<Rightarrow> char list \<Rightarrow> 'w \<Rightarrow> (int + nat) \<times> 'w"
  os_access :: "cstring \<Rightarrow> 'w \<Rightarrow> int + unit"
  os_mknod :: "cstring \<Rightarrow> 32 word \<Rightarrow> 64 word \<Rightarrow> 'w \<Rightarrow> (int + unit) \<times> 'w"
  os_truncate :: "cstring \<Rightarrow> int \<Rightarrow> 'w \<Rightarrow> (int + unit) \<times> 'w"
  os_chmod :: "cstring \<Rightarrow> 32 word \<Rightarrow> 'w \<Rightarrow> (int + unit) \<times> 'w"
  os_chown :: "cstring \<Rightarrow> 32 word \<Rightarrow> 32 word \<Rightarrow> 'w \<Rightarrow> (int + unit) \<times> 'w"
  os_utimens :: "cstring \<Rightarrow> (int \<times> int) \<times> (int \<times> int) \<Rightarrow> 'w \<Rightarrow> (int + unit) \<times> 'w"

text \<open>The C return value of a call that returns 0 or -1.\<close>

fun c_result :: "int + unit \<Rightarrow> int" where
  "c_result (Inl errno) = -1"
| "c_result (Inr u) = 0"

lemma c_result_cases: "c_result r = 0 \<or> c_result r = -1"
  by (cases r) auto

text \<open>\<^verbatim>\<open>stat(path, stbuf)\<close>: the C return value and the buffer, unchanged on failure.\<close>

definition c_stat :: "'w os \<Rightarrow> cstring \<Rightarrow> stat \<Rightarrow> 'w \<Rightarrow> int \<times> stat" where
  "c_stat os path stbuf w =
     (case os_stat os path w of Inl errno \<Rightarrow> (-1, stbuf) | Inr st \<Rightarrow> (0, st))"

lemma c_stat_res: "fst (c_stat os p b w) = 0 \<or> fst (c_stat os p b w) = -1"
  by (simp add: c_stat_def split: sum.splits)

end
