(* ===== verification/Fuse_State.thy ===== *)
theory Fuse_State
  imports Cutil_List Posix
begin

text \<open>
  The state of the \<^verbatim>\<open>fuse\<close> file system: the global tables \<^verbatim>\<open>tags\<close> (\<^verbatim>\<open>tag.c\<close>) and \<^verbatim>\<open>files\<close>
  (\<^verbatim>\<open>file.c\<close>), the structs they point to, the open file descriptors and the globals of
  \<^verbatim>\<open>path.c\<close>. Structs live in heaps, maps from addresses, so that sharing, aliasing and
  dangling pointers are visible: the tables, the tag set of a file, the file set of a tag and
  the selected tags of a path all hold pointers to the same structs. Addresses are never
  reused, so that every use of a freed struct is a fault of the model.
\<close>

text \<open>\<^verbatim>\<open>struct tag *\<close>, with the constant \<^verbatim>\<open>INVALID_TAG\<close> that \<^verbatim>\<open>tag_get\<close> returns.\<close>

datatype tptr = INVALID_TAG | TagAt nat

text \<open>
  Addresses are ordered by age, below the constant: a struct is live only below the next address.
\<close>

instantiation tptr :: linorder
begin

fun less_eq_tptr :: "tptr \<Rightarrow> tptr \<Rightarrow> bool" where
  "less_eq_tptr t INVALID_TAG = True"
| "less_eq_tptr INVALID_TAG (TagAt n) = False"
| "less_eq_tptr (TagAt m) (TagAt n) = (m \<le> n)"

definition less_tptr :: "tptr \<Rightarrow> tptr \<Rightarrow> bool" where
  "less_tptr t u \<longleftrightarrow> t \<le> u \<and> \<not> u \<le> (t :: tptr)"

instance
proof
  fix t u v :: tptr
  show "t < u \<longleftrightarrow> t \<le> u \<and> \<not> u \<le> t" by (rule less_tptr_def)
  show "t \<le> t" by (cases t) simp_all
  show "t \<le> u \<Longrightarrow> u \<le> v \<Longrightarrow> t \<le> v" by (cases t; cases u; cases v) simp_all
  show "t \<le> u \<Longrightarrow> u \<le> t \<Longrightarrow> t = u" by (cases t; cases u) simp_all
  show "t \<le> u \<or> u \<le> t" by (cases t; cases u) auto
qed

end

lemma tptr_less [simp]: "TagAt m < TagAt n \<longleftrightarrow> m < n" "TagAt m < INVALID_TAG" "\<not> INVALID_TAG < t"
  by (auto simp: less_tptr_def)

lemma tptr_less_Suc: "t < TagAt (Suc n) \<longleftrightarrow> t < TagAt n \<or> t = TagAt n"
  by (cases t) auto

type_synonym fptr = nat

type_synonym dptr = nat

type_synonym pollhandle = nat

record tag =
  t_value :: cstring
  t_files :: "fptr ht"
  in_use :: bool
  ref_count :: int

text \<open>
  The descriptors of a file are a hash table keyed by the descriptor's address; the list has
  them in the order of insertion.
\<close>

record tfile =
  f_name :: cstring
  f_realpath :: cstring
  f_tags :: "tptr ht"
  f_descriptors :: "dptr list"
  f_revents :: "32 word"

record path =
  p_realpath :: cstring
  p_virtpath :: cstring
  p_virtdirpath :: cstring
  p_filename :: cstring
  p_selected_tags :: "tptr ht"

text \<open>The union of \<^verbatim>\<open>struct file_descriptor\<close>: a file (possibly null) or a tag.\<close>

datatype fd_object = FileObj "fptr option" | TagObj tptr

record file_descriptor =
  fd_path :: path
  fd_is_tag :: bool
  fd_is_tag_file :: bool
  fd_ph :: "pollhandle option"
  fd_object :: fd_object
  fd_fh :: int

text \<open>
  The last two fields log the calls of \<^verbatim>\<open>fuse_notify_poll\<close> and
  \<^verbatim>\<open>fuse_pollhandle_destroy\<close>; \<^verbatim>\<open>world\<close> is the state of the operating system.
\<close>

record 'w fs =
  tags :: "tptr ht"
  files :: "fptr ht"
  theap :: "tptr \<Rightarrow> tag option"
  tnext :: nat
  fheap :: "fptr \<Rightarrow> tfile option"
  fnext :: nat
  dheap :: "dptr \<Rightarrow> file_descriptor option"
  dnext :: nat
  realdirpath :: cstring
  tagdbpath :: cstring
  world :: 'w
  notified :: "pollhandle list"
  destroyed :: "pollhandle list"

definition TAG_FILENAME :: cstring where "TAG_FILENAME = ''.tags''"

text \<open>The state after the initialisers \<^verbatim>\<open>tag_init\<close> and \<^verbatim>\<open>file_init\<close>.\<close>

definition fs_init :: "cstring \<Rightarrow> cstring \<Rightarrow> 'w \<Rightarrow> 'w fs" where
  "fs_init root db w =
     \<lparr>tags = ht_create, files = ht_create, theap = Map.empty, tnext = 0, fheap = Map.empty,
      fnext = 0, dheap = Map.empty, dnext = 0, realdirpath = root, tagdbpath = db, world = w,
      notified = [], destroyed = []\<rparr>"

text \<open>Writes through a pointer.\<close>

definition tag_upd :: "tptr \<Rightarrow> (tag \<Rightarrow> tag) \<Rightarrow> 'w fs \<Rightarrow> 'w fs option" where
  "tag_upd t g s = do { r \<leftarrow> theap s t; Some (s\<lparr>theap := (theap s)(t \<mapsto> g r)\<rparr>) }"

definition file_upd :: "fptr \<Rightarrow> (tfile \<Rightarrow> tfile) \<Rightarrow> 'w fs \<Rightarrow> 'w fs option" where
  "file_upd f g s = do { x \<leftarrow> fheap s f; Some (s\<lparr>fheap := (fheap s)(f \<mapsto> g x)\<rparr>) }"

definition fd_upd :: "dptr \<Rightarrow> (file_descriptor \<Rightarrow> file_descriptor) \<Rightarrow> 'w fs \<Rightarrow> 'w fs option" where
  "fd_upd d g s = do { x \<leftarrow> dheap s d; Some (s\<lparr>dheap := (dheap s)(d \<mapsto> g x)\<rparr>) }"

lemma tag_upd_Some: "theap s t = Some r \<Longrightarrow> tag_upd t g s = Some (s\<lparr>theap := (theap s)(t \<mapsto> g r)\<rparr>)"
  by (simp add: tag_upd_def)

lemma file_upd_Some: "fheap s f = Some x \<Longrightarrow> file_upd f g s = Some (s\<lparr>fheap := (fheap s)(f \<mapsto> g x)\<rparr>)"
  by (simp add: file_upd_def)

end
