(* ===== verification/Fuse_Util.thy ===== *)
theory Fuse_Util
  imports Cutil_String
begin

text \<open>
  \<^verbatim>\<open>util.c\<close> (the same file in \<^verbatim>\<open>fuse\<close>, \<^verbatim>\<open>fuse_lowlevel\<close> and \<^verbatim>\<open>fuse_sqlite3\<close>) and the paths FUSE
  hands to the file system: the root \<^verbatim>\<open>/\<close>, or a sequence of non-empty components each behind
  a slash. For such a path the base name is the last component, the directory name is the
  path of the others, and splitting at slashes gives back the components.
\<close>

abbreviation slash :: char where "slash \<equiv> CHR 0x2F"

text \<open>\<^verbatim>\<open>basename\<close> and \<^verbatim>\<open>dirname\<close> of \<^verbatim>\<open>libgen.h\<close>: trailing slashes do not count.\<close>

definition strip_slashes :: "cstring \<Rightarrow> cstring" where
  "strip_slashes s = rev (dropWhile (\<lambda>c. c = slash) (rev s))"

definition basename :: "cstring \<Rightarrow> cstring" where
  "basename s =
     (if s = [] then ''.''
      else let t = strip_slashes s
           in if t = [] then ''/'' else rev (takeWhile (\<lambda>c. c \<noteq> slash) (rev t)))"

definition dirname :: "cstring \<Rightarrow> cstring" where
  "dirname s =
     (let t = strip_slashes s
      in if t = [] then (if s = [] then ''.'' else ''/'')
         else if slash \<notin> set t then ''.''
         else let d = strip_slashes (rev (dropWhile (\<lambda>c. c \<noteq> slash) (rev t)))
              in if d = [] then ''/'' else d)"

definition basenamedup :: "cstring \<Rightarrow> cstring" where
  "basenamedup dir = basename dir"

definition dirnamedup :: "cstring \<Rightarrow> cstring" where
  "dirnamedup dir = dirname dir"

text \<open>\<^verbatim>\<open>asprintf(&str, "%s/%s", dir, file)\<close>; \<open>asprintf_text\<close> says that this is the text itself.\<close>

definition append_dir :: "cstring \<Rightarrow> cstring \<Rightarrow> cstring" where
  "append_dir dir file = dir @ ''/'' @ file"

subsection \<open>Paths and their components\<close>

definition component :: "cstring \<Rightarrow> bool" where
  "component c \<longleftrightarrow> c \<noteq> [] \<and> slash \<notin> set c \<and> c \<noteq> ''.''"

text \<open>The bound on the number of components is far above what \<^verbatim>\<open>PATH_MAX\<close> allows.\<close>

definition components :: "cstring list \<Rightarrow> bool" where
  "components cs \<longleftrightarrow> (\<forall>c\<in>set cs. component c) \<and> length cs + 2 < 2 ^ 32"

fun slashed :: "cstring list \<Rightarrow> cstring" where
  "slashed [] = []"
| "slashed (c # cs) = slash # c @ slashed cs"

definition path_of :: "cstring list \<Rightarrow> cstring" where
  "path_of cs = (if cs = [] then ''/'' else slashed cs)"

lemma slashed_append: "slashed (cs @ ds) = slashed cs @ slashed ds"
  by (induction cs) auto

lemma components_append:
  "components (cs @ [c]) \<Longrightarrow> components cs" "components (cs @ [c]) \<Longrightarrow> component c"
  by (auto simp: components_def)

lemma components_Nil [simp]: "components []"
  by (simp add: components_def)

lemma components_single [simp]: "components [c] = component c"
  by (simp add: components_def)

lemma componentD: "component c \<Longrightarrow> c \<noteq> []" "component c \<Longrightarrow> slash \<notin> set c" "component c \<Longrightarrow> c \<noteq> ''.''"
  by (auto simp: component_def)

lemma last_component: "component c \<Longrightarrow> last c \<noteq> slash"
  by (metis component_def last_in_set)

lemma strip_slashes_last: "s \<noteq> [] \<Longrightarrow> last s \<noteq> slash \<Longrightarrow> strip_slashes s = s"
  by (cases s rule: rev_cases) (auto simp: strip_slashes_def)

lemma takeWhile_rev_component:
  assumes "component c"
  shows "takeWhile (\<lambda>x. x \<noteq> slash) (rev (s @ slash # c)) = rev c"
    and "dropWhile (\<lambda>x. x \<noteq> slash) (rev (s @ slash # c)) = slash # rev s"
proof -
  have c: "x \<in> set (rev c) \<Longrightarrow> x \<noteq> slash" for x using assms by (auto simp: component_def)
  from takeWhile_append2 [of "rev c" "\<lambda>x. x \<noteq> slash" "slash # rev s", OF c]
    dropWhile_append2 [of "rev c" "\<lambda>x. x \<noteq> slash" "slash # rev s", OF c]
  show "takeWhile (\<lambda>x. x \<noteq> slash) (rev (s @ slash # c)) = rev c"
    and "dropWhile (\<lambda>x. x \<noteq> slash) (rev (s @ slash # c)) = slash # rev s"
    by simp_all
qed

lemma strip_snoc:
  assumes "component c"
  shows "strip_slashes (s @ slash # c) = s @ slash # c"
  using assms by (intro strip_slashes_last) (auto simp: last_component componentD)

lemma basename_path: "components (cs @ [c]) \<Longrightarrow> basenamedup (path_of (cs @ [c])) = c"
  using takeWhile_rev_component(1) [of c "slashed cs"] components_append(2) [of cs c]
  by (simp add: basenamedup_def basename_def path_of_def slashed_append strip_snoc Let_def)

lemma strip_slashed:
  assumes "components cs"
  shows "strip_slashes (slashed cs @ [slash]) = slashed cs"
proof (cases cs rule: rev_cases)
  case Nil
  then show ?thesis by (simp add: strip_slashes_def)
next
  case (snoc ds d)
  with assms have d: "component d" by (simp add: components_append)
  have "strip_slashes (slashed ds @ slash # d) = slashed ds @ slash # d" by (rule strip_snoc [OF d])
  then show ?thesis by (simp add: snoc slashed_append strip_slashes_def)
qed

lemma dirname_path:
  assumes "components (cs @ [c])"
  shows "dirnamedup (path_of (cs @ [c])) = path_of cs"
proof -
  have c: "component c" and cs: "components cs" using assms by (simp_all add: components_append(2) components_append(1) [OF assms])
  have "strip_slashes (rev (slash # rev (slashed cs))) = slashed cs"
    using strip_slashed [OF cs] by simp
  moreover have "slashed cs = [] \<longleftrightarrow> cs = []" by (cases cs) auto
  moreover have "dirname (slashed cs @ slash # c) =
      (let d = strip_slashes (rev (slash # rev (slashed cs))) in if d = [] then ''/'' else d)"
    unfolding dirname_def strip_snoc [OF c] takeWhile_rev_component(2) [OF c] Let_def
    by (simp del: rev.simps)
  ultimately show ?thesis
    by (simp add: dirnamedup_def path_of_def slashed_append Let_def)
qed

lemma basename_plain:
  assumes "component c"
  shows "basenamedup c = c"
proof -
  have "takeWhile (\<lambda>x. x \<noteq> slash) (rev c) = rev c"
    unfolding takeWhile_eq_all_conv using componentD(2) [OF assms] by auto
  then have "rev (takeWhile (\<lambda>x. x \<noteq> slash) (rev c)) = c" by (simp only: rev_rev_ident)
  then show ?thesis
    using assms by (simp del: rev_rev_ident add: basenamedup_def basename_def Let_def strip_slashes_last
        last_component componentD)
qed

lemma dirname_plain: "component c \<Longrightarrow> dirnamedup c = ''.''"
  by (auto simp: dirnamedup_def dirname_def Let_def strip_slashes_last last_component componentD)

lemma basename_root: "basenamedup ''/'' = ''/''"
  by (simp add: basenamedup_def basename_def strip_slashes_def)

lemma dirname_root: "dirnamedup ''/'' = ''/''"
  by (simp add: dirnamedup_def dirname_def strip_slashes_def)

lemma count_slashes_component: "slash \<notin> set c \<Longrightarrow> get_character_count (c @ s) slash = get_character_count s slash"
  by (induction c) auto

lemma count_slashes_slashed:
  "\<forall>c\<in>set cs. component c \<Longrightarrow> get_character_count (slashed cs) slash = int (length cs)"
  by (induction cs) (auto simp: count_slashes_component componentD)

lemma count_slashes_path:
  "components cs \<Longrightarrow> cs \<noteq> [] \<Longrightarrow> get_character_count (path_of cs) slash = int (length cs)"
  by (simp add: path_of_def components_def count_slashes_slashed)

subsection \<open>Tokens of a path\<close>

lemma strtok_r_component:
  assumes "component c" and "s = [] \<or> hd s = slash"
  shows "strtok_r (slash # c @ s) ''/'' = Some (c, tl s)"
proof -
  have c: "c \<noteq> []" "\<And>x. x \<in> set c \<Longrightarrow> x \<noteq> slash"
    using assms(1) by (auto simp: component_def)
  have hd: "hd c \<noteq> slash" using c by auto
  have "dropWhile (\<lambda>x. x = slash) (c @ s) = c @ s" using c(1) hd by (cases c) auto
  moreover have "takeWhile (\<lambda>x. x \<noteq> slash) (c @ s) = c"
    using takeWhile_append2 [of c "\<lambda>x. x \<noteq> slash" s, OF c(2)] assms(2) by (cases s) auto
  moreover have "dropWhile (\<lambda>x. x \<noteq> slash) (c @ s) = s"
    using dropWhile_append2 [of c "\<lambda>x. x \<noteq> slash" s, OF c(2)] assms(2) by (cases s) auto
  ultimately show ?thesis using c(1) by (simp add: strtok_r_def Let_def)
qed

lemma tokens_cong_slash: "tokens (tl s) ''/'' = tokens s ''/''" if "s = [] \<or> hd s = slash"
proof (cases s)
  case (Cons x t)
  with that have "strtok_r s ''/'' = strtok_r t ''/''" by (simp add: strtok_r_def)
  then show ?thesis using Cons by (subst (1 2) tokens.simps) simp
qed simp

lemma tokens_slashed: "\<forall>c\<in>set cs. component c \<Longrightarrow> tokens (slashed cs) ''/'' = cs"
proof (induction cs)
  case Nil
  then show ?case by (simp add: tokens.simps strtok_r_def)
next
  case (Cons c cs)
  have h: "slashed cs = [] \<or> hd (slashed cs) = slash" by (cases cs) auto
  with Cons.prems have "strtok_r (slashed (c # cs)) ''/'' = Some (c, tl (slashed cs))"
    using strtok_r_component [of c "slashed cs"] by simp
  then have "tokens (slashed (c # cs)) ''/'' = c # tokens (tl (slashed cs)) ''/''"
    by (subst tokens.simps) simp
  with tokens_cong_slash [OF h] Cons show ?case by simp
qed

lemma tokens_root: "tokens ''/'' ''/'' = []"
  by (subst tokens.simps) (simp add: strtok_r_def)

lemma tokens_path: "components cs \<Longrightarrow> tokens (path_of cs) ''/'' = cs"
  using tokens_slashed [of cs] tokens_root by (auto simp: path_of_def components_def)

lemma string_split_path:
  "components cs \<Longrightarrow> string_split (path_of cs) ''/'' = Some (length cs, map Some cs)"
  using string_split_tokens [of "path_of cs" "''/''"] by (simp add: tokens_path components_def)

lemma path_of_neq_dot: "components cs \<Longrightarrow> path_of cs \<noteq> ''.''"
  by (cases cs) (auto simp: path_of_def)

lemma components_butlast: "components cs \<Longrightarrow> components (butlast cs)"
  by (cases cs rule: rev_cases) (auto simp: components_def)

lemma dirname_components: "components cs \<Longrightarrow> dirnamedup (path_of cs) = path_of (butlast cs)"
  by (cases cs rule: rev_cases) (simp_all add: dirname_path, simp add: path_of_def dirname_root)

lemma basename_components:
  "components cs \<Longrightarrow> basenamedup (path_of cs) = (if cs = [] then ''/'' else last cs)"
  by (cases cs rule: rev_cases) (simp_all add: basename_path, simp add: path_of_def basename_root)

end
