(* ===== verification/Fuse_Tag.thy ===== *)
theory Fuse_Tag
  imports Fuse_State Fuse_Util
begin

text \<open>
  \<^verbatim>\<open>fuse/tag.c\<close> and \<^verbatim>\<open>fuse/file.c\<close>: tags and files, their two-way association, the reference
  counts of tags, and the selected tags of a path. The database functions of \<^verbatim>\<open>tag.c\<close> are in
  the theory \<open>Fuse_Db\<close>.
\<close>

subsection \<open>file.c\<close>

text \<open>\<^verbatim>\<open>notify_descriptors_poll\<close>: every open descriptor that is polled is told.\<close>

fun notify_descriptors :: "fptr \<Rightarrow> 32 word \<Rightarrow> dptr list \<Rightarrow> 'w fs \<Rightarrow> 'w fs option" where
  "notify_descriptors f event [] s = Some s"
| "notify_descriptors f event (d # ds) s = do {
     fd \<leftarrow> dheap s d;
     s \<leftarrow> (case fd_ph fd of
             None \<Rightarrow> Some s
           | Some ph \<Rightarrow> do {
               s \<leftarrow> file_upd f (\<lambda>x. x\<lparr>f_revents := f_revents x OR event\<rparr>) s;
               Some (s\<lparr>notified := notified s @ [ph]\<rparr>)
             });
     notify_descriptors f event ds s
   }"

definition notify_descriptors_poll :: "fptr \<Rightarrow> 32 word \<Rightarrow> 'w fs \<Rightarrow> 'w fs option" where
  "notify_descriptors_poll f event s = do {
     x \<leftarrow> fheap s f;
     notify_descriptors f event (f_descriptors x) s
   }"

definition file_add_tag :: "fptr \<Rightarrow> tptr \<Rightarrow> 'w fs \<Rightarrow> 'w fs option" where
  "file_add_tag f t s = do {
     r \<leftarrow> theap s t;
     s \<leftarrow> file_upd f (\<lambda>x. x\<lparr>f_tags := snd (ht_add_unique_entry (f_tags x) (t_value r) t)\<rparr>) s;
     notify_descriptors_poll f POLLIN s
   }"

definition file_remove_tag :: "fptr \<Rightarrow> tptr \<Rightarrow> 'w fs \<Rightarrow> 'w fs option" where
  "file_remove_tag f t s = do {
     r \<leftarrow> theap s t;
     s \<leftarrow> file_upd f (\<lambda>x. x\<lparr>f_tags := snd (ht_remove_entry (f_tags x) (t_value r))\<rparr>) s;
     notify_descriptors_poll f POLLOUT s
   }"

definition file_list :: "'w fs \<Rightarrow> fptr clist option" where
  "file_list s = ht_to_list (files s)"

text \<open>\<^verbatim>\<open>path_realpath\<close> of \<^verbatim>\<open>path.c\<close>: the file of that base name in the real directory.\<close>

definition path_realpath :: "'w fs \<Rightarrow> cstring \<Rightarrow> cstring" where
  "path_realpath s user_path = append_dir (realdirpath s) (basenamedup user_path)"

definition file_new :: "cstring \<Rightarrow> 'w fs \<Rightarrow> fptr \<times> 'w fs" where
  "file_new name s =
     (let f = fnext s;
          x = \<lparr>f_name = name, f_realpath = path_realpath s name, f_tags = ht_create,
               f_descriptors = [], f_revents = 0\<rparr>
      in (f, s\<lparr>fheap := (fheap s)(f \<mapsto> x), fnext := Suc f\<rparr>))"

definition file_get_or_create :: "cstring \<Rightarrow> 'w fs \<Rightarrow> fptr \<times> 'w fs" where
  "file_get_or_create value s =
     (case ht_get_entry (files s) value of
        Some f \<Rightarrow> (f, s)
      | None \<Rightarrow>
          let (f, s) = file_new value s
          in (f, s\<lparr>files := snd (ht_add_entry (files s) value f)\<rparr>))"

text \<open>\<open>None\<close> is the null pointer.\<close>

definition file_get :: "cstring \<Rightarrow> 'w fs \<Rightarrow> fptr option" where
  "file_get value s = ht_get_entry (files s) value"

text \<open>\<^verbatim>\<open>asprintf(&str, "%s%s%s", str, 0 == c ? "" : " ", t->value)\<close> for every tag.\<close>

definition file_get_tags_string :: "fptr \<Rightarrow> 'w fs \<Rightarrow> (cstring \<times> int) option" where
  "file_get_tags_string f s = do {
     x \<leftarrow> fheap s f;
     (str, size, c) \<leftarrow> ht_for_each (f_tags x)
       (\<lambda>n tag (str, size, c). do {
          t \<leftarrow> theap s tag;
          let str = str @ (if c = 0 then [] else '' '') @ t_value t;
          Some (str, int (length str), c + 1)
        }) ([], 0, 0 :: nat);
     Some (str, size)
   }"

definition file_add_descriptor :: "fptr option \<Rightarrow> dptr \<Rightarrow> 'w fs \<Rightarrow> 'w fs option" where
  "file_add_descriptor f fd s =
     (case f of
        None \<Rightarrow> None
      | Some f \<Rightarrow> file_upd f (\<lambda>x. x\<lparr>f_descriptors := f_descriptors x @ [fd]\<rparr>) s)"

definition file_remove_descriptor :: "fptr option \<Rightarrow> dptr \<Rightarrow> 'w fs \<Rightarrow> 'w fs option" where
  "file_remove_descriptor f fd s =
     (case f of
        None \<Rightarrow> None
      | Some f \<Rightarrow> file_upd f (\<lambda>x. x\<lparr>f_descriptors := remove1 fd (f_descriptors x)\<rparr>) s)"

subsection \<open>tag.c\<close>

text \<open>
  \<^verbatim>\<open>tag_dec_ref\<close> frees the struct when the count reaches zero, after removing the table's
  entry of that name.
\<close>

definition tag_dec_ref :: "tptr \<Rightarrow> 'w fs \<Rightarrow> 'w fs option" where
  "tag_dec_ref t s = do {
     s \<leftarrow> tag_upd t (\<lambda>r. r\<lparr>ref_count := ref_count r - 1\<rparr>) s;
     r \<leftarrow> theap s t;
     if ref_count r = 0
     then Some (s\<lparr>tags := snd (ht_remove_entry (tags s) (t_value r)), theap := (theap s)(t := None)\<rparr>)
     else Some s
   }"

definition tag_inc_ref :: "tptr \<Rightarrow> 'w fs \<Rightarrow> 'w fs option" where
  "tag_inc_ref t s = tag_upd t (\<lambda>r. r\<lparr>ref_count := ref_count r + 1\<rparr>) s"

definition tag_new :: "cstring \<Rightarrow> bool \<Rightarrow> 'w fs \<Rightarrow> tptr \<times> 'w fs" where
  "tag_new value use s =
     (let t = TagAt (tnext s);
          r = \<lparr>t_value = value, t_files = ht_create, in_use = use, ref_count = 0\<rparr>
      in (t, s\<lparr>theap := (theap s)(t \<mapsto> r), tnext := Suc (tnext s)\<rparr>))"

text \<open>\<^verbatim>\<open>tag_get_or_create__\<close>.\<close>

definition tag_get_or_create' :: "cstring \<Rightarrow> bool \<Rightarrow> 'w fs \<Rightarrow> tptr \<times> 'w fs" where
  "tag_get_or_create' value use s =
     (case ht_get_entry (tags s) value of
        Some t \<Rightarrow> (t, s)
      | None \<Rightarrow>
          let (t, s) = tag_new value use s
          in (t, s\<lparr>tags := snd (ht_add_entry (tags s) value t)\<rparr>))"

definition tag_get_or_create :: "cstring \<Rightarrow> 'w fs \<Rightarrow> (tptr \<times> 'w fs) option" where
  "tag_get_or_create value s = do {
     let (t, s) = tag_get_or_create' value True s;
     s \<leftarrow> tag_inc_ref t s;
     Some (t, s)
   }"

definition tag_get :: "cstring \<Rightarrow> 'w fs \<Rightarrow> tptr" where
  "tag_get value s =
     (case ht_get_entry (tags s) value of Some t \<Rightarrow> t | None \<Rightarrow> INVALID_TAG)"

definition tag_exist :: "cstring \<Rightarrow> 'w fs \<Rightarrow> bool" where
  "tag_exist value s \<longleftrightarrow> INVALID_TAG \<noteq> tag_get value s"

definition tag_add_file :: "tptr \<Rightarrow> fptr \<Rightarrow> 'w fs \<Rightarrow> 'w fs option" where
  "tag_add_file t f s = do {
     x \<leftarrow> fheap s f;
     s \<leftarrow> tag_upd t (\<lambda>r. r\<lparr>t_files := snd (ht_add_unique_entry (t_files r) (f_name x) f)\<rparr>) s;
     tag_upd t (\<lambda>r. r\<lparr>in_use := True\<rparr>) s
   }"

definition tag_remove_file :: "tptr \<Rightarrow> fptr \<Rightarrow> 'w fs \<Rightarrow> 'w fs option" where
  "tag_remove_file t f s = do {
     x \<leftarrow> fheap s f;
     tag_upd t (\<lambda>r. r\<lparr>t_files := snd (ht_remove_entry (t_files r) (f_name x))\<rparr>) s
   }"

text \<open>
  \<^verbatim>\<open>tag_remove\<close> copies the tag's file table first (under one key, the tag's name) and iterates
  the copy, because \<^verbatim>\<open>file_remove_tag\<close> is called on the way.
\<close>

definition tag_remove :: "tptr \<Rightarrow> 'w fs \<Rightarrow> 'w fs option" where
  "tag_remove t s = do {
     r \<leftarrow> theap s t;
     tmp \<leftarrow> ht_for_each (t_files r) (\<lambda>name f tmp. Some (snd (ht_add_entry tmp (t_value r) f))) ht_create;
     s \<leftarrow> ht_for_each tmp (\<lambda>name f s. file_remove_tag f t s) s;
     r \<leftarrow> theap s t;
     let s = s\<lparr>tags := snd (ht_remove_entry (tags s) (t_value r))\<rparr>;
     tag_dec_ref t s
   }"

text \<open>The loop of \<^verbatim>\<open>compute_selected_tags\<close> over the array of components.\<close>

fun select_tags :: "cstring option list \<Rightarrow> tptr ht \<Rightarrow> 'w fs \<Rightarrow> (tptr ht \<times> 'w fs) option" where
  "select_tags [] selected_tags s = Some (selected_tags, s)"
| "select_tags (c # cs) selected_tags s = do {
     c \<leftarrow> c;
     let t = tag_get c s;
     let (t, s) = (if t = INVALID_TAG then tag_get_or_create' c False s else (t, s));
     s \<leftarrow> tag_inc_ref t s;
     let selected_tags = snd (ht_add_entry selected_tags c t);
     select_tags cs selected_tags s
   }"

definition compute_selected_tags :: "cstring \<Rightarrow> 'w fs \<Rightarrow> (tptr ht \<times> 'w fs) option" where
  "compute_selected_tags dirpath s =
     (if dirpath = ''.'' then Some (ht_create, s)
      else do {
        (tag_count, tags) \<leftarrow> string_split dirpath ''/'';
        select_tags tags ht_create s
      })"

definition free_selected_tags :: "tptr ht \<Rightarrow> 'w fs \<Rightarrow> 'w fs option" where
  "free_selected_tags selected_tags s =
     ht_for_each selected_tags
       (\<lambda>n t s. do { r \<leftarrow> theap s t; if \<not> in_use r then tag_remove t s else Some s }) s"

definition tag_list :: "'w fs \<Rightarrow> tptr clist option" where
  "tag_list s = ht_to_list (tags s)"

definition tag_file :: "tptr \<Rightarrow> fptr \<Rightarrow> 'w fs \<Rightarrow> 'w fs option" where
  "tag_file t f s = do { s \<leftarrow> file_add_tag f t s; tag_add_file t f s }"

definition untag_file :: "tptr \<Rightarrow> fptr \<Rightarrow> 'w fs \<Rightarrow> 'w fs option" where
  "untag_file t f s = do { s \<leftarrow> file_remove_tag f t s; tag_remove_file t f s }"

end
