(* ===== verification/Fuse_Path.thy ===== *)
theory Fuse_Path
  imports Fuse_Tag
begin

text \<open>
  \<^verbatim>\<open>fuse/path.c\<close> and \<^verbatim>\<open>fuse/file_descriptor.c\<close>. A path object takes a reference on every tag it
  selects; releasing it removes the selected tags that nobody uses.
\<close>

subsection \<open>path.c\<close>

definition path_create :: "cstring \<Rightarrow> bool \<Rightarrow> 'w fs \<Rightarrow> (path \<times> 'w fs) option" where
  "path_create user_path is_tag s = do {
     let virtdirpath = dirnamedup user_path;
     (selected_tags, s) \<leftarrow> compute_selected_tags (if is_tag then user_path else virtdirpath) s;
     Some (\<lparr>p_realpath = path_realpath s user_path, p_virtpath = user_path,
            p_virtdirpath = virtdirpath, p_filename = basenamedup user_path,
            p_selected_tags = selected_tags\<rparr>, s)
   }"

definition path_delete :: "path \<Rightarrow> 'w fs \<Rightarrow> 'w fs option" where
  "path_delete path s = free_selected_tags (p_selected_tags path) s"

definition path_set :: "'w fs \<Rightarrow> cstring \<Rightarrow> cstring \<Rightarrow> tptr ht \<Rightarrow> path" where
  "path_set s virtdirpath filename selected_tags =
     \<lparr>p_realpath = append_dir (realdirpath s) filename, p_virtpath = append_dir virtdirpath filename,
      p_virtdirpath = virtdirpath, p_filename = filename, p_selected_tags = selected_tags\<rparr>"

subsection \<open>file_descriptor.c\<close>

text \<open>
  The result of \<^verbatim>\<open>fd_open\<close> is a pointer or, as \<^verbatim>\<open>ERR_PTR(-errno)\<close>, an error number; the
  theory \<open>Err_Ptr\<close> treats that encoding. Memory allocation is taken to succeed.
\<close>

definition fd_new :: "path \<Rightarrow> bool \<Rightarrow> fd_object \<Rightarrow> int \<Rightarrow> 'w fs \<Rightarrow> dptr \<times> 'w fs" where
  "fd_new path is_tag obj fh s =
     (let d = dnext s;
          fd = \<lparr>fd_path = path, fd_is_tag = is_tag,
                fd_is_tag_file = (p_filename path = TAG_FILENAME), fd_ph = None,
                fd_object = obj, fd_fh = fh\<rparr>
      in (d, s\<lparr>dheap := (dheap s)(d \<mapsto> fd), dnext := Suc d\<rparr>))"

definition fd_open_tag :: "path \<Rightarrow> 'w fs \<Rightarrow> ((int + dptr) \<times> 'w fs) option" where
  "fd_open_tag path s =
     (if p_virtpath path \<noteq> ''/'' then do {
        let t = tag_get (p_filename path) s;
        bad \<leftarrow> (if t = INVALID_TAG then Some True
                else do { r \<leftarrow> theap s t; Some (\<not> in_use r) });
        if bad then Some (Inl (- ENOENT), s)
        else let (d, s) = fd_new path True (TagObj t) (-1) s in Some (Inr d, s)
      } else let (d, s) = fd_new path True (TagObj INVALID_TAG) (-1) s in Some (Inr d, s))"

definition fd_open :: "'w os \<Rightarrow> path \<Rightarrow> 32 word \<Rightarrow> bool \<Rightarrow> 'w fs \<Rightarrow> ((int + dptr) \<times> 'w fs) option" where
  "fd_open os path flags is_tag s =
     (if is_tag then fd_open_tag path s
      else
        let (res, w) = os_open os (p_realpath path) flags (world s);
            s = s\<lparr>world := w\<rparr>
        in case res of
             Inl errno \<Rightarrow> Some (Inl (- errno), s)
           | Inr fh \<Rightarrow> do {
               let f = file_get (p_filename path) s;
               let (d, s) = fd_new path False (FileObj f) fh s;
               s \<leftarrow> file_add_descriptor f d s;
               Some (Inr d, s)
             })"

definition fd_close :: "'w os \<Rightarrow> dptr \<Rightarrow> 'w fs \<Rightarrow> (int \<times> 'w fs) option" where
  "fd_close os d s = do {
     fd \<leftarrow> dheap s d;
     let (res, w) = os_close os (fd_fh fd) (world s);
     let err = (case res of Inl errno \<Rightarrow> - errno | Inr u \<Rightarrow> 0);
     s \<leftarrow> path_delete (fd_path fd) (s\<lparr>world := w\<rparr>);
     let s = (case fd_ph fd of None \<Rightarrow> s | Some ph \<Rightarrow> s\<lparr>destroyed := destroyed s @ [ph]\<rparr>);
     s \<leftarrow> (if fd_is_tag fd then Some s
           else case fd_object fd of
                  FileObj f \<Rightarrow> file_remove_descriptor f d s
                | TagObj t \<Rightarrow> None);
     Some (err, s\<lparr>dheap := (dheap s)(d := None)\<rparr>)
   }"

text \<open>
  \<^verbatim>\<open>fd_read\<close> fills the rest of the buffer with null characters; \<open>buffer\<close> is its content
  before the call.
\<close>

definition fd_read :: "'w os \<Rightarrow> dptr \<Rightarrow> char list \<Rightarrow> nat \<Rightarrow> int \<Rightarrow> 'w fs \<Rightarrow> ((int \<times> char list) \<times> 'w fs) option" where
  "fd_read os d buffer len off s = do {
     fd \<leftarrow> dheap s d;
     let (res, w) = os_lseek os (fd_fh fd) off (world s);
     case res of
       Inl errno \<Rightarrow> Some ((- errno, buffer), s\<lparr>world := w\<rparr>)
     | Inr u \<Rightarrow>
         let (res, w) = os_read os (fd_fh fd) len w
         in case res of
              Inl errno \<Rightarrow> Some ((- errno, buffer), s\<lparr>world := w\<rparr>)
            | Inr bytes \<Rightarrow>
                Some ((int (length bytes), bytes @ replicate (len - length bytes) (CHR 0x00)
                       @ drop (max len (length bytes)) buffer), s\<lparr>world := w\<rparr>)
   }"

definition fd_write :: "'w os \<Rightarrow> dptr \<Rightarrow> char list \<Rightarrow> nat \<Rightarrow> int \<Rightarrow> 'w fs \<Rightarrow> (int \<times> 'w fs) option" where
  "fd_write os d buffer len off s = do {
     fd \<leftarrow> dheap s d;
     let (res, w) = os_lseek os (fd_fh fd) off (world s);
     case res of
       Inl errno \<Rightarrow> Some (- errno, s\<lparr>world := w\<rparr>)
     | Inr u \<Rightarrow>
         let (res, w) = os_write os (fd_fh fd) (take len buffer) w
         in case res of
              Inl errno \<Rightarrow> Some (- errno, s\<lparr>world := w\<rparr>)
            | Inr n \<Rightarrow> Some (int n, s\<lparr>world := w\<rparr>)
   }"

end
