(* ===== verification/Fuse_Db.thy ===== *)
theory Fuse_Db
  imports Fuse_Tag
begin

text \<open>
  The tag database of \<^verbatim>\<open>fuse/tag.c\<close>: \<^verbatim>\<open>tag_db_dump\<close> writes it, \<^verbatim>\<open>parse_tags_db\<close> reads it. A text
  file is a string; \<^verbatim>\<open>fgets\<close> hands out its lines, cut at 999 characters.
\<close>

abbreviation newline :: char where "newline \<equiv> CHR 0x0A"

subsection \<open>Writing\<close>

text \<open>The callback \<^verbatim>\<open>print_tag\<close> and the loop of \<^verbatim>\<open>tag_db_dump\<close>, output appended to a string.\<close>

definition dump_tags :: "'w fs \<Rightarrow> tptr ht \<Rightarrow> cstring \<Rightarrow> cstring option" where
  "dump_tags s h output =
     ht_for_each h (\<lambda>key tag output. do { t \<leftarrow> theap s tag; Some (output @ t_value t @ [newline]) }) output"

definition dump_file :: "'w fs \<Rightarrow> fptr option \<Rightarrow> cstring \<Rightarrow> cstring option" where
  "dump_file s f output = do {
     f \<leftarrow> f;
     x \<leftarrow> fheap s f;
     if ht_entry_count (f_tags x) = 0 then Some output
     else do {
       let output = output @ ''['' @ f_name x @ '']'' @ [newline];
       output \<leftarrow> dump_tags s (f_tags x) output;
       Some (output @ [newline])
     }
   }"

definition tag_db_dump :: "'w fs \<Rightarrow> cstring option" where
  "tag_db_dump s = do {
     l \<leftarrow> file_list s;
     (output, l) \<leftarrow> list_fold_from l 1 (list_size l) (dump_file s) [];
     Some output
   }"

text \<open>\<^verbatim>\<open>update_lib\<close> (not called): every file, also without tags, and no empty lines.\<close>

definition update_lib_file :: "'w fs \<Rightarrow> fptr option \<Rightarrow> cstring \<Rightarrow> cstring option" where
  "update_lib_file s fi output =
     (case fi of
        None \<Rightarrow> Some output
      | Some fi \<Rightarrow> do {
          x \<leftarrow> fheap s fi;
          fiTagsList \<leftarrow> ht_to_list (f_tags x);
          let output = output @ ''['' @ f_name x @ '']'' @ [newline];
          (output, l) \<leftarrow> list_fold_from fiTagsList 1 (list_size fiTagsList)
            (\<lambda>t output. case t of
               None \<Rightarrow> Some output
             | Some t \<Rightarrow> do { r \<leftarrow> theap s t; Some (output @ t_value r @ [newline]) }) output;
          Some output
        })"

definition update_lib :: "'w fs \<Rightarrow> cstring option" where
  "update_lib s = do {
     filesList \<leftarrow> file_list s;
     (output, l) \<leftarrow> list_fold_from filesList 1 (list_size filesList) (update_lib_file s) [];
     Some output
   }"

subsection \<open>Reading\<close>

definition MAX_LENGTH :: nat where "MAX_LENGTH = 1000"

text \<open>\<^verbatim>\<open>fgets(word, n, fi)\<close>: up to \<open>n - 1\<close> characters, not past a newline; with the rest.\<close>

fun fgets :: "nat \<Rightarrow> cstring \<Rightarrow> cstring \<times> cstring" where
  "fgets 0 inp = ([], inp)"
| "fgets (Suc 0) inp = ([], inp)"
| "fgets (Suc (Suc n)) [] = ([], [])"
| "fgets (Suc (Suc n)) (c # inp) =
     (if c = newline then ([c], inp)
      else let (word, rest) = fgets (Suc n) inp in (c # word, rest))"

lemma fgets_rest: "fgets n inp = (word, rest) \<Longrightarrow> inp = word @ rest"
  by (induction n inp arbitrary: word rule: fgets.induct) (auto split: if_splits prod.splits)

lemma fgets_progress: "n \<ge> 2 \<Longrightarrow> inp \<noteq> [] \<Longrightarrow> fst (fgets n inp) \<noteq> []"
  by (induction n inp rule: fgets.induct) (auto split: prod.splits)

lemma fgets_shorter:
  assumes "(word, rest) = fgets MAX_LENGTH fi" and "fi \<noteq> []"
  shows "length rest < length fi"
proof -
  have "fst (fgets MAX_LENGTH fi) = word" by (simp add: assms(1) [symmetric])
  then have "word \<noteq> []" using fgets_progress [of MAX_LENGTH fi] assms(2)
    by (simp add: MAX_LENGTH_def)
  moreover have "fi = word @ rest" using assms(1) by (metis fgets_rest)
  ultimately show ?thesis by simp
qed

definition isspace :: "char \<Rightarrow> bool" where
  "isspace c \<longleftrightarrow> c \<in> {CHR 0x20, CHR 0x09, CHR 0x0A, CHR 0x0B, CHR 0x0C, CHR 0x0D}"

text \<open>
  \<^verbatim>\<open>strndup(word, strchr(word, end) - word)\<close>. Where the character is missing, \<^verbatim>\<open>strchr\<close> is null
  and the difference, converted to \<^verbatim>\<open>size_t\<close>, is larger than the text: the whole word.
\<close>

definition copy_word_until :: "cstring \<Rightarrow> char \<Rightarrow> cstring" where
  "copy_word_until word end = takeWhile (\<lambda>c. c \<noteq> end) word"

text \<open>The callback \<^verbatim>\<open>getattr\<close>: its result and the state after it.\<close>

type_synonym 'w getattr_fn = "cstring \<Rightarrow> 'w fs \<Rightarrow> (int \<times> 'w fs) option"

definition parse_file :: "cstring \<Rightarrow> 'w getattr_fn \<Rightarrow> 'w fs \<Rightarrow> (fptr option \<times> 'w fs) option" where
  "parse_file word getattr s = do {
     let data = copy_word_until word (CHR '']'');
     (res, s) \<leftarrow> getattr data s;
     if res \<ge> 0
     then let (f, s) = file_get_or_create data s in Some (Some f, s)
     else Some (None, s)
   }"

definition parse_tag :: "fptr option \<Rightarrow> cstring \<Rightarrow> 'w fs \<Rightarrow> 'w fs option" where
  "parse_tag f word s = do {
     let data = copy_word_until word newline;
     if length data \<noteq> 0 then do {
       (t, s) \<leftarrow> tag_get_or_create data s;
       case f of None \<Rightarrow> Some s | Some f \<Rightarrow> tag_file t f s
     } else Some s
   }"

text \<open>One round of the loop of \<^verbatim>\<open>parse_tags_db2\<close>: a line and the current file.\<close>

definition parse_line ::
  "'w getattr_fn \<Rightarrow> cstring \<Rightarrow> fptr option \<Rightarrow> 'w fs \<Rightarrow> (fptr option \<times> 'w fs) option" where
  "parse_line getattr word f s =
     (if word \<noteq> [] \<and> hd word = CHR ''#'' then Some (f, s)
      else let word = dropWhile isspace word
           in if word \<noteq> [] \<and> hd word = CHR ''['' then parse_file (tl word) getattr s
              else do { s \<leftarrow> parse_tag f word s; Some (f, s) })"

function parse_lines ::
  "'w getattr_fn \<Rightarrow> cstring \<Rightarrow> fptr option \<Rightarrow> 'w fs \<Rightarrow> (fptr option \<times> 'w fs) option" where
  "parse_lines getattr fi f s =
     (if fi = [] then Some (f, s)
      else let (word, rest) = fgets MAX_LENGTH fi
           in do { (f, s) \<leftarrow> parse_line getattr word f s; parse_lines getattr rest f s })"
  by pat_completeness auto
termination
  by (relation "measure (\<lambda>(getattr, fi, f, s). length fi)") (auto simp: fgets_shorter)

declare parse_lines.simps [simp del]

definition parse_tags_db2 :: "cstring \<Rightarrow> 'w getattr_fn \<Rightarrow> 'w fs \<Rightarrow> 'w fs option" where
  "parse_tags_db2 fi getattr s = do { (f, s) \<leftarrow> parse_lines getattr fi None s; Some s }"

text \<open>\<open>None\<close> as content: the database could not be opened.\<close>

definition parse_tags_db :: "cstring option \<Rightarrow> 'w getattr_fn \<Rightarrow> 'w fs \<Rightarrow> 'w fs option" where
  "parse_tags_db fi getattr s =
     (case fi of None \<Rightarrow> Some s | Some fi \<Rightarrow> parse_tags_db2 fi getattr s)"

end
