(* ===== verification/Fuse_Tagfs.thy ===== *)
theory Fuse_Tagfs
  imports Fuse_Path Fuse_Db
begin

text \<open>
  The FUSE operations of \<^verbatim>\<open>fuse/tagfs.c\<close>, compiled for FUSE 2.6 as its Makefile does. An
  operation takes the state and returns its C result, what it stores through its output
  arguments, and the state afterwards; \<open>None\<close> is undefined behaviour. The operations of the
  table \<^verbatim>\<open>tag_oper\<close> are collected as requests in the theory \<open>Fuse_Step\<close>. Log output is left out.
\<close>

subsection \<open>Attributes\<close>

definition file_matches_tags :: "fptr \<Rightarrow> tptr ht \<Rightarrow> 'w fs \<Rightarrow> bool option" where
  "file_matches_tags f selected_tags s =
     ht_for_each selected_tags
       (\<lambda>name t match.
          if t = INVALID_TAG then Some False
          else do {
            r \<leftarrow> theap s t;
            x \<leftarrow> fheap s f;
            Some (if \<not> ht_has_entry (f_tags x) (t_value r) then False else match)
          }) True"

definition getattr_intra :: "'w os \<Rightarrow> path \<Rightarrow> stat \<Rightarrow> 'w fs \<Rightarrow> ((int \<times> stat) \<times> 'w fs) option" where
  "getattr_intra os p stbuf s =
     (let (res, stbuf) = c_stat os (p_realpath p) stbuf (world s)
      in if res < 0 \<or> S_ISDIR (st_mode stbuf)
         then Some (c_stat os (realdirpath s) stbuf (world s), s)
         else do {
           let (f, s) = file_get_or_create (p_filename p) s;
           if ht_entry_count (p_selected_tags p) > 0 then do {
             m \<leftarrow> file_matches_tags f (p_selected_tags p) s;
             Some ((if \<not> m then - ENOENT else res, stbuf), s)
           }
           else if p_filename p = TAG_FILENAME
           then Some ((res, stbuf\<lparr>st_size := LONG_MAX\<rparr>), s)
           else Some ((res, stbuf), s)
         })"

definition tag_getattr :: "'w os \<Rightarrow> cstring \<Rightarrow> stat \<Rightarrow> 'w fs \<Rightarrow> ((int \<times> stat) \<times> 'w fs) option" where
  "tag_getattr os user_path stbuf s = do {
     (path, s) \<leftarrow> path_create user_path False s;
     ((res, stbuf), s) \<leftarrow> getattr_intra os path stbuf s;
     s \<leftarrow> path_delete path s;
     Some ((res, stbuf), s)
   }"

definition tag_fgetattr :: "'w os \<Rightarrow> dptr \<Rightarrow> stat \<Rightarrow> 'w fs \<Rightarrow> ((int \<times> stat) \<times> 'w fs) option" where
  "tag_fgetattr os d stbuf s = do {
     fd \<leftarrow> dheap s d;
     getattr_intra os (fd_path fd) stbuf s
   }"

subsection \<open>Opening and closing\<close>

text \<open>On an error the path object is not released; on success the pointer goes to \<^verbatim>\<open>fi->fh\<close>.\<close>

definition tag_open ::
  "'w os \<Rightarrow> cstring \<Rightarrow> 32 word \<Rightarrow> bool \<Rightarrow> 'w fs \<Rightarrow> ((int \<times> dptr option) \<times> 'w fs) option" where
  "tag_open os user_path flags is_tag s = do {
     (path, s) \<leftarrow> path_create user_path is_tag s;
     (fd, s) \<leftarrow> fd_open os path flags is_tag s;
     case fd of
       Inl err \<Rightarrow> Some ((err, None), s)
     | Inr d \<Rightarrow> Some ((0, Some d), s)
   }"

definition tag_open_file where
  "tag_open_file os user_path flags s = tag_open os user_path flags False s"

definition tag_open_dir where
  "tag_open_dir os user_path flags s = tag_open os user_path flags True s"

definition tag_release_generic :: "'w os \<Rightarrow> dptr \<Rightarrow> 'w fs \<Rightarrow> (int \<times> 'w fs) option" where
  "tag_release_generic os d s = fd_close os d s"

subsection \<open>Extended attributes\<close>

definition strncpy :: "char list \<Rightarrow> cstring \<Rightarrow> nat \<Rightarrow> char list" where
  "strncpy dst src n = take n src @ replicate (n - length src) (CHR 0x00) @ drop n dst"

definition tag_setxattr :: "cstring \<Rightarrow> 'w fs \<Rightarrow> int \<times> 'w fs" where
  "tag_setxattr user_path s = (- EPERM, s)"

definition tag_getxattr_list_tags ::
  "'w os \<Rightarrow> cstring \<Rightarrow> char list \<Rightarrow> nat \<Rightarrow> 'w fs \<Rightarrow> ((int \<times> char list) \<times> 'w fs) option" where
  "tag_getxattr_list_tags os user_path value sz s = do {
     (p, s) \<leftarrow> path_create user_path False s;
     ((err, st), s) \<leftarrow> getattr_intra os p stat0 s;
     ((err, value), s) \<leftarrow>
       (if err \<noteq> 0 then Some ((err, value), s)
        else if S_ISDIR (st_mode st) then Some ((- EISDIR, value), s)
        else do {
          let (f, s) = file_get_or_create (p_filename p) s;
          (str, len) \<leftarrow> file_get_tags_string f s;
          Some ((len, strncpy value str sz), s)
        });
     s \<leftarrow> path_delete p s;
     Some ((err, value), s)
   }"

definition tag_getxattr_fs_type :: "char list \<Rightarrow> nat \<Rightarrow> int \<times> char list" where
  "tag_getxattr_fs_type value sz =
     (int (length ''fuse_tag'') + 1, strncpy value ''fuse_tag'' sz)"

definition tag_getxattr ::
  "'w os \<Rightarrow> cstring \<Rightarrow> cstring \<Rightarrow> char list \<Rightarrow> nat \<Rightarrow> 'w fs \<Rightarrow> ((int \<times> char list) \<times> 'w fs) option" where
  "tag_getxattr os user_path name value sz s =
     (if name = ''tags'' then tag_getxattr_list_tags os user_path value sz s
      else if name = ''fs_type'' then Some (tag_getxattr_fs_type value sz, s)
      else Some ((- ENODATA, value), s))"

subsection \<open>Removing\<close>

definition path_unlink :: "path \<Rightarrow> 'w fs \<Rightarrow> (int \<times> 'w fs) option" where
  "path_unlink fd s =
     (case file_get (p_filename fd) s of
        None \<Rightarrow> Some (- ENOENT, s)
      | Some f \<Rightarrow> do {
          s \<leftarrow> ht_for_each (p_selected_tags fd)
            (\<lambda>filename tag s. do {
               s \<leftarrow> untag_file tag f s;
               r \<leftarrow> theap s tag;
               if ht_entry_count (t_files r) = 0 then tag_remove tag s else Some s
             }) s;
          Some (0, s)
        })"

definition tag_unlink :: "cstring \<Rightarrow> 'w fs \<Rightarrow> (int \<times> 'w fs) option" where
  "tag_unlink user_path s =
     (if get_character_count user_path slash \<le> 1 then Some (- EPERM, s)
      else do {
        (fd, s) \<leftarrow> path_create user_path False s;
        (res, s) \<leftarrow> path_unlink fd s;
        s \<leftarrow> path_delete fd s;
        Some (res, s)
      })"

definition tag_rmdir_noop :: "cstring \<Rightarrow> 'w fs \<Rightarrow> int \<times> 'w fs" where
  "tag_rmdir_noop user_path s = (0, s)"

text \<open>\<^verbatim>\<open>tag_rmdir\<close> is not in the operations table.\<close>

definition tag_rmdir :: "cstring \<Rightarrow> 'w fs \<Rightarrow> (int \<times> 'w fs) option" where
  "tag_rmdir user_path s =
     (if get_character_count user_path slash > 1 then Some (- EPERM, s)
      else
        let tag = basenamedup user_path; t = tag_get tag s
        in if INVALID_TAG = t then Some (- ENOENT, s)
           else do { s \<leftarrow> tag_remove t s; Some (0, s) })"

definition tag_noop_mkdir :: "cstring \<Rightarrow> 'w fs \<Rightarrow> int \<times> 'w fs" where
  "tag_noop_mkdir user_path s = (0, s)"

definition tag_mkdir :: "cstring \<Rightarrow> 'w fs \<Rightarrow> (int \<times> 'w fs) option" where
  "tag_mkdir user_path s =
     (if get_character_count user_path slash > 1 then Some (- EPERM, s)
      else do {
        let filename = basenamedup user_path;
        let t = tag_get filename s;
        if INVALID_TAG \<noteq> t then do {
          r \<leftarrow> theap s t;
          if in_use r then Some (- EEXIST, s)
          else do { s \<leftarrow> tag_upd t (\<lambda>r. r\<lparr>in_use := True\<rparr>) s; Some (0, s) }
        }
        else do { (t, s) \<leftarrow> tag_get_or_create filename s; Some (0, s) }
      })"

subsection \<open>Listing a directory\<close>

text \<open>The buffer that \<^verbatim>\<open>filler\<close> fills is the list of names in the order of the calls.\<close>

fun readdir_entries ::
  "'w os \<Rightarrow> path \<Rightarrow> (cstring \<times> bool) list \<Rightarrow> cstring list \<Rightarrow> 'w fs \<Rightarrow> (cstring list \<times> 'w fs) option" where
  "readdir_entries os dirpath [] buf s = Some (buf, s)"
| "readdir_entries os dirpath ((d_name, dt_dir) # dirents) buf s =
     (if dt_dir then readdir_entries os dirpath dirents buf s
      else do {
        let p = path_set s (p_virtpath dirpath) d_name (p_selected_tags dirpath);
        ((res, stbuf), s) \<leftarrow> getattr_intra os p stat0 s;
        readdir_entries os dirpath dirents (if res < 0 then buf else buf @ [d_name]) s
      })"

definition readdir_list_files ::
  "'w os \<Rightarrow> path \<Rightarrow> cstring list \<Rightarrow> 'w fs \<Rightarrow> (cstring list \<times> 'w fs) option" where
  "readdir_list_files os dirpath buf s =
     readdir_entries os dirpath (os_readdir os (world s)) buf s"

definition readdir_list_tags_mode1 :: "tptr ht \<Rightarrow> cstring list \<Rightarrow> 'w fs \<Rightarrow> cstring list option" where
  "readdir_list_tags_mode1 selected_tags buf s = do {
     tagl \<leftarrow> tag_list s;
     (buf, tagl) \<leftarrow> list_fold_from tagl 1 (list_size tagl)
       (\<lambda>t buf. do {
          t \<leftarrow> t;
          r \<leftarrow> theap s t;
          Some (if \<not> ht_has_entry selected_tags (t_value r) \<and> in_use r then buf @ [t_value r] else buf)
        }) buf;
     Some buf
   }"

definition readdir_get_selected_files :: "tptr ht \<Rightarrow> 'w fs \<Rightarrow> fptr ht option" where
  "readdir_get_selected_files selected_tags s = do {
     selected_files \<leftarrow> ht_for_each selected_tags
       (\<lambda>n tag selected_files. do {
          t \<leftarrow> theap s tag;
          ht_for_each (t_files t)
            (\<lambda>n file selected_files. do {
               f \<leftarrow> fheap s file;
               Some (snd (ht_add_unique_entry selected_files (f_name f) file))
             }) selected_files
        }) ht_create;
     not_matching \<leftarrow> ht_for_each selected_files
       (\<lambda>n file not_matching.
          ht_for_each selected_tags
            (\<lambda>n tag not_matching. do {
               f \<leftarrow> fheap s file;
               t \<leftarrow> theap s tag;
               Some (if \<not> ht_has_entry (f_tags f) (t_value t)
                     then snd (ht_add_entry not_matching (f_name f) file) else not_matching)
             }) not_matching) ht_create;
     ht_for_each not_matching
       (\<lambda>n f selected_files. Some (snd (ht_remove_entry selected_files n))) selected_files
   }"

definition readdir_fill_remaining_tags ::
  "tptr ht \<Rightarrow> fptr ht \<Rightarrow> cstring list \<Rightarrow> 'w fs \<Rightarrow> cstring list option" where
  "readdir_fill_remaining_tags selected_tags selected_files buf s = do {
     (buf, remaining_tags) \<leftarrow> ht_for_each selected_files
       (\<lambda>n file acc. do {
          f \<leftarrow> fheap s file;
          ht_for_each (f_tags f)
            (\<lambda>n tag (buf, remaining_tags). do {
               t \<leftarrow> theap s tag;
               Some (if \<not> ht_has_entry selected_tags (t_value t) \<and>
                        \<not> ht_has_entry remaining_tags (t_value t)
                     then (buf @ [t_value t], snd (ht_add_unique_entry remaining_tags (t_value t) tag))
                     else (buf, remaining_tags))
             }) acc
        }) (buf, ht_create :: tptr ht);
     Some buf
   }"

definition readdir_list_tags_mode2 :: "tptr ht \<Rightarrow> cstring list \<Rightarrow> 'w fs \<Rightarrow> cstring list option" where
  "readdir_list_tags_mode2 selected_tags buf s = do {
     selected_files \<leftarrow> readdir_get_selected_files selected_tags s;
     readdir_fill_remaining_tags selected_tags selected_files buf s
   }"

definition tag_readdir :: "'w os \<Rightarrow> dptr \<Rightarrow> 'w fs \<Rightarrow> ((int \<times> cstring list) \<times> 'w fs) option" where
  "tag_readdir os d s = do {
     fd \<leftarrow> dheap s d;
     let path = fd_path fd;
     let buf = [''.'', ''..''];
     buf \<leftarrow> (if ht_entry_count (p_selected_tags path) > 0
             then readdir_list_tags_mode2 (p_selected_tags path) buf s
             else readdir_list_tags_mode1 (p_selected_tags path) buf s);
     (buf, s) \<leftarrow> readdir_list_files os path buf s;
     Some ((0, buf), s)
   }"

subsection \<open>Reading and writing\<close>

text \<open>
  The tag file is dumped into a temporary file, of which \<open>len\<close> bytes from \<open>off\<close> on are read;
  \<^verbatim>\<open>fseek\<close> refuses a negative offset.
\<close>

definition read_tag_file :: "char list \<Rightarrow> nat \<Rightarrow> int \<Rightarrow> 'w fs \<Rightarrow> (int \<times> char list) option" where
  "read_tag_file buffer len off s = do {
     tagfile \<leftarrow> tag_db_dump s;
     if off < 0 then Some (- EINVAL, buffer)
     else
       let bytes = take len (drop (nat off) tagfile)
       in Some (int (length bytes), bytes @ replicate (len - length bytes) (CHR 0x00) @ drop len buffer)
   }"

definition tag_read ::
  "'w os \<Rightarrow> dptr \<Rightarrow> char list \<Rightarrow> nat \<Rightarrow> int \<Rightarrow> 'w fs \<Rightarrow> ((int \<times> char list) \<times> 'w fs) option" where
  "tag_read os d buffer len off s = do {
     fd \<leftarrow> dheap s d;
     if fd_is_tag_file fd then do { r \<leftarrow> read_tag_file buffer len off s; Some (r, s) }
     else fd_read os d buffer len off s
   }"

definition tag_write :: "'w os \<Rightarrow> dptr \<Rightarrow> char list \<Rightarrow> nat \<Rightarrow> int \<Rightarrow> 'w fs \<Rightarrow> (int \<times> 'w fs) option" where
  "tag_write os d buffer len off s = do {
     fd \<leftarrow> dheap s d;
     if fd_is_tag_file fd then Some (- EPERM, s) else fd_write os d buffer len off s
   }"

subsection \<open>Operations on the real file\<close>

definition tag_mknod :: "'w os \<Rightarrow> cstring \<Rightarrow> 32 word \<Rightarrow> 64 word \<Rightarrow> 'w fs \<Rightarrow> int \<times> 'w fs" where
  "tag_mknod os user_path mode device s =
     (let realpath = path_realpath s user_path
      in case os_access os realpath (world s) of
           Inr u \<Rightarrow> (- EREMOTE, s)
         | Inl errno \<Rightarrow>
             let (res, w) = os_mknod os realpath mode device (world s)
             in (c_result res, s\<lparr>world := w\<rparr>))"

definition tag_truncate :: "'w os \<Rightarrow> cstring \<Rightarrow> int \<Rightarrow> 'w fs \<Rightarrow> int \<times> 'w fs" where
  "tag_truncate os user_path len s =
     (if user_path = ''/.tags'' \<or> user_path = ''.tags'' then (- EPERM, s)
      else let (res, w) = os_truncate os (path_realpath s user_path) len (world s)
           in (c_result res, s\<lparr>world := w\<rparr>))"

definition tag_chmod :: "'w os \<Rightarrow> cstring \<Rightarrow> 32 word \<Rightarrow> 'w fs \<Rightarrow> int \<times> 'w fs" where
  "tag_chmod os user_path mode s =
     (let (res, w) = os_chmod os (path_realpath s user_path) mode (world s)
      in (c_result res, s\<lparr>world := w\<rparr>))"

definition tag_chown :: "'w os \<Rightarrow> cstring \<Rightarrow> 32 word \<Rightarrow> 32 word \<Rightarrow> 'w fs \<Rightarrow> int \<times> 'w fs" where
  "tag_chown os user_path uid gid s =
     (let (res, w) = os_chown os (path_realpath s user_path) uid gid (world s)
      in (c_result res, s\<lparr>world := w\<rparr>))"

definition tag_utime :: "'w os \<Rightarrow> cstring \<Rightarrow> (int \<times> int) \<times> (int \<times> int) \<Rightarrow> 'w fs \<Rightarrow> int \<times> 'w fs" where
  "tag_utime os user_path tb s =
     (let (res, w) = os_utimens os (path_realpath s user_path) tb (world s)
      in (c_result res, s\<lparr>world := w\<rparr>))"

subsection \<open>Linking and renaming\<close>

definition path_link :: "'w os \<Rightarrow> path \<Rightarrow> path \<Rightarrow> 'w fs \<Rightarrow> (int \<times> 'w fs) option" where
  "path_link os ffrom fto s = do {
     ((res, stbuf), s) \<leftarrow> getattr_intra os ffrom stat0 s;
     if res < 0 then Some (res, s)
     else do {
       let (f, s) = file_get_or_create (p_filename ffrom) s;
       s \<leftarrow> ht_for_each (p_selected_tags fto) (\<lambda>tagname tag s. tag_file tag f s) s;
       Some (res, s)
     }
   }"

definition tag_link :: "'w os \<Rightarrow> cstring \<Rightarrow> cstring \<Rightarrow> 'w fs \<Rightarrow> (int \<times> 'w fs) option" where
  "tag_link os from to s = do {
     (ffrom, s) \<leftarrow> path_create from False s;
     (fto, s) \<leftarrow> path_create to False s;
     (r, s) \<leftarrow> tag_mkdir (p_virtdirpath fto) s;
     (res, s) \<leftarrow> path_link os ffrom fto s;
     s \<leftarrow> path_delete ffrom s;
     s \<leftarrow> path_delete fto s;
     Some (res, s)
   }"

definition tag_rename :: "'w os \<Rightarrow> cstring \<Rightarrow> cstring \<Rightarrow> 'w fs \<Rightarrow> (int \<times> 'w fs) option" where
  "tag_rename os from to s = do {
     (ffrom, s) \<leftarrow> path_create from False s;
     (fto, s) \<leftarrow> path_create to False s;
     (res, s) \<leftarrow>
       (if ht_entry_count (p_selected_tags ffrom) \<noteq> 1 \<or> ht_entry_count (p_selected_tags fto) \<noteq> 1
        then Some (- EPERM, s)
        else do {
          (r1, s) \<leftarrow> path_link os ffrom fto s;
          (r2, s) \<leftarrow> path_unlink ffrom s;
          Some (0, s)
        });
     s \<leftarrow> path_delete ffrom s;
     s \<leftarrow> path_delete fto s;
     Some (res, s)
   }"

subsection \<open>ioctl and poll\<close>

text \<open>
  \<^verbatim>\<open>struct tag_ioctl\<close> of \<^verbatim>\<open>include/tagioc.h\<close>. Its buffer has \<^verbatim>\<open>BUFSIZE\<close> bytes, so that
  \<^verbatim>\<open>data->buf[BUFSIZE] = 0\<close> writes the byte behind the struct, which is undefined behaviour. The field
  \<open>io_behind\<close>, which no caller sets, records such a write; theory \<open>Fuse_Step\<close> counts a request that leaves one as
  undefined.
\<close>

definition BUFSIZE :: nat where "BUFSIZE = 1024"

record tag_ioctl =
  io_size :: nat
  io_off :: int
  io_buf :: "char list"
  io_behind :: "char option"

definition FUSE_IOCTL_COMPAT :: "32 word" where "FUSE_IOCTL_COMPAT = 1"

text \<open>The request number \<^verbatim>\<open>_IOWR('E', 0, struct tag_ioctl)\<close> (3 << 30 | 1040 << 16 | 'E' << 8).\<close>

definition TAG_IOC_READ_TAGS :: "32 word" where "TAG_IOC_READ_TAGS = 0xC4104500"

definition ioctl_fill :: "cstring \<Rightarrow> int \<Rightarrow> tag_ioctl \<Rightarrow> tag_ioctl" where
  "ioctl_fill str len data =
     (let data = data\<lparr>io_buf := strncpy (io_buf data) str BUFSIZE\<rparr>;
          data = data\<lparr>io_behind := Some (CHR 0x00)\<rparr>
      in if len > int BUFSIZE then data\<lparr>io_size := BUFSIZE\<rparr> else data\<lparr>io_size := nat len\<rparr>)"

definition ioctl_read_tags :: "dptr \<Rightarrow> tag_ioctl \<Rightarrow> 'w fs \<Rightarrow> (int \<times> tag_ioctl) option" where
  "ioctl_read_tags d data s = do {
     fd \<leftarrow> dheap s d;
     case file_get (p_filename (fd_path fd)) s of
       None \<Rightarrow> Some (- ENOENT, data)
     | Some f \<Rightarrow> do {
         (str, len) \<leftarrow> file_get_tags_string f s;
         Some (0, ioctl_fill str len data)
       }
   }"

definition tag_ioctl ::
  "dptr \<Rightarrow> 32 word \<Rightarrow> 32 word \<Rightarrow> tag_ioctl \<Rightarrow> 'w fs \<Rightarrow> ((int \<times> tag_ioctl) \<times> 'w fs) option" where
  "tag_ioctl d cmd flags data s = do {
     fd \<leftarrow> dheap s d;
     if fd_is_tag fd \<or> fd_is_tag_file fd then Some ((- EINVAL, data), s)
     else if flags AND FUSE_IOCTL_COMPAT \<noteq> 0 then Some ((- ENOSYS, data), s)
     else if cmd = TAG_IOC_READ_TAGS
     then do { r \<leftarrow> ioctl_read_tags d data s; Some (r, s) }
     else Some ((- EINVAL, data), s)
   }"

text \<open>
  \<^verbatim>\<open>tag_poll\<close> reads the union as a file. For a descriptor of a tag, or of a file that was
  unknown when it was opened, that is a fault.
\<close>

definition tag_poll :: "dptr \<Rightarrow> pollhandle option \<Rightarrow> 'w fs \<Rightarrow> ((int \<times> 32 word) \<times> 'w fs) option" where
  "tag_poll d ph s = do {
     fd \<leftarrow> dheap s d;
     let s = (case fd_ph fd of None \<Rightarrow> s | Some old \<Rightarrow> s\<lparr>destroyed := destroyed s @ [old]\<rparr>);
     s \<leftarrow> fd_upd d (\<lambda>fd. fd\<lparr>fd_ph := ph\<rparr>) s;
     case fd_object fd of
       FileObj (Some f) \<Rightarrow> do {
         x \<leftarrow> fheap s f;
         s \<leftarrow> file_upd f (\<lambda>x. x\<lparr>f_revents := 0\<rparr>) s;
         Some ((0, f_revents x), s)
       }
     | _ \<Rightarrow> None
   }"

subsection \<open>Startup and shutdown\<close>

text \<open>
  \<^verbatim>\<open>set_root_directory\<close> with the real path of the target directory and the content of its
  tag database; the callback of the parser is \<^verbatim>\<open>tag_getattr\<close>.
\<close>

definition getattr_callback :: "'w os \<Rightarrow> 'w getattr_fn" where
  "getattr_callback os data s = do { ((res, st), s) \<leftarrow> tag_getattr os data stat0 s; Some (res, s) }"

definition set_root_directory :: "'w os \<Rightarrow> cstring \<Rightarrow> cstring \<Rightarrow> cstring option \<Rightarrow> 'w \<Rightarrow> 'w fs option" where
  "set_root_directory os path real db w =
     parse_tags_db db (getattr_callback os) (fs_init real (append_dir path TAG_FILENAME) w)"

text \<open>\<^verbatim>\<open>save_tag_db\<close>: the name of the file written and its content.\<close>

definition save_tag_db :: "'w fs \<Rightarrow> (cstring \<times> cstring) option" where
  "save_tag_db s = do { output \<leftarrow> tag_db_dump s; Some (tagdbpath s @ ''.new'', output) }"

end
