(* ===== verification/Fuse_Inv.thy ===== *)
theory Fuse_Inv
  imports Fuse_Tagfs
begin

text \<open>
  The invariant of the \<^verbatim>\<open>fuse\<close> state. \<open>assoc_ok\<close>: the tables, the structs and the two-way
  association of tags and files agree, and only tags in use have files. \<open>op_inv h s\<close> is what
  holds inside an operation whose path objects hold the references \<open>h\<close>; \<open>fs_inv\<close> is
  \<open>op_inv []\<close>, between operations. The lemmas say what each function of \<^verbatim>\<open>tag.c\<close> and
  \<^verbatim>\<open>file.c\<close> does to a state with the invariant, and that it does not fault.
\<close>

subsection \<open>The invariant\<close>

definition tags_ok :: "'w fs \<Rightarrow> bool" where
  "tags_ok s \<longleftrightarrow> distinct (keys (tags s)) \<and>
     (\<forall>k t. (k, t) \<in> set (tags s) \<longrightarrow> (\<exists>r. theap s t = Some r \<and> t_value r = k))"

definition files_ok :: "'w fs \<Rightarrow> bool" where
  "files_ok s \<longleftrightarrow> distinct (keys (files s)) \<and>
     (\<forall>n f. (n, f) \<in> set (files s) \<longrightarrow> (\<exists>x. fheap s f = Some x \<and> f_name x = n)) \<and>
     (\<forall>f x. fheap s f = Some x \<longrightarrow> (f_name x, f) \<in> set (files s))"

definition ftags_ok :: "'w fs \<Rightarrow> bool" where
  "ftags_ok s \<longleftrightarrow> (\<forall>f x. fheap s f = Some x \<longrightarrow> distinct (keys (f_tags x)) \<and>
     (\<forall>k t. (k, t) \<in> set (f_tags x) \<longrightarrow>
        (\<exists>r. theap s t = Some r \<and> t_value r = k \<and> (f_name x, f) \<in> set (t_files r))))"

definition tfiles_ok :: "'w fs \<Rightarrow> bool" where
  "tfiles_ok s \<longleftrightarrow> (\<forall>t r. theap s t = Some r \<longrightarrow> distinct (keys (t_files r)) \<and>
     (\<forall>n f. (n, f) \<in> set (t_files r) \<longrightarrow>
        (\<exists>x. fheap s f = Some x \<and> f_name x = n \<and> (t_value r, t) \<in> set (f_tags x))) \<and>
     (t_files r \<noteq> [] \<longrightarrow> in_use r \<and> (t_value r, t) \<in> set (tags s)))"

definition fresh_ok :: "'w fs \<Rightarrow> bool" where
  "fresh_ok s \<longleftrightarrow> theap s INVALID_TAG = None \<and> (\<forall>n \<ge> tnext s. theap s (TagAt n) = None) \<and>
     (\<forall>n \<ge> fnext s. fheap s n = None) \<and> (\<forall>n \<ge> dnext s. dheap s n = None)"

definition desc_ok :: "'w fs \<Rightarrow> bool" where
  "desc_ok s \<longleftrightarrow>
     (\<forall>f x. fheap s f = Some x \<longrightarrow> distinct (f_descriptors x) \<and>
        (\<forall>d. d \<in> set (f_descriptors x) \<longleftrightarrow>
           (\<exists>fd. dheap s d = Some fd \<and> \<not> fd_is_tag fd \<and> fd_object fd = FileObj (Some f)))) \<and>
     (\<forall>d fd. dheap s d = Some fd \<longrightarrow>
        (if fd_is_tag fd then \<exists>t. fd_object fd = TagObj t
         else \<exists>f. fd_object fd = FileObj (Some f) \<and> fheap s f \<noteq> None))"

definition assoc_ok :: "'w fs \<Rightarrow> bool" where
  "assoc_ok s \<longleftrightarrow> tags_ok s \<and> files_ok s \<and> ftags_ok s \<and> tfiles_ok s \<and> fresh_ok s \<and> desc_ok s"

lemmas ok_defs = tags_ok_def files_ok_def ftags_ok_def tfiles_ok_def fresh_ok_def desc_ok_def

text \<open>No tag but \<open>t\<close> is in the table under the name \<open>k\<close>.\<close>

definition sole_owner :: "'w fs \<Rightarrow> cstring \<Rightarrow> tptr \<Rightarrow> bool" where
  "sole_owner s k t \<longleftrightarrow> (\<forall>b. (k, b) \<in> set (tags s) \<longrightarrow> b = t)"

text \<open>The number of references that the entries \<open>h\<close> of path objects hold on a tag.\<close>

definition path_refs :: "tptr ht \<Rightarrow> tptr \<Rightarrow> int" where
  "path_refs h t = int (length (filter (\<lambda>e. snd e = t) h))"

definition refs_ok :: "tptr ht \<Rightarrow> 'w fs \<Rightarrow> bool" where
  "refs_ok h s \<longleftrightarrow>
     (\<forall>t r. theap s t = Some r \<longrightarrow> ref_count r \<ge> 1 \<and> (\<not> in_use r \<longrightarrow> ref_count r \<ge> path_refs h t)) \<and>
     (\<forall>k t. (k, t) \<in> set h \<longrightarrow>
        (\<exists>r. theap s t = Some r \<and> t_value r = k \<and> (in_use r \<or> sole_owner s k t)))"

text \<open>An open descriptor holds tags in use only.\<close>

definition fds_ok :: "'w fs \<Rightarrow> bool" where
  "fds_ok s \<longleftrightarrow> (\<forall>d fd k t. dheap s d = Some fd \<longrightarrow> (k, t) \<in> set (p_selected_tags (fd_path fd)) \<longrightarrow>
     (\<exists>r. theap s t = Some r \<and> t_value r = k \<and> in_use r))"

definition op_inv :: "tptr ht \<Rightarrow> 'w fs \<Rightarrow> bool" where
  "op_inv h s \<longleftrightarrow> assoc_ok s \<and> refs_ok h s \<and> fds_ok s"

definition fs_inv :: "'w fs \<Rightarrow> bool" where
  "fs_inv s \<longleftrightarrow> op_inv [] s"

text \<open>Only the descriptor lists of the files matter to \<open>desc_ok\<close>.\<close>

lemma desc_ok_cong:
  assumes "desc_ok s" and "dheap s' = dheap s"
    and "\<And>f. map_option f_descriptors (fheap s' f) = map_option f_descriptors (fheap s f)"
  shows "desc_ok s'"
proof -
  have d: "\<exists>y. fheap s f = Some y \<and> f_descriptors y = f_descriptors x" if "fheap s' f = Some x" for f x
    using assms(3) [of f] that by (cases "fheap s f") auto
  have n: "fheap s' f \<noteq> None \<longleftrightarrow> fheap s f \<noteq> None" for f
    using assms(3) [of f] by (metis option.map_disc_iff)
  show ?thesis unfolding desc_ok_def assms(2) n
  proof (intro conjI allI impI)
    fix f x assume "fheap s' f = Some x"
    then obtain y where "fheap s f = Some y" "f_descriptors y = f_descriptors x" using d by blast
    with assms(1) show "distinct (f_descriptors x)"
      and "\<And>da. da \<in> set (f_descriptors x) \<longleftrightarrow>
           (\<exists>fd. dheap s da = Some fd \<and> \<not> fd_is_tag fd \<and> fd_object fd = FileObj (Some f))"
      unfolding desc_ok_def by metis+
  next
    fix da fd assume "dheap s da = Some fd"
    with assms(1) show "if fd_is_tag fd then \<exists>t. fd_object fd = TagObj t
        else \<exists>f. fd_object fd = FileObj (Some f) \<and> fheap s f \<noteq> None"
      unfolding desc_ok_def by blast
  qed
qed

lemma path_refs_Nil [simp]: "path_refs [] t = 0"
  by (simp add: path_refs_def)

lemma path_refs_Cons: "path_refs ((k, u) # h) t = (if u = t then 1 else 0) + path_refs h t"
  by (simp add: path_refs_def)

lemma path_refs_append: "path_refs (h @ h') t = path_refs h t + path_refs h' t"
  by (simp add: path_refs_def)

lemma path_refs_nonneg: "0 \<le> path_refs h t"
  by (simp add: path_refs_def)

lemma path_refs_pos: "(k, t) \<in> set h \<Longrightarrow> 1 \<le> path_refs h t"
proof -
  assume "(k, t) \<in> set h"
  then have "(k, t) \<in> set (filter (\<lambda>e. snd e = t) h)" by simp
  then have "0 < length (filter (\<lambda>e. snd e = t) h)" by (rule length_pos_if_in_set)
  then show ?thesis unfolding path_refs_def by linarith
qed

lemma fs_inv_init: "fs_inv (fs_init root db w)"
  by (simp add: fs_inv_def op_inv_def assoc_ok_def ok_defs refs_ok_def fds_ok_def fs_init_def ht_create_def)

text \<open>The tags of a file by name: the relation the file system maintains.\<close>

definition tagged :: "'w fs \<Rightarrow> cstring \<Rightarrow> cstring \<Rightarrow> bool" where
  "tagged s n k \<longleftrightarrow> (\<exists>f x. fheap s f = Some x \<and> f_name x = n \<and> k \<in> set (keys (f_tags x)))"

subsection \<open>Effects of the elementary functions\<close>

lemma notify_descriptors_effect:
  assumes "fheap s f = Some x" and "\<forall>d\<in>set ds. dheap s d \<noteq> None"
  shows "\<exists>rv ns. notify_descriptors f ev ds s =
    Some (s\<lparr>fheap := (fheap s)(f \<mapsto> x\<lparr>f_revents := rv\<rparr>), notified := ns\<rparr>)"
  using assms
proof (induction ds arbitrary: s x)
  case Nil
  then have "s\<lparr>fheap := (fheap s)(f \<mapsto> x\<lparr>f_revents := f_revents x\<rparr>), notified := notified s\<rparr> = s"
    by (simp add: fun_upd_idem)
  then show ?case by (metis notify_descriptors.simps(1))
next
  case (Cons d ds)
  from Cons.prems(2) obtain fd where fd: "dheap s d = Some fd" by auto
  show ?case
  proof (cases "fd_ph fd")
    case None
    with Cons fd show ?thesis by simp
  next
    case (Some ph)
    let ?y = "x\<lparr>f_revents := f_revents x OR ev\<rparr>"
    let ?s = "s\<lparr>fheap := (fheap s)(f \<mapsto> ?y), notified := notified s @ [ph]\<rparr>"
    have "\<exists>rv ns. notify_descriptors f ev ds ?s =
      Some (?s\<lparr>fheap := (fheap ?s)(f \<mapsto> ?y\<lparr>f_revents := rv\<rparr>), notified := ns\<rparr>)"
      by (rule Cons.IH) (use Cons.prems in auto)
    then obtain rv ns where "notify_descriptors f ev ds ?s =
      Some (?s\<lparr>fheap := (fheap ?s)(f \<mapsto> ?y\<lparr>f_revents := rv\<rparr>), notified := ns\<rparr>)" by blast
    moreover have "notify_descriptors f ev (d # ds) s = notify_descriptors f ev ds ?s"
      using Some fd Cons.prems(1) by (simp add: file_upd_def)
    ultimately have "notify_descriptors f ev (d # ds) s =
      Some (s\<lparr>fheap := (fheap s)(f \<mapsto> x\<lparr>f_revents := rv\<rparr>), notified := ns\<rparr>)" by simp
    then show ?thesis by blast
  qed
qed

text \<open>The descriptors of a file are live, so that a notification does not fault.\<close>

lemma desc_live: "desc_ok s \<Longrightarrow> fheap s f = Some x \<Longrightarrow> d \<in> set (f_descriptors x) \<Longrightarrow> dheap s d \<noteq> None"
  by (auto simp: desc_ok_def)

lemma file_add_tag_effect:
  assumes "theap s t = Some r" and "fheap s f = Some x" and "desc_ok s"
  shows "\<exists>rv ns. file_add_tag f t s = Some (s\<lparr>fheap := (fheap s)(f \<mapsto>
    x\<lparr>f_tags := snd (ht_add_unique_entry (f_tags x) (t_value r) t), f_revents := rv\<rparr>), notified := ns\<rparr>)"
proof -
  let ?x = "x\<lparr>f_tags := snd (ht_add_unique_entry (f_tags x) (t_value r) t)\<rparr>"
  let ?s = "s\<lparr>fheap := (fheap s)(f \<mapsto> ?x)\<rparr>"
  have "\<forall>d\<in>set (f_descriptors x). dheap ?s d \<noteq> None" using desc_live [OF assms(3,2)] by simp
  moreover have "fheap ?s f = Some ?x" by simp
  ultimately obtain rv ns where "notify_descriptors f POLLIN (f_descriptors x) ?s =
      Some (?s\<lparr>fheap := (fheap ?s)(f \<mapsto> ?x\<lparr>f_revents := rv\<rparr>), notified := ns\<rparr>)"
    using notify_descriptors_effect by blast
  moreover have "file_add_tag f t s = notify_descriptors f POLLIN (f_descriptors x) ?s"
    using assms(1,2) by (simp add: file_add_tag_def file_upd_def notify_descriptors_poll_def)
  ultimately have "file_add_tag f t s = Some (s\<lparr>fheap := (fheap s)(f \<mapsto> ?x\<lparr>f_revents := rv\<rparr>),
      notified := ns\<rparr>)" by simp
  then show ?thesis by auto
qed

lemma file_remove_tag_effect:
  assumes "theap s t = Some r" and "fheap s f = Some x" and "desc_ok s"
  shows "\<exists>rv ns. file_remove_tag f t s = Some (s\<lparr>fheap := (fheap s)(f \<mapsto>
    x\<lparr>f_tags := snd (ht_remove_entry (f_tags x) (t_value r)), f_revents := rv\<rparr>), notified := ns\<rparr>)"
proof -
  let ?x = "x\<lparr>f_tags := snd (ht_remove_entry (f_tags x) (t_value r))\<rparr>"
  let ?s = "s\<lparr>fheap := (fheap s)(f \<mapsto> ?x)\<rparr>"
  have "\<forall>d\<in>set (f_descriptors x). dheap ?s d \<noteq> None" using desc_live [OF assms(3,2)] by simp
  moreover have "fheap ?s f = Some ?x" by simp
  ultimately obtain rv ns where "notify_descriptors f POLLOUT (f_descriptors x) ?s =
      Some (?s\<lparr>fheap := (fheap ?s)(f \<mapsto> ?x\<lparr>f_revents := rv\<rparr>), notified := ns\<rparr>)"
    using notify_descriptors_effect by blast
  moreover have "file_remove_tag f t s = notify_descriptors f POLLOUT (f_descriptors x) ?s"
    using assms(1,2) by (simp add: file_remove_tag_def file_upd_def notify_descriptors_poll_def)
  ultimately have "file_remove_tag f t s = Some (s\<lparr>fheap := (fheap s)(f \<mapsto> ?x\<lparr>f_revents := rv\<rparr>),
      notified := ns\<rparr>)" by simp
  then show ?thesis by auto
qed

lemma tag_file_effect:
  assumes "theap s t = Some r" and "fheap s f = Some x" and "desc_ok s"
  shows "\<exists>rv ns. tag_file t f s = Some (s\<lparr>
    fheap := (fheap s)(f \<mapsto> x\<lparr>f_tags := snd (ht_add_unique_entry (f_tags x) (t_value r) t), f_revents := rv\<rparr>),
    theap := (theap s)(t \<mapsto> r\<lparr>t_files := snd (ht_add_unique_entry (t_files r) (f_name x) f), in_use := True\<rparr>),
    notified := ns\<rparr>)"
proof -
  obtain rv ns where "file_add_tag f t s = Some (s\<lparr>fheap := (fheap s)(f \<mapsto>
      x\<lparr>f_tags := snd (ht_add_unique_entry (f_tags x) (t_value r) t), f_revents := rv\<rparr>), notified := ns\<rparr>)"
    using file_add_tag_effect [OF assms] by blast
  then show ?thesis
    using assms(1) by (intro exI [of _ rv] exI [of _ ns]) (simp add: tag_file_def tag_add_file_def tag_upd_def)
qed

lemma untag_file_effect:
  assumes "theap s t = Some r" and "fheap s f = Some x" and "desc_ok s"
  shows "\<exists>rv ns. untag_file t f s = Some (s\<lparr>
    fheap := (fheap s)(f \<mapsto> x\<lparr>f_tags := snd (ht_remove_entry (f_tags x) (t_value r)), f_revents := rv\<rparr>),
    theap := (theap s)(t \<mapsto> r\<lparr>t_files := snd (ht_remove_entry (t_files r) (f_name x))\<rparr>),
    notified := ns\<rparr>)"
proof -
  obtain rv ns where "file_remove_tag f t s = Some (s\<lparr>fheap := (fheap s)(f \<mapsto>
      x\<lparr>f_tags := snd (ht_remove_entry (f_tags x) (t_value r)), f_revents := rv\<rparr>), notified := ns\<rparr>)"
    using file_remove_tag_effect [OF assms] by blast
  then show ?thesis
    using assms(1) by (intro exI [of _ rv] exI [of _ ns]) (simp add: untag_file_def tag_remove_file_def tag_upd_def)
qed

text \<open>Of a tag without files, \<^verbatim>\<open>tag_remove\<close> only drops the table entry and a reference.\<close>

lemma tag_remove_effect:
  assumes "theap s t = Some r" and "t_files r = []"
  shows "tag_remove t s = Some (s\<lparr>
    tags := (let h = snd (ht_remove_entry (tags s) (t_value r))
             in if ref_count r = 1 then snd (ht_remove_entry h (t_value r)) else h),
    theap := (theap s)(t := if ref_count r = 1 then None else Some (r\<lparr>ref_count := ref_count r - 1\<rparr>))\<rparr>)"
  using assms by (simp add: tag_remove_def tag_dec_ref_def tag_upd_def ht_create_def Let_def)

subsection \<open>The association under tagging and untagging\<close>

text \<open>
  \<open>assoc_upd\<close> is the state after a function rewrote the tags of one file and the files of one
  tag, as \<open>tag_file\<close> and \<open>untag_file\<close> do.
\<close>

definition assoc_upd :: "fptr \<Rightarrow> tfile \<Rightarrow> tptr \<Rightarrow> tag \<Rightarrow> pollhandle list \<Rightarrow> 'w fs \<Rightarrow> 'w fs" where
  "assoc_upd f x t r ns s = s\<lparr>fheap := (fheap s)(f \<mapsto> x), theap := (theap s)(t \<mapsto> r), notified := ns\<rparr>"

lemma assoc_upd_simps [simp]:
  "fheap (assoc_upd f x t r ns s) = (fheap s)(f \<mapsto> x)"
  "theap (assoc_upd f x t r ns s) = (theap s)(t \<mapsto> r)"
  "tags (assoc_upd f x t r ns s) = tags s" "files (assoc_upd f x t r ns s) = files s"
  "dheap (assoc_upd f x t r ns s) = dheap s" "tnext (assoc_upd f x t r ns s) = tnext s"
  "fnext (assoc_upd f x t r ns s) = fnext s" "dnext (assoc_upd f x t r ns s) = dnext s"
  "world (assoc_upd f x t r ns s) = world s" "realdirpath (assoc_upd f x t r ns s) = realdirpath s"
  by (simp_all add: assoc_upd_def)

text \<open>What does not depend on the association survives any such change.\<close>

lemma assoc_upd_rest:
  assumes "op_inv h s" and "theap s t = Some r" and "fheap s f = Some x"
    and "f_name x' = f_name x" "f_descriptors x' = f_descriptors x"
    and "t_value r' = t_value r" "in_use r \<longrightarrow> in_use r'" "ref_count r' = ref_count r"
  shows "tags_ok (assoc_upd f x' t r' ns s)" "files_ok (assoc_upd f x' t r' ns s)"
    "fresh_ok (assoc_upd f x' t r' ns s)" "desc_ok (assoc_upd f x' t r' ns s)"
    "refs_ok h (assoc_upd f x' t r' ns s)" "fds_ok (assoc_upd f x' t r' ns s)"
proof -
  have ok: "tags_ok s" "files_ok s" "fresh_ok s" "desc_ok s" "refs_ok h s" "fds_ok s"
    using assms(1) by (auto simp: op_inv_def assoc_ok_def)
  show "tags_ok (assoc_upd f x' t r' ns s)"
    using ok(1) assms(2-) unfolding tags_ok_def by (metis assoc_upd_simps(2,3) fun_upd_apply option.inject)
  show "files_ok (assoc_upd f x' t r' ns s)"
    unfolding files_ok_def
  proof (intro conjI allI impI)
    show "distinct (keys (files (assoc_upd f x' t r' ns s)))" using ok(2) by (simp add: files_ok_def)
    fix n g
    show "(n, g) \<in> set (files (assoc_upd f x' t r' ns s)) \<Longrightarrow>
        \<exists>x. fheap (assoc_upd f x' t r' ns s) g = Some x \<and> f_name x = n"
      using ok(2) assms(3,4) unfolding files_ok_def by (cases "g = f") (simp_all, metis option.inject)
    fix y
    show "fheap (assoc_upd f x' t r' ns s) g = Some y \<Longrightarrow>
        (f_name y, g) \<in> set (files (assoc_upd f x' t r' ns s))"
      using ok(2) assms(3,4) by (cases "g = f") (auto simp: files_ok_def)
  qed
  show "fresh_ok (assoc_upd f x' t r' ns s)"
    using ok(3) assms(2-) unfolding fresh_ok_def by auto
  show "desc_ok (assoc_upd f x' t r' ns s)"
    by (rule desc_ok_cong [OF ok(4)]) (use assms(3,5) in auto)
  show "refs_ok h (assoc_upd f x' t r' ns s)"
    unfolding refs_ok_def
  proof (intro conjI allI impI)
    fix t' y
    assume y: "theap (assoc_upd f x' t r' ns s) t' = Some y"
    then obtain y0 where "theap s t' = Some y0" "ref_count y = ref_count y0" "in_use y0 \<longrightarrow> in_use y"
      using assms(2,7,8) by (cases "t' = t") auto
    with ok(5) show "1 \<le> ref_count y" "\<not> in_use y \<Longrightarrow> path_refs h t' \<le> ref_count y"
      unfolding refs_ok_def by auto
  next
    fix k t'
    assume "(k, t') \<in> set h"
    then obtain y where y: "theap s t' = Some y" "t_value y = k" "in_use y \<or> sole_owner s k t'"
      using ok(5) unfolding refs_ok_def by metis
    have "sole_owner (assoc_upd f x' t r' ns s) k t' = sole_owner s k t'" by (simp add: sole_owner_def)
    with y assms(2,6,7) show "\<exists>r. theap (assoc_upd f x' t r' ns s) t' = Some r \<and> t_value r = k \<and>
        (in_use r \<or> sole_owner (assoc_upd f x' t r' ns s) k t')"
      by (cases "t' = t") auto
  qed
  show "fds_ok (assoc_upd f x' t r' ns s)"
    using ok(6) assms(2-) unfolding fds_ok_def
    by (metis assoc_upd_simps(2,5) fun_upd_apply option.inject)
qed

lemma op_inv_parts:
  assumes "op_inv h s"
  shows "tags_ok s" "files_ok s" "ftags_ok s" "tfiles_ok s" "fresh_ok s" "desc_ok s" "refs_ok h s" "fds_ok s"
  using assms by (auto simp: op_inv_def assoc_ok_def)

lemma file_unique:
  "files_ok s \<Longrightarrow> fheap s f = Some x \<Longrightarrow> fheap s f' = Some y \<Longrightarrow> f_name x = f_name y \<Longrightarrow> f' = f"
  unfolding files_ok_def by (metis distinct_keys_eqD)

lemma ftagsD:
  assumes "ftags_ok s" and "fheap s f = Some x" and "(k, t) \<in> set (f_tags x)"
  obtains r where "theap s t = Some r" "t_value r = k" "(f_name x, f) \<in> set (t_files r)"
  using assms unfolding ftags_ok_def by metis

lemma tfilesD:
  assumes "tfiles_ok s" and "theap s t = Some r" and "(n, f) \<in> set (t_files r)"
  obtains x where "fheap s f = Some x" "f_name x = n" "(t_value r, t) \<in> set (f_tags x)"
    "in_use r" "(t_value r, t) \<in> set (tags s)"
proof -
  have "t_files r \<noteq> []" using assms(3) by auto
  then have "in_use r" "(t_value r, t) \<in> set (tags s)"
    using assms(1,2) unfolding tfiles_ok_def by blast+
  moreover obtain x where "fheap s f = Some x" "f_name x = n" "(t_value r, t) \<in> set (f_tags x)"
    using assms unfolding tfiles_ok_def by blast
  ultimately show thesis using that by blast
qed

lemma tags_value: "tags_ok s \<Longrightarrow> (k, t) \<in> set (tags s) \<Longrightarrow> theap s t = Some r \<Longrightarrow> t_value r = k"
  unfolding tags_ok_def by (metis option.inject)

lemma fdsD:
  assumes "dheap s d = Some fd" and "fds_ok s" and "(k, t) \<in> set (p_selected_tags (fd_path fd))"
  obtains r where "theap s t = Some r" "t_value r = k" "in_use r"
  using assms unfolding fds_ok_def by metis

lemma tags_unique: "tags_ok s \<Longrightarrow> (k, t) \<in> set (tags s) \<Longrightarrow> (k, u) \<in> set (tags s) \<Longrightarrow> t = u"
  unfolding tags_ok_def by (blast dest: distinct_keys_eqD)

text \<open>The two sides of the association name each other, by the pointers too.\<close>

lemma tfiles_self:
  assumes "files_ok s" "tfiles_ok s" "theap s t = Some r" "fheap s f = Some x"
    and "f_name x \<in> set (keys (t_files r))"
  shows "(f_name x, f) \<in> set (t_files r)"
proof -
  obtain f' where f': "(f_name x, f') \<in> set (t_files r)" using assms(5) by auto
  obtain y where "fheap s f' = Some y" "f_name y = f_name x" by (rule tfilesD [OF assms(2,3) f'])
  with file_unique [OF assms(1,4)] f' show ?thesis by metis
qed

lemma ftags_self:
  assumes "ftags_ok s" "tfiles_ok s" "sole_owner s (t_value r) t" "fheap s f = Some x"
    and "t_value r \<in> set (keys (f_tags x))"
  shows "(t_value r, t) \<in> set (f_tags x)"
proof -
  obtain t' where t': "(t_value r, t') \<in> set (f_tags x)" using assms(5) by auto
  obtain r' where r': "theap s t' = Some r'" "t_value r' = t_value r" "(f_name x, f) \<in> set (t_files r')"
    by (rule ftagsD [OF assms(1,4) t'])
  then have "(t_value r, t') \<in> set (tags s)" using tfilesD [OF assms(2) r'(1,3)] by metis
  with t' assms(3) show ?thesis by (auto simp: sole_owner_def)
qed

lemma tagged_upd:
  assumes "files_ok s" and "fheap s f = Some x" and "f_name x' = f_name x"
  shows "tagged (assoc_upd f x' t r' ns s) n k \<longleftrightarrow>
    (if n = f_name x then k \<in> set (keys (f_tags x')) else tagged s n k)"
proof -
  let ?h = "(fheap s)(f \<mapsto> x')"
  show ?thesis
  proof (cases "n = f_name x")
    case True
    have "(\<exists>g y. ?h g = Some y \<and> f_name y = n \<and> k \<in> set (keys (f_tags y))) \<longleftrightarrow> k \<in> set (keys (f_tags x'))"
    proof
      assume "\<exists>g y. ?h g = Some y \<and> f_name y = n \<and> k \<in> set (keys (f_tags y))"
      then obtain g y where g: "?h g = Some y" "f_name y = n" "k \<in> set (keys (f_tags y))" by blast
      have "g = f" using g True file_unique [OF assms(1,2), of g y] by (cases "g = f") simp_all
      with g show "k \<in> set (keys (f_tags x'))" by simp
    next
      assume "k \<in> set (keys (f_tags x'))"
      with True assms(3) show "\<exists>g y. ?h g = Some y \<and> f_name y = n \<and> k \<in> set (keys (f_tags y))"
        by (intro exI [of _ f] exI [of _ x']) simp
    qed
    with True show ?thesis by (simp only: tagged_def assoc_upd_simps if_True simp_thms)
  next
    case False
    have "(?h g = Some y \<and> f_name y = n) = (fheap s g = Some y \<and> f_name y = n)" for g y
      using False assms(2,3) by (cases "g = f") auto
    then have "(?h g = Some y \<and> f_name y = n \<and> k \<in> set (keys (f_tags y)))
        = (fheap s g = Some y \<and> f_name y = n \<and> k \<in> set (keys (f_tags y)))" for g y by metis
    with False show ?thesis by (simp only: tagged_def assoc_upd_simps if_False simp_thms)
  qed
qed

lemma tagged_file: "files_ok s \<Longrightarrow> fheap s f = Some x \<Longrightarrow> tagged s (f_name x) k \<longleftrightarrow> k \<in> set (keys (f_tags x))"
  unfolding tagged_def using file_unique [of s f x] by (metis option.inject)

text \<open>
  A rewriting of the two tables that touches only the pair of \<open>f\<close> and \<open>t\<close>, and that pair on both sides
  alike, keeps the invariant.
\<close>

lemma assoc_upd_inv:
  assumes inv: "op_inv h s" and t: "theap s t = Some r" and f: "fheap s f = Some x"
    and x': "f_name x' = f_name x" "f_descriptors x' = f_descriptors x" "distinct (keys (f_tags x'))"
    and r': "t_value r' = t_value r" "in_use r \<longrightarrow> in_use r'" "ref_count r' = ref_count r" "distinct (keys (t_files r'))"
    and ft: "\<And>k u. (k, u) \<noteq> (t_value r, t) \<Longrightarrow> (k, u) \<in> set (f_tags x') \<longleftrightarrow> (k, u) \<in> set (f_tags x)"
    and tf: "\<And>n g. (n, g) \<noteq> (f_name x, f) \<Longrightarrow> (n, g) \<in> set (t_files r') \<longleftrightarrow> (n, g) \<in> set (t_files r)"
    and both: "(t_value r, t) \<in> set (f_tags x') \<longleftrightarrow> (f_name x, f) \<in> set (t_files r')"
    and used: "t_files r' \<noteq> [] \<Longrightarrow> in_use r' \<and> (t_value r, t) \<in> set (tags s)"
  shows "op_inv h (assoc_upd f x' t r' ns s)" (is "op_inv h ?s")
proof -
  note ok = op_inv_parts [OF inv]
  have "ftags_ok ?s" unfolding ftags_ok_def
  proof (intro allI impI conjI)
    fix g y assume y: "fheap ?s g = Some y"
    then show "distinct (keys (f_tags y))" using ok(3) x'(3) by (cases "g = f") (auto simp: ftags_ok_def)
    fix k u assume e: "(k, u) \<in> set (f_tags y)"
    show "\<exists>q. theap ?s u = Some q \<and> t_value q = k \<and> (f_name y, g) \<in> set (t_files q)"
    proof (cases "g = f \<and> (k, u) = (t_value r, t)")
      case True
      with y e both x'(1) r'(1) show ?thesis by simp
    next
      case False
      obtain y0 where y0: "fheap s g = Some y0" "f_name y0 = f_name y" "(k, u) \<in> set (f_tags y0)"
        using y e f x'(1) ft [of k u] False by (cases "g = f") auto
      obtain q where "theap s u = Some q" "t_value q = k" "(f_name y0, g) \<in> set (t_files q)"
        by (rule ftagsD [OF ok(3) y0(1,3)])
      with t r'(1) tf [of "f_name y" g] False y0(2) show ?thesis by (cases "u = t") auto
    qed
  qed
  moreover have "tfiles_ok ?s" unfolding tfiles_ok_def
  proof (intro allI impI conjI)
    fix u q assume q: "theap ?s u = Some q"
    then show "distinct (keys (t_files q))" using ok(4) r'(4) by (cases "u = t") (auto simp: tfiles_ok_def)
    show "t_files q \<noteq> [] \<Longrightarrow> in_use q" "t_files q \<noteq> [] \<Longrightarrow> (t_value q, u) \<in> set (tags ?s)"
      using q ok(4) used r'(1) by (cases "u = t"; auto simp: tfiles_ok_def)+
    fix n g assume e: "(n, g) \<in> set (t_files q)"
    show "\<exists>y. fheap ?s g = Some y \<and> f_name y = n \<and> (t_value q, u) \<in> set (f_tags y)"
    proof (cases "u = t \<and> (n, g) = (f_name x, f)")
      case True
      with q e both x'(1) r'(1) show ?thesis by simp
    next
      case False
      obtain q0 where q0: "theap s u = Some q0" "t_value q0 = t_value q" "(n, g) \<in> set (t_files q0)"
        using q e t r'(1) tf [of n g] False by (cases "u = t") auto
      obtain y where "fheap s g = Some y" "f_name y = n" "(t_value q0, u) \<in> set (f_tags y)"
        by (rule tfilesD [OF ok(4) q0(1,3)])
      with f x'(1) ft [of "t_value q" u] False q0(2) show ?thesis by (cases "g = f") auto
    qed
  qed
  ultimately show ?thesis
    using assoc_upd_rest [OF inv t f x'(1,2) r'(1-3)] by (simp add: op_inv_def assoc_ok_def)
qed

text \<open>Under one name a file's tags have the one live tag, and a tag's files the one live file.\<close>

lemma assoc_names:
  assumes "op_inv h s" and t: "theap s t = Some r" and f: "fheap s f = Some x"
  shows "sole_owner s (t_value r) t \<Longrightarrow> (t_value r, u) \<in> set (f_tags x) \<Longrightarrow> u = t"
    and "(f_name x, g) \<in> set (t_files r) \<Longrightarrow> g = f"
    and "distinct (keys (t_files r))" "distinct (keys (f_tags x))"
proof -
  note ok = op_inv_parts [OF assms(1)]
  show d: "distinct (keys (t_files r))" "distinct (keys (f_tags x))"
    using ok(3,4) t f by (auto simp: ftags_ok_def tfiles_ok_def)
  show "u = t" if s: "sole_owner s (t_value r) t" and u: "(t_value r, u) \<in> set (f_tags x)"
  proof -
    have "t_value r \<in> set (keys (f_tags x))" using u by force
    from distinct_keys_eqD [OF d(2) u ftags_self [OF ok(3,4) s f this]] show ?thesis .
  qed
  show "g = f" if g: "(f_name x, g) \<in> set (t_files r)"
  proof -
    have "f_name x \<in> set (keys (t_files r))" using g by force
    from distinct_keys_eqD [OF d(1) g tfiles_self [OF ok(2,4) t f this]] show ?thesis .
  qed
qed

lemma tag_file_inv:
  assumes inv: "op_inv h s" and t: "theap s t = Some r" and f: "fheap s f = Some x"
    and tab: "(t_value r, t) \<in> set (tags s)"
  shows "\<exists>x' ns. tag_file t f s = Some (assoc_upd f x' t
      (r\<lparr>t_files := snd (ht_add_unique_entry (t_files r) (f_name x) f), in_use := True\<rparr>) ns s) \<and>
      f_name x' = f_name x \<and> f_tags x' = snd (ht_add_unique_entry (f_tags x) (t_value r) t) \<and>
      op_inv h (assoc_upd f x' t
      (r\<lparr>t_files := snd (ht_add_unique_entry (t_files r) (f_name x) f), in_use := True\<rparr>) ns s)"
proof -
  note ok = op_inv_parts [OF inv]
  let ?r = "r\<lparr>t_files := snd (ht_add_unique_entry (t_files r) (f_name x) f), in_use := True\<rparr>"
  obtain rv ns where eq: "tag_file t f s = Some (s\<lparr>
    fheap := (fheap s)(f \<mapsto> x\<lparr>f_tags := snd (ht_add_unique_entry (f_tags x) (t_value r) t), f_revents := rv\<rparr>),
    theap := (theap s)(t \<mapsto> ?r), notified := ns\<rparr>)"
    using tag_file_effect [OF t f ok(6)] by blast
  let ?x = "x\<lparr>f_tags := snd (ht_add_unique_entry (f_tags x) (t_value r) t), f_revents := rv\<rparr>"
  have sole: "sole_owner s (t_value r) t" using tags_unique [OF ok(1) tab] by (simp add: sole_owner_def)
  note self = ftags_self [OF ok(3,4) sole f] tfiles_self [OF ok(2,4) t f]
  have "op_inv h (assoc_upd f ?x t ?r ns s)"
    by (rule assoc_upd_inv [OF inv t f])
      (use assoc_names(3,4) [OF inv t f] tab self in \<open>auto simp: ht_add_unique_eq\<close>)
  moreover have "tag_file t f s = Some (assoc_upd f ?x t ?r ns s)" using eq by (simp add: assoc_upd_def)
  ultimately show ?thesis by (intro exI [of _ ?x] exI [of _ ns]) simp
qed

lemma untag_file_inv:
  assumes inv: "op_inv h s" and t: "theap s t = Some r" and f: "fheap s f = Some x"
    and sole: "sole_owner s (t_value r) t"
  shows "\<exists>x' ns. untag_file t f s = Some (assoc_upd f x' t
      (r\<lparr>t_files := filter (\<lambda>e. fst e \<noteq> f_name x) (t_files r)\<rparr>) ns s) \<and>
      f_name x' = f_name x \<and> f_tags x' = filter (\<lambda>e. fst e \<noteq> t_value r) (f_tags x) \<and>
      op_inv h (assoc_upd f x' t (r\<lparr>t_files := filter (\<lambda>e. fst e \<noteq> f_name x) (t_files r)\<rparr>) ns s)"
proof -
  note ok = op_inv_parts [OF inv] and names = assoc_names [OF inv t f]
  let ?r = "r\<lparr>t_files := filter (\<lambda>e. fst e \<noteq> f_name x) (t_files r)\<rparr>"
  obtain rv ns where eq: "untag_file t f s = Some (s\<lparr>
    fheap := (fheap s)(f \<mapsto> x\<lparr>f_tags := filter (\<lambda>e. fst e \<noteq> t_value r) (f_tags x), f_revents := rv\<rparr>),
    theap := (theap s)(t \<mapsto> ?r), notified := ns\<rparr>)"
    using untag_file_effect [OF t f ok(6)] by (auto simp: ht_remove_distinct names(3,4))
  let ?x = "x\<lparr>f_tags := filter (\<lambda>e. fst e \<noteq> t_value r) (f_tags x), f_revents := rv\<rparr>"
  have used: "in_use r \<and> (t_value r, t) \<in> set (tags s)" if "t_files r \<noteq> []"
    using ok(4) t that unfolding tfiles_ok_def by blast
  have "t_files r \<noteq> []" if "t_files ?r \<noteq> []" using that by auto
  then have "op_inv h (assoc_upd f ?x t ?r ns s)"
    by (intro assoc_upd_inv [OF inv t f])
      (use names used sole in \<open>auto simp: distinct_keys_filter\<close>)
  moreover have "untag_file t f s = Some (assoc_upd f ?x t ?r ns s)" using eq by (simp add: assoc_upd_def)
  ultimately show ?thesis by (intro exI [of _ ?x] exI [of _ ns]) simp
qed

text \<open>The state without a tag that has no files: its struct stays while it is referenced.\<close>

definition dropped :: "tptr \<Rightarrow> tag \<Rightarrow> 'w fs \<Rightarrow> 'w fs" where
  "dropped t r s = s\<lparr>tags := filter (\<lambda>e. fst e \<noteq> t_value r) (tags s),
      theap := (theap s)(t := if ref_count r = 1 then None else Some (r\<lparr>ref_count := ref_count r - 1\<rparr>))\<rparr>"

lemma dropped_assoc:
  assumes inv: "op_inv h s" and t: "theap s t = Some r" and e: "t_files r = []"
    and sole: "sole_owner s (t_value r) t"
  shows "assoc_ok (dropped t r s)"
  unfolding dropped_def
proof -
  let ?s = "s\<lparr>tags := filter (\<lambda>e. fst e \<noteq> t_value r) (tags s),
      theap := (theap s)(t := if ref_count r = 1 then None else Some (r\<lparr>ref_count := ref_count r - 1\<rparr>))\<rparr>"
  note ok = op_inv_parts [OF inv]
  have d: "distinct (keys (tags s))" using ok(1) by (simp add: tags_ok_def)
  have heap: "theap ?s t' = theap s t'" if "t' \<noteq> t" for t' using that by simp
  have tt: "t' \<noteq> t" if "(k, t') \<in> set (tags s)" "k \<noteq> t_value r" for k t'
    using ok(1) that t unfolding tags_ok_def by (metis option.inject)
  have "tags_ok ?s"
    unfolding tags_ok_def
  proof (intro conjI allI impI)
    show "distinct (keys (tags ?s))" using d by (simp add: distinct_keys_filter)
    fix k t' assume "(k, t') \<in> set (tags ?s)"
    then have "(k, t') \<in> set (tags s)" "t' \<noteq> t" using tt by auto
    then show "\<exists>r. theap ?s t' = Some r \<and> t_value r = k" using ok(1) heap by (auto simp: tags_ok_def)
  qed
  moreover have "files_ok ?s" using ok(2) by (simp add: files_ok_def)
  moreover have "fresh_ok ?s" using ok(5) t by (auto simp: fresh_ok_def)
  moreover have "desc_ok ?s" by (rule desc_ok_cong [OF ok(6)]) auto
  moreover have "ftags_ok ?s" unfolding ftags_ok_def
  proof (intro allI impI conjI)
    fix f x assume x: "fheap ?s f = Some x"
    then show "distinct (keys (f_tags x))" using ok(3) by (auto simp: ftags_ok_def)
    fix k t' assume m: "(k, t') \<in> set (f_tags x)"
    from x have x': "fheap s f = Some x" by simp
    obtain r' where r': "theap s t' = Some r'" "t_value r' = k" "(f_name x, f) \<in> set (t_files r')"
      by (rule ftagsD [OF ok(3) x' m])
    then have "t' \<noteq> t" using t e by auto
    with r' show "\<exists>r. theap ?s t' = Some r \<and> t_value r = k \<and> (f_name x, f) \<in> set (t_files r)" by simp
  qed
  moreover have "tfiles_ok ?s" unfolding tfiles_ok_def
  proof (intro allI impI conjI)
    fix t' y assume y: "theap ?s t' = Some y"
    show "distinct (keys (t_files y))"
      using y ok(4) e by (cases "t' = t") (auto simp: tfiles_ok_def split: if_splits)
    have ne: "t' \<noteq> t \<and> theap s t' = Some y" if "t_files y \<noteq> []"
      using y that e by (cases "t' = t") (auto split: if_splits)
    show "in_use y" if "t_files y \<noteq> []" using ne [OF that] that ok(4) by (auto simp: tfiles_ok_def)
    show "(t_value y, t') \<in> set (tags ?s)" if "t_files y \<noteq> []"
    proof -
      have "(t_value y, t') \<in> set (tags s)" using ne [OF that] that ok(4) by (auto simp: tfiles_ok_def)
      moreover from this have "t_value y \<noteq> t_value r" using sole ne [OF that] by (auto simp: sole_owner_def)
      ultimately show ?thesis by simp
    qed
    fix n f assume m: "(n, f) \<in> set (t_files y)"
    then have "theap s t' = Some y" using ne by fastforce
    from tfilesD [OF ok(4) this m]
    show "\<exists>x. fheap ?s f = Some x \<and> f_name x = n \<and> (t_value y, t') \<in> set (f_tags x)" by auto
  qed
  ultimately show "assoc_ok ?s" by (simp add: assoc_ok_def)
qed

lemma dropped_refs:
  assumes inv: "op_inv h s" and t: "theap s t = Some r"
    and ref: "if in_use r then ref_count r \<ge> 2 else ref_count r \<ge> 1 + path_refs h t"
  shows "refs_ok h (dropped t r s)" "fds_ok (dropped t r s)"
  unfolding dropped_def
proof -
  let ?s = "s\<lparr>tags := filter (\<lambda>e. fst e \<noteq> t_value r) (tags s),
      theap := (theap s)(t := if ref_count r = 1 then None else Some (r\<lparr>ref_count := ref_count r - 1\<rparr>))\<rparr>"
  note ok = op_inv_parts [OF inv]
  show "refs_ok h ?s" unfolding refs_ok_def
  proof (intro allI impI conjI)
    fix t' y assume y: "theap ?s t' = Some y"
    show "1 \<le> ref_count y"
      using y ok(7) t by (cases "t' = t") (fastforce simp: refs_ok_def split: if_splits)+
    show "path_refs h t' \<le> ref_count y" if "\<not> in_use y"
      using y ok(7) t ref that by (cases "t' = t") (auto simp: refs_ok_def split: if_splits)
  next
    fix k t' assume m: "(k, t') \<in> set h"
    then obtain y where y: "theap s t' = Some y" "t_value y = k" "in_use y \<or> sole_owner s k t'"
      using ok(7) unfolding refs_ok_def by metis
    have "sole_owner ?s k t'" if "sole_owner s k t'" using that by (auto simp: sole_owner_def)
    moreover have "ref_count r \<noteq> 1" if "t' = t"
      using path_refs_pos [OF m] ref that by (cases "in_use r") auto
    ultimately show "\<exists>r. theap ?s t' = Some r \<and> t_value r = k \<and> (in_use r \<or> sole_owner ?s k t')"
      using y t by (cases "t' = t") auto
  qed
  show "fds_ok ?s" unfolding fds_ok_def
  proof (intro allI impI)
    fix da fd k t' assume "dheap ?s da = Some fd" and m: "(k, t') \<in> set (p_selected_tags (fd_path fd))"
    then have "dheap s da = Some fd" by simp
    then obtain y where y: "theap s t' = Some y" "t_value y = k" "in_use y"
      using ok(8) m by (rule fdsD)
    then show "\<exists>r. theap ?s t' = Some r \<and> t_value r = k \<and> in_use r"
      using t ref by (cases "t' = t") auto
  qed
qed

text \<open>Dropping a tag without files: an unused one that a path still counts, or one in use
  with a reference to spare.\<close>

lemma tag_remove_inv:
  assumes inv: "op_inv h s" and t: "theap s t = Some r" and e: "t_files r = []"
    and sole: "sole_owner s (t_value r) t"
    and ref: "if in_use r then ref_count r \<ge> 2 else ref_count r \<ge> 1 + path_refs h t"
  shows "tag_remove t s = Some (s\<lparr>tags := filter (\<lambda>e. fst e \<noteq> t_value r) (tags s),
      theap := (theap s)(t := if ref_count r = 1 then None else Some (r\<lparr>ref_count := ref_count r - 1\<rparr>))\<rparr>)"
    and "op_inv h (s\<lparr>tags := filter (\<lambda>e. fst e \<noteq> t_value r) (tags s),
      theap := (theap s)(t := if ref_count r = 1 then None else Some (r\<lparr>ref_count := ref_count r - 1\<rparr>))\<rparr>)"
proof -
  have d: "distinct (keys (tags s))" using op_inv_parts(1) [OF inv] by (simp add: tags_ok_def)
  show "tag_remove t s = Some (s\<lparr>tags := filter (\<lambda>e. fst e \<noteq> t_value r) (tags s),
      theap := (theap s)(t := if ref_count r = 1 then None else Some (r\<lparr>ref_count := ref_count r - 1\<rparr>))\<rparr>)"
    using tag_remove_effect [OF t e] d by (simp add: ht_remove_distinct Let_def distinct_keys_filter)
  show "op_inv h (s\<lparr>tags := filter (\<lambda>e. fst e \<noteq> t_value r) (tags s),
      theap := (theap s)(t := if ref_count r = 1 then None else Some (r\<lparr>ref_count := ref_count r - 1\<rparr>))\<rparr>)"
    using dropped_assoc [OF inv t e sole] dropped_refs [OF inv t ref] by (simp add: op_inv_def dropped_def)
qed

end
