(* ===== verification/Fuse_Race.thy ===== *)
theory Fuse_Race
  imports Fuse_Inv Uthash_Check
begin

text \<open>
  Two threads of \<^verbatim>\<open>fuse\<close> in \<^verbatim>\<open>file_get_or_create\<close> of \<^verbatim>\<open>fuse/file.c\<close>. \<^verbatim>\<open>fuse_main\<close> serves requests in several
  threads, and the only locks are those inside the hash tables, each held for one call. So the function
  is three atomic steps: the lookup, the making of a struct (which touches nothing shared but the
  allocator), and the insertion. The other theories run each request alone; this one interleaves.
  No thread looks the table up once the name is in it twice, so the choice that the entry lists of
  \<open>Cutil_Hash\<close> make among equal keys plays no part in a step; what a later lookup finds is stated of the
  hash table itself.
\<close>

subsection \<open>The steps\<close>

datatype pc = Lookup | Create | Insert fptr | Done fptr

fun get_step :: "cstring \<Rightarrow> pc \<Rightarrow> 'w fs \<Rightarrow> pc \<times> 'w fs" where
  "get_step value Lookup s =
     (case ht_get_entry (files s) value of Some f \<Rightarrow> (Done f, s) | None \<Rightarrow> (Create, s))"
| "get_step value Create s = (let (f, s) = file_new value s in (Insert f, s))"
| "get_step value (Insert f) s = (Done f, s\<lparr>files := snd (ht_add_entry (files s) value f)\<rparr>)"
| "get_step value (Done f) s = (Done f, s)"

text \<open>A thread that runs alone computes \<open>file_get_or_create\<close>.\<close>

fun run_alone :: "nat \<Rightarrow> cstring \<Rightarrow> pc \<times> 'w fs \<Rightarrow> pc \<times> 'w fs" where
  "run_alone 0 value c = c"
| "run_alone (Suc n) value (p, s) = run_alone n value (get_step value p s)"

lemma run_alone_get_or_create:
  "run_alone 3 value (Lookup, s) = (let (f, s') = file_get_or_create value s in (Done f, s'))"
  by (simp add: numeral_3_eq_3 file_get_or_create_def file_new_def Let_def split: option.split)

text \<open>Either thread may take the next step.\<close>

inductive race :: "cstring \<Rightarrow> pc \<times> pc \<times> 'w fs \<Rightarrow> pc \<times> pc \<times> 'w fs \<Rightarrow> bool" for v where
  left: "get_step v p s = (p', s') \<Longrightarrow> race v (p, q, s) (p', q, s')"
| right: "get_step v q s = (q', s') \<Longrightarrow> race v (p, q, s) (p, q', s')"

inductive_cases race_elim: "race v (p, q, s) (p', q', s')"

subsection \<open>What an interleaving can do\<close>

text \<open>
  The entries \<open>L\<close> that the two threads have put behind those of \<open>s\<close>: one at least of the threads has
  returned each of them, and a thread that is about to insert has a struct of its own.
\<close>

definition raced :: "cstring \<Rightarrow> 'w fs \<Rightarrow> fptr list \<Rightarrow> pc \<times> pc \<times> 'w fs \<Rightarrow> bool" where
  "raced v s L = (\<lambda>(p, q, s'). files s' = files s @ map (Pair v) L \<and> distinct L \<and>
     (\<forall>a\<in>set L. a < fnext s' \<and> (p = Done a \<or> q = Done a)) \<and>
     (\<forall>a. p = Done a \<or> q = Done a \<longrightarrow> a \<in> set L) \<and>
     (\<forall>a. p = Insert a \<or> q = Insert a \<longrightarrow> a \<notin> set L \<and> a < fnext s') \<and> (\<forall>a. p = Insert a \<longrightarrow> q \<noteq> Insert a))"

lemma raced_iff:
  "raced v s L (p, q, s') \<longleftrightarrow> files s' = files s @ map (Pair v) L \<and> distinct L \<and>
     (\<forall>a\<in>set L. a < fnext s' \<and> (p = Done a \<or> q = Done a)) \<and>
     (\<forall>a. p = Done a \<or> q = Done a \<longrightarrow> a \<in> set L) \<and>
     (\<forall>a. p = Insert a \<or> q = Insert a \<longrightarrow> a \<notin> set L \<and> a < fnext s') \<and> (\<forall>a. p = Insert a \<longrightarrow> q \<noteq> Insert a)"
  by (simp add: raced_def)

lemma raced_files:
  assumes "raced v s L (p, q, s')"
  shows "files s' = files s @ map (Pair v) L" and "distinct L"
  using assms unfolding raced_iff by blast+

lemma raced_swap: "raced v s L (p, q, s') \<longleftrightarrow> raced v s L (q, p, s')"
  unfolding raced_iff by blast

lemma lookup_raced:
  assumes "v \<notin> set (keys (files s))"
  shows "ht_find (files s @ map (Pair v) L) v = (if L = [] then None else Some (last L))"
proof (cases L rule: rev_cases)
  case Nil
  with assms show ?thesis by (simp add: ht_find_None_iff)
next
  case (snoc M a)
  then show ?thesis by (simp add: ht_find_def)
qed

lemma raced_create:
  assumes r: "raced v s L (Create, q, s1)" and t: "files t = files s1" "fnext t = Suc (fnext s1)"
  shows "raced v s L (Insert (fnext s1), q, t)"
proof -
  have less: "a < fnext t" if "a < fnext s1" for a using that t(2) by simp
  have L: "a < fnext s1" "q = Done a" if "a \<in> set L" for a using r that unfolding raced_iff by blast+
  have ins: "a \<notin> set L" "a < fnext s1" if "q = Insert a" for a using r that unfolding raced_iff by blast+
  have new: "fnext s1 \<notin> set L" "q \<noteq> Insert (fnext s1)" "fnext s1 < fnext t" using L(1) ins(2) t(2) by auto
  show ?thesis
    unfolding raced_iff
  proof (intro conjI ballI allI impI)
    show "files t = files s @ map (Pair v) L" "distinct L" using raced_files [OF r] t(1) by simp_all
    show "a \<in> set L" if "Insert (fnext s1) = Done a \<or> q = Done a" for a using r that unfolding raced_iff by blast
    show "a \<notin> set L" "a < fnext t" if "Insert (fnext s1) = Insert a \<or> q = Insert a" for a
      using that new ins less by blast+
    show "q \<noteq> Insert a" if "Insert (fnext s1) = Insert a" for a using that new by blast
    show "a < fnext t" "Insert (fnext s1) = Done a \<or> q = Done a" if "a \<in> set L" for a
      using that L less by blast+
  qed
qed

lemma raced_insert:
  assumes r: "raced v s L (Insert a, q, s1)" and t: "files t = files s1 @ [(v, a)]" "fnext t = fnext s1"
  shows "raced v s (L @ [a]) (Done a, q, t)"
proof -
  have a: "a \<notin> set L" "a < fnext s1" "q \<noteq> Insert a" using r unfolding raced_iff by blast+
  have L: "b < fnext s1" "q = Done b" if "b \<in> set L" for b using r that unfolding raced_iff by blast+
  show ?thesis
    unfolding raced_iff
  proof (intro conjI ballI allI impI)
    show "files t = files s @ map (Pair v) (L @ [a])" "distinct (L @ [a])"
      using raced_files [OF r] t(1) a(1) by simp_all
    show "b \<in> set (L @ [a])" if "Done a = Done b \<or> q = Done b" for b
    proof -
      have "q = Done b \<Longrightarrow> b \<in> set L" using r unfolding raced_iff by blast
      with that show ?thesis by fastforce
    qed
    show "b \<notin> set (L @ [a])" "b < fnext t" if "Done a = Insert b \<or> q = Insert b" for b
    proof -
      have q: "q = Insert b" using that by blast
      then have "b \<noteq> a" using a(3) by blast
      moreover have b: "b \<notin> set L" "b < fnext s1" using r q unfolding raced_iff by blast+
      ultimately show "b \<notin> set (L @ [a])" by simp
      show "b < fnext t" using b(2) t(2) by simp
    qed
    show "q \<noteq> Insert b" if "Done a = Insert b" for b using that by blast
    show "b < fnext t" "Done a = Done b \<or> q = Done b" if "b \<in> set (L @ [a])" for b
      using that L a(2) t(2) by auto
  qed
qed

lemma raced_step:
  assumes v: "v \<notin> set (keys (files s))" and r: "raced v s L (p, q, s1)" and st: "get_step v p s1 = (p', s2)"
  shows "\<exists>M. raced v s M (p', q, s2)"
proof (cases p)
  case Lookup
  have fs: "files s1 = files s @ map (Pair v) L" using r by (rule raced_files)
  have look: "ht_get_entry (files s1) v = (if L = [] then None else Some (last L))"
    unfolding fs ht_get_entry_def by (rule lookup_raced [OF v])
  show ?thesis
  proof (cases "L = []")
    case True
    with st Lookup look have p': "p' = Create" "s2 = s1" by simp_all
    from r Lookup have "raced v s L (Create, q, s1)" unfolding raced_iff by blast
    with p' show ?thesis by blast
  next
    case False
    with st Lookup look have p': "p' = Done (last L)" "s2 = s1" by simp_all
    have "last L \<in> set L" using False by simp
    with r Lookup have "raced v s L (Done (last L), q, s1)" unfolding raced_iff by blast
    with p' show ?thesis by blast
  qed
next
  case Create
  let ?t = "snd (file_new v s1)"
  have p': "p' = Insert (fnext s1)" "s2 = ?t" using st Create by (simp_all add: file_new_def Let_def)
  have t: "files ?t = files s1" "fnext ?t = Suc (fnext s1)" by (simp_all add: file_new_def Let_def)
  have "raced v s L (Insert (fnext s1), q, ?t)"
    using r unfolding Create by (rule raced_create) (simp_all add: t)
  with p' show ?thesis by blast
next
  case (Insert a)
  let ?t = "s1\<lparr>files := files s1 @ [(v, a)]\<rparr>"
  have p': "p' = Done a" "s2 = ?t" using st Insert by simp_all
  have "raced v s (L @ [a]) (Done a, q, ?t)"
    using r unfolding Insert by (rule raced_insert) simp_all
  with p' show ?thesis by blast
next
  case (Done a)
  with r st show ?thesis by auto
qed

lemma raced_run:
  assumes "v \<notin> set (keys (files s))" and "(race v)\<^sup>*\<^sup>* (Lookup, Lookup, s) c"
  shows "\<exists>L. raced v s L c"
  using assms(2)
proof (induction rule: rtranclp_induct)
  case base
  show ?case by (intro exI [of _ "[]"]) (simp add: raced_def)
next
  case (step c d)
  obtain p q s1 p' q' s2 where c: "c = (p, q, s1)" "d = (p', q', s2)" by (metis prod_cases3)
  from step.IH obtain L where L: "raced v s L (p, q, s1)" using c by auto
  from step.hyps(2) [unfolded c] consider "get_step v p s1 = (p', s2)" "q' = q" | "get_step v q s1 = (q', s2)" "p' = p"
    by (rule race_elim)
  then show ?case
  proof cases
    case 1
    with raced_step [OF assms(1) L] c show ?thesis by simp
  next
    case 2
    with raced_step [OF assms(1) L [unfolded raced_swap [of v s L p q]]] c raced_swap [of v s _ q' p] show ?thesis by auto
  qed
qed

lemma race_left: "get_step v p s = (p', s') \<Longrightarrow> (race v)\<^sup>*\<^sup>* (p', q, s') c \<Longrightarrow> (race v)\<^sup>*\<^sup>* (p, q, s) c"
  by (rule converse_rtranclp_into_rtranclp) (rule race.left)

lemma race_right: "get_step v q s = (q', s') \<Longrightarrow> (race v)\<^sup>*\<^sup>* (p, q', s') c \<Longrightarrow> (race v)\<^sup>*\<^sup>* (p, q, s) c"
  by (rule converse_rtranclp_into_rtranclp) (rule race.right)

lemma raced_outcomes:
  assumes "v \<notin> set (keys (files s))" and run: "(race v)\<^sup>*\<^sup>* (Lookup, Lookup, s) (Done f, Done g, s')"
  shows "if f = g then files s' = files s @ [(v, f)]
    else \<exists>a b. {a, b} = {f, g} \<and> files s' = files s @ [(v, a), (v, b)]"
proof -
  obtain L where L: "raced v s L (Done f, Done g, s')" using raced_run [OF assms] by blast
  then have L': "distinct L" "set L = {f, g}" "files s' = files s @ map (Pair v) L" by (auto simp: raced_def)
  then have "length L = card {f, g}" by (metis distinct_card)
  then consider a where "L = [a]" "f = g" | a b where "L = [a, b]" "f \<noteq> g"
    by (cases L; cases "tl L"; cases "f = g") auto
  then show ?thesis
  proof cases
    case 1
    with L' show ?thesis by simp
  next
    case (2 a b)
    with L' show ?thesis by auto
  qed
qed

lemma raced_once:
  assumes "v \<notin> set (keys (files s))"
  shows "\<exists>f s'. (race v)\<^sup>*\<^sup>* (Lookup, Lookup, s) (Done f, Done f, s')"
proof -
  have none: "ht_find (files s) v = None" using assms by (simp add: ht_find_None_iff)
  show ?thesis
    by (intro exI, rule race_left, simp add: none ht_get_entry_def, rule race_left, simp add: file_new_def Let_def,
        rule race_left, simp, rule race_right, simp add: ht_get_entry_def ht_find_def, rule rtranclp.rtrancl_refl)
qed

lemma raced_twice:
  assumes "v \<notin> set (keys (files s))"
  shows "\<exists>f g s'. (race v)\<^sup>*\<^sup>* (Lookup, Lookup, s) (Done f, Done g, s') \<and> f \<noteq> g \<and> \<not> files_ok s'"
proof -
  have none: "ht_find (files s) v = None" using assms by (simp add: ht_find_None_iff)
  have "\<exists>s'. (race v)\<^sup>*\<^sup>* (Lookup, Lookup, s) (Done (fnext s), Done (Suc (fnext s)), s') \<and>
      files s' = files s @ [(v, fnext s), (v, Suc (fnext s))]"
    by (intro exI conjI, rule race_left, simp add: none ht_get_entry_def, rule race_right, simp add: none ht_get_entry_def,
        rule race_left, simp add: file_new_def Let_def, rule race_right, simp add: file_new_def Let_def,
        rule race_left, simp, rule race_right, simp, rule rtranclp.rtrancl_refl) simp
  then show ?thesis by (force simp: files_ok_def)
qed

text \<open>
  What the hash table answers when the name is in it twice: one of the two. Which one is up to its
  buckets: a new entry is put at the head of its chain, and doubling the buckets turns the chains round.
\<close>

lemma twice_found:
  assumes "v \<notin> set (keys h)" and "repr u (h @ [(v, a), (v, b)])" and "length v < 2 ^ 32"
  shows "uh_get_entry u v \<in> {Some (Some a), Some (Some b)}"
proof -
  have "v \<in> set (keys (h @ [(v, a), (v, b)]))" by simp
  moreover have "d = a \<or> d = b" if "(v, d) \<in> set (h @ [(v, a), (v, b)])" for d
    using that assms(1) by (auto intro: rev_image_eqI)
  ultimately show ?thesis using repr_get_entry [OF assms(2,3)] by fastforce
qed

text \<open>
  C36. When two threads look for a file that is not known yet, every interleaving ends in one of two
  ways: both get one new struct, which is in the table once, or each gets a struct of its own and the table has
  the name twice. Both ways occur, and the second breaks the invariant of the table of files: from then
  on a lookup in the hash table finds one of the two structs, which one depending on its buckets, and what is set
  on the other is not seen through the name.
\<close>

theorem racing_lookups:
  assumes "v \<notin> set (keys (files s))"
  shows "(\<forall>f g s'. (race v)\<^sup>*\<^sup>* (Lookup, Lookup, s) (Done f, Done g, s') \<longrightarrow>
      (if f = g then files s' = files s @ [(v, f)]
       else (\<exists>a b. {a, b} = {f, g} \<and> files s' = files s @ [(v, a), (v, b)]) \<and>
         (\<forall>u. repr u (files s') \<and> length v < 2 ^ 32 \<longrightarrow> uh_get_entry u v \<in> {Some (Some f), Some (Some g)}))) \<and>
    (\<exists>f s'. (race v)\<^sup>*\<^sup>* (Lookup, Lookup, s) (Done f, Done f, s')) \<and>
    (\<exists>f g s'. (race v)\<^sup>*\<^sup>* (Lookup, Lookup, s) (Done f, Done g, s') \<and> f \<noteq> g \<and> \<not> files_ok s')"
proof (intro conjI allI impI)
  fix f g s'
  assume "(race v)\<^sup>*\<^sup>* (Lookup, Lookup, s) (Done f, Done g, s')"
  note out = raced_outcomes [OF assms this]
  show "if f = g then files s' = files s @ [(v, f)]
       else (\<exists>a b. {a, b} = {f, g} \<and> files s' = files s @ [(v, a), (v, b)]) \<and>
         (\<forall>u. repr u (files s') \<and> length v < 2 ^ 32 \<longrightarrow> uh_get_entry u v \<in> {Some (Some f), Some (Some g)})"
  proof (cases "f = g")
    case False
    with out obtain a b where ab: "{a, b} = {f, g}" "files s' = files s @ [(v, a), (v, b)]" by auto
    then have "uh_get_entry u v \<in> (\<lambda>x. Some (Some x)) ` {f, g}" if "repr u (files s') \<and> length v < 2 ^ 32" for u
      using twice_found [OF assms, of u a b] that unfolding ab(1) [symmetric] by auto
    with ab False show ?thesis by auto
  qed (use out in simp)
qed (use raced_once [OF assms] raced_twice [OF assms] in blast)+

theorem racing_lookups_witness:
  "\<exists>f g s'. (race ''x'')\<^sup>*\<^sup>* (Lookup, Lookup, fs_init ''/r'' ''/r/.tags'' ()) (Done f, Done g, s') \<and>
     f \<noteq> g \<and> \<not> files_ok s'"
proof -
  have "''x'' \<notin> set (keys (files (fs_init ''/r'' ''/r/.tags'' ())))" by (simp add: fs_init_def ht_create_def)
  from racing_lookups [OF this] show ?thesis by blast
qed

end
