(* ===== verification/Ll_State.thy ===== *)
theory Ll_State
  imports Fuse_Tagfs
begin

text \<open>
  The state of \<^verbatim>\<open>fuse_lowlevel\<close>, the variant over the inode-based interface of FUSE, and its parts
  below the callbacks: \<^verbatim>\<open>inode.c\<close>, \<^verbatim>\<open>tag.c\<close>, \<^verbatim>\<open>file.c\<close>, \<^verbatim>\<open>real.c\<close>, \<^verbatim>\<open>parse.c\<close> and
  \<^verbatim>\<open>file_descriptor.c\<close>. As in \<open>Fuse_State\<close>, structs live in heaps and addresses are not reused, so
  that the use of a freed struct is a fault (\<open>None\<close>). Tags have no reference counts here. Inode
  numbers and lookup counts are 64-bit words that wrap around. \<^verbatim>\<open>errno\<close> is a field of the state, the
  replies of the callbacks are logged in another.
\<close>

subsection \<open>Data\<close>

type_synonym ino = "64 word"

type_synonym iptr = nat

record inode =
  i_number :: ino
  i_is_tagfile :: bool
  i_is_directory :: bool
  i_st :: stat
  i_nlookup :: "64 word"
  i_selected_tags :: "tptr ht option"
  i_name :: "cstring option"
  i_realpath :: "cstring option"
  i_tag :: "cstring list"

record ltag =
  lt_value :: cstring
  lt_files :: "fptr ht"

record lfile =
  lf_name :: cstring
  lf_realpath :: cstring
  lf_tags :: "tptr ht"
  lf_ino :: "iptr option"

record entry_param =
  e_ino :: ino
  e_generation :: "64 word"
  e_attr :: stat

text \<open>The answers a callback can give: one constructor for each \<^verbatim>\<open>fuse_reply_...\<close> function.\<close>

datatype ll_reply =
    Reply_err int
  | Reply_none
  | Reply_entry entry_param
  | Reply_open int
  | Reply_opendir iptr
  | Reply_attr stat
  | Reply_buf "char list"
  | Reply_write nat
  | Reply_ioctl int tag_ioctl

record 'w ll =
  l_tags :: "tptr ht"
  l_files :: "fptr ht"
  l_itable :: "(ino \<times> iptr) list"
  l_theap :: "tptr \<Rightarrow> ltag option"
  l_tnext :: nat
  l_fheap :: "fptr \<Rightarrow> lfile option"
  l_fnext :: nat
  l_iheap :: "iptr \<Rightarrow> inode option"
  l_inext :: iptr
  next_ino :: ino
  next_gen :: "64 word"
  c_errno :: int
  l_realdirpath :: cstring
  l_tagdbpath :: cstring
  l_world :: 'w
  l_replies :: "ll_reply list"

text \<open>The static data before \<^verbatim>\<open>tag_init\<close>.\<close>

definition ll_static :: "cstring \<Rightarrow> 'w \<Rightarrow> 'w ll" where
  "ll_static root w =
     \<lparr>l_tags = ht_create, l_files = ht_create, l_itable = [], l_theap = Map.empty, l_tnext = 0,
      l_fheap = Map.empty, l_fnext = 0, l_iheap = Map.empty, l_inext = 0, next_ino = 1, next_gen = 1,
      c_errno = 0, l_realdirpath = root, l_tagdbpath = [], l_world = w, l_replies = []\<rparr>"

definition ltag_upd :: "tptr \<Rightarrow> (ltag \<Rightarrow> ltag) \<Rightarrow> 'w ll \<Rightarrow> 'w ll option" where
  "ltag_upd t g s = do { r \<leftarrow> l_theap s t; Some (s\<lparr>l_theap := (l_theap s)(t \<mapsto> g r)\<rparr>) }"

definition lfile_upd :: "fptr \<Rightarrow> (lfile \<Rightarrow> lfile) \<Rightarrow> 'w ll \<Rightarrow> 'w ll option" where
  "lfile_upd f g s = do { x \<leftarrow> l_fheap s f; Some (s\<lparr>l_fheap := (l_fheap s)(f \<mapsto> g x)\<rparr>) }"

definition inode_upd :: "iptr \<Rightarrow> (inode \<Rightarrow> inode) \<Rightarrow> 'w ll \<Rightarrow> 'w ll option" where
  "inode_upd p g s = do { i \<leftarrow> l_iheap s p; Some (s\<lparr>l_iheap := (l_iheap s)(p \<mapsto> g i)\<rparr>) }"

text \<open>\<^verbatim>\<open>stat\<close>, with \<^verbatim>\<open>errno\<close> set on failure.\<close>

definition ll_stat :: "'w os \<Rightarrow> cstring \<Rightarrow> stat \<Rightarrow> 'w ll \<Rightarrow> (int \<times> stat) \<times> 'w ll" where
  "ll_stat os path stbuf s =
     (case os_stat os path (l_world s) of
        Inl errno \<Rightarrow> ((-1, stbuf), s\<lparr>c_errno := errno\<rparr>)
      | Inr st \<Rightarrow> ((0, st), s))"

subsection \<open>tag.c\<close>

definition ll_tag_new :: "cstring \<Rightarrow> 'w ll \<Rightarrow> tptr \<times> 'w ll" where
  "ll_tag_new value s =
     (let t = TagAt (l_tnext s)
      in (t, s\<lparr>l_theap := (l_theap s)(t \<mapsto> \<lparr>lt_value = value, lt_files = ht_create\<rparr>), l_tnext := Suc (l_tnext s)\<rparr>))"

definition ll_tag_get_or_create :: "cstring \<Rightarrow> 'w ll \<Rightarrow> tptr \<times> 'w ll" where
  "ll_tag_get_or_create value s =
     (case ht_get_entry (l_tags s) value of
        Some t \<Rightarrow> (t, s)
      | None \<Rightarrow>
          let (t, s) = ll_tag_new value s
          in (t, s\<lparr>l_tags := snd (ht_add_entry (l_tags s) value t)\<rparr>))"

definition ll_tag_get :: "cstring \<Rightarrow> 'w ll \<Rightarrow> tptr" where
  "ll_tag_get value s = (case ht_get_entry (l_tags s) value of Some t \<Rightarrow> t | None \<Rightarrow> INVALID_TAG)"

definition ll_tag_exist :: "cstring \<Rightarrow> 'w ll \<Rightarrow> bool" where
  "ll_tag_exist value s \<longleftrightarrow> INVALID_TAG \<noteq> ll_tag_get value s"

text \<open>\<^verbatim>\<open>tag_complete_match\<close> (not called).\<close>

fun ll_tag_complete_match :: "tptr ht \<Rightarrow> cstring list \<Rightarrow> bool" where
  "ll_tag_complete_match h [] = True"
| "ll_tag_complete_match h (k # ks) = (if \<not> ht_has_entry h k then False else ll_tag_complete_match h ks)"

definition ll_tag_remove :: "tptr \<Rightarrow> 'w ll \<Rightarrow> 'w ll option" where
  "ll_tag_remove t s = do {
     r \<leftarrow> l_theap s t;
     s \<leftarrow> ht_for_each (lt_files r)
       (\<lambda>name f s. do {
          r \<leftarrow> l_theap s t;
          lfile_upd f (\<lambda>x. x\<lparr>lf_tags := snd (ht_remove_entry (lf_tags x) (lt_value r))\<rparr>) s
        }) s;
     r \<leftarrow> l_theap s t;
     Some (s\<lparr>l_tags := snd (ht_remove_entry (l_tags s) (lt_value r)), l_theap := (l_theap s)(t := None)\<rparr>)
   }"

text \<open>The tags of a list of names; a name without a tag gives the invalid pointer.\<close>

fun ll_select_tags :: "cstring list \<Rightarrow> tptr ht \<Rightarrow> 'w ll \<Rightarrow> tptr ht" where
  "ll_select_tags [] selected_tags s = selected_tags"
| "ll_select_tags (k # ks) selected_tags s =
     ll_select_tags ks (snd (ht_add_entry selected_tags k (ll_tag_get k s))) s"

text \<open>\<^verbatim>\<open>compute_selected_tags\<close> (not called).\<close>

definition ll_compute_selected_tags :: "cstring \<Rightarrow> 'w ll \<Rightarrow> tptr ht option" where
  "ll_compute_selected_tags dirpath s =
     (if dirpath = ''.'' then Some ht_create
      else do {
        (tag_count, ks) \<leftarrow> string_split dirpath ''/'';
        Some (ll_select_tags (map the ks) ht_create s)
      })"

definition ll_tag_list :: "'w ll \<Rightarrow> tptr clist option" where
  "ll_tag_list s = ht_to_list (l_tags s)"

definition ll_tag_file :: "tptr \<Rightarrow> fptr \<Rightarrow> 'w ll \<Rightarrow> 'w ll option" where
  "ll_tag_file t f s = do {
     x \<leftarrow> l_fheap s f;
     s \<leftarrow> ltag_upd t (\<lambda>r. r\<lparr>lt_files := snd (ht_add_unique_entry (lt_files r) (lf_name x) f)\<rparr>) s;
     r \<leftarrow> l_theap s t;
     lfile_upd f (\<lambda>x. x\<lparr>lf_tags := snd (ht_add_unique_entry (lf_tags x) (lt_value r) t)\<rparr>) s
   }"

definition ll_untag_file :: "tptr \<Rightarrow> fptr \<Rightarrow> 'w ll \<Rightarrow> 'w ll option" where
  "ll_untag_file t f s = do {
     r \<leftarrow> l_theap s t;
     s \<leftarrow> lfile_upd f (\<lambda>x. x\<lparr>lf_tags := snd (ht_remove_entry (lf_tags x) (lt_value r))\<rparr>) s;
     x \<leftarrow> l_fheap s f;
     ltag_upd t (\<lambda>r. r\<lparr>lt_files := snd (ht_remove_entry (lt_files r) (lf_name x))\<rparr>) s
   }"

subsection \<open>inode.c\<close>

text \<open>The return type is \<^verbatim>\<open>int\<close>: the counter has 64 bits, the numbers it gives have 32.\<close>

definition next_inode_number :: "'w ll \<Rightarrow> 32 word \<times> 'w ll" where
  "next_inode_number s = (ucast (next_ino s), s\<lparr>next_ino := next_ino s + 1\<rparr>)"

definition inode_new :: "bool \<Rightarrow> 'w ll \<Rightarrow> iptr \<times> 'w ll" where
  "inode_new directory s =
     (let p = l_inext s;
          (n, s) = next_inode_number s;
          number = scast n;
          i = \<lparr>i_number = number, i_is_tagfile = False, i_is_directory = directory, i_st = stat0,
               i_nlookup = 0, i_selected_tags = (if directory then Some ht_create else None),
               i_name = None, i_realpath = None, i_tag = []\<rparr>
      in (p, s\<lparr>l_iheap := (l_iheap s)(p \<mapsto> i), l_inext := Suc p, l_itable := l_itable s @ [(number, p)]\<rparr>))"

text \<open>\<^verbatim>\<open>HASH_FIND\<close> by number; of two inodes with one number the younger is found.\<close>

definition inode_get :: "ino \<Rightarrow> 'w ll \<Rightarrow> iptr option" where
  "inode_get number s = map_of (rev (l_itable s)) number"

text \<open>The failed assertion aborts.\<close>

definition inode_init :: "'w ll \<Rightarrow> 'w ll option" where
  "inode_init s = do {
     let (p, s) = inode_new True s;
     i \<leftarrow> l_iheap s p;
     if i_number i \<noteq> 1 then None
     else inode_upd p (\<lambda>i. i\<lparr>i_nlookup := 1\<rparr>) s
   }"

definition inode_delete_if_noref :: "iptr \<Rightarrow> 'w ll \<Rightarrow> 'w ll option" where
  "inode_delete_if_noref p s = do {
     i \<leftarrow> l_iheap s p;
     if i_number i \<noteq> 1 \<and> i_nlookup i = 0
     then Some (s\<lparr>l_itable := filter (\<lambda>e. snd e \<noteq> p) (l_itable s), l_iheap := (l_iheap s)(p := None)\<rparr>)
     else Some s
   }"

definition create_directory_inode :: "iptr \<Rightarrow> cstring \<Rightarrow> 'w ll \<Rightarrow> (iptr \<times> 'w ll) option" where
  "create_directory_inode parent name s = do {
     let (p, s) = inode_new True s;
     par \<leftarrow> l_iheap s parent;
     let sel = ll_select_tags (i_tag par @ [name]) ht_create s;
     s \<leftarrow> inode_upd p
       (\<lambda>i. i\<lparr>i_tag := i_tag par @ [name], i_name := Some name, i_selected_tags := Some sel\<rparr>) s;
     Some (p, s)
   }"

definition get_or_create_inode :: "ino \<Rightarrow> cstring \<Rightarrow> bool \<Rightarrow> 'w ll \<Rightarrow> (iptr option \<times> 'w ll) option" where
  "get_or_create_inode parent name directory s =
     (case inode_get parent s of
        None \<Rightarrow> Some (None, s)
      | Some parent_inode \<Rightarrow> do {
          par \<leftarrow> l_iheap s parent_inode;
          if \<not> i_is_directory par then Some (None, s)
          else do {
            let (p, s) = inode_new directory s;
            s \<leftarrow> inode_upd p (\<lambda>i. i\<lparr>i_name := Some name\<rparr>) s;
            Some (Some p, s)
          }
        })"

text \<open>\<^verbatim>\<open>tag_realpath\<close> of \<^verbatim>\<open>real.c\<close>.\<close>

definition ll_tag_realpath :: "'w ll \<Rightarrow> cstring \<Rightarrow> cstring" where
  "ll_tag_realpath s user_path = l_realdirpath s @ ''/'' @ basenamedup user_path"

definition get_or_create_file_inode :: "ino \<Rightarrow> cstring \<Rightarrow> 'w ll \<Rightarrow> (iptr \<times> 'w ll) option" where
  "get_or_create_file_inode parent name s = do {
     (p, s) \<leftarrow> get_or_create_inode parent name False s;
     p \<leftarrow> p;
     s \<leftarrow> inode_upd p (\<lambda>i. i\<lparr>i_realpath := Some (ll_tag_realpath s name)\<rparr>) s;
     Some (p, s)
   }"

text \<open>\<^verbatim>\<open>inode_set_statbuf\<close> and \<^verbatim>\<open>inode_get_statbuf\<close> (not called).\<close>

definition inode_set_statbuf :: "iptr \<Rightarrow> stat \<Rightarrow> 'w ll \<Rightarrow> 'w ll option" where
  "inode_set_statbuf p st s = inode_upd p (\<lambda>i. i\<lparr>i_st := st\<lparr>st_ino := i_number i\<rparr>\<rparr>) s"

definition inode_get_statbuf :: "iptr \<Rightarrow> 'w ll \<Rightarrow> stat option" where
  "inode_get_statbuf p s = do { i \<leftarrow> l_iheap s p; Some (i_st i) }"

subsection \<open>file.c\<close>

definition ll_file_new :: "cstring \<Rightarrow> 'w ll \<Rightarrow> (fptr \<times> 'w ll) option" where
  "ll_file_new name s = do {
     let f = l_fnext s;
     let x = \<lparr>lf_name = name, lf_realpath = ll_tag_realpath s (append_dir (l_realdirpath s) name),
              lf_tags = ht_create, lf_ino = None\<rparr>;
     let s = s\<lparr>l_fheap := (l_fheap s)(f \<mapsto> x), l_fnext := Suc f\<rparr>;
     (p, s) \<leftarrow> get_or_create_file_inode 1 name s;
     s \<leftarrow> lfile_upd f (\<lambda>x. x\<lparr>lf_ino := Some p\<rparr>) s;
     s \<leftarrow> (if name = TAG_FILENAME then inode_upd p (\<lambda>i. i\<lparr>i_is_tagfile := True\<rparr>) s else Some s);
     Some (f, s)
   }"

definition ll_file_get_or_create :: "cstring \<Rightarrow> 'w ll \<Rightarrow> (fptr \<times> 'w ll) option" where
  "ll_file_get_or_create value s =
     (case ht_get_entry (l_files s) value of
        Some f \<Rightarrow> Some (f, s)
      | None \<Rightarrow> do {
          (f, s) \<leftarrow> ll_file_new value s;
          Some (f, s\<lparr>l_files := snd (ht_add_entry (l_files s) value f)\<rparr>)
        })"

definition ll_file_get :: "cstring \<Rightarrow> 'w ll \<Rightarrow> fptr option" where
  "ll_file_get value s = ht_get_entry (l_files s) value"

definition ll_file_list :: "'w ll \<Rightarrow> fptr clist option" where
  "ll_file_list s = ht_to_list (l_files s)"

text \<open>
  \<^verbatim>\<open>*size\<close> is written for every tag and not at all for a file without tags: \<open>None\<close> is the
  caller's uninitialised variable.
\<close>

definition ll_file_get_tags_string :: "fptr \<Rightarrow> 'w ll \<Rightarrow> (cstring \<times> int option) option" where
  "ll_file_get_tags_string f s = do {
     x \<leftarrow> l_fheap s f;
     (str, size, c) \<leftarrow> ht_for_each (lf_tags x)
       (\<lambda>n t (str, size, c). do {
          r \<leftarrow> l_theap s t;
          let str = str @ (if c = 0 then [] else '' '') @ lt_value r;
          Some (str, Some (int (length str)), c + 1)
        }) ([], None, 0 :: nat);
     Some (str, size)
   }"

subsection \<open>The tag database\<close>

definition ll_dump_tags :: "'w ll \<Rightarrow> tptr ht \<Rightarrow> cstring \<Rightarrow> cstring option" where
  "ll_dump_tags s h output =
     ht_for_each h (\<lambda>key t output. do { r \<leftarrow> l_theap s t; Some (output @ lt_value r @ [newline]) }) output"

definition ll_dump_file :: "'w ll \<Rightarrow> fptr option \<Rightarrow> cstring \<Rightarrow> cstring option" where
  "ll_dump_file s f output = do {
     f \<leftarrow> f;
     x \<leftarrow> l_fheap s f;
     if ht_entry_count (lf_tags x) = 0 then Some output
     else do {
       let output = output @ ''['' @ lf_name x @ '']'' @ [newline];
       output \<leftarrow> ll_dump_tags s (lf_tags x) output;
       Some (output @ [newline])
     }
   }"

definition ll_tag_db_dump :: "'w ll \<Rightarrow> cstring option" where
  "ll_tag_db_dump s = do {
     l \<leftarrow> ll_file_list s;
     (output, l) \<leftarrow> list_fold_from l 1 (list_size l) (ll_dump_file s) [];
     Some output
   }"

text \<open>\<^verbatim>\<open>update_lib\<close> (not called).\<close>

definition ll_update_lib_file :: "'w ll \<Rightarrow> fptr option \<Rightarrow> cstring \<Rightarrow> cstring option" where
  "ll_update_lib_file s fi output =
     (case fi of
        None \<Rightarrow> Some output
      | Some fi \<Rightarrow> do {
          x \<leftarrow> l_fheap s fi;
          fiTagsList \<leftarrow> ht_to_list (lf_tags x);
          let output = output @ ''['' @ lf_name x @ '']'' @ [newline];
          (output, l) \<leftarrow> list_fold_from fiTagsList 1 (list_size fiTagsList)
            (\<lambda>t output. case t of
               None \<Rightarrow> Some output
             | Some t \<Rightarrow> do { r \<leftarrow> l_theap s t; Some (output @ lt_value r @ [newline]) }) output;
          Some output
        })"

definition ll_update_lib :: "'w ll \<Rightarrow> cstring option" where
  "ll_update_lib s = do {
     filesList \<leftarrow> ll_file_list s;
     (output, l) \<leftarrow> list_fold_from filesList 1 (list_size filesList) (ll_update_lib_file s) [];
     Some output
   }"

text \<open>
  \<^verbatim>\<open>parse.c\<close>: like \<^verbatim>\<open>parse_tags_db\<close> of the other variant, but a named file is taken without a look
  at the real directory, and \<^verbatim>\<open>fclose\<close> is called also when the database could not be opened.
\<close>

definition ll_parse_line :: "cstring \<Rightarrow> fptr option \<Rightarrow> 'w ll \<Rightarrow> (fptr option \<times> 'w ll) option" where
  "ll_parse_line word f s =
     (if word \<noteq> [] \<and> hd word = CHR ''#'' then Some (f, s)
      else
        let word = dropWhile isspace word
        in if word \<noteq> [] \<and> hd word = CHR ''['' then do {
             (f, s) \<leftarrow> ll_file_get_or_create (copy_word_until (tl word) (CHR '']'')) s;
             Some (Some f, s)
           }
           else
             let data = copy_word_until word newline
             in if length data \<noteq> 0 then
                  let (t, s) = ll_tag_get_or_create data s
                  in (case f of
                        None \<Rightarrow> Some (f, s)
                      | Some g \<Rightarrow> do { s \<leftarrow> ll_tag_file t g s; Some (f, s) })
                else Some (f, s))"

function ll_parse_lines :: "cstring \<Rightarrow> fptr option \<Rightarrow> 'w ll \<Rightarrow> (fptr option \<times> 'w ll) option" where
  "ll_parse_lines fi f s =
     (if fi = [] then Some (f, s)
      else let (word, rest) = fgets MAX_LENGTH fi
           in do { (f, s) \<leftarrow> ll_parse_line word f s; ll_parse_lines rest f s })"
  by pat_completeness auto
termination
  by (relation "measure (\<lambda>(fi, f, s). length fi)") (auto simp: fgets_shorter)

declare ll_parse_lines.simps [simp del]

definition ll_parse_tags :: "cstring option \<Rightarrow> 'w ll \<Rightarrow> 'w ll option" where
  "ll_parse_tags fi s =
     (case fi of
        None \<Rightarrow> None
      | Some fi \<Rightarrow> do { (f, s) \<leftarrow> ll_parse_lines fi None s; Some s })"

subsection \<open>real.c\<close>

fun realdir_add_entries :: "(cstring \<times> bool) list \<Rightarrow> 'w ll \<Rightarrow> 'w ll option" where
  "realdir_add_entries [] s = Some s"
| "realdir_add_entries ((d_name, dt_dir) # dirents) s =
     (if dt_dir then realdir_add_entries dirents s
      else do { (f, s) \<leftarrow> ll_file_get_or_create d_name s; realdir_add_entries dirents s })"

definition realdir_add_files :: "'w os \<Rightarrow> 'w ll \<Rightarrow> 'w ll option" where
  "realdir_add_files os s = realdir_add_entries (os_readdir os (l_world s)) s"

definition realdir_parse_tags :: "cstring option \<Rightarrow> 'w ll \<Rightarrow> 'w ll option" where
  "realdir_parse_tags fi s = do {
     s \<leftarrow> ll_parse_tags fi s;
     Some (s\<lparr>l_tagdbpath := l_realdirpath s @ ''/'' @ TAG_FILENAME\<rparr>)
   }"

subsection \<open>file\_descriptor.c\<close>

definition file_open :: "'w os \<Rightarrow> fptr \<Rightarrow> 32 word \<Rightarrow> 'w ll \<Rightarrow> (int \<times> 'w ll) option" where
  "file_open os f flags s = do {
     x \<leftarrow> l_fheap s f;
     let (res, w) = os_open os (lf_realpath x) flags (l_world s);
     case res of
       Inl errno \<Rightarrow> Some (-1, s\<lparr>l_world := w, c_errno := errno\<rparr>)
     | Inr fd \<Rightarrow> Some (fd, s\<lparr>l_world := w\<rparr>)
   }"

text \<open>The buffer has \<open>len\<close> bytes; what a short read leaves is set to null characters.\<close>

definition file_read :: "'w os \<Rightarrow> int \<Rightarrow> nat \<Rightarrow> int \<Rightarrow> 'w ll \<Rightarrow> (int \<times> char list) \<times> 'w ll" where
  "file_read os fd len off s =
     (let (res, w) = os_lseek os fd off (l_world s)
      in case res of
           Inl errno \<Rightarrow> ((- errno, []), s\<lparr>l_world := w, c_errno := errno\<rparr>)
         | Inr u \<Rightarrow>
             let (res, w) = os_read os fd len w
             in case res of
                  Inl errno \<Rightarrow> ((- errno, []), s\<lparr>l_world := w, c_errno := errno\<rparr>)
                | Inr bytes \<Rightarrow>
                    ((int (length bytes), bytes @ replicate (len - length bytes) (CHR 0x00)), s\<lparr>l_world := w\<rparr>))"

definition file_write :: "'w os \<Rightarrow> int \<Rightarrow> char list \<Rightarrow> nat \<Rightarrow> int \<Rightarrow> 'w ll \<Rightarrow> int \<times> 'w ll" where
  "file_write os fd buffer len off s =
     (let (res, w) = os_lseek os fd off (l_world s)
      in case res of
           Inl errno \<Rightarrow> (- errno, s\<lparr>l_world := w, c_errno := errno\<rparr>)
         | Inr u \<Rightarrow>
             let (res, w) = os_write os fd (take len buffer) w
             in case res of
                  Inl errno \<Rightarrow> (- errno, s\<lparr>l_world := w, c_errno := errno\<rparr>)
                | Inr n \<Rightarrow> (int n, s\<lparr>l_world := w\<rparr>))"

definition file_close :: "'w os \<Rightarrow> int \<Rightarrow> 'w ll \<Rightarrow> int \<times> 'w ll" where
  "file_close os fd s =
     (let (res, w) = os_close os fd (l_world s)
      in case res of
           Inl errno \<Rightarrow> (- errno, s\<lparr>l_world := w, c_errno := errno\<rparr>)
         | Inr u \<Rightarrow> (0, s\<lparr>l_world := w\<rparr>))"

end
