(* ===== verification/Cutil_Lock.thy ===== *)
theory Cutil_Lock
  imports Cutil_Hash
begin

text \<open>
  The reader/writer lock of a table of \<^verbatim>\<open>cutil/hash_table.c\<close>. The theories of the file systems run one
  request at a time and call most table functions with the lock free, where it has no effect. The lock
  matters when a callback of \<^verbatim>\<open>ht_for_each\<close>, which holds the read lock, calls a function that takes the
  write lock of the same table: \<^verbatim>\<open>pthread_rwlock_wrlock\<close> waits until no reader is left, and the reader is
  the waiting thread itself. Such a wait has a result of its own, \<open>Waits\<close>, different from undefined behaviour.
\<close>

subsection \<open>The lock\<close>

datatype 'a outcome = Waits | Returns 'a

record rwlock =
  rw_readers :: nat
  rw_writer :: bool

definition rwlock_init :: rwlock where
  "rwlock_init = \<lparr>rw_readers = 0, rw_writer = False\<rparr>"

definition rwlock_rdlock :: "rwlock \<Rightarrow> rwlock outcome" where
  "rwlock_rdlock l = (if rw_writer l then Waits else Returns (l\<lparr>rw_readers := rw_readers l + 1\<rparr>))"

definition rwlock_wrlock :: "rwlock \<Rightarrow> rwlock outcome" where
  "rwlock_wrlock l = (if rw_writer l \<or> 0 < rw_readers l then Waits else Returns (l\<lparr>rw_writer := True\<rparr>))"

definition rwlock_unlock :: "rwlock \<Rightarrow> rwlock" where
  "rwlock_unlock l =
     (if rw_writer l then l\<lparr>rw_writer := False\<rparr> else l\<lparr>rw_readers := rw_readers l - 1\<rparr>)"

subsection \<open>A table with its lock\<close>

record 'a locked =
  lk_h :: "'a ht"
  lk_rwlock :: rwlock

definition lk_of :: "'a ht \<Rightarrow> 'a locked" where
  "lk_of h = \<lparr>lk_h = h, lk_rwlock = rwlock_init\<rparr>"

definition lk_remove_entry :: "'a locked \<Rightarrow> cstring \<Rightarrow> (int \<times> 'a locked) outcome" where
  "lk_remove_entry l key =
     (case rwlock_wrlock (lk_rwlock l) of
        Waits \<Rightarrow> Waits
      | Returns w \<Rightarrow>
          let (err, h) = ht_remove_entry (lk_h l) key
          in Returns (err, \<lparr>lk_h = h, lk_rwlock = rwlock_unlock w\<rparr>))"

text \<open>
  The loop of \<^verbatim>\<open>ht_for_each\<close> with a callback that may fault (\<open>None\<close>) or wait. While it runs the entries
  stay what they are: a change needs the write lock.
\<close>

fun for_each_entry :: "'a ht \<Rightarrow> (cstring \<Rightarrow> 'a \<Rightarrow> 's \<Rightarrow> 's outcome option) \<Rightarrow> 's \<Rightarrow> 's outcome option" where
  "for_each_entry [] callback s = Some (Returns s)"
| "for_each_entry ((key, d) # h) callback s = do {
     r \<leftarrow> callback key d s;
     case r of
       Waits \<Rightarrow> Some Waits
     | Returns s \<Rightarrow> for_each_entry h callback s
   }"

definition lk_for_each ::
  "'a locked \<Rightarrow> (cstring \<Rightarrow> 'a \<Rightarrow> 'a locked \<Rightarrow> 'a locked outcome option) \<Rightarrow> 'a locked outcome option" where
  "lk_for_each l callback =
     (case rwlock_rdlock (lk_rwlock l) of
        Waits \<Rightarrow> Some Waits
      | Returns w \<Rightarrow> do {
          r \<leftarrow> for_each_entry (lk_h l) callback (l\<lparr>lk_rwlock := w\<rparr>);
          case r of
            Waits \<Rightarrow> Some Waits
          | Returns l \<Rightarrow> Some (Returns (l\<lparr>lk_rwlock := rwlock_unlock (lk_rwlock l)\<rparr>))
        })"

subsection \<open>Lemmas\<close>

text \<open>With the lock free the functions are those of \<open>Cutil_Hash\<close>, and the lock is free afterwards.\<close>

lemma lk_remove_free:
  "lk_remove_entry (lk_of h) key = Returns (fst (ht_remove_entry h key), lk_of (snd (ht_remove_entry h key)))"
  by (simp add: lk_remove_entry_def lk_of_def rwlock_init_def rwlock_wrlock_def rwlock_unlock_def split_def Let_def)

lemma for_each_entry_ret:
  "for_each_entry h (\<lambda>k d s. map_option Returns (g k d s)) s = map_option Returns (ht_for_each h g s)"
proof (induction h arbitrary: s)
  case Nil
  then show ?case by simp
next
  case (Cons e h)
  then show ?case by (cases e; cases "g (fst e) (snd e) s") simp_all
qed

text \<open>A table that is being iterated cannot be written to.\<close>

definition lk_reading :: "'a ht \<Rightarrow> 'a locked" where
  "lk_reading h = (lk_of h)\<lparr>lk_rwlock := rwlock_init\<lparr>rw_readers := 1\<rparr>\<rparr>"

lemma lk_remove_reading [simp]: "lk_remove_entry (lk_reading h) key = Waits"
  by (simp add: lk_remove_entry_def lk_reading_def lk_of_def rwlock_init_def rwlock_wrlock_def)

text \<open>A loop whose callback waits for some entries and does nothing for the others.\<close>

lemma for_each_entry_waits:
  assumes "\<And>k d. (k, d) \<in> set h \<Longrightarrow> callback k d s = Some (if P k d then Waits else Returns s)"
  shows "for_each_entry h callback s = Some (if \<exists>(k, d)\<in>set h. P k d then Waits else Returns s)"
  using assms
proof (induction h)
  case Nil
  then show ?case by simp
next
  case (Cons e h)
  then show ?case by (cases e) auto
qed

lemma lk_for_each_waits:
  assumes "\<And>k d. (k, d) \<in> set h \<Longrightarrow> callback k d (lk_reading h) = Some (if P k d then Waits else Returns (lk_reading h))"
  shows "lk_for_each (lk_of h) callback = Some (if \<exists>(k, d)\<in>set h. P k d then Waits else Returns (lk_of h))"
proof -
  have start: "rwlock_rdlock (lk_rwlock (lk_of h)) = Returns (rwlock_init\<lparr>rw_readers := 1\<rparr>)"
    "lk_h (lk_of h) = h" by (simp_all add: lk_of_def rwlock_init_def rwlock_rdlock_def)
  have stop: "(lk_reading h)\<lparr>lk_rwlock := rwlock_unlock (lk_rwlock (lk_reading h))\<rparr> = lk_of h"
    by (simp add: lk_reading_def lk_of_def rwlock_init_def rwlock_unlock_def)
  have "lk_for_each (lk_of h) callback = do {
      r \<leftarrow> for_each_entry h callback (lk_reading h);
      case r of
        Waits \<Rightarrow> Some Waits
      | Returns l \<Rightarrow> Some (Returns (l\<lparr>lk_rwlock := rwlock_unlock (lk_rwlock l)\<rparr>))
    }"
    unfolding lk_for_each_def start outcome.case lk_reading_def by (rule refl)
  with for_each_entry_waits [of h callback "lk_reading h" P, OF assms] stop show ?thesis by simp
qed

end
