(* ===== verification/Ll_Ops.thy ===== *)
theory Ll_Ops
  imports Ll_State Cutil_Lock
begin

text \<open>
  The callbacks of \<^verbatim>\<open>fuse_lowlevel/fuse_callback.c\<close>. A callback returns nothing but answers through
  the \<^verbatim>\<open>fuse_reply\<close> functions; \<open>fuse_reply\<close> logs the answer. The result \<open>None\<close> is undefined behaviour.
  A wait for a lock that the waiting thread itself holds is the result \<open>Waits\<close> of \<open>ll_tag_readdir\<close>; a request that
  waits leaves no state behind, so that the run of a request has no result for it either.
  What the FUSE library writes for a directory entry (\<^verbatim>\<open>fuse_add_direntry\<close>) is a parameter. Log
  output is left out.
\<close>

definition fuse_reply :: "ll_reply \<Rightarrow> 'w ll \<Rightarrow> 'w ll" where
  "fuse_reply r s = s\<lparr>l_replies := l_replies s @ [r]\<rparr>"

abbreviation fuse_reply_err :: "int \<Rightarrow> 'w ll \<Rightarrow> 'w ll option" where
  "fuse_reply_err err s \<equiv> Some (fuse_reply (Reply_err err) s)"

subsection \<open>Helpers\<close>

record dirbuf =
  d_p :: "char list"
  d_size :: nat

text \<open>\<open>direntry name ino off\<close> is the entry's bytes, \<open>direntry_size name\<close> their number.\<close>

record fuse_lib =
  direntry_size :: "cstring \<Rightarrow> nat"
  direntry :: "cstring \<Rightarrow> ino \<Rightarrow> nat \<Rightarrow> char list"

text \<open>\<^verbatim>\<open>next_gen_number\<close> skips 0 after an overflow.\<close>

definition next_gen_number :: "'w ll \<Rightarrow> 64 word \<times> 'w ll" where
  "next_gen_number s =
     (let s = (if next_gen s = 0 then s\<lparr>next_gen := next_gen s + 1\<rparr> else s)
      in (next_gen s, s\<lparr>next_gen := next_gen s + 1\<rparr>))"

definition dirbuf_add :: "fuse_lib \<Rightarrow> dirbuf \<Rightarrow> cstring \<Rightarrow> ino \<Rightarrow> dirbuf" where
  "dirbuf_add fl b name ino =
     (let size = d_size b + direntry_size fl name
      in \<lparr>d_p = d_p b @ direntry fl name ino size, d_size = size\<rparr>)"

text \<open>A negative offset is a large \<^verbatim>\<open>size_t\<close>.\<close>

definition reply_buf_limited :: "char list \<Rightarrow> nat \<Rightarrow> int \<Rightarrow> nat \<Rightarrow> 'w ll \<Rightarrow> 'w ll" where
  "reply_buf_limited buf bufsize off maxsize s =
     (if 0 \<le> off \<and> off < int bufsize
      then fuse_reply (Reply_buf (take (min (bufsize - nat off) maxsize) (drop (nat off) buf))) s
      else fuse_reply (Reply_buf []) s)"

definition ll_file_matches_tags :: "fptr \<Rightarrow> tptr ht \<Rightarrow> 'w ll \<Rightarrow> bool option" where
  "ll_file_matches_tags f selected_tags s =
     ht_for_each selected_tags
       (\<lambda>name t match.
          if t = INVALID_TAG then Some False
          else do {
            r \<leftarrow> l_theap s t;
            x \<leftarrow> l_fheap s f;
            Some (if \<not> ht_has_entry (lf_tags x) (lt_value r) then False else match)
          }) True"

definition ll_getattr_intra ::
  "'w os \<Rightarrow> stat \<Rightarrow> tptr ht \<Rightarrow> cstring \<Rightarrow> cstring \<Rightarrow> 'w ll \<Rightarrow> ((int \<times> stat) \<times> 'w ll) option" where
  "ll_getattr_intra os stbuf selected_tags realpath filename s = do {
     (f, s) \<leftarrow> ll_file_get_or_create filename s;
     let ((res, stbuf), s) = ll_stat os realpath stbuf s;
     if res < 0 \<or> S_ISDIR (st_mode stbuf)
     then Some (if ll_tag_exist filename s \<and> \<not> ht_has_entry selected_tags filename
                then ll_stat os (l_realdirpath s) stbuf s
                else ((- ENOENT, stbuf), s))
     else if ht_entry_count selected_tags > 0 then do {
       m \<leftarrow> ll_file_matches_tags f selected_tags s;
       Some ((if \<not> m then - ENOENT else res, stbuf), s)
     }
     else Some ((res, if filename = TAG_FILENAME then stbuf\<lparr>st_size := LONG_MAX\<rparr> else stbuf), s)
   }"

subsection \<open>Lookup and forget\<close>

definition ll_tag_forget :: "ino \<Rightarrow> 64 word \<Rightarrow> 'w ll \<Rightarrow> 'w ll option" where
  "ll_tag_forget number nlookup s = do {
     s \<leftarrow> (case inode_get number s of
             None \<Rightarrow> Some s
           | Some p \<Rightarrow> do {
               s \<leftarrow> inode_upd p (\<lambda>i. i\<lparr>i_nlookup := i_nlookup i - nlookup\<rparr>) s;
               inode_delete_if_noref p s
             });
     Some (fuse_reply Reply_none s)
   }"

text \<open>The common end of \<^verbatim>\<open>tag_lookup\<close>: the entry for an inode.\<close>

definition lookup_entry :: "iptr \<Rightarrow> stat \<Rightarrow> 'w ll \<Rightarrow> 'w ll option" where
  "lookup_entry p st s = do {
     i \<leftarrow> l_iheap s p;
     let (gen, s) = next_gen_number s;
     let e = \<lparr>e_ino = i_number i, e_generation = gen, e_attr = st\<lparr>st_ino := i_number i\<rparr>\<rparr>;
     s \<leftarrow> inode_upd p (\<lambda>i. i\<lparr>i_nlookup := i_nlookup i + 1\<rparr>) s;
     Some (fuse_reply (Reply_entry e) s)
   }"

definition ll_tag_lookup :: "'w os \<Rightarrow> ino \<Rightarrow> cstring \<Rightarrow> 'w ll \<Rightarrow> 'w ll option" where
  "ll_tag_lookup os parentnum name s =
     (case inode_get parentnum s of
        None \<Rightarrow> fuse_reply_err EINVAL s
      | Some parent \<Rightarrow> do {
          par \<leftarrow> l_iheap s parent;
          let ((res, st), s) = ll_stat os (ll_tag_realpath s name) stat0 s;
          if res < 0 \<or> S_ISDIR (st_mode st) then
            if ll_tag_exist name s then do {
              sel \<leftarrow> i_selected_tags par;
              if \<not> ht_has_entry sel name then do {
                let ((res, st), s) = ll_stat os (l_realdirpath s) st s;
                (p, s) \<leftarrow> create_directory_inode parent name s;
                lookup_entry p st s
              }
              else fuse_reply_err ENOENT s
            }
            else fuse_reply_err ENOENT s
          else do {
            (f, s) \<leftarrow> ll_file_get_or_create name s;
            x \<leftarrow> l_fheap s f;
            p \<leftarrow> lf_ino x;
            i \<leftarrow> l_iheap s p;
            let st = st\<lparr>st_ino := i_number i\<rparr>;
            s \<leftarrow> inode_upd p (\<lambda>i. i\<lparr>i_st := st\<rparr>) s;
            if parentnum \<noteq> 1 then do {
              sel \<leftarrow> i_selected_tags par;
              m \<leftarrow> ll_file_matches_tags f sel s;
              if \<not> m then fuse_reply_err ENOENT s
              else lookup_entry p (if name = TAG_FILENAME then st\<lparr>st_size := LONG_MAX\<rparr> else st) s
            }
            else lookup_entry p st s
          }
        })"

subsection \<open>Opening and closing\<close>

text \<open>For an unknown number \<^verbatim>\<open>tag_open\<close> answers with whatever \<^verbatim>\<open>errno\<close> is.\<close>

definition ll_tag_open :: "'w os \<Rightarrow> ino \<Rightarrow> 32 word \<Rightarrow> 'w ll \<Rightarrow> 'w ll option" where
  "ll_tag_open os number flags s =
     (case inode_get number s of
        None \<Rightarrow> fuse_reply_err (c_errno s) s
      | Some p \<Rightarrow> do {
          i \<leftarrow> l_iheap s p;
          name \<leftarrow> i_name i;
          (f, s) \<leftarrow> ll_file_get_or_create name s;
          (fd, s) \<leftarrow> file_open os f flags s;
          if fd \<ge> 0 then do {
            s \<leftarrow> inode_upd p (\<lambda>i. i\<lparr>i_nlookup := i_nlookup i + 1\<rparr>) s;
            Some (fuse_reply (Reply_open fd) s)
          }
          else fuse_reply_err (c_errno s) s
        })"

definition ll_tag_opendir :: "ino \<Rightarrow> 'w ll \<Rightarrow> 'w ll option" where
  "ll_tag_opendir number s =
     (case inode_get number s of
        None \<Rightarrow> fuse_reply_err ENOENT s
      | Some p \<Rightarrow> do {
          i \<leftarrow> l_iheap s p;
          if \<not> i_is_directory i then fuse_reply_err ENOTDIR s
          else Some (fuse_reply (Reply_opendir p) s)
        })"

definition ll_tag_releasedir :: "ino \<Rightarrow> 'w ll \<Rightarrow> 'w ll option" where
  "ll_tag_releasedir number s = fuse_reply_err 0 s"

definition ll_tag_release :: "'w os \<Rightarrow> ino \<Rightarrow> int \<Rightarrow> 'w ll \<Rightarrow> 'w ll option" where
  "ll_tag_release os number fh s =
     (let (r, s) = file_close os fh s in fuse_reply_err (- r) s)"

definition ll_tag_getattr :: "'w os \<Rightarrow> ino \<Rightarrow> 'w ll \<Rightarrow> 'w ll option" where
  "ll_tag_getattr os number s =
     (case inode_get number s of
        None \<Rightarrow> fuse_reply_err ENOENT s
      | Some p \<Rightarrow> do {
          i \<leftarrow> l_iheap s p;
          path \<leftarrow> (if i_is_directory i then Some (l_realdirpath s) else i_realpath i);
          let ((res, st), s) = ll_stat os path stat0 s;
          let st = st\<lparr>st_ino := i_number i\<rparr>;
          if res < 0 then fuse_reply_err (c_errno s) s
          else Some (fuse_reply (Reply_attr (if i_is_tagfile i then st\<lparr>st_size := LONG_MAX\<rparr> else st)) s)
        })"

subsection \<open>Removing and making\<close>

definition ll_tag_unlink :: "ino \<Rightarrow> cstring \<Rightarrow> 'w ll \<Rightarrow> 'w ll option" where
  "ll_tag_unlink parentnum name s =
     (if parentnum = 1 then fuse_reply_err EPERM s
      else case ll_file_get name s of
        None \<Rightarrow> fuse_reply_err ENOENT s
      | Some f \<Rightarrow> do {
          parent \<leftarrow> inode_get parentnum s;
          par \<leftarrow> l_iheap s parent;
          refused \<leftarrow> (if \<not> i_is_directory par then Some True
                     else do { sel \<leftarrow> i_selected_tags par; Some (ht_entry_count sel > 1) });
          if refused then fuse_reply_err EPERM s
          else do {
            pname \<leftarrow> i_name par;
            let t = ll_tag_get pname s;
            if t = INVALID_TAG then fuse_reply_err EIO s
            else do {
              s \<leftarrow> ll_untag_file t f s;
              fuse_reply_err 0 s
            }
          }
        })"

text \<open>The test \<^verbatim>\<open>!t\<close> is for a null pointer, which \<^verbatim>\<open>tag_get\<close> does not return.\<close>

definition ll_tag_rmdir :: "ino \<Rightarrow> cstring \<Rightarrow> 'w ll \<Rightarrow> 'w ll option" where
  "ll_tag_rmdir parentnum name s =
     (if parentnum \<noteq> 1 then fuse_reply_err EPERM s
      else do {
        let t = ll_tag_get name s;
        s \<leftarrow> ll_tag_remove t s;
        fuse_reply_err 0 s
      })"

definition ll_tag_mkdir :: "'w os \<Rightarrow> ino \<Rightarrow> cstring \<Rightarrow> 'w ll \<Rightarrow> 'w ll option" where
  "ll_tag_mkdir os parentnum name s =
     (if parentnum \<noteq> 1 then fuse_reply_err EPERM s
      else if INVALID_TAG \<noteq> ll_tag_get name s then fuse_reply_err EEXIST s
      else do {
        let (t, s) = ll_tag_get_or_create name s;
        root \<leftarrow> inode_get 1 s;
        (p, s) \<leftarrow> create_directory_inode root name s;
        i \<leftarrow> l_iheap s p;
        let ((res, st), s) = ll_stat os (l_realdirpath s) stat0 s;
        let st = st\<lparr>st_ino := i_number i\<rparr>;
        let (gen, s) = next_gen_number s;
        Some (fuse_reply (Reply_entry \<lparr>e_ino = i_number i, e_generation = gen, e_attr = st\<rparr>) s)
      })"

subsection \<open>Listing a directory\<close>

fun ll_readdir_entries ::
  "'w os \<Rightarrow> fuse_lib \<Rightarrow> tptr ht \<Rightarrow> (cstring \<times> bool) list \<Rightarrow> dirbuf \<Rightarrow> 'w ll \<Rightarrow> (dirbuf \<times> 'w ll) option" where
  "ll_readdir_entries os fl selected_tags [] b s = Some (b, s)"
| "ll_readdir_entries os fl selected_tags ((d_name, dt_dir) # dirents) b s =
     (if dt_dir then ll_readdir_entries os fl selected_tags dirents b s
      else do {
        ((res, st), s) \<leftarrow> ll_getattr_intra os stat0 selected_tags (append_dir (l_realdirpath s) d_name) d_name s;
        ll_readdir_entries os fl selected_tags dirents
          (if res < 0 then b else dirbuf_add fl b d_name (st_ino st)) s
      })"

definition ll_readdir_list_files ::
  "'w os \<Rightarrow> fuse_lib \<Rightarrow> dirbuf \<Rightarrow> tptr ht \<Rightarrow> 'w ll \<Rightarrow> (dirbuf \<times> 'w ll) option" where
  "ll_readdir_list_files os fl b selected_tags s =
     ll_readdir_entries os fl selected_tags (os_readdir os (l_world s)) b s"

definition ll_readdir_list_tags_mode1 :: "fuse_lib \<Rightarrow> dirbuf \<Rightarrow> tptr ht \<Rightarrow> 'w ll \<Rightarrow> dirbuf option" where
  "ll_readdir_list_tags_mode1 fl b selected_tags s = do {
     tagl \<leftarrow> ll_tag_list s;
     (b, tagl) \<leftarrow> list_fold_from tagl 1 (list_size tagl)
       (\<lambda>t b. do {
          t \<leftarrow> t;
          r \<leftarrow> l_theap s t;
          Some (if \<not> ht_has_entry selected_tags (lt_value r) then dirbuf_add fl b (lt_value r) 2 else b)
        }) b;
     Some b
   }"

text \<open>
  The second loop calls \<^verbatim>\<open>ht_remove_entry\<close> on the table whose entries it iterates; its locks are those of
  \<open>Cutil_Lock\<close>. The other loops take locks of tables that are not written to meanwhile.
\<close>

definition ll_readdir_get_selected_files :: "tptr ht \<Rightarrow> 'w ll \<Rightarrow> fptr ht outcome option" where
  "ll_readdir_get_selected_files selected_tags s = do {
     selected_files \<leftarrow> ht_for_each selected_tags
       (\<lambda>n t selected_files. do {
          r \<leftarrow> l_theap s t;
          ht_for_each (lt_files r)
            (\<lambda>n f selected_files. do {
               x \<leftarrow> l_fheap s f;
               Some (snd (ht_add_unique_entry selected_files (lf_name x) f))
             }) selected_files
        }) ht_create;
     r \<leftarrow> lk_for_each (lk_of selected_files)
       (\<lambda>n f selected_files.
          for_each_entry selected_tags
            (\<lambda>n t selected_files. do {
               x \<leftarrow> l_fheap s f;
               r \<leftarrow> l_theap s t;
               if \<not> ht_has_entry (lf_tags x) (lt_value r)
               then case lk_remove_entry selected_files (lf_name x) of
                      Waits \<Rightarrow> Some Waits
                    | Returns (_, selected_files) \<Rightarrow> Some (Returns selected_files)
               else Some (Returns selected_files)
             }) selected_files);
     case r of
       Waits \<Rightarrow> Some Waits
     | Returns selected_files \<Rightarrow> Some (Returns (lk_h selected_files))
   }"

definition ll_fill_tag ::
  "fuse_lib \<Rightarrow> iptr \<Rightarrow> tptr ht \<Rightarrow> tptr \<Rightarrow> (dirbuf \<times> tptr ht) \<times> 'w ll \<Rightarrow> ((dirbuf \<times> tptr ht) \<times> 'w ll) option" where
  "ll_fill_tag fl parent selected_tags t acc =
     (case acc of ((b, remaining_tags), s) \<Rightarrow> do {
        r \<leftarrow> l_theap s t;
        if \<not> ht_has_entry selected_tags (lt_value r) \<and> \<not> ht_has_entry remaining_tags (lt_value r)
        then do {
          (p, s) \<leftarrow> create_directory_inode parent (lt_value r) s;
          i \<leftarrow> l_iheap s p;
          Some ((dirbuf_add fl b (lt_value r) (i_number i),
                 snd (ht_add_unique_entry remaining_tags (lt_value r) t)), s)
        }
        else Some acc
      })"

definition ll_readdir_fill_remaining_tags ::
  "fuse_lib \<Rightarrow> iptr \<Rightarrow> tptr ht \<Rightarrow> fptr ht \<Rightarrow> dirbuf \<Rightarrow> 'w ll \<Rightarrow> (dirbuf \<times> 'w ll) option" where
  "ll_readdir_fill_remaining_tags fl parent selected_tags selected_files b s = do {
     ((b, remaining_tags), s) \<leftarrow> ht_for_each selected_files
       (\<lambda>n f acc. do {
          x \<leftarrow> l_fheap (snd acc) f;
          ht_for_each (lf_tags x) (\<lambda>n t. ll_fill_tag fl parent selected_tags t) acc
        }) ((b, ht_create), s);
     Some (b, s)
   }"

definition ll_readdir_list_tags_mode2 ::
  "fuse_lib \<Rightarrow> iptr \<Rightarrow> dirbuf \<Rightarrow> tptr ht \<Rightarrow> 'w ll \<Rightarrow> (dirbuf \<times> 'w ll) outcome option" where
  "ll_readdir_list_tags_mode2 fl parent b selected_tags s = do {
     r \<leftarrow> ll_readdir_get_selected_files selected_tags s;
     case r of
       Waits \<Rightarrow> Some Waits
     | Returns selected_files \<Rightarrow>
         map_option Returns (ll_readdir_fill_remaining_tags fl parent selected_tags selected_files b s)
   }"

text \<open>The handle \<open>fh\<close> is the pointer that \<^verbatim>\<open>tag_opendir\<close> stored; \<open>None\<close> is null.\<close>

definition ll_tag_readdir ::
  "'w os \<Rightarrow> fuse_lib \<Rightarrow> ino \<Rightarrow> nat \<Rightarrow> int \<Rightarrow> iptr option \<Rightarrow> 'w ll \<Rightarrow> 'w ll outcome option" where
  "ll_tag_readdir os fl number len off fh s =
     (case fh of
        None \<Rightarrow> map_option Returns (fuse_reply_err ENOENT s)
      | Some p \<Rightarrow> do {
          i \<leftarrow> l_iheap s p;
          if \<not> i_is_directory i then map_option Returns (fuse_reply_err ENOTDIR s)
          else do {
            let b = dirbuf_add fl (dirbuf_add fl \<lparr>d_p = [], d_size = 0\<rparr> ''.'' (i_number i)) ''..'' 1;
            sel \<leftarrow> i_selected_tags i;
            r \<leftarrow> (if number \<noteq> 1 then ll_readdir_list_tags_mode2 fl p b sel s
                 else do { b \<leftarrow> ll_readdir_list_tags_mode1 fl b sel s; Some (Returns (b, s)) });
            case r of
              Waits \<Rightarrow> Some Waits
            | Returns (b, s) \<Rightarrow> do {
                (b, s) \<leftarrow> ll_readdir_list_files os fl b sel s;
                Some (Returns (reply_buf_limited (d_p b) (d_size b) off len s))
              }
          }
        })"

text \<open>The state after a call that returns: there is none after a fault, and none while it waits.\<close>

definition finished :: "'a outcome option \<Rightarrow> 'a option" where
  "finished r = (case r of Some (Returns x) \<Rightarrow> Some x | _ \<Rightarrow> None)"

lemma finished_Some [simp]: "finished r = Some x \<longleftrightarrow> r = Some (Returns x)"
  by (simp add: finished_def split: option.split outcome.split)

lemma finished_ret [simp]: "finished (Some (Returns x)) = Some x"
  by simp

subsection \<open>Reading and writing\<close>

definition ll_read_tag_file :: "nat \<Rightarrow> int \<Rightarrow> 'w ll \<Rightarrow> (int \<times> char list) option" where
  "ll_read_tag_file len off s = do {
     tagfile \<leftarrow> ll_tag_db_dump s;
     if off < 0 then Some (- EINVAL, [])
     else
       let bytes = take len (drop (nat off) tagfile)
       in Some (int (length bytes), bytes @ replicate (len - length bytes) (CHR 0x00))
   }"

definition ll_tag_read :: "'w os \<Rightarrow> ino \<Rightarrow> nat \<Rightarrow> int \<Rightarrow> int \<Rightarrow> 'w ll \<Rightarrow> 'w ll option" where
  "ll_tag_read os number len off fh s =
     (case inode_get number s of
        None \<Rightarrow> fuse_reply_err ENOENT s
      | Some p \<Rightarrow> do {
          i \<leftarrow> l_iheap s p;
          ((res, buffer), s) \<leftarrow>
            (if i_is_tagfile i then do { r \<leftarrow> ll_read_tag_file len off s; Some (r, s) }
             else Some (file_read os fh len off s));
          if res < 0 then fuse_reply_err (- res) s
          else Some (reply_buf_limited buffer len off len s)
        })"

definition ll_tag_write :: "'w os \<Rightarrow> ino \<Rightarrow> char list \<Rightarrow> nat \<Rightarrow> int \<Rightarrow> int \<Rightarrow> 'w ll \<Rightarrow> 'w ll option" where
  "ll_tag_write os number buf len off fh s =
     (case inode_get number s of
        None \<Rightarrow> fuse_reply_err ENOENT s
      | Some p \<Rightarrow> do {
          i \<leftarrow> l_iheap s p;
          if i_is_tagfile i then fuse_reply_err EPERM s
          else
            let (res, s) = file_write os fh buf len off s
            in if res < 0 then fuse_reply_err (- res) s
               else Some (fuse_reply (Reply_write (nat res)) s)
        })"

definition ll_tag_mknod :: "'w os \<Rightarrow> ino \<Rightarrow> cstring \<Rightarrow> 32 word \<Rightarrow> 64 word \<Rightarrow> 'w ll \<Rightarrow> 'w ll option" where
  "ll_tag_mknod os parent name mode rdev s =
     (if parent \<noteq> 1 then fuse_reply_err EPERM s
      else if ll_tag_get name s \<noteq> INVALID_TAG then fuse_reply_err EEXIST s
      else
        let (res, w) = os_mknod os (ll_tag_realpath s name) mode rdev (l_world s);
            s = s\<lparr>l_world := w\<rparr>
        in case res of
             Inl errno \<Rightarrow> fuse_reply_err errno (s\<lparr>c_errno := errno\<rparr>)
           | Inr u \<Rightarrow> do {
               (f, s) \<leftarrow> ll_file_get_or_create name s;
               x \<leftarrow> l_fheap s f;
               p \<leftarrow> lf_ino x;
               i \<leftarrow> l_iheap s p;
               let ((res, st), s) = ll_stat os (lf_realpath x) (i_st i) s;
               let st = st\<lparr>st_ino := i_number i\<rparr>;
               s \<leftarrow> inode_upd p (\<lambda>i. i\<lparr>i_st := st\<rparr>) s;
               let (gen, s) = next_gen_number s;
               Some (fuse_reply (Reply_entry \<lparr>e_ino = i_number i, e_generation = gen, e_attr = st\<rparr>) s)
             })"

text \<open>The flags of \<^verbatim>\<open>fuse_lowlevel.h\<close> and \<^verbatim>\<open>UTIME_NOW\<close> of \<^verbatim>\<open>sys/stat.h\<close>.\<close>

definition FUSE_SET_ATTR_MODE :: "32 word" where "FUSE_SET_ATTR_MODE = 1"
definition FUSE_SET_ATTR_ATIME :: "32 word" where "FUSE_SET_ATTR_ATIME = 16"
definition FUSE_SET_ATTR_MTIME :: "32 word" where "FUSE_SET_ATTR_MTIME = 32"
definition FUSE_SET_ATTR_ATIME_NOW :: "32 word" where "FUSE_SET_ATTR_ATIME_NOW = 128"
definition FUSE_SET_ATTR_MTIME_NOW :: "32 word" where "FUSE_SET_ATTR_MTIME_NOW = 256"
definition UTIME_NOW :: int where "UTIME_NOW = 2 ^ 30 - 1"

definition set_attrs :: "stat \<Rightarrow> 32 word \<Rightarrow> stat \<Rightarrow> stat" where
  "set_attrs attr to_set st =
     (let st = (if to_set AND FUSE_SET_ATTR_MODE \<noteq> 0 then st\<lparr>st_mode := st_mode attr\<rparr> else st);
          st = (if to_set AND FUSE_SET_ATTR_ATIME \<noteq> 0 then st\<lparr>st_atim := st_atim attr\<rparr> else st);
          st = (if to_set AND FUSE_SET_ATTR_MTIME \<noteq> 0 then st\<lparr>st_mtim := st_mtim attr\<rparr> else st);
          st = (if to_set AND FUSE_SET_ATTR_ATIME_NOW \<noteq> 0 then st\<lparr>st_atim := (fst (st_atim st), UTIME_NOW)\<rparr> else st)
      in if to_set AND FUSE_SET_ATTR_MTIME_NOW \<noteq> 0 then st\<lparr>st_mtim := (fst (st_mtim st), UTIME_NOW)\<rparr> else st)"

text \<open>The results of \<^verbatim>\<open>chmod\<close> and \<^verbatim>\<open>utimensat\<close> are not looked at.\<close>

definition ll_tag_setattr :: "'w os \<Rightarrow> ino \<Rightarrow> stat \<Rightarrow> 32 word \<Rightarrow> 'w ll \<Rightarrow> 'w ll option" where
  "ll_tag_setattr os number attr to_set s =
     (case inode_get number s of
        None \<Rightarrow> fuse_reply_err EPERM s
      | Some p \<Rightarrow> do {
          i \<leftarrow> l_iheap s p;
          if i_is_directory i then fuse_reply_err EPERM s
          else do {
            name \<leftarrow> i_name i;
            (f, s) \<leftarrow> ll_file_get_or_create name s;
            x \<leftarrow> l_fheap s f;
            p \<leftarrow> lf_ino x;
            i \<leftarrow> l_iheap s p;
            let s = (if to_set AND FUSE_SET_ATTR_MODE \<noteq> 0
                     then s\<lparr>l_world := snd (os_chmod os (lf_realpath x) (st_mode attr) (l_world s))\<rparr> else s);
            let st = set_attrs attr to_set (i_st i);
            s \<leftarrow> inode_upd p (\<lambda>i. i\<lparr>i_st := st\<rparr>) s;
            let s = s\<lparr>l_world := snd (os_utimens os (lf_realpath x) (st_atim st, st_mtim st) (l_world s))\<rparr>;
            Some (fuse_reply (Reply_attr st) s)
          }
        })"

subsection \<open>Linking and renaming\<close>

definition ll_tag_link :: "ino \<Rightarrow> ino \<Rightarrow> cstring \<Rightarrow> 'w ll \<Rightarrow> 'w ll option" where
  "ll_tag_link number newparent newname s = do {
     fileino \<leftarrow> inode_get number s;
     i \<leftarrow> l_iheap s fileino;
     refused \<leftarrow> (if i_is_directory i then Some True
                 else do { name \<leftarrow> i_name i; Some (newname \<noteq> name) });
     if refused then fuse_reply_err EPERM s
     else do {
       parent \<leftarrow> inode_get newparent s;
       par \<leftarrow> l_iheap s parent;
       if \<not> i_is_directory par then fuse_reply_err ENOTDIR s
       else do {
         let (gen, s) = next_gen_number s;
         let e = \<lparr>e_ino = i_number i, e_generation = gen, e_attr = i_st i\<rparr>;
         name \<leftarrow> i_name i;
         (f, s) \<leftarrow> ll_file_get_or_create name s;
         pname \<leftarrow> i_name par;
         let t = ll_tag_get pname s;
         s \<leftarrow> ll_tag_file t f s;
         Some (fuse_reply (Reply_entry e) s)
       }
     }
   }"

text \<open>The two loops of \<^verbatim>\<open>tag_rename\<close> over the tags of an inode.\<close>

fun rename_untag :: "cstring list \<Rightarrow> fptr \<Rightarrow> 'w ll \<Rightarrow> 'w ll option" where
  "rename_untag [] f s = Some s"
| "rename_untag (k # ks) f s = do { s \<leftarrow> ll_untag_file (ll_tag_get k s) f s; rename_untag ks f s }"

fun rename_tag :: "cstring list \<Rightarrow> fptr \<Rightarrow> 'w ll \<Rightarrow> 'w ll option" where
  "rename_tag [] f s = Some s"
| "rename_tag (k # ks) f s = do { s \<leftarrow> ll_tag_file (ll_tag_get k s) f s; rename_tag ks f s }"

definition ll_tag_rename :: "ino \<Rightarrow> cstring \<Rightarrow> ino \<Rightarrow> cstring \<Rightarrow> 'w ll \<Rightarrow> 'w ll option" where
  "ll_tag_rename parent name newparent newname s =
     (if parent = newparent then fuse_reply_err EPERM s
      else case (inode_get parent s, inode_get newparent s, ll_file_get name s) of
        (Some op, Some np, Some f) \<Rightarrow> do {
          oi \<leftarrow> l_iheap s op;
          ni \<leftarrow> l_iheap s np;
          if i_number oi = 1 \<or> i_number ni = 1 \<or> length (i_tag oi) > 1 \<or> length (i_tag ni) > 1
          then fuse_reply_err EPERM s
          else do {
            s \<leftarrow> rename_untag (i_tag oi) f s;
            s \<leftarrow> rename_tag (i_tag ni) f s;
            fuse_reply_err 0 s
          }
        }
      | _ \<Rightarrow> fuse_reply_err ENOENT s)"

subsection \<open>ioctl\<close>

definition ll_ioctl_read_tags :: "fptr \<Rightarrow> tag_ioctl \<Rightarrow> 'w ll \<Rightarrow> 'w ll option" where
  "ll_ioctl_read_tags f data s = do {
     (str, len) \<leftarrow> ll_file_get_tags_string f s;
     len \<leftarrow> len;
     Some (fuse_reply (Reply_ioctl 0 (ioctl_fill str len data)) s)
   }"

text \<open>The first two error replies do not end the function.\<close>

definition ll_tag_ioctl :: "ino \<Rightarrow> 32 word \<Rightarrow> 32 word \<Rightarrow> tag_ioctl \<Rightarrow> 'w ll \<Rightarrow> 'w ll option" where
  "ll_tag_ioctl number cmd flags in_buf s =
     (case inode_get number s of
        None \<Rightarrow> fuse_reply_err ENOENT s
      | Some p \<Rightarrow> do {
          i \<leftarrow> l_iheap s p;
          let s = (if i_is_tagfile i \<or> i_is_directory i then fuse_reply (Reply_err EINVAL) s else s);
          let s = (if flags AND FUSE_IOCTL_COMPAT \<noteq> 0 then fuse_reply (Reply_err ENOSYS) s else s);
          if cmd = TAG_IOC_READ_TAGS then do {
            name \<leftarrow> i_name i;
            (f, s) \<leftarrow> ll_file_get_or_create name s;
            ll_ioctl_read_tags f in_buf s
          }
          else fuse_reply_err EINVAL s
        })"

subsection \<open>Start and end\<close>

text \<open>\<open>db\<close> is the content of the tag database, if it can be opened.\<close>

definition ll_tag_init :: "'w os \<Rightarrow> cstring option \<Rightarrow> 'w ll \<Rightarrow> 'w ll option" where
  "ll_tag_init os db s = do {
     s \<leftarrow> inode_init s;
     s \<leftarrow> realdir_add_files os s;
     realdir_parse_tags db s
   }"

definition ll_tag_exit :: "'w ll \<Rightarrow> (cstring \<times> cstring) option" where
  "ll_tag_exit s = do { output \<leftarrow> ll_tag_db_dump s; Some (l_tagdbpath s @ ''.new'', output) }"

subsection \<open>The table of callbacks\<close>

datatype ll_request =
    LLookup ino cstring
  | LForget ino "64 word"
  | LGetattr ino
  | LOpen ino "32 word"
  | LRead ino nat int int
  | LWrite ino "char list" nat int int
  | LRelease ino int
  | LOpendir ino
  | LReaddir ino nat int "iptr option"
  | LReleasedir ino
  | LLink ino ino cstring
  | LUnlink ino cstring
  | LRename ino cstring ino cstring
  | LMkdir ino cstring
  | LRmdir ino cstring
  | LMknod ino cstring "32 word" "64 word"
  | LSetattr ino stat "32 word"
  | LIoctl ino "32 word" "32 word" tag_ioctl

fun ll_run :: "'w os \<Rightarrow> fuse_lib \<Rightarrow> ll_request \<Rightarrow> 'w ll \<Rightarrow> 'w ll option" where
  "ll_run os fl (LLookup parent name) s = ll_tag_lookup os parent name s"
| "ll_run os fl (LForget number n) s = ll_tag_forget number n s"
| "ll_run os fl (LGetattr number) s = ll_tag_getattr os number s"
| "ll_run os fl (LOpen number flags) s = ll_tag_open os number flags s"
| "ll_run os fl (LRead number len off fh) s = ll_tag_read os number len off fh s"
| "ll_run os fl (LWrite number buf len off fh) s = ll_tag_write os number buf len off fh s"
| "ll_run os fl (LRelease number fh) s = ll_tag_release os number fh s"
| "ll_run os fl (LOpendir number) s = ll_tag_opendir number s"
| "ll_run os fl (LReaddir number len off fh) s = finished (ll_tag_readdir os fl number len off fh s)"
| "ll_run os fl (LReleasedir number) s = ll_tag_releasedir number s"
| "ll_run os fl (LLink number newparent newname) s = ll_tag_link number newparent newname s"
| "ll_run os fl (LUnlink parent name) s = ll_tag_unlink parent name s"
| "ll_run os fl (LRename parent name newparent newname) s = ll_tag_rename parent name newparent newname s"
| "ll_run os fl (LMkdir parent name) s = ll_tag_mkdir os parent name s"
| "ll_run os fl (LRmdir parent name) s = ll_tag_rmdir parent name s"
| "ll_run os fl (LMknod parent name mode rdev) s = ll_tag_mknod os parent name mode rdev s"
| "ll_run os fl (LSetattr number attr to_set) s = ll_tag_setattr os number attr to_set s"
| "ll_run os fl (LIoctl number cmd flags data) s = ll_tag_ioctl number cmd flags data s"

end
