(* ===== verification/Ll_Reply.thy ===== *)
theory Ll_Reply
  imports Ll_Ops
begin

text \<open>
  The protocol between the callbacks and the FUSE library: helpers do not answer, and a callback
  other than \<^verbatim>\<open>ioctl\<close> answers exactly once.
\<close>

lemmas run_splits = prod.split_asm sum.split_asm if_split_asm option.split_asm

named_theorems silent \<open>helpers that leave the log of replies as it is\<close>

lemma upd_silent [silent]:
  "ltag_upd t g s = Some s' \<Longrightarrow> l_replies s' = l_replies s"
  "lfile_upd f g' s = Some s' \<Longrightarrow> l_replies s' = l_replies s"
  "inode_upd p g'' s = Some s' \<Longrightarrow> l_replies s' = l_replies s"
  by (auto simp: ltag_upd_def lfile_upd_def inode_upd_def bind_Some_iff)

lemma ll_stat_silent [simp]: "l_replies (snd (ll_stat os path b s)) = l_replies s"
  by (simp add: ll_stat_def split: sum.splits)

lemma inode_new_silent [simp]: "l_replies (snd (inode_new d s)) = l_replies s"
  by (simp add: inode_new_def next_inode_number_def Let_def)

lemma next_gen_silent [simp]: "l_replies (snd (next_gen_number s)) = l_replies s"
  by (simp add: next_gen_number_def Let_def)

lemma file_io_silent [simp]:
  "l_replies (snd (file_read os fd len off s)) = l_replies s"
  "l_replies (snd (file_write os fd buf len off s)) = l_replies s"
  "l_replies (snd (file_close os fd s)) = l_replies s"
  by (auto simp: file_read_def file_write_def file_close_def Let_def split: prod.splits sum.splits)

lemma file_open_silent [silent]: "file_open os f flags s = Some (fd, s') \<Longrightarrow> l_replies s' = l_replies s"
  by (auto simp: file_open_def Let_def elim!: bind_SomeE split: run_splits)

lemma delete_silent [silent]: "inode_delete_if_noref p s = Some s' \<Longrightarrow> l_replies s' = l_replies s"
  by (auto simp: inode_delete_if_noref_def bind_Some_iff split: if_splits)

lemma create_directory_silent [silent]:
  assumes "create_directory_inode parent name s = Some (p, s')"
  shows "l_replies s' = l_replies s"
proof -
  obtain q s1 where q: "inode_new True s = (q, s1)" by fastforce
  then have "l_replies s1 = l_replies s" using inode_new_silent [of True s] by simp
  with assms q show ?thesis
    by (auto simp: create_directory_inode_def bind_Some_iff Let_def dest: silent)
qed

lemma create_inode_silent [silent]:
  assumes "get_or_create_inode parent name d s = Some (p, s')"
  shows "l_replies s' = l_replies s"
proof -
  obtain q s1 where q: "inode_new d s = (q, s1)" by fastforce
  then have "l_replies s1 = l_replies s" using inode_new_silent [of d s] by simp
  with assms q show ?thesis
    by (auto simp: get_or_create_inode_def bind_Some_iff dest: silent split: option.splits if_splits)
qed

lemma file_inode_silent [silent]:
  "get_or_create_file_inode parent name s = Some (p, s') \<Longrightarrow> l_replies s' = l_replies s"
  by (auto simp: get_or_create_file_inode_def bind_Some_iff dest!: silent)

lemma file_new_silent [silent]: "ll_file_new name s = Some (f, s') \<Longrightarrow> l_replies s' = l_replies s"
  by (auto simp: ll_file_new_def bind_Some_iff Let_def dest!: silent split: if_splits)

lemma file_get_or_create_silent [silent]:
  "ll_file_get_or_create name s = Some (f, s') \<Longrightarrow> l_replies s' = l_replies s"
  by (auto simp: ll_file_get_or_create_def bind_Some_iff dest!: silent split: option.splits)

lemma tag_get_or_create_silent [simp]: "l_replies (snd (ll_tag_get_or_create k s)) = l_replies s"
  by (auto simp: ll_tag_get_or_create_def ll_tag_new_def Let_def split: option.splits)

lemma tag_file_silent [silent]:
  "ll_tag_file t f s = Some s' \<Longrightarrow> l_replies s' = l_replies s"
  "ll_untag_file t f s = Some s' \<Longrightarrow> l_replies s' = l_replies s"
  by (auto simp: ll_tag_file_def ll_untag_file_def bind_Some_iff dest!: silent)

lemma tag_remove_silent [silent]:
  assumes "ll_tag_remove t s = Some s'"
  shows "l_replies s' = l_replies s"
proof -
  have "l_replies u' = l_replies s" if "ht_for_each h
       (\<lambda>name f s. do {
          r \<leftarrow> l_theap s t;
          lfile_upd f (\<lambda>x. x\<lparr>lf_tags := snd (ht_remove_entry (lf_tags x) (lt_value r))\<rparr>) s
        }) s = Some u'" for h u'
    by (rule ht_for_each_keeps [OF that, where P = "\<lambda>u. l_replies u = l_replies s"])
      (auto elim!: bind_SomeE dest: silent)
  with assms show ?thesis by (auto simp: ll_tag_remove_def elim!: bind_SomeE)
qed

lemma rename_silent [silent]:
  "rename_untag ks f s = Some s' \<Longrightarrow> l_replies s' = l_replies s"
  "rename_tag ks f s = Some s' \<Longrightarrow> l_replies s' = l_replies s"
  by (induction ks arbitrary: s) (auto simp: bind_Some_iff dest!: silent)

lemma ll_stat_eq_silent [silent]: "ll_stat os path b s = (r, s') \<Longrightarrow> l_replies s' = l_replies s"
  using ll_stat_silent [of os path b s] by simp

lemma next_gen_eq_silent [silent]: "next_gen_number s = (g, s') \<Longrightarrow> l_replies s' = l_replies s"
  using next_gen_silent [of s] by simp

lemma getattr_intra_silent [silent]:
  "ll_getattr_intra os b sel path name s = Some (r, s') \<Longrightarrow> l_replies s' = l_replies s"
  by (auto simp: ll_getattr_intra_def Let_def elim!: bind_SomeE dest!: silent split: run_splits)

lemma readdir_entries_silent [silent]:
  "ll_readdir_entries os fl sel ds b s = Some (b', s') \<Longrightarrow> l_replies s' = l_replies s"
proof (induction ds arbitrary: b s)
  case Nil
  then show ?case by simp
next
  case (Cons d ds)
  then show ?case by (cases d) (auto elim!: bind_SomeE dest!: silent split: run_splits)
qed

lemma list_files_silent [silent]:
  "ll_readdir_list_files os fl b sel s = Some (b', s') \<Longrightarrow> l_replies s' = l_replies s"
  by (auto simp: ll_readdir_list_files_def dest!: silent)

lemma fill_tag_silent:
  "ll_fill_tag fl parent sel t acc = Some acc' \<Longrightarrow> l_replies (snd acc') = l_replies (snd acc)"
  by (auto simp: ll_fill_tag_def elim!: bind_SomeE dest!: silent split: run_splits)

lemma fill_tags_silent:
  assumes "ht_for_each h (\<lambda>n t. ll_fill_tag fl parent sel t) u = Some u'"
  shows "l_replies (snd u') = l_replies (snd u)"
  by (rule ht_for_each_keeps [OF assms, where P = "\<lambda>v. l_replies (snd v) = l_replies (snd u)"])
    (auto dest: fill_tag_silent)

lemma fill_remaining_silent [silent]:
  assumes "ll_readdir_fill_remaining_tags fl parent sel fs b s = Some (b', s')"
  shows "l_replies s' = l_replies s"
proof -
  obtain acc where acc: "ht_for_each fs
       (\<lambda>n f acc. do {
          x \<leftarrow> l_fheap (snd acc) f;
          ht_for_each (lf_tags x) (\<lambda>n t. ll_fill_tag fl parent sel t) acc
        }) ((b, ht_create), s) = Some acc" "s' = snd acc"
    using assms by (auto simp: ll_readdir_fill_remaining_tags_def elim!: bind_SomeE)
  have "l_replies (snd acc) = l_replies (snd ((b, ht_create :: tptr ht), s))"
    by (rule ht_for_each_keeps [OF acc(1), where P = "\<lambda>v. l_replies (snd v) = l_replies (snd ((b, ht_create :: tptr ht), s))"])
      (auto elim!: bind_SomeE dest!: fill_tags_silent)
  with acc(2) show ?thesis by simp
qed

lemma mode2_silent [silent]:
  "ll_readdir_list_tags_mode2 fl parent b sel s = Some (Returns (b', s')) \<Longrightarrow> l_replies s' = l_replies s"
  by (auto simp: ll_readdir_list_tags_mode2_def elim!: bind_SomeE dest: silent split: outcome.splits)

subsection \<open>One answer for every request\<close>

text \<open>\<open>answered s s'\<close>: \<open>s'\<close> has one reply more than \<open>s\<close>.\<close>

definition answered :: "'w ll \<Rightarrow> 'w ll \<Rightarrow> bool" where
  "answered s s' \<longleftrightarrow> (\<exists>r. l_replies s' = l_replies s @ [r])"

lemma fuse_reply_replies [simp]: "l_replies (fuse_reply r s) = l_replies s @ [r]"
  by (simp add: fuse_reply_def)

text \<open>The part of a buffer that a limited reply shows.\<close>

definition buf_part :: "char list \<Rightarrow> nat \<Rightarrow> int \<Rightarrow> nat \<Rightarrow> char list" where
  "buf_part buf n off len =
     (if 0 \<le> off \<and> off < int n then take (min (n - nat off) len) (drop (nat off) buf) else [])"

lemma reply_buf_replies [simp]:
  "l_replies (reply_buf_limited buf n off len s) = l_replies s @ [Reply_buf (buf_part buf n off len)]"
  by (simp add: reply_buf_limited_def buf_part_def)

lemma file_io_eq_silent [silent]:
  "file_read os fd len off s = (r, s') \<Longrightarrow> l_replies s' = l_replies s"
  "file_write os fd buf len off s = (r', s') \<Longrightarrow> l_replies s' = l_replies s"
  "file_close os fd s = (r'', s') \<Longrightarrow> l_replies s' = l_replies s"
  using file_io_silent [where s = s] by (metis snd_conv)+

lemma tag_create_eq_silent [silent]: "ll_tag_get_or_create k s = (t, s') \<Longrightarrow> l_replies s' = l_replies s"
  using tag_get_or_create_silent [of k s] by simp

lemma lookup_entry_answers: "lookup_entry p st s = Some s' \<Longrightarrow> answered s s'"
  by (auto simp: lookup_entry_def answered_def Let_def elim!: bind_SomeE dest!: silent split: run_splits)

lemma lookup_answers:
  assumes "ll_tag_lookup os parent name s = Some s'"
  shows "answered s s'"
  using assms
  by (auto simp: ll_tag_lookup_def Let_def answered_def elim!: bind_SomeE
      dest!: lookup_entry_answers [unfolded answered_def] silent split: run_splits)

lemma answers:
  "ll_tag_forget number n s = Some s' \<Longrightarrow> answered s s'"
  "ll_tag_getattr os number s = Some s' \<Longrightarrow> answered s s'"
  "ll_tag_open os number flags s = Some s' \<Longrightarrow> answered s s'"
  "ll_tag_opendir number s = Some s' \<Longrightarrow> answered s s'"
  "ll_tag_release os number fh s = Some s' \<Longrightarrow> answered s s'"
  "ll_tag_releasedir number s = Some s' \<Longrightarrow> answered s s'"
  "ll_tag_unlink number name s = Some s' \<Longrightarrow> answered s s'"
  "ll_tag_rmdir number name s = Some s' \<Longrightarrow> answered s s'"
  by (auto simp: ll_tag_forget_def ll_tag_getattr_def ll_tag_open_def ll_tag_opendir_def ll_tag_release_def
      ll_tag_releasedir_def ll_tag_unlink_def ll_tag_rmdir_def Let_def answered_def
      elim!: bind_SomeE dest!: silent split: run_splits)

lemma more_answers:
  "ll_tag_mkdir os number name s = Some s' \<Longrightarrow> answered s s'"
  "ll_tag_readdir os fl number len off fh s = Some (Returns s') \<Longrightarrow> answered s s'"
  "ll_tag_read os number len off fd s = Some s' \<Longrightarrow> answered s s'"
  "ll_tag_write os number buf len off fd s = Some s' \<Longrightarrow> answered s s'"
  "ll_tag_mknod os number name mode rdev s = Some s' \<Longrightarrow> answered s s'"
  "ll_tag_link number newparent name s = Some s' \<Longrightarrow> answered s s'"
  "ll_tag_rename number name newparent newname s = Some s' \<Longrightarrow> answered s s'"
  by (auto simp: ll_tag_mkdir_def ll_tag_readdir_def ll_tag_read_def ll_tag_write_def ll_tag_mknod_def
      ll_tag_link_def ll_tag_rename_def Let_def answered_def
      elim!: bind_SomeE dest!: silent split: run_splits outcome.splits)

lemma setattr_answers: "ll_tag_setattr os number attr to_set s = Some s' \<Longrightarrow> answered s s'"
  by (auto simp: ll_tag_setattr_def Let_def answered_def elim!: bind_SomeE dest!: silent split: run_splits)

lemma run_answers:
  "ll_run os fl req s = Some s' \<Longrightarrow> (\<forall>n cmd flags data. req \<noteq> LIoctl n cmd flags data) \<Longrightarrow> answered s s'"
  by (cases req) (auto dest: lookup_answers answers more_answers setattr_answers)

end
