(* ===== verification/Ll_Inv.thy ===== *)
theory Ll_Inv
  imports Ll_Reply
begin

text \<open>
  The invariant of the \<^verbatim>\<open>fuse_lowlevel\<close> state: unique keys, a two-way association of files and tags
  without dangling pointers, and an inode table that has every live inode under its number and
  always has the root. \<open>ll_ok R s\<close> adds that the relation of file names and tag names is \<open>R\<close>. The
  rules \<open>keeps\<close> say which helpers and callbacks keep it.
\<close>

definition ll_tables :: "'w ll \<Rightarrow> bool" where
  "ll_tables s \<longleftrightarrow>
     distinct (keys (l_tags s)) \<and> distinct (keys (l_files s)) \<and>
     (\<forall>k t. (k, t) \<in> set (l_tags s) \<longleftrightarrow> (\<exists>r. l_theap s t = Some r \<and> lt_value r = k)) \<and>
     (\<forall>n f. (n, f) \<in> set (l_files s) \<longleftrightarrow> (\<exists>x. l_fheap s f = Some x \<and> lf_name x = n))"

definition ll_fresh :: "'w ll \<Rightarrow> bool" where
  "ll_fresh s \<longleftrightarrow>
     (\<forall>t r. l_theap s t = Some r \<longrightarrow> (\<exists>n<l_tnext s. t = TagAt n)) \<and>
     (\<forall>f x. l_fheap s f = Some x \<longrightarrow> f < l_fnext s)"

definition ll_two_way :: "'w ll \<Rightarrow> bool" where
  "ll_two_way s \<longleftrightarrow>
     (\<forall>f x. l_fheap s f = Some x \<longrightarrow> distinct (keys (lf_tags x)) \<and>
       (\<forall>k t. (k, t) \<in> set (lf_tags x) \<longrightarrow>
         (\<exists>r. l_theap s t = Some r \<and> lt_value r = k \<and> (lf_name x, f) \<in> set (lt_files r)))) \<and>
     (\<forall>t r. l_theap s t = Some r \<longrightarrow> distinct (keys (lt_files r)) \<and>
       (\<forall>n f. (n, f) \<in> set (lt_files r) \<longrightarrow>
         (\<exists>x. l_fheap s f = Some x \<and> lf_name x = n \<and> (lt_value r, t) \<in> set (lf_tags x))))"

text \<open>The number of the inode that is made as the \<open>n\<close>-th.\<close>

definition ino_of :: "nat \<Rightarrow> ino" where
  "ino_of n = scast (of_nat n :: 32 word)"

lemma cast_back: "(ucast (scast (x :: 32 word) :: 64 word) :: 32 word) = x"
  by (rule bit_word_eqI) (simp add: bit_simps)

lemma scast_one: "(scast (1 :: 32 word) :: 64 word) = 1"
  by simp

lemma ino_of_ucast: "scast (ucast (of_nat n :: 64 word) :: 32 word) = ino_of n"
proof -
  have "(ucast (of_nat n :: 64 word) :: 32 word) = of_nat n"
    by (rule bit_word_eqI) (simp add: bit_simps)
  then show ?thesis by (simp add: ino_of_def)
qed

lemma ino_of_1 [simp]: "ino_of (Suc 0) = 1"
  by (simp add: ino_of_def)

lemma ino_of_eq_1: "ino_of (Suc p) = 1 \<longleftrightarrow> 2 ^ 32 dvd p"
proof -
  have "ino_of (Suc p) = 1 \<longleftrightarrow> (of_nat (Suc p) :: 32 word) = 1"
    unfolding ino_of_def
    using cast_back [of "of_nat (Suc p)"] by (metis scast_one unsigned_1)
  then show ?thesis by (simp add: word_of_nat_eq_0_iff)
qed

definition ll_inodes :: "'w ll \<Rightarrow> bool" where
  "ll_inodes s \<longleftrightarrow>
     next_ino s = of_nat (Suc (l_inext s)) \<and> distinct (map snd (l_itable s)) \<and>
     (\<forall>m p. (m, p) \<in> set (l_itable s) \<longleftrightarrow> (\<exists>i. l_iheap s p = Some i \<and> i_number i = m)) \<and>
     (\<forall>p i. l_iheap s p = Some i \<longrightarrow> p < l_inext s \<and> i_number i = ino_of (Suc p)) \<and>
     (\<exists>i. l_iheap s 0 = Some i \<and> i_is_directory i)"

definition ll_tagged :: "'w ll \<Rightarrow> cstring \<Rightarrow> cstring \<Rightarrow> bool" where
  "ll_tagged s n k \<longleftrightarrow> (\<exists>f x. l_fheap s f = Some x \<and> lf_name x = n \<and> k \<in> set (keys (lf_tags x)))"

definition ll_ok :: "(cstring \<Rightarrow> cstring \<Rightarrow> bool) \<Rightarrow> 'w ll \<Rightarrow> bool" where
  "ll_ok R s \<longleftrightarrow> ll_tables s \<and> ll_fresh s \<and> ll_two_way s \<and> ll_inodes s \<and> ll_tagged s = R"

named_theorems keeps \<open>helpers and callbacks that keep \<open>ll_ok R\<close>\<close>

subsection \<open>Fields the parts depend on\<close>

text \<open>The part of the state that the association lives in, and the part of the inodes.\<close>

definition ll_rel ::
  "'w ll \<Rightarrow> tptr ht \<times> (tptr \<Rightarrow> ltag option) \<times> nat \<times> fptr ht \<times> (fptr \<Rightarrow> lfile option) \<times> nat" where
  "ll_rel s = (l_tags s, l_theap s, l_tnext s, l_files s, l_fheap s, l_fnext s)"

definition ll_ino :: "'w ll \<Rightarrow> (iptr \<Rightarrow> inode option) \<times> (ino \<times> iptr) list \<times> nat \<times> ino" where
  "ll_ino s = (l_iheap s, l_itable s, l_inext s, next_ino s)"

lemma rel_cong:
  assumes "ll_rel s' = ll_rel s"
  shows "ll_tables s' = ll_tables s \<and> ll_fresh s' = ll_fresh s \<and> ll_two_way s' = ll_two_way s \<and> ll_tagged s' = ll_tagged s"
proof -
  have e: "l_tags s' = l_tags s" "l_theap s' = l_theap s" "l_tnext s' = l_tnext s" "l_files s' = l_files s"
    "l_fheap s' = l_fheap s" "l_fnext s' = l_fnext s" using assms by (simp_all add: ll_rel_def)
  show ?thesis unfolding ll_tables_def ll_fresh_def ll_two_way_def ll_tagged_def fun_eq_iff e by simp
qed

lemma ino_cong:
  assumes "ll_ino s' = ll_ino s"
  shows "ll_inodes s' = ll_inodes s"
proof -
  have e: "l_iheap s' = l_iheap s" "l_itable s' = l_itable s" "l_inext s' = l_inext s" "next_ino s' = next_ino s"
    using assms by (simp_all add: ll_ino_def)
  show ?thesis unfolding ll_inodes_def e by (rule refl)
qed

lemma ok_cong: "ll_rel s' = ll_rel s \<Longrightarrow> ll_ino s' = ll_ino s \<Longrightarrow> ll_ok R s' = ll_ok R s"
  using rel_cong [of s' s] ino_cong [of s' s] by (simp add: ll_ok_def)

lemma ok_inodes: "ll_rel s' = ll_rel s \<Longrightarrow> ll_inodes s' \<Longrightarrow> ll_ok R s \<Longrightarrow> ll_ok R s'"
  using rel_cong [of s' s] by (simp add: ll_ok_def)

lemma ok_inodesD: "ll_ok R s \<Longrightarrow> ll_inodes s"
  by (simp add: ll_ok_def)

lemma ok_fields [simp]:
  "ll_ok R (s\<lparr>l_world := w\<rparr>) = ll_ok R s" "ll_ok R (s\<lparr>c_errno := e\<rparr>) = ll_ok R s"
  "ll_ok R (s\<lparr>l_replies := rs\<rparr>) = ll_ok R s" "ll_ok R (s\<lparr>next_gen := g\<rparr>) = ll_ok R s"
  "ll_ok R (s\<lparr>l_tagdbpath := d\<rparr>) = ll_ok R s"
  by (rule ok_cong; simp add: ll_rel_def ll_ino_def)+

lemma ok_reply [simp]: "ll_ok R (fuse_reply r s) = ll_ok R s"
  by (simp add: fuse_reply_def)

lemma ok_reply_buf [simp]: "ll_ok R (reply_buf_limited buf n off len s) = ll_ok R s"
  by (simp add: reply_buf_limited_def)

lemma ok_stat [keeps]: "ll_stat os path b s = (r, s') \<Longrightarrow> ll_ok R s \<Longrightarrow> ll_ok R s'"
  by (auto simp: ll_stat_def split: sum.splits)

lemma ok_next_gen [keeps]: "next_gen_number s = (g, s') \<Longrightarrow> ll_ok R s \<Longrightarrow> ll_ok R s'"
  by (auto simp: next_gen_number_def Let_def split: if_splits)

lemma ok_file_io [keeps]:
  "file_read os fd len off s = (r, s') \<Longrightarrow> ll_ok R s \<Longrightarrow> ll_ok R s'"
  "file_write os fd buf len off s = (r', s') \<Longrightarrow> ll_ok R s \<Longrightarrow> ll_ok R s'"
  "file_close os fd s = (r'', s') \<Longrightarrow> ll_ok R s \<Longrightarrow> ll_ok R s'"
  by (auto simp: file_read_def file_write_def file_close_def Let_def split: prod.splits sum.splits)

lemma ok_file_open [keeps]: "file_open os f flags s = Some (fd, s') \<Longrightarrow> ll_ok R s \<Longrightarrow> ll_ok R s'"
  by (auto simp: file_open_def Let_def elim!: bind_SomeE split: run_splits)

subsection \<open>Inodes\<close>

lemma inode_new_rel: "inode_new d s = (p, s') \<Longrightarrow> ll_rel s' = ll_rel s"
  by (auto simp: inode_new_def next_inode_number_def ll_rel_def Let_def)

lemma inode_upd_rel: "inode_upd p g s = Some s' \<Longrightarrow> ll_rel s' = ll_rel s"
  by (auto simp: inode_upd_def ll_rel_def elim!: bind_SomeE)

lemma next_number: "ll_inodes s \<Longrightarrow> scast (ucast (next_ino s) :: 32 word) = ino_of (Suc (l_inext s))"
  using ino_of_ucast [of "Suc (l_inext s)"] by (simp add: ll_inodes_def)

lemma inode_new_inodes:
  assumes "inode_new d s = (p, s')" and inv: "ll_inodes s"
  shows "ll_inodes s' \<and> p = l_inext s \<and> p \<noteq> 0 \<and>
    (\<exists>i. l_iheap s' p = Some i \<and> i_is_directory i = d \<and> i_number i = ino_of (Suc p))"
proof -
  let ?i = "\<lparr>i_number = ino_of (Suc (l_inext s)), i_is_tagfile = False, i_is_directory = d, i_st = stat0,
     i_nlookup = 0, i_selected_tags = (if d then Some ht_create else None),
     i_name = None, i_realpath = None, i_tag = []\<rparr>"
  have s': "s' = s\<lparr>next_ino := next_ino s + 1, l_iheap := (l_iheap s)(l_inext s \<mapsto> ?i),
      l_inext := Suc (l_inext s), l_itable := l_itable s @ [(ino_of (Suc (l_inext s)), l_inext s)]\<rparr>" and p: "p = l_inext s"
    using assms(1) next_number [OF inv] by (auto simp: inode_new_def next_inode_number_def Let_def)
  have new: "l_iheap s (l_inext s) = None" using inv by (metis less_irrefl ll_inodes_def option.exhaust)
  have p0: "p \<noteq> 0" using inv p by (metis less_nat_zero_code ll_inodes_def)
  have "l_inext s \<notin> set (map snd (l_itable s))"
    using inv new by (auto simp: ll_inodes_def)
  then have "ll_inodes s'" using inv new p0 p
    unfolding ll_inodes_def s' by (auto simp: less_Suc_eq)
  with p p0 inv show ?thesis by (simp add: s' ll_inodes_def)
qed

lemma inode_upd_inodes:
  assumes "inode_upd p g s = Some s'" and "ll_inodes s"
    and "\<And>i. i_number (g i) = i_number i" and "\<And>i. i_is_directory (g i) = i_is_directory i"
  shows "ll_inodes s'"
proof -
  obtain i where i: "l_iheap s p = Some i" "s' = s\<lparr>l_iheap := (l_iheap s)(p \<mapsto> g i)\<rparr>"
    using assms(1) by (auto simp: inode_upd_def elim!: bind_SomeE)
  show ?thesis using assms(2) i(1) assms(3,4) unfolding ll_inodes_def i(2) by auto
qed

lemma ok_inode_new [keeps]: "inode_new d s = (p, s') \<Longrightarrow> ll_ok R s \<Longrightarrow> ll_ok R s'"
  using inode_new_inodes [of d s p s'] by (blast intro: ok_inodes inode_new_rel dest: ok_inodesD)

lemma ok_inode_upd [keeps]:
  "inode_upd p g s = Some s' \<Longrightarrow> (\<And>i. i_number (g i) = i_number i) \<Longrightarrow>
   (\<And>i. i_is_directory (g i) = i_is_directory i) \<Longrightarrow> ll_ok R s \<Longrightarrow> ll_ok R s'"
  by (blast intro: ok_inodes inode_upd_rel inode_upd_inodes dest: ok_inodesD)

lemma ok_inode_fields [keeps]:
  "inode_upd p (i_nlookup_update f) s = Some s' \<Longrightarrow> ll_ok R s \<Longrightarrow> ll_ok R s'"
  "inode_upd p (i_st_update g) s = Some s' \<Longrightarrow> ll_ok R s \<Longrightarrow> ll_ok R s'"
  "inode_upd p (i_name_update n) s = Some s' \<Longrightarrow> ll_ok R s \<Longrightarrow> ll_ok R s'"
  "inode_upd p (i_realpath_update n) s = Some s' \<Longrightarrow> ll_ok R s \<Longrightarrow> ll_ok R s'"
  "inode_upd p (i_is_tagfile_update h) s = Some s' \<Longrightarrow> ll_ok R s \<Longrightarrow> ll_ok R s'"
  by (erule ok_inode_upd; simp)+

lemma ok_delete [keeps]:
  assumes "inode_delete_if_noref p s = Some s'" and ok: "ll_ok R s"
  shows "ll_ok R s'"
proof -
  have inv: "ll_inodes s" using ok by (rule ok_inodesD)
  consider "s' = s" | i where "l_iheap s p = Some i" "i_number i \<noteq> 1"
      "s' = s\<lparr>l_itable := filter (\<lambda>e. snd e \<noteq> p) (l_itable s), l_iheap := (l_iheap s)(p := None)\<rparr>"
    using assms(1) by (auto simp: inode_delete_if_noref_def elim!: bind_SomeE split: if_splits)
  then show ?thesis
  proof cases
    case 1
    with ok show ?thesis by simp
  next
    case (2 i)
    have "i_number i = ino_of (Suc p)" using inv 2(1) by (auto simp: ll_inodes_def)
    then have "p \<noteq> 0" using 2(2) by (cases p) auto
    with inv have "ll_inodes s'" unfolding ll_inodes_def 2(3) by (auto simp: distinct_map_filter)
    moreover have "ll_rel s' = ll_rel s" by (simp add: 2(3) ll_rel_def)
    ultimately show ?thesis using ok by (blast intro: ok_inodes)
  qed
qed

lemma ok_create_directory [keeps]:
  "create_directory_inode parent name s = Some (p, s') \<Longrightarrow> ll_ok R s \<Longrightarrow> ll_ok R s'"
  by (auto simp: create_directory_inode_def Let_def elim!: bind_SomeE split: run_splits
      intro: ok_inode_new ok_inode_upd)

lemma ok_create_inode [keeps]:
  "get_or_create_inode parent name d s = Some (p, s') \<Longrightarrow> ll_ok R s \<Longrightarrow> ll_ok R s'"
  by (auto simp: get_or_create_inode_def Let_def elim!: bind_SomeE split: run_splits; blast intro: keeps)

lemma ok_file_inode [keeps]:
  "get_or_create_file_inode parent name s = Some (p, s') \<Longrightarrow> ll_ok R s \<Longrightarrow> ll_ok R s'"
  by (auto simp: get_or_create_file_inode_def elim!: bind_SomeE intro: ok_create_inode ok_inode_fields)

subsection \<open>Files\<close>

text \<open>Creation of an inode leaves the tables of files and tags.\<close>

lemma create_inode_rel: "get_or_create_inode parent name d s = Some (p, s') \<Longrightarrow> ll_rel s' = ll_rel s"
  by (auto simp: get_or_create_inode_def Let_def elim!: bind_SomeE split: run_splits
      dest!: inode_new_rel inode_upd_rel)

lemma file_inode_rel: "get_or_create_file_inode parent name s = Some (p, s') \<Longrightarrow> ll_rel s' = ll_rel s"
  by (auto simp: get_or_create_file_inode_def elim!: bind_SomeE dest!: create_inode_rel inode_upd_rel)

lemma file_inode_inodes:
  assumes "get_or_create_file_inode parent name s = Some (p, s')" and inv: "ll_inodes s"
  shows "ll_inodes s'"
proof -
  have step: "ll_inodes u'" if "get_or_create_inode parent name False s = Some (q, u')" for q u'
  proof -
    from that consider "u' = s" | r u where "inode_new False s = (r, u)" "inode_upd r (i_name_update (\<lambda>_. Some name)) u = Some u'"
      by (auto simp: get_or_create_inode_def Let_def elim!: bind_SomeE split: run_splits)
    then show ?thesis
    proof cases
      case 1
      with inv show ?thesis by simp
    next
      case (2 r u)
      from inode_new_inodes [OF 2(1) inv] have "ll_inodes u" by blast
      from inode_upd_inodes [OF 2(2) this] show ?thesis by simp
    qed
  qed
  from assms(1) obtain q u where "get_or_create_inode parent name False s = Some (q, u)"
    "inode_upd p (i_realpath_update (\<lambda>_. Some (ll_tag_realpath u name))) u = Some s'"
    by (auto simp: get_or_create_file_inode_def elim!: bind_SomeE)
  from inode_upd_inodes [OF this(2) step [OF this(1)]] show ?thesis by simp
qed

lemma file_new_effect:
  assumes "ll_file_new name s = Some (f, s')" and inv: "ll_inodes s"
  shows "f = l_fnext s \<and> ll_inodes s' \<and> (\<exists>x. lf_name x = name \<and> lf_tags x = [] \<and>
    ll_rel s' = ll_rel (s\<lparr>l_fheap := (l_fheap s)(f \<mapsto> x), l_fnext := Suc f\<rparr>))"
proof -
  let ?f = "l_fnext s"
  let ?x = "\<lparr>lf_name = name, lf_realpath = ll_tag_realpath s (append_dir (l_realdirpath s) name),
              lf_tags = ht_create, lf_ino = None\<rparr>"
  let ?s1 = "s\<lparr>l_fheap := (l_fheap s)(?f \<mapsto> ?x), l_fnext := Suc ?f\<rparr>"
  obtain p s2 s3 where s2: "get_or_create_file_inode 1 name ?s1 = Some (p, s2)"
    and s3: "lfile_upd ?f (lf_ino_update (\<lambda>_. Some p)) s2 = Some s3"
    and s': "s' = s3 \<or> inode_upd p (i_is_tagfile_update (\<lambda>_. True)) s3 = Some s'" and f: "f = ?f"
    using assms(1) by (auto simp: ll_file_new_def Let_def elim!: bind_SomeE split: run_splits)
  have i1: "ll_inodes ?s1" using inv ino_cong [of ?s1 s] by (simp add: ll_ino_def)
  have i2: "ll_inodes s2" by (rule file_inode_inodes [OF s2 i1])
  have r2: "ll_rel s2 = ll_rel ?s1" by (rule file_inode_rel [OF s2])
  then have h: "l_fheap s2 = (l_fheap s)(?f \<mapsto> ?x)" by (simp add: ll_rel_def)
  with s3 have e3: "s3 = s2\<lparr>l_fheap := (l_fheap s)(?f \<mapsto> ?x\<lparr>lf_ino := Some p\<rparr>)\<rparr>"
    by (auto simp: lfile_upd_def)
  have i3: "ll_inodes s3" using i2 ino_cong [of s3 s2] by (simp add: e3 ll_ino_def)
  have r3: "ll_rel s3 = ll_rel (s\<lparr>l_fheap := (l_fheap s)(?f \<mapsto> ?x\<lparr>lf_ino := Some p\<rparr>), l_fnext := Suc ?f\<rparr>)"
    using r2 by (simp add: e3 ll_rel_def)
  have "ll_inodes s' \<and> ll_rel s' = ll_rel s3"
    using s' i3 inode_upd_inodes [of p "i_is_tagfile_update (\<lambda>_. True)" s3 s'] inode_upd_rel by auto
  with r3 f show ?thesis
    by (intro conjI exI [of _ "?x\<lparr>lf_ino := Some p\<rparr>"]) (simp_all add: ht_create_def)
qed

lemma ok_file_get_or_create [keeps]:
  assumes "ll_file_get_or_create name s = Some (f, s')" and ok: "ll_ok R s"
  shows "ll_ok R s'"
proof (cases "ht_get_entry (l_files s) name")
  case (Some g)
  with assms show ?thesis by (simp add: ll_file_get_or_create_def)
next
  case None
  have inv: "ll_tables s" "ll_fresh s" "ll_two_way s" "ll_inodes s" "ll_tagged s = R" using ok by (simp_all add: ll_ok_def)
  obtain s1 where s1: "ll_file_new name s = Some (f, s1)" "s' = s1\<lparr>l_files := l_files s1 @ [(name, f)]\<rparr>"
    using assms(1) None by (auto simp: ll_file_get_or_create_def elim!: bind_SomeE)
  from file_new_effect [OF s1(1) inv(4)] obtain x where x: "f = l_fnext s" "ll_inodes s1" "lf_name x = name" "lf_tags x = []"
    "ll_rel s1 = ll_rel (s\<lparr>l_fheap := (l_fheap s)(f \<mapsto> x), l_fnext := Suc f\<rparr>)" by blast
  let ?s = "s\<lparr>l_fheap := (l_fheap s)(f \<mapsto> x), l_fnext := Suc f, l_files := l_files s @ [(name, f)]\<rparr>"
  have rel: "ll_rel s' = ll_rel ?s" using x(5) by (simp add: s1(2) ll_rel_def)
  have ino: "ll_inodes s'" using x(2) ino_cong [of s' s1] by (simp add: s1(2) ll_ino_def)
  have new: "l_fheap s f = None" using inv(2) x(1) by (metis less_irrefl ll_fresh_def option.exhaust)
  have nokey: "name \<notin> set (keys (l_files s))" using None by (simp add: ht_get_entry_def ht_find_None_iff)
  have "ll_tables ?s" using inv(1) nokey x(3) new unfolding ll_tables_def by auto
  moreover have "ll_fresh ?s" using inv(2) x(1) unfolding ll_fresh_def by (auto simp: less_Suc_eq)
  moreover have "ll_two_way ?s" using inv(3) new x(4) unfolding ll_two_way_def by (auto; metis option.distinct(1))
  moreover have "ll_tagged ?s = ll_tagged s"
  proof (intro ext iffI)
    fix n k assume "ll_tagged ?s n k"
    then obtain g y where g: "((l_fheap s)(f \<mapsto> x)) g = Some y" "lf_name y = n" "k \<in> set (keys (lf_tags y))"
      by (auto simp: ll_tagged_def)
    with x(4) have "g \<noteq> f" by auto
    with g show "ll_tagged s n k" unfolding ll_tagged_def by auto
  next
    fix n k assume "ll_tagged s n k"
    then obtain g y where g: "l_fheap s g = Some y" "lf_name y = n" "k \<in> set (keys (lf_tags y))"
      by (auto simp: ll_tagged_def)
    with new have "g \<noteq> f" by auto
    with g show "ll_tagged ?s n k" unfolding ll_tagged_def by (intro exI [of _ g] exI [of _ y]) simp
  qed
  ultimately show ?thesis using ino rel_cong [OF rel] inv(5) by (simp add: ll_ok_def)
qed

lemma ok_getattr_intra [keeps]:
  "ll_getattr_intra os b sel path name s = Some (r, s') \<Longrightarrow> ll_ok R s \<Longrightarrow> ll_ok R s'"
  by (auto simp: ll_getattr_intra_def Let_def elim!: bind_SomeE split: run_splits
      dest!: ok_file_get_or_create [of name s _ _ R] ok_stat [of os _ _ _ _ _ R])

lemma ok_readdir_entries [keeps]:
  "ll_readdir_entries os fl sel ds b s = Some (b', s') \<Longrightarrow> ll_ok R s \<Longrightarrow> ll_ok R s'"
proof (induction ds arbitrary: b s)
  case Nil
  then show ?case by simp
next
  case (Cons d ds)
  then show ?case
    by (cases d) (auto elim!: bind_SomeE split: run_splits; blast intro: keeps)
qed

lemma ok_list_files [keeps]:
  "ll_readdir_list_files os fl b sel s = Some (b', s') \<Longrightarrow> ll_ok R s \<Longrightarrow> ll_ok R s'"
  by (auto simp: ll_readdir_list_files_def intro: keeps)

lemma ok_fill_tag:
  "ll_fill_tag fl parent sel t acc = Some acc' \<Longrightarrow> ll_ok R (snd acc) \<Longrightarrow> ll_ok R (snd acc')"
  by (auto simp: ll_fill_tag_def elim!: bind_SomeE split: run_splits; blast intro: keeps)

lemma ok_fill_tags:
  assumes "ht_for_each h (\<lambda>n t. ll_fill_tag fl parent sel t) u = Some u'" and "ll_ok R (snd u)"
  shows "ll_ok R (snd u')"
  by (rule ht_for_each_keeps [OF assms(1), where P = "\<lambda>v. ll_ok R (snd v)"])
    (use assms(2) in \<open>auto dest: ok_fill_tag\<close>)

lemma ok_fill_remaining [keeps]:
  assumes "ll_readdir_fill_remaining_tags fl parent sel fs b s = Some (b', s')" and ok: "ll_ok R s"
  shows "ll_ok R s'"
proof -
  obtain acc where acc: "ht_for_each fs
       (\<lambda>n f acc. do {
          x \<leftarrow> l_fheap (snd acc) f;
          ht_for_each (lf_tags x) (\<lambda>n t. ll_fill_tag fl parent sel t) acc
        }) ((b, ht_create), s) = Some acc" "s' = snd acc"
    using assms by (auto simp: ll_readdir_fill_remaining_tags_def elim!: bind_SomeE)
  have "ll_ok R (snd acc)"
    by (rule ht_for_each_keeps [OF acc(1), where P = "\<lambda>v. ll_ok R (snd v)"])
      (use ok in \<open>auto elim!: bind_SomeE dest: ok_fill_tags\<close>)
  with acc(2) show ?thesis by simp
qed

lemma ok_mode2 [keeps]:
  "ll_readdir_list_tags_mode2 fl parent b sel s = Some (Returns (b', s')) \<Longrightarrow> ll_ok R s \<Longrightarrow> ll_ok R s'"
  by (auto simp: ll_readdir_list_tags_mode2_def elim!: bind_SomeE intro: keeps split: outcome.splits)

subsection \<open>Tags\<close>

lemma tag_at: "ll_tables s \<Longrightarrow> l_theap s t = Some r \<Longrightarrow> l_theap s u = Some q \<Longrightarrow> lt_value q = lt_value r \<Longrightarrow> u = t"
  unfolding ll_tables_def by (metis distinct_keys_eqD)

lemma file_at: "ll_tables s \<Longrightarrow> l_fheap s f = Some x \<Longrightarrow> l_fheap s g = Some y \<Longrightarrow> lf_name y = lf_name x \<Longrightarrow> g = f"
  unfolding ll_tables_def by (metis distinct_keys_eqD)

lemma tagged_live:
  assumes "ll_tables s" and "l_fheap s f = Some x"
  shows "ll_tagged s (lf_name x) k \<longleftrightarrow> (\<exists>u. (k, u) \<in> set (lf_tags x))"
proof
  assume "ll_tagged s (lf_name x) k"
  then obtain g y where "l_fheap s g = Some y" "lf_name y = lf_name x" "k \<in> set (keys (lf_tags y))"
    unfolding ll_tagged_def by blast
  with file_at [OF assms this(1,2)] assms(2) show "\<exists>u. (k, u) \<in> set (lf_tags x)" by auto
next
  assume "\<exists>u. (k, u) \<in> set (lf_tags x)"
  with assms(2) show "ll_tagged s (lf_name x) k"
    unfolding ll_tagged_def by (intro exI [of _ f] exI [of _ x]) force
qed

lemma two_wayD:
  assumes "ll_two_way s" and "l_fheap s f = Some x" and "(k, t) \<in> set (lf_tags x)"
  obtains r where "l_theap s t = Some r" "lt_value r = k" "(lf_name x, f) \<in> set (lt_files r)"
  using assms unfolding ll_two_way_def by blast

lemma two_wayD':
  assumes "ll_two_way s" and "l_theap s t = Some r" and "(n, f) \<in> set (lt_files r)"
  obtains x where "l_fheap s f = Some x" "lf_name x = n" "(lt_value r, t) \<in> set (lf_tags x)"
  using assms unfolding ll_two_way_def by blast

text \<open>
  The names behind pointers, and the pairs of pointers that the two-way association stands for: the
  entries of a file are the names of the live tags that are paired with it, and the other way round.
\<close>

definition ll_tag_at :: "tptr \<Rightarrow> 'w ll \<Rightarrow> cstring option" where
  "ll_tag_at t s = map_option lt_value (l_theap s t)"

definition ll_file_at :: "fptr \<Rightarrow> 'w ll \<Rightarrow> cstring option" where
  "ll_file_at f s = map_option lf_name (l_fheap s f)"

lemma ll_tag_at_iff: "ll_tag_at t s = Some k \<longleftrightarrow> (\<exists>r. l_theap s t = Some r \<and> lt_value r = k)"
  by (simp add: ll_tag_at_def)

lemma ll_file_at_iff: "ll_file_at f s = Some n \<longleftrightarrow> (\<exists>x. l_fheap s f = Some x \<and> lf_name x = n)"
  by (simp add: ll_file_at_def)

definition paired :: "(fptr \<times> tptr) set \<Rightarrow> 'w ll \<Rightarrow> bool" where
  "paired L s \<longleftrightarrow>
     (\<forall>f x. l_fheap s f = Some x \<longrightarrow> distinct (keys (lf_tags x)) \<and>
       set (lf_tags x) = {(k, t). (f, t) \<in> L \<and> ll_tag_at t s = Some k}) \<and>
     (\<forall>t r. l_theap s t = Some r \<longrightarrow> distinct (keys (lt_files r)) \<and>
       set (lt_files r) = {(n, f). (f, t) \<in> L \<and> ll_file_at f s = Some n})"

lemma pairedD:
  assumes "paired L s"
  shows "l_fheap s f = Some x \<Longrightarrow> distinct (keys (lf_tags x))" "l_theap s t = Some r \<Longrightarrow> distinct (keys (lt_files r))"
    "l_fheap s f = Some x \<Longrightarrow> set (lf_tags x) = {(k, t). (f, t) \<in> L \<and> ll_tag_at t s = Some k}"
    "l_theap s t = Some r \<Longrightarrow> set (lt_files r) = {(n, f). (f, t) \<in> L \<and> ll_file_at f s = Some n}"
  using assms unfolding paired_def by blast+

lemma paired_two_way:
  assumes "paired L s"
  shows "ll_two_way s"
  unfolding ll_two_way_def
proof (intro conjI allI impI)
  show "distinct (keys (lf_tags x))" if "l_fheap s f = Some x" for f x by (rule pairedD(1) [OF assms that])
  show "distinct (keys (lt_files r))" if "l_theap s t = Some r" for t r by (rule pairedD(2) [OF assms that])
  fix f x k t
  show "\<exists>r. l_theap s t = Some r \<and> lt_value r = k \<and> (lf_name x, f) \<in> set (lt_files r)"
    if f: "l_fheap s f = Some x" and "(k, t) \<in> set (lf_tags x)"
  proof -
    have "(f, t) \<in> L" "ll_tag_at t s = Some k" using that(2) pairedD(3) [OF assms f] by auto
    moreover from this(2) obtain r where r: "l_theap s t = Some r" "lt_value r = k" unfolding ll_tag_at_iff by blast
    ultimately show ?thesis using f pairedD(4) [OF assms r(1)] by (simp add: ll_file_at_def)
  qed
  fix r n
  show "\<exists>x. l_fheap s f = Some x \<and> lf_name x = n \<and> (lt_value r, t) \<in> set (lf_tags x)"
    if t: "l_theap s t = Some r" and "(n, f) \<in> set (lt_files r)"
  proof -
    have "(f, t) \<in> L" "ll_file_at f s = Some n" using that(2) pairedD(4) [OF assms t] by auto
    moreover from this(2) obtain y where y: "l_fheap s f = Some y" "lf_name y = n" unfolding ll_file_at_iff by blast
    ultimately show ?thesis using t pairedD(3) [OF assms y(1)] by (simp add: ll_tag_at_def)
  qed
qed

lemma two_way_paired:
  assumes "ll_two_way s"
  shows "\<exists>L. paired L s"
proof -
  define L where "L = {(f, t). \<exists>x k. l_fheap s f = Some x \<and> (k, t) \<in> set (lf_tags x)}"
  have tags: "(k, t) \<in> set (lf_tags x) \<longleftrightarrow> (f, t) \<in> L \<and> ll_tag_at t s = Some k"
    if f: "l_fheap s f = Some x" for f x k t
  proof
    assume m: "(k, t) \<in> set (lf_tags x)"
    from two_wayD [OF assms f m] obtain r where "l_theap s t = Some r" "lt_value r = k" .
    with f m show "(f, t) \<in> L \<and> ll_tag_at t s = Some k" by (auto simp: ll_tag_at_def L_def)
  next
    assume "(f, t) \<in> L \<and> ll_tag_at t s = Some k"
    then obtain j where j: "(j, t) \<in> set (lf_tags x)" and k: "ll_tag_at t s = Some k" using f by (auto simp: L_def)
    obtain r where "l_theap s t = Some r" "lt_value r = j" by (rule two_wayD [OF assms f j])
    with k have "j = k" by (simp add: ll_tag_at_def)
    with j show "(k, t) \<in> set (lf_tags x)" by simp
  qed
  have files: "(n, f) \<in> set (lt_files r) \<longleftrightarrow> (f, t) \<in> L \<and> ll_file_at f s = Some n"
    if t: "l_theap s t = Some r" for t r n f
  proof
    assume m: "(n, f) \<in> set (lt_files r)"
    from two_wayD' [OF assms t m] obtain x where "l_fheap s f = Some x" "lf_name x = n" "(lt_value r, t) \<in> set (lf_tags x)" .
    then show "(f, t) \<in> L \<and> ll_file_at f s = Some n" by (auto simp: ll_file_at_def L_def)
  next
    assume "(f, t) \<in> L \<and> ll_file_at f s = Some n"
    then obtain x k where x: "l_fheap s f = Some x" "lf_name x = n" "(k, t) \<in> set (lf_tags x)" by (auto simp: ll_file_at_def L_def)
    obtain q where "l_theap s t = Some q" "(lf_name x, f) \<in> set (lt_files q)" by (rule two_wayD [OF assms x(1,3)])
    with t x(2) show "(n, f) \<in> set (lt_files r)" by simp
  qed
  have "paired L s"
    unfolding paired_def
  proof (intro conjI allI impI)
    fix f x assume f: "l_fheap s f = Some x"
    show "distinct (keys (lf_tags x))" using assms f unfolding ll_two_way_def by blast
    show "set (lf_tags x) = {(k, t). (f, t) \<in> L \<and> ll_tag_at t s = Some k}" using tags [OF f] by auto
  next
    fix t r assume t: "l_theap s t = Some r"
    show "distinct (keys (lt_files r))" using assms t unfolding ll_two_way_def by blast
    show "set (lt_files r) = {(n, f). (f, t) \<in> L \<and> ll_file_at f s = Some n}" using files [OF t] by auto
  qed
  then show ?thesis by blast
qed

lemma paired_tagged:
  assumes "paired L s"
  shows "ll_tagged s n k \<longleftrightarrow> (\<exists>f t. (f, t) \<in> L \<and> ll_file_at f s = Some n \<and> ll_tag_at t s = Some k)"
proof
  assume "ll_tagged s n k"
  then obtain f x t where x: "l_fheap s f = Some x" "lf_name x = n" "(k, t) \<in> set (lf_tags x)"
    unfolding ll_tagged_def by auto
  with pairedD(3) [OF assms x(1)] show "\<exists>f t. (f, t) \<in> L \<and> ll_file_at f s = Some n \<and> ll_tag_at t s = Some k"
    by (auto simp: ll_file_at_def)
next
  assume "\<exists>f t. (f, t) \<in> L \<and> ll_file_at f s = Some n \<and> ll_tag_at t s = Some k"
  then obtain f t x where x: "(f, t) \<in> L" "ll_tag_at t s = Some k" "l_fheap s f = Some x" "lf_name x = n"
    unfolding ll_file_at_iff by blast
  then have "(k, t) \<in> set (lf_tags x)" using pairedD(3) [OF assms x(3)] by simp
  with x(3,4) show "ll_tagged s n k" unfolding ll_tagged_def by force
qed

text \<open>Live tags and live files are known by their names.\<close>

lemma names_unique:
  assumes "ll_tables s"
  shows "ll_tag_at t s = Some k \<Longrightarrow> ll_tag_at u s = Some k \<Longrightarrow> u = t"
    and "ll_file_at f s = Some n \<Longrightarrow> ll_file_at g s = Some n \<Longrightarrow> g = f"
  using tag_at [OF assms] file_at [OF assms] by (auto simp: ll_tag_at_def ll_file_at_def)

text \<open>
  A change of one tag and one file that keeps their names, and after which they are paired or not,
  keeps the invariant.
\<close>

lemma ok_pair:
  assumes ok: "ll_ok R s" and t: "l_theap s t = Some r" and f: "l_fheap s f = Some x" and L: "paired L s"
    and r': "lt_value r' = lt_value r" "distinct (keys (lt_files r'))"
      "set (lt_files r') = {(n, g). (g, t) \<in> L' \<and> ll_file_at g s = Some n}"
    and x': "lf_name x' = lf_name x" "distinct (keys (lf_tags x'))"
      "set (lf_tags x') = {(k, u). (f, u) \<in> L' \<and> ll_tag_at u s = Some k}"
    and L': "\<And>g u. g \<noteq> f \<or> u \<noteq> t \<Longrightarrow> (g, u) \<in> L' \<longleftrightarrow> (g, u) \<in> L"
    and s': "ll_rel s' = ll_rel (s\<lparr>l_theap := (l_theap s)(t \<mapsto> r'), l_fheap := (l_fheap s)(f \<mapsto> x')\<rparr>)"
      "ll_ino s' = ll_ino s"
  shows "ll_ok (\<lambda>n k. if n = lf_name x \<and> k = lt_value r then (f, t) \<in> L' else R n k) s'"
proof -
  let ?s = "s\<lparr>l_theap := (l_theap s)(t \<mapsto> r'), l_fheap := (l_fheap s)(f \<mapsto> x')\<rparr>"
  have inv: "ll_tables s" "ll_fresh s" "ll_inodes s" "ll_tagged s = R" using ok by (simp_all add: ll_ok_def)
  have names: "ll_tag_at u ?s = ll_tag_at u s" "ll_file_at g ?s = ll_file_at g s" for u g
    using t f r'(1) x'(1) by (simp_all add: ll_tag_at_def ll_file_at_def)
  have pair: "paired L' ?s"
    unfolding paired_def names
  proof (intro conjI allI impI)
    fix g y assume g: "l_fheap ?s g = Some y"
    show "distinct (keys (lf_tags y))" using g x'(2) pairedD(1) [OF L, of g] by (auto split: if_splits)
    show "set (lf_tags y) = {(k, u). (g, u) \<in> L' \<and> ll_tag_at u s = Some k}"
      using g x'(3) pairedD(3) [OF L, of g] L' by (cases "g = f") simp_all
  next
    fix u q assume u: "l_theap ?s u = Some q"
    show "distinct (keys (lt_files q))" using u r'(2) pairedD(2) [OF L, of u] by (auto split: if_splits)
    show "set (lt_files q) = {(n, g). (g, u) \<in> L' \<and> ll_file_at g s = Some n}"
      using u r'(3) pairedD(4) [OF L, of u] L' by (cases "u = t") simp_all
  qed
  have at: "ll_file_at f s = Some (lf_name x)" "ll_tag_at t s = Some (lt_value r)"
    using t f by (simp_all add: ll_file_at_def ll_tag_at_def)
  have "ll_tagged ?s n k \<longleftrightarrow> (if n = lf_name x \<and> k = lt_value r then (f, t) \<in> L' else ll_tagged s n k)" for n k
  proof (cases "n = lf_name x \<and> k = lt_value r")
    case True
    then have "(\<exists>g u. (g, u) \<in> L' \<and> ll_file_at g s = Some n \<and> ll_tag_at u s = Some k) \<longleftrightarrow> (f, t) \<in> L'"
      using at names_unique [OF inv(1)] by blast
    with True show ?thesis unfolding paired_tagged [OF pair] names by simp
  next
    case False
    then have "g \<noteq> f \<or> u \<noteq> t" if "ll_file_at g s = Some n" "ll_tag_at u s = Some k" for g u using at that by auto
    with L' have "(g, u) \<in> L' \<and> ll_file_at g s = Some n \<and> ll_tag_at u s = Some k \<longleftrightarrow>
        (g, u) \<in> L \<and> ll_file_at g s = Some n \<and> ll_tag_at u s = Some k" for g u by blast
    then show ?thesis unfolding if_not_P [OF False] paired_tagged [OF pair] paired_tagged [OF L] names by simp
  qed
  moreover have "ll_tables ?s" using inv(1) t f r'(1) x'(1) unfolding ll_tables_def by auto
  moreover have "ll_fresh ?s" using inv(2) t f unfolding ll_fresh_def by auto
  moreover note paired_two_way [OF pair]
  ultimately show ?thesis using rel_cong [OF s'(1)] ino_cong [OF s'(2)] inv(3,4) by (simp add: ll_ok_def fun_eq_iff)
qed

lemma set_ht_add_unique:
  "(\<And>e. (k, e) \<in> set h \<Longrightarrow> e = d) \<Longrightarrow> set (snd (ht_add_unique_entry h k d)) = insert (k, d) (set h)"
  by (auto simp: ht_add_unique_eq)

text \<open>The pointers behind the names of a live file and a live tag.\<close>

lemma pair_names:
  assumes "ll_tables s" and t: "l_theap s t = Some r" and f: "l_fheap s f = Some x"
  shows "ll_file_at f s = Some (lf_name x)" "ll_tag_at t s = Some (lt_value r)"
    "ll_file_at g s = Some (lf_name x) \<Longrightarrow> g = f" "ll_tag_at u s = Some (lt_value r) \<Longrightarrow> u = t"
proof -
  show at: "ll_file_at f s = Some (lf_name x)" "ll_tag_at t s = Some (lt_value r)"
    using t f by (simp_all add: ll_file_at_def ll_tag_at_def)
  show "ll_file_at g s = Some (lf_name x) \<Longrightarrow> g = f" "ll_tag_at u s = Some (lt_value r) \<Longrightarrow> u = t"
    using names_unique [OF assms(1)] at by blast+
qed

lemma ok_tag_file:
  assumes run: "ll_tag_file t f s = Some s'" and ok: "ll_ok R s"
    and t: "l_theap s t = Some r" and f: "l_fheap s f = Some x"
  shows "ll_ok (\<lambda>n k. if n = lf_name x \<and> k = lt_value r then True else R n k) s'"
proof -
  obtain L where L: "paired L s" using ok two_way_paired unfolding ll_ok_def by blast
  have tabs: "ll_tables s" using ok by (simp add: ll_ok_def)
  note at = pair_names [OF tabs t f]
  let ?L = "insert (f, t) L"
  let ?r = "r\<lparr>lt_files := snd (ht_add_unique_entry (lt_files r) (lf_name x) f)\<rparr>"
  let ?x = "x\<lparr>lf_tags := snd (ht_add_unique_entry (lf_tags x) (lt_value r) t)\<rparr>"
  have "set (lt_files ?r) = insert (lf_name x, f) (set (lt_files r))"
    using set_ht_add_unique [of "lf_name x" "lt_files r" f] at(3) by (simp add: pairedD(4) [OF L t])
  then have files: "set (lt_files ?r) = {(n, g). (g, t) \<in> ?L \<and> ll_file_at g s = Some n}"
    unfolding pairedD(4) [OF L t] using at(1) by auto
  have "set (lf_tags ?x) = insert (lt_value r, t) (set (lf_tags x))"
    using set_ht_add_unique [of "lt_value r" "lf_tags x" t] at(4) by (simp add: pairedD(3) [OF L f])
  then have tags: "set (lf_tags ?x) = {(k, u). (f, u) \<in> ?L \<and> ll_tag_at u s = Some k}"
    unfolding pairedD(3) [OF L f] using at(2) by auto
  have s': "s' = s\<lparr>l_theap := (l_theap s)(t \<mapsto> ?r), l_fheap := (l_fheap s)(f \<mapsto> ?x)\<rparr>"
    using run t f by (simp add: ll_tag_file_def ltag_upd_def lfile_upd_def)
  have "ll_ok (\<lambda>n k. if n = lf_name x \<and> k = lt_value r then (f, t) \<in> ?L else R n k) s'"
    by (rule ok_pair [OF ok t f L _ _ files _ _ tags])
      (use pairedD(1) [OF L f] pairedD(2) [OF L t] in \<open>auto simp: s' distinct_ht_add_unique ll_ino_def\<close>)
  moreover have "(f, t) \<in> ?L \<longleftrightarrow> True" by simp
  ultimately show ?thesis by (simp only:)
qed

lemma ok_untag_file:
  assumes run: "ll_untag_file t f s = Some s'" and ok: "ll_ok R s"
    and t: "l_theap s t = Some r" and f: "l_fheap s f = Some x"
  shows "ll_ok (\<lambda>n k. if n = lf_name x \<and> k = lt_value r then False else R n k) s'"
proof -
  obtain L where L: "paired L s" using ok two_way_paired unfolding ll_ok_def by blast
  have tabs: "ll_tables s" using ok by (simp add: ll_ok_def)
  note at = pair_names [OF tabs t f] and dist = pairedD(1) [OF L f] pairedD(2) [OF L t]
  let ?L = "L - {(f, t)}"
  let ?r = "r\<lparr>lt_files := snd (ht_remove_entry (lt_files r) (lf_name x))\<rparr>"
  let ?x = "x\<lparr>lf_tags := snd (ht_remove_entry (lf_tags x) (lt_value r))\<rparr>"
  have "set (lt_files ?r) = {e \<in> set (lt_files r). fst e \<noteq> lf_name x}" by (simp add: set_ht_remove [OF dist(2)])
  moreover have "g \<noteq> f \<longleftrightarrow> n \<noteq> lf_name x" if "ll_file_at g s = Some n" for g n using at(1) at(3) [of g] that by force
  ultimately have files: "set (lt_files ?r) = {(n, g). (g, t) \<in> ?L \<and> ll_file_at g s = Some n}"
    unfolding pairedD(4) [OF L t] using at(1) by auto
  have "set (lf_tags ?x) = {e \<in> set (lf_tags x). fst e \<noteq> lt_value r}" by (simp add: set_ht_remove [OF dist(1)])
  moreover have "u \<noteq> t \<longleftrightarrow> k \<noteq> lt_value r" if "ll_tag_at u s = Some k" for u k using at(2) at(4) [of u] that by force
  ultimately have tags: "set (lf_tags ?x) = {(k, u). (f, u) \<in> ?L \<and> ll_tag_at u s = Some k}"
    unfolding pairedD(3) [OF L f] using at(2) by auto
  have s': "s' = s\<lparr>l_fheap := (l_fheap s)(f \<mapsto> ?x), l_theap := (l_theap s)(t \<mapsto> ?r)\<rparr>"
    using run t f by (simp add: ll_untag_file_def ltag_upd_def lfile_upd_def)
  have "ll_ok (\<lambda>n k. if n = lf_name x \<and> k = lt_value r then (f, t) \<in> ?L else R n k) s'"
    by (rule ok_pair [OF ok t f L _ _ files _ _ tags]) (use dist in \<open>simp_all add: s' distinct_ht_remove ll_ino_def ll_rel_def\<close>)
  moreover have "(f, t) \<in> ?L \<longleftrightarrow> False" by simp
  ultimately show ?thesis by (simp only:)
qed

text \<open>The loop of \<^verbatim>\<open>tag_remove\<close> takes the name off every file of the tag.\<close>

definition strip_tag :: "cstring \<Rightarrow> lfile \<Rightarrow> lfile" where
  "strip_tag v x = x\<lparr>lf_tags := snd (ht_remove_entry (lf_tags x) v)\<rparr>"

lemma strip_loop:
  assumes "ht_for_each h
       (\<lambda>name f s. do {
          r \<leftarrow> l_theap s t;
          lfile_upd f (\<lambda>x. x\<lparr>lf_tags := snd (ht_remove_entry (lf_tags x) (lt_value r))\<rparr>) s
        }) s = Some s'" and "l_theap s t = Some r" and "distinct (map snd h)"
  shows "s' = s\<lparr>l_fheap := \<lambda>f. if f \<in> snd ` set h then map_option (strip_tag (lt_value r)) (l_fheap s f) else l_fheap s f\<rparr>"
  using assms
proof (induction h arbitrary: s)
  case Nil
  then show ?case by simp
next
  case (Cons e h)
  obtain n f where e: "e = (n, f)" by fastforce
  obtain x where x: "l_fheap s f = Some x" using Cons.prems(1,2) by (auto simp: e lfile_upd_def elim!: bind_SomeE)
  let ?s1 = "s\<lparr>l_fheap := (l_fheap s)(f \<mapsto> strip_tag (lt_value r) x)\<rparr>"
  have "lfile_upd f (\<lambda>x. x\<lparr>lf_tags := snd (ht_remove_entry (lf_tags x) (lt_value r))\<rparr>) s = Some ?s1"
    using x by (simp add: lfile_upd_def strip_tag_def)
  with Cons.prems(1,2) have "ht_for_each h
       (\<lambda>name f s. do {
          r \<leftarrow> l_theap s t;
          lfile_upd f (\<lambda>x. x\<lparr>lf_tags := snd (ht_remove_entry (lf_tags x) (lt_value r))\<rparr>) s
        }) ?s1 = Some s'" by (simp add: e)
  from Cons.IH [OF this] Cons.prems(2,3) x show ?case by (auto simp: e fun_eq_iff)
qed

lemma tag_remove_state:
  assumes run: "ll_tag_remove t s = Some s'" and t: "l_theap s t = Some r" and L: "paired L s" and tabs: "ll_tables s"
  shows "s' = s\<lparr>l_fheap := \<lambda>f. map_option (strip_tag (lt_value r)) (l_fheap s f),
    l_tags := snd (ht_remove_entry (l_tags s) (lt_value r)), l_theap := (l_theap s)(t := None)\<rparr>"
proof -
  let ?h = "\<lambda>f. map_option (strip_tag (lt_value r)) (l_fheap s f)"
  have "inj_on snd (set (lt_files r))" unfolding pairedD(4) [OF L t] by (auto intro: inj_onI)
  then have ds: "distinct (map snd (lt_files r))" using pairedD(2) [OF L t] by (simp add: distinct_map)
  have same: "strip_tag (lt_value r) x = x" if f: "l_fheap s f = Some x" "f \<notin> snd ` set (lt_files r)" for f x
  proof -
    have "(f, t) \<notin> L" using f pairedD(4) [OF L t] by (force simp: ll_file_at_def)
    then have "lt_value r \<notin> set (keys (lf_tags x))"
      using pair_names(4) [OF tabs t f(1)] pairedD(3) [OF L f(1)] by auto
    then show ?thesis by (simp add: strip_tag_def ht_remove_absent)
  qed
  obtain s1 where s1: "ht_for_each (lt_files r)
       (\<lambda>name f s. do {
          r \<leftarrow> l_theap s t;
          lfile_upd f (\<lambda>x. x\<lparr>lf_tags := snd (ht_remove_entry (lf_tags x) (lt_value r))\<rparr>) s
        }) s = Some s1"
    "\<exists>q. l_theap s1 t = Some q \<and> s' = s1\<lparr>l_tags := snd (ht_remove_entry (l_tags s1) (lt_value q)), l_theap := (l_theap s1)(t := None)\<rparr>"
    using run t by (auto simp: ll_tag_remove_def elim!: bind_SomeE)
  have "(\<lambda>f. if f \<in> snd ` set (lt_files r) then ?h f else l_fheap s f) = ?h"
    using same by (auto simp: fun_eq_iff split: option.splits) (metis option.exhaust option.simps(8,9))
  with strip_loop [OF s1(1) t ds] have "s1 = s\<lparr>l_fheap := ?h\<rparr>" by simp
  with s1(2) t show ?thesis by auto
qed

lemma ok_tag_remove:
  assumes run: "ll_tag_remove t s = Some s'" and ok: "ll_ok R s" and t: "l_theap s t = Some r"
  shows "ll_ok (\<lambda>n k. R n k \<and> k \<noteq> lt_value r) s'"
proof -
  have inv: "ll_tables s" "ll_fresh s" "ll_inodes s" "ll_tagged s = R" using ok by (simp_all add: ll_ok_def)
  obtain L where L: "paired L s" using ok two_way_paired unfolding ll_ok_def by blast
  let ?v = "lt_value r"
  have st: "lf_name (strip_tag ?v x) = lf_name x"
    "distinct (keys (lf_tags x)) \<Longrightarrow> set (lf_tags (strip_tag ?v x)) = {e \<in> set (lf_tags x). fst e \<noteq> ?v}"
    "distinct (keys (lf_tags x)) \<Longrightarrow> distinct (keys (lf_tags (strip_tag ?v x)))" for x
    by (simp_all add: strip_tag_def set_ht_remove distinct_ht_remove)
  note e = tag_remove_state [OF run t L inv(1)]
  have fh: "l_fheap s' f = Some y \<longleftrightarrow> (\<exists>x. l_fheap s f = Some x \<and> y = strip_tag ?v x)" for f y by (auto simp: e)
  have th: "l_theap s' u = Some q \<longleftrightarrow> l_theap s u = Some q \<and> lt_value q \<noteq> ?v" for u q
    using tag_at [OF inv(1) t, of u q] t by (auto simp: e)
  have names: "ll_file_at f s' = ll_file_at f s" "ll_tag_at u s' = Some k \<longleftrightarrow> ll_tag_at u s = Some k \<and> k \<noteq> ?v" for f u k
    by (simp_all add: ll_file_at_def e option.map_comp comp_def st(1)) (auto simp: ll_tag_at_iff th [unfolded e, simplified])
  have "paired L s'"
    unfolding paired_def names
  proof (intro conjI allI impI)
    fix f y assume "l_fheap s' f = Some y"
    then obtain x where x: "l_fheap s f = Some x" "y = strip_tag ?v x" unfolding fh by blast
    note dx = pairedD(1) [OF L x(1)]
    show "distinct (keys (lf_tags y))" using st(3) [OF dx] x(2) by simp
    show "set (lf_tags y) = {(k, u). (f, u) \<in> L \<and> ll_tag_at u s = Some k \<and> k \<noteq> ?v}"
      unfolding x(2) st(2) [OF dx] pairedD(3) [OF L x(1)] by auto
  next
    fix u q assume "l_theap s' u = Some q"
    then have q: "l_theap s u = Some q" unfolding th by blast
    show "distinct (keys (lt_files q))" "set (lt_files q) = {(n, g). (g, u) \<in> L \<and> ll_file_at g s = Some n}"
      using pairedD(2,4) [OF L q] by simp_all
  qed
  note two_way = paired_two_way [OF this] and tagged = paired_tagged [OF this]
  have "ll_tagged s' n k \<longleftrightarrow> R n k \<and> k \<noteq> ?v" for n k
    unfolding inv(4) [symmetric] paired_tagged [OF L] tagged names by blast
  moreover have "ll_tables s'"
    unfolding ll_tables_def fh th
  proof (intro conjI allI)
    have d: "distinct (keys (l_tags s))" using inv(1) by (simp add: ll_tables_def)
    show "distinct (keys (l_tags s'))" using d by (simp add: e distinct_ht_remove)
    show "distinct (keys (l_files s'))" using inv(1) by (simp add: ll_tables_def e)
    show "(k, u) \<in> set (l_tags s') \<longleftrightarrow> (\<exists>q. (l_theap s u = Some q \<and> lt_value q \<noteq> ?v) \<and> lt_value q = k)" for k u
      using inv(1) by (auto simp: ll_tables_def e set_ht_remove [OF d])
    show "(n, f) \<in> set (l_files s') \<longleftrightarrow> (\<exists>y. (\<exists>x. l_fheap s f = Some x \<and> y = strip_tag ?v x) \<and> lf_name y = n)" for n f
      using inv(1) st(1) by (auto simp: ll_tables_def e)
  qed
  moreover have "ll_fresh s'" using inv(2) unfolding ll_fresh_def fh th by (auto simp: e)
  moreover have "ll_inodes s'" using inv(3) ino_cong [of s' s] by (simp add: ll_ino_def e)
  ultimately show ?thesis using two_way by (simp add: ll_ok_def fun_eq_iff)
qed

end
