(* ===== verification/Tag_Store.thy ===== *)
theory Tag_Store
  imports Cutil_Hash
begin

text \<open>
  The contract that the operations rely on when they walk a table of selected tags: a routine that
  takes one tag and one file and adds the pair to the relation, or removes it. \<open>store R s\<close> says that the
  state \<open>s\<close> is consistent and represents the relation \<open>R\<close> of names of files and names of tags;
  \<open>tag_at\<close> and \<open>file_at\<close> read the names behind the pointers, and are \<open>None\<close> for dead ones. The lemmas
  on whole tables are proved here once, and the variants of the program that fulfil the contract
  interpret it: \<^verbatim>\<open>tag_file\<close> and \<^verbatim>\<open>untag_file\<close> of \<^verbatim>\<open>fuse_lowlevel\<close> in theory \<open>Ll_Rel\<close>, those of
  \<^verbatim>\<open>fuse_sqlite3\<close> in theory \<open>Sq_Rel\<close>.
\<close>

text \<open>The relation after a file gets and loses tags.\<close>

abbreviation with_tags :: "(cstring \<Rightarrow> cstring \<Rightarrow> bool) \<Rightarrow> cstring \<Rightarrow> cstring list \<Rightarrow> cstring \<Rightarrow> cstring \<Rightarrow> bool" where
  "with_tags R name ks \<equiv> \<lambda>n k. (n = name \<and> k \<in> set ks) \<or> R n k"

abbreviation without_tags :: "(cstring \<Rightarrow> cstring \<Rightarrow> bool) \<Rightarrow> cstring \<Rightarrow> cstring list \<Rightarrow> cstring \<Rightarrow> cstring \<Rightarrow> bool" where
  "without_tags R name ks \<equiv> \<lambda>n k. R n k \<and> \<not> (n = name \<and> k \<in> set ks)"

text \<open>One routine; \<open>effect R n ks\<close> is the relation after it ran for the file \<open>n\<close> and the tags \<open>ks\<close>.\<close>

locale tag_routine =
  fixes store :: "(cstring \<Rightarrow> cstring \<Rightarrow> bool) \<Rightarrow> 's \<Rightarrow> bool"
    and tag_at :: "'t \<Rightarrow> 's \<Rightarrow> cstring option"
    and file_at :: "'f \<Rightarrow> 's \<Rightarrow> cstring option"
    and keep :: "'s \<Rightarrow> 's \<Rightarrow> bool"
    and routine :: "'t \<Rightarrow> 'f \<Rightarrow> 's \<Rightarrow> 's option"
    and effect :: "(cstring \<Rightarrow> cstring \<Rightarrow> bool) \<Rightarrow> cstring \<Rightarrow> cstring list \<Rightarrow> cstring \<Rightarrow> cstring \<Rightarrow> bool"
  assumes live: "store R s \<Longrightarrow> tag_at t s = Some k \<Longrightarrow> file_at f s = Some n \<Longrightarrow> \<exists>s'. routine t f s = Some s'"
    and dead: "routine t f s = Some s' \<Longrightarrow> \<exists>k n. tag_at t s = Some k \<and> file_at f s = Some n"
    and one: "routine t f s = Some s' \<Longrightarrow> store R s \<Longrightarrow> tag_at t s = Some k \<Longrightarrow> file_at f s = Some n \<Longrightarrow>
      store (effect R n [k]) s'"
    and names: "routine t f s = Some s' \<Longrightarrow> tag_at u s' = tag_at u s \<and> file_at g s' = file_at g s"
    and kept: "routine t f s = Some s' \<Longrightarrow> keep s s'"
    and keep_refl: "keep s s"
    and keep_trans: "keep s s' \<Longrightarrow> keep s' s'' \<Longrightarrow> keep s s''"
    and effect_Nil: "effect R n [] = R"
    and effect_Cons: "effect (effect R n [k]) n ks = effect R n (k # ks)"
begin

lemma loop:
  assumes "store R s" and "file_at f s = Some n" and "\<forall>(k, t)\<in>set h. tag_at t s = Some k"
  shows "\<exists>s'. ht_for_each h (\<lambda>k t s. routine t f s) s = Some s' \<and> store (effect R n (keys h)) s' \<and> keep s s' \<and>
    (\<forall>u. tag_at u s' = tag_at u s) \<and> (\<forall>g. file_at g s' = file_at g s)"
  using assms
proof (induction h arbitrary: s R)
  case Nil
  then show ?case by (simp add: effect_Nil keep_refl)
next
  case (Cons e h)
  obtain k t where e: "e = (k, t)" by fastforce
  with Cons.prems(3) have t: "tag_at t s = Some k" by simp
  obtain s1 where s1: "routine t f s = Some s1" using live [OF Cons.prems(1) t Cons.prems(2)] by blast
  have "file_at f s1 = Some n" "\<forall>(k, t)\<in>set h. tag_at t s1 = Some k"
    using Cons.prems(2,3) names [OF s1] by auto
  from Cons.IH [OF one [OF s1 Cons.prems(1) t Cons.prems(2)] this] obtain s2 where
    s2: "ht_for_each h (\<lambda>k t s. routine t f s) s1 = Some s2" "store (effect R n (k # keys h)) s2" "keep s1 s2"
      "\<forall>u. tag_at u s2 = tag_at u s1" "\<forall>g. file_at g s2 = file_at g s1"
    unfolding effect_Cons by blast
  from s2(4,5) names [OF s1] have "\<forall>u. tag_at u s2 = tag_at u s" "\<forall>g. file_at g s2 = file_at g s" by simp_all
  with s1 s2(1,2) keep_trans [OF kept [OF s1] s2(3)] show ?case by (simp add: e)
qed

lemma loop_dead:
  assumes "\<exists>(k, t)\<in>set h. tag_at t s = None"
  shows "ht_for_each h (\<lambda>k t s. routine t f s) s = None"
  using assms
proof (induction h arbitrary: s)
  case Nil
  then show ?case by simp
next
  case (Cons e h)
  obtain k t where e: "e = (k, t)" by fastforce
  show ?case
  proof (cases "routine t f s")
    case None
    then show ?thesis by (simp add: e)
  next
    case (Some s1)
    from dead [OF Some] have "tag_at t s \<noteq> None" by auto
    with Cons.prems e names [OF Some] have "\<exists>(k, t)\<in>set h. tag_at t s1 = None" by auto
    with Cons.IH [OF this] Some show ?thesis by (simp add: e)
  qed
qed

text \<open>What a loop that ran can have met.\<close>

lemma loop_ran:
  assumes "ht_for_each h (\<lambda>k t s. routine t f s) s = Some s'" and "store R s" and "file_at f s = Some n"
    and "\<And>k t. (k, t) \<in> set h \<Longrightarrow> tag_at t s = None \<or> tag_at t s = Some k"
  shows "store (effect R n (keys h)) s' \<and> keep s s' \<and>
    (\<forall>u. tag_at u s' = tag_at u s) \<and> (\<forall>g. file_at g s' = file_at g s)"
proof -
  have "\<not> (\<exists>(k, t)\<in>set h. tag_at t s = None)" using loop_dead [of h s f] assms(1) by auto
  with assms(4) have "\<forall>(k, t)\<in>set h. tag_at t s = Some k" by fastforce
  from loop [OF assms(2,3) this] assms(1) show ?thesis by simp
qed

end

text \<open>A store of tags has both routines, and can move a file from some tags to others.\<close>

locale tag_store =
  link: tag_routine store tag_at file_at keep link with_tags +
  unlink: tag_routine store tag_at file_at keep unlink without_tags
  for store :: "(cstring \<Rightarrow> cstring \<Rightarrow> bool) \<Rightarrow> 's \<Rightarrow> bool"
    and tag_at :: "'t \<Rightarrow> 's \<Rightarrow> cstring option"
    and file_at :: "'f \<Rightarrow> 's \<Rightarrow> cstring option"
    and keep :: "'s \<Rightarrow> 's \<Rightarrow> bool"
    and link :: "'t \<Rightarrow> 'f \<Rightarrow> 's \<Rightarrow> 's option"
    and unlink :: "'t \<Rightarrow> 'f \<Rightarrow> 's \<Rightarrow> 's option"
begin

lemma move:
  assumes "store R s" and "file_at f s = Some n" and "\<forall>(k, t)\<in>set h. tag_at t s = Some k"
    and "\<forall>(k, t)\<in>set h'. tag_at t s = Some k"
  shows "\<exists>s1 s2. ht_for_each h (\<lambda>k t s. unlink t f s) s = Some s1 \<and>
    ht_for_each h' (\<lambda>k t s. link t f s) s1 = Some s2 \<and>
    store (with_tags (without_tags R n (keys h)) n (keys h')) s2 \<and> keep s s2"
proof -
  obtain s1 where s1: "ht_for_each h (\<lambda>k t s. unlink t f s) s = Some s1" "store (without_tags R n (keys h)) s1"
    "keep s s1" "\<forall>u. tag_at u s1 = tag_at u s" "\<forall>g. file_at g s1 = file_at g s"
    using unlink.loop [OF assms(1-3)] by blast
  have "file_at f s1 = Some n" "\<forall>(k, t)\<in>set h'. tag_at t s1 = Some k" using s1(4,5) assms(2,4) by auto
  from link.loop [OF s1(2) this] s1(1) link.keep_trans [OF s1(3)] show ?thesis by fastforce
qed

end

lemma with_tags_twice: "with_tags (with_tags R n [k]) n ks = with_tags R n (k # ks)"
  by (auto simp: fun_eq_iff)

lemma without_tags_twice: "without_tags (without_tags R n [k]) n ks = without_tags R n (k # ks)"
  by (auto simp: fun_eq_iff)

end
