(* ===== verification/Ll_Rel.thy ===== *)
theory Ll_Rel
  imports Ll_Inv Tag_Store
begin

text \<open>
  What the callbacks of \<^verbatim>\<open>fuse_lowlevel\<close> do to the relation of files and tags, and the invariant
  under every sequence of requests.
\<close>

lemma ll_okD: "ll_ok R s \<Longrightarrow> ll_tables s" "ll_ok R s \<Longrightarrow> ll_fresh s" "ll_ok R s \<Longrightarrow> ll_two_way s"
  "ll_ok R s \<Longrightarrow> ll_inodes s" "ll_ok R s \<Longrightarrow> ll_tagged s = R"
  by (simp_all add: ll_ok_def)

lemma tag_get_value:
  assumes ok: "ll_ok R s" and "ll_tag_get k s = t" and "l_theap s t = Some r"
  shows "lt_value r = k"
proof -
  have "t \<noteq> INVALID_TAG" using assms(3) ll_okD(2) [OF ok] unfolding ll_fresh_def by blast
  then have "ht_find (l_tags s) k = Some t"
    using assms(2) by (auto simp: ll_tag_get_def ht_get_entry_def split: option.splits)
  then have "(k, t) \<in> set (l_tags s)" by (rule ht_find_SomeD)
  with ll_okD(1) [OF ok] assms(3) show ?thesis unfolding ll_tables_def by (metis option.inject)
qed

lemma file_get_name:
  assumes ok: "ll_ok R s" and "ht_get_entry (l_files s) n = Some f"
  shows "\<exists>x. l_fheap s f = Some x \<and> lf_name x = n"
proof -
  have "(n, f) \<in> set (l_files s)" using assms(2) by (simp add: ht_get_entry_def ht_find_SomeD)
  with ll_okD(1) [OF ok] show ?thesis unfolding ll_tables_def by blast
qed

lemma file_get_or_create_name:
  assumes run: "ll_file_get_or_create n s = Some (f, s')" and ok: "ll_ok R s"
  shows "\<exists>x. l_fheap s' f = Some x \<and> lf_name x = n"
proof (cases "ht_get_entry (l_files s) n")
  case (Some g)
  with run file_get_name [OF ok Some] show ?thesis by (simp add: ll_file_get_or_create_def)
next
  case None
  then obtain s1 where s1: "ll_file_new n s = Some (f, s1)" "s' = s1\<lparr>l_files := l_files s1 @ [(n, f)]\<rparr>"
    using run by (auto simp: ll_file_get_or_create_def elim!: bind_SomeE)
  from file_new_effect [OF s1(1) ll_okD(4) [OF ok]] obtain x where
    "lf_name x = n" "ll_rel s1 = ll_rel (s\<lparr>l_fheap := (l_fheap s)(f \<mapsto> x), l_fnext := Suc f\<rparr>)" by blast
  then show ?thesis by (simp add: s1(2) ll_rel_def)
qed

lemma ok_tag_get_or_create [keeps]:
  assumes "ll_tag_get_or_create k s = (t, s')" and ok: "ll_ok R s"
  shows "ll_ok R s'"
proof (cases "ht_get_entry (l_tags s) k")
  case (Some u)
  with assms show ?thesis by (simp add: ll_tag_get_or_create_def)
next
  case None
  note inv = ll_okD [OF ok]
  let ?t = "TagAt (l_tnext s)" and ?r = "\<lparr>lt_value = k, lt_files = []\<rparr>"
  let ?s = "s\<lparr>l_theap := (l_theap s)(?t \<mapsto> ?r), l_tnext := Suc (l_tnext s), l_tags := l_tags s @ [(k, ?t)]\<rparr>"
  have s': "s' = ?s" using assms(1) None
    by (auto simp: ll_tag_get_or_create_def ll_tag_new_def ht_create_def Let_def)
  have new: "l_theap s ?t = None"
  proof (cases "l_theap s ?t")
    case (Some r)
    with inv(2) obtain n where "n < l_tnext s" "?t = TagAt n" unfolding ll_fresh_def by blast
    then show ?thesis by simp
  qed
  have nokey: "k \<notin> set (keys (l_tags s))" using None by (simp add: ht_get_entry_def ht_find_None_iff)
  have "ll_tables ?s" using inv(1) nokey new unfolding ll_tables_def by auto
  moreover have "ll_fresh ?s" using inv(2) unfolding ll_fresh_def by (auto simp: less_Suc_eq)
  moreover have "ll_two_way ?s"
    unfolding ll_two_way_def
  proof (intro conjI allI impI)
    fix f x assume "l_fheap ?s f = Some x"
    then have x: "l_fheap s f = Some x" by simp
    then show "distinct (keys (lf_tags x))" using inv(3) unfolding ll_two_way_def by blast
    fix j u assume "(j, u) \<in> set (lf_tags x)"
    from two_wayD [OF inv(3) x this] obtain r where
      r: "l_theap s u = Some r" "lt_value r = j" "(lf_name x, f) \<in> set (lt_files r)" .
    with new have "u \<noteq> ?t" by auto
    with r show "\<exists>r. l_theap ?s u = Some r \<and> lt_value r = j \<and> (lf_name x, f) \<in> set (lt_files r)"
      by (intro exI [of _ r]) simp
  next
    fix u r assume u: "l_theap ?s u = Some r"
    then show "distinct (keys (lt_files r))" using inv(3) unfolding ll_two_way_def by (auto split: if_splits)
    fix n f assume "(n, f) \<in> set (lt_files r)"
    with u have old: "l_theap s u = Some r" by (auto split: if_splits)
    from two_wayD' [OF inv(3) old \<open>(n, f) \<in> set (lt_files r)\<close>] obtain x where
      "l_fheap s f = Some x" "lf_name x = n" "(lt_value r, u) \<in> set (lf_tags x)" .
    then show "\<exists>x. l_fheap ?s f = Some x \<and> lf_name x = n \<and> (lt_value r, u) \<in> set (lf_tags x)"
      by (intro exI [of _ x]) simp
  qed
  moreover have "ll_inodes ?s" using inv(4) ino_cong [of ?s s] by (simp add: ll_ino_def)
  moreover have "ll_tagged ?s = ll_tagged s" by (simp add: ll_tagged_def fun_eq_iff)
  ultimately show ?thesis using inv(5) by (simp add: s' ll_ok_def)
qed

subsection \<open>The callbacks that do not tag\<close>

lemma ok_lookup_entry [keeps]: "lookup_entry p st s = Some s' \<Longrightarrow> ll_ok R s \<Longrightarrow> ll_ok R s'"
  by (auto simp: lookup_entry_def Let_def elim!: bind_SomeE split: run_splits
      dest!: keeps [where R = R])

lemma ok_lookup: "ll_tag_lookup os parent name s = Some s' \<Longrightarrow> ll_ok R s \<Longrightarrow> ll_ok R s'"
  by (auto simp: ll_tag_lookup_def Let_def elim!: bind_SomeE split: run_splits dest!: keeps [where R = R])

lemma ok_quiet:
  "ll_tag_forget number n s = Some s' \<Longrightarrow> ll_ok R s \<Longrightarrow> ll_ok R s'"
  "ll_tag_getattr os number s = Some s' \<Longrightarrow> ll_ok R s \<Longrightarrow> ll_ok R s'"
  "ll_tag_open os number flags s = Some s' \<Longrightarrow> ll_ok R s \<Longrightarrow> ll_ok R s'"
  "ll_tag_opendir number s = Some s' \<Longrightarrow> ll_ok R s \<Longrightarrow> ll_ok R s'"
  "ll_tag_release os number fh s = Some s' \<Longrightarrow> ll_ok R s \<Longrightarrow> ll_ok R s'"
  "ll_tag_releasedir number s = Some s' \<Longrightarrow> ll_ok R s \<Longrightarrow> ll_ok R s'"
  by (auto simp: ll_tag_forget_def ll_tag_getattr_def ll_tag_open_def ll_tag_opendir_def ll_tag_release_def
      ll_tag_releasedir_def Let_def elim!: bind_SomeE split: run_splits dest!: keeps [where R = R])

lemma ok_more_quiet:
  "ll_tag_readdir os fl number len off fh s = Some (Returns s') \<Longrightarrow> ll_ok R s \<Longrightarrow> ll_ok R s'"
  "ll_tag_read os number len off fd s = Some s' \<Longrightarrow> ll_ok R s \<Longrightarrow> ll_ok R s'"
  "ll_tag_write os number buf len off fd s = Some s' \<Longrightarrow> ll_ok R s \<Longrightarrow> ll_ok R s'"
  "ll_tag_mknod os number name mode rdev s = Some s' \<Longrightarrow> ll_ok R s \<Longrightarrow> ll_ok R s'"
  "ll_tag_ioctl number cmd flags data s = Some s' \<Longrightarrow> ll_ok R s \<Longrightarrow> ll_ok R s'"
  by (auto simp: ll_tag_readdir_def ll_tag_read_def ll_tag_write_def ll_tag_mknod_def ll_tag_ioctl_def
      ll_ioctl_read_tags_def Let_def elim!: bind_SomeE split: run_splits outcome.splits dest!: keeps [where R = R])

lemma ok_mkdir: "ll_tag_mkdir os number name s = Some s' \<Longrightarrow> ll_ok R s \<Longrightarrow> ll_ok R s'"
  by (auto simp: ll_tag_mkdir_def Let_def elim!: bind_SomeE split: run_splits dest!: keeps [where R = R])

lemma ok_setattr: "ll_tag_setattr os number attr to_set s = Some s' \<Longrightarrow> ll_ok R s \<Longrightarrow> ll_ok R s'"
  by (auto simp: ll_tag_setattr_def Let_def elim!: bind_SomeE split: run_splits dest!: keeps [where R = R])

subsection \<open>Pairs of a file and a tag\<close>

lemma no_invalid_tag: "ll_ok R s \<Longrightarrow> l_theap s INVALID_TAG = None"
  using ll_okD(2) [of R s] unfolding ll_fresh_def by (cases "l_theap s INVALID_TAG") blast+

lemma tag_get_live:
  assumes ok: "ll_ok R s" and "ll_tag_exist k s"
  shows "\<exists>r. l_theap s (ll_tag_get k s) = Some r \<and> lt_value r = k"
proof -
  from assms(2) obtain t where t: "ht_find (l_tags s) k = Some t" "ll_tag_get k s = t"
    by (auto simp: ll_tag_exist_def ll_tag_get_def ht_get_entry_def split: option.splits)
  then have "(k, t) \<in> set (l_tags s)" by (simp add: ht_find_SomeD)
  with ll_okD(1) [OF ok] t(2) show ?thesis unfolding ll_tables_def by blast
qed

text \<open>Linking and unlinking change no key of the tables and no inode.\<close>

definition same_keys :: "'w ll \<Rightarrow> 'w ll \<Rightarrow> bool" where
  "same_keys s s' \<longleftrightarrow> l_tags s' = l_tags s \<and> l_files s' = l_files s \<and> ll_ino s' = ll_ino s \<and>
     l_replies s' = l_replies s"

lemma same_keysD: "same_keys s s' \<Longrightarrow> ll_tag_get k s' = ll_tag_get k s" "same_keys s s' \<Longrightarrow> ll_tag_exist k s' = ll_tag_exist k s"
  "same_keys s s' \<Longrightarrow> ll_file_get n s' = ll_file_get n s"
  by (simp_all add: same_keys_def ll_tag_get_def ll_tag_exist_def ll_file_get_def)

lemma same_keys_refl: "same_keys s s"
  by (simp add: same_keys_def)

lemma same_keys_trans: "same_keys s s' \<Longrightarrow> same_keys s' s'' \<Longrightarrow> same_keys s s''"
  by (simp add: same_keys_def)

lemma tag_file_live:
  "ll_tag_file t f s = Some s' \<Longrightarrow> l_theap s t \<noteq> None \<and> l_fheap s f \<noteq> None \<and> same_keys s s'"
  "ll_untag_file t f s = Some s' \<Longrightarrow> l_theap s t \<noteq> None \<and> l_fheap s f \<noteq> None \<and> same_keys s s'"
  by (auto simp: ll_tag_file_def ll_untag_file_def ltag_upd_def lfile_upd_def same_keys_def ll_ino_def
      elim!: bind_SomeE)

lemma tag_file_total:
  "l_theap s t = Some r \<Longrightarrow> l_fheap s f = Some x \<Longrightarrow> \<exists>s'. ll_tag_file t f s = Some s'"
  "l_theap s t = Some r \<Longrightarrow> l_fheap s f = Some x \<Longrightarrow> \<exists>s'. ll_untag_file t f s = Some s'"
  by (simp_all add: ll_tag_file_def ll_untag_file_def ltag_upd_def lfile_upd_def)

lemma file_get_live:
  "ll_ok R s \<Longrightarrow> ll_file_get name s = Some f \<Longrightarrow> \<exists>x. l_fheap s f = Some x \<and> lf_name x = name"
  using file_get_name by (simp add: ll_file_get_def)

text \<open>Both routines fulfil the contract of \<open>tag_store\<close>.\<close>

lemma tag_file_names:
  "ll_tag_file t f s = Some s' \<Longrightarrow> ll_tag_at u s' = ll_tag_at u s \<and> ll_file_at g s' = ll_file_at g s"
  "ll_untag_file t f s = Some s' \<Longrightarrow> ll_tag_at u s' = ll_tag_at u s \<and> ll_file_at g s' = ll_file_at g s"
  by (auto simp: ll_tag_file_def ll_untag_file_def ltag_upd_def lfile_upd_def ll_tag_at_def ll_file_at_def
      elim!: bind_SomeE)

interpretation lls: tag_store ll_ok ll_tag_at ll_file_at same_keys ll_tag_file ll_untag_file
proof unfold_locales
  fix R :: "cstring \<Rightarrow> cstring \<Rightarrow> bool" and s s' :: "'w ll" and t f k n
  assume ok: "ll_ok R s" and at: "ll_tag_at t s = Some k" "ll_file_at f s = Some n"
  from at obtain r x where r: "l_theap s t = Some r" "lt_value r = k" and x: "l_fheap s f = Some x" "lf_name x = n"
    by (auto simp: ll_tag_at_iff ll_file_at_iff)
  show "\<exists>s'. ll_tag_file t f s = Some s'" "\<exists>s'. ll_untag_file t f s = Some s'"
    using tag_file_total [OF r(1) x(1)] by blast+
  have "(\<lambda>m j. if m = lf_name x \<and> j = lt_value r then True else R m j) = with_tags R n [k]"
    "(\<lambda>m j. if m = lf_name x \<and> j = lt_value r then False else R m j) = without_tags R n [k]"
    using r(2) x(2) by (auto simp: fun_eq_iff)
  then show "ll_tag_file t f s = Some s' \<Longrightarrow> ll_ok (with_tags R n [k]) s'"
    "ll_untag_file t f s = Some s' \<Longrightarrow> ll_ok (without_tags R n [k]) s'"
    using ok_tag_file [OF _ ok r(1) x(1), of s'] ok_untag_file [OF _ ok r(1) x(1), of s'] by simp_all
qed (auto simp: ll_tag_at_def ll_file_at_def with_tags_twice without_tags_twice same_keys_refl fun_eq_iff
    dest: tag_file_names tag_file_live intro: same_keys_trans)

lemma ll_tag_at_get: "ll_ok R s \<Longrightarrow> ll_tag_exist k s \<Longrightarrow> ll_tag_at (ll_tag_get k s) s = Some k"
  by (simp add: ll_tag_at_iff tag_get_live)

lemma ll_tag_at_cases: "ll_ok R s \<Longrightarrow> ll_tag_at (ll_tag_get k s) s = None \<or> ll_tag_at (ll_tag_get k s) s = Some k"
  using tag_get_value [OF _ refl, of R s k] by (cases "l_theap s (ll_tag_get k s)") (auto simp: ll_tag_at_def)

lemma ll_file_at_get: "ll_ok R s \<Longrightarrow> ll_file_get n s = Some f \<Longrightarrow> ll_file_at f s = Some n"
  by (simp add: ll_file_at_iff file_get_live)

lemma ll_tag_file_effect:
  "ll_tag_file (ll_tag_get k s) f s = Some s' \<Longrightarrow> ll_ok R s \<Longrightarrow> ll_file_at f s = Some n \<Longrightarrow> ll_ok (with_tags R n [k]) s'"
  "ll_untag_file (ll_tag_get k s) f s = Some s' \<Longrightarrow> ll_ok R s \<Longrightarrow> ll_file_at f s = Some n \<Longrightarrow> ll_ok (without_tags R n [k]) s'"
  by (metis (lifting) lls.link.dead lls.link.one ll_tag_at_cases option.distinct(1))
    (metis (lifting) lls.unlink.dead lls.unlink.one ll_tag_at_cases option.distinct(1))

text \<open>The loops of \<^verbatim>\<open>rename\<close> over the names in an inode are loops over the table of these tags.\<close>

definition tags_named :: "cstring list \<Rightarrow> 'w ll \<Rightarrow> tptr ht" where
  "tags_named ks s = map (\<lambda>k. (k, ll_tag_get k s)) ks"

lemma tags_named_simps [simp]: "tags_named (k # ks) s = (k, ll_tag_get k s) # tags_named ks s"
  "tags_named [] s = []" "keys (tags_named ks s) = ks" "same_keys s s' \<Longrightarrow> tags_named ks s' = tags_named ks s"
  by (simp_all add: tags_named_def comp_def same_keysD)

lemma rename_loops:
  "rename_untag ks f s = ht_for_each (tags_named ks s) (\<lambda>k t s. ll_untag_file t f s) s"
  "rename_tag ks f s = ht_for_each (tags_named ks s) (\<lambda>k t s. ll_tag_file t f s) s"
proof -
  show "rename_untag ks f s = ht_for_each (tags_named ks s) (\<lambda>k t s. ll_untag_file t f s) s"
  proof (induction ks arbitrary: s)
    case (Cons k ks)
    then show ?case
      by (cases "ll_untag_file (ll_tag_get k s) f s") (auto dest: lls.unlink.kept)
  qed simp
  show "rename_tag ks f s = ht_for_each (tags_named ks s) (\<lambda>k t s. ll_tag_file t f s) s"
  proof (induction ks arbitrary: s)
    case (Cons k ks)
    then show ?case
      by (cases "ll_tag_file (ll_tag_get k s) f s") (auto dest: lls.link.kept)
  qed simp
qed

lemma tags_named_at: "ll_ok R s \<Longrightarrow> (k, t) \<in> set (tags_named ks s) \<Longrightarrow> ll_tag_at t s = None \<or> ll_tag_at t s = Some k"
  using ll_tag_at_cases by (auto simp: tags_named_def)

lemma tags_named_live:
  "ll_ok R s \<Longrightarrow> \<forall>k\<in>set ks. ll_tag_exist k s \<Longrightarrow> \<forall>(k, t)\<in>set (tags_named ks s). ll_tag_at t s = Some k"
  using ll_tag_at_get by (auto simp: tags_named_def)

lemma rename_untag_effect:
  assumes "rename_untag ks f s = Some s'" and "ll_ok R s" and "ll_file_get name s = Some f"
  shows "ll_ok (without_tags R name ks) s' \<and> same_keys s s'"
  using lls.unlink.loop_ran [OF assms(1) [unfolded rename_loops] assms(2) ll_file_at_get [OF assms(2,3)]
      tags_named_at [OF assms(2)]] by simp

lemma rename_tag_effect:
  assumes "rename_tag ks f s = Some s'" and "ll_ok R s" and "ll_file_get name s = Some f"
  shows "ll_ok (with_tags R name ks) s' \<and> same_keys s s'"
  using lls.link.loop_ran [OF assms(1) [unfolded rename_loops] assms(2) ll_file_at_get [OF assms(2,3)]
      tags_named_at [OF assms(2)]] by simp

lemma rename_moves:
  assumes ok: "ll_ok R s" and f: "ll_file_get name s = Some f"
    and "\<forall>k\<in>set ks. ll_tag_exist k s" and "\<forall>k\<in>set js. ll_tag_exist k s"
  shows "\<exists>s1 s2. rename_untag ks f s = Some s1 \<and> rename_tag js f s1 = Some s2 \<and>
    ll_ok (with_tags (without_tags R name ks) name js) s2 \<and> same_keys s s2"
proof -
  note live = tags_named_live [OF ok]
  obtain s1 s2 where s: "rename_untag ks f s = Some s1" "ht_for_each (tags_named js s) (\<lambda>k t s. ll_tag_file t f s) s1 = Some s2"
    "ll_ok (with_tags (without_tags R name ks) name js) s2" "same_keys s s2"
    using lls.move [OF ok ll_file_at_get [OF ok f] live [OF assms(3)] live [OF assms(4)]]
    unfolding rename_loops by auto
  have "same_keys s s1" using rename_untag_effect [OF s(1) ok f] by simp
  then have "tags_named js s1 = tags_named js s" by simp
  with s have "rename_tag js f s1 = Some s2" by (simp add: rename_loops)
  with s show ?thesis by blast
qed

subsection \<open>The callbacks that tag\<close>

lemma link_effect:
  assumes run: "ll_tag_link number newparent name s = Some s'" and ok: "ll_ok R s"
  shows "ll_ok R s' \<or> (\<exists>p par k. inode_get newparent s = Some p \<and> l_iheap s p = Some par \<and> i_name par = Some k \<and>
    ll_ok (with_tags R name [k]) s')"
proof -
  have step: "ll_ok (with_tags R name [k]) s2"
    if "next_gen_number s = (g, s0)" and f: "ll_file_get_or_create name s0 = Some (f, s1)"
      and tag: "ll_tag_file (ll_tag_get k s1) f s1 = Some s2" for f k g s0 s1 s2
  proof -
    have ok0: "ll_ok R s0" using ok_next_gen [OF that(1) ok] .
    from file_get_or_create_name [OF f ok0] have "ll_file_at f s1 = Some name" by (simp add: ll_file_at_iff)
    with ll_tag_file_effect(1) [OF tag ok_file_get_or_create [OF f ok0]] show ?thesis by blast
  qed
  show ?thesis using run ok
    by (auto simp: ll_tag_link_def Let_def elim!: bind_SomeE split: run_splits; metis (no_types, lifting) step [simplified])
qed

lemma link_total:
  assumes ok: "ll_ok R s"
    and i: "inode_get number s = Some q" "l_iheap s q = Some i" "\<not> i_is_directory i" "i_name i = Some name"
    and p: "inode_get newparent s = Some p" "l_iheap s p = Some par" "i_is_directory par" "i_name par = Some k"
    and known: "ll_file_get name s = Some f" "ll_tag_exist k s"
  shows "\<exists>s'. ll_tag_link number newparent name s = Some s' \<and> ll_ok (with_tags R name [k]) s' \<and>
    l_replies s' = l_replies s @
      [Reply_entry \<lparr>e_ino = i_number i, e_generation = fst (next_gen_number s), e_attr = i_st i\<rparr>]"
proof -
  obtain g s0 where g: "next_gen_number s = (g, s0)" by fastforce
  have ok0: "ll_ok R s0" using ok_next_gen [OF g ok] .
  have keys: "l_tags s0 = l_tags s" "l_files s0 = l_files s"
    using g by (auto simp: next_gen_number_def Let_def split: if_splits)
  have f0: "ll_file_get name s0 = Some f" "ll_tag_exist k s0"
    using known by (simp_all add: ll_file_get_def ll_tag_exist_def ll_tag_get_def keys)
  note x = ll_file_at_get [OF ok0 f0(1)]
  obtain s1 where s1: "ll_tag_file (ll_tag_get k s0) f s0 = Some s1"
    using lls.link.live [OF ok0 ll_tag_at_get [OF ok0 f0(2)] x] by blast
  have "l_replies s1 = l_replies s"
    using tag_file_live(1) [OF s1] next_gen_eq_silent [OF g] by (simp add: same_keys_def)
  with ll_tag_file_effect(1) [OF s1 ok0 x] i p g f0(1) s1 show ?thesis
    by (simp add: ll_tag_link_def ll_file_get_or_create_def ll_file_get_def)
qed

lemma unlink_effect:
  assumes run: "ll_tag_unlink parent name s = Some s'" and ok: "ll_ok R s"
  shows "ll_ok R s' \<or> (\<exists>p par k. inode_get parent s = Some p \<and> l_iheap s p = Some par \<and> i_name par = Some k \<and>
    ll_ok (without_tags R name [k]) s')"
proof -
  have step: "ll_ok (without_tags R name [k]) s2"
    if "ll_file_get name s = Some f" and "ll_untag_file (ll_tag_get k s) f s = Some s2" for f k s2
    using ll_tag_file_effect(2) [OF that(2) ok ll_file_at_get [OF ok that(1)]] by blast
  show ?thesis using run ok
    by (auto simp: ll_tag_unlink_def Let_def elim!: bind_SomeE split: run_splits; metis (no_types, lifting) step [simplified])
qed

lemma unlink_total:
  assumes ok: "ll_ok R s" and "parent \<noteq> 1"
    and p: "inode_get parent s = Some p" "l_iheap s p = Some par" "i_is_directory par" "i_name par = Some k"
      "i_selected_tags par = Some sel" "ht_entry_count sel \<le> 1"
    and known: "ll_file_get name s = Some f" "ll_tag_exist k s"
  shows "\<exists>s'. ll_tag_unlink parent name s = Some s' \<and> ll_ok (without_tags R name [k]) s' \<and>
    l_replies s' = l_replies s @ [Reply_err 0]"
proof -
  note x = ll_file_at_get [OF ok known(1)]
  obtain s1 where s1: "ll_untag_file (ll_tag_get k s) f s = Some s1"
    using lls.unlink.live [OF ok ll_tag_at_get [OF ok known(2)] x] by blast
  have "l_replies s1 = l_replies s" using tag_file_live(2) [OF s1] by (simp add: same_keys_def)
  moreover have "ll_tag_get k s \<noteq> INVALID_TAG" using known(2) by (simp add: ll_tag_exist_def)
  ultimately show ?thesis using ll_tag_file_effect(2) [OF s1 ok x] assms(2) p known(1) s1
    by (simp add: ll_tag_unlink_def)
qed

lemma rename_effect:
  assumes run: "ll_tag_rename parent name newparent newname s = Some s'" and ok: "ll_ok R s"
  shows "ll_ok R s' \<or> (\<exists>op np oi ni. inode_get parent s = Some op \<and> l_iheap s op = Some oi \<and>
    inode_get newparent s = Some np \<and> l_iheap s np = Some ni \<and>
    ll_ok (with_tags (without_tags R name (i_tag oi)) name (i_tag ni)) s')"
proof -
  have step: "ll_ok (with_tags (without_tags R name ks) name js) s2"
    if f: "ll_file_get name s = Some f" and s1: "rename_untag ks f s = Some s1" and "rename_tag js f s1 = Some s2"
    for f ks js s1 s2
  proof -
    have "ll_ok (without_tags R name ks) s1" "same_keys s s1" using rename_untag_effect [OF s1 ok f] by blast+
    with rename_tag_effect [OF that(3) this(1)] f same_keysD(3) [OF this(2)] show ?thesis by simp
  qed
  from run ok consider "ll_ok R s'" | op np f oi ni s1 s2 where "inode_get parent s = Some op" "l_iheap s op = Some oi"
    "inode_get newparent s = Some np" "l_iheap s np = Some ni" "ll_file_get name s = Some f"
    "rename_untag (i_tag oi) f s = Some s1" "rename_tag (i_tag ni) f s1 = Some s2" "s' = fuse_reply (Reply_err 0) s2"
    by (auto simp: ll_tag_rename_def Let_def elim!: bind_SomeE split: run_splits)
  then show ?thesis
  proof cases
    case 1
    then show ?thesis by (rule disjI1)
  next
    case 2
    from step [OF 2(5-7)] have "ll_ok (with_tags (without_tags R name (i_tag oi)) name (i_tag ni)) s'"
      unfolding 2(8) ok_reply .
    with 2(1-4) show ?thesis by blast
  qed
qed

lemma rename_total:
  assumes ok: "ll_ok R s" and "parent \<noteq> newparent"
    and op: "inode_get parent s = Some op" "l_iheap s op = Some oi" "i_number oi \<noteq> 1" "i_tag oi = [k]"
    and np: "inode_get newparent s = Some np" "l_iheap s np = Some ni" "i_number ni \<noteq> 1" "i_tag ni = [j]"
    and known: "ll_file_get name s = Some f" "ll_tag_exist k s" "ll_tag_exist j s"
  shows "\<exists>s'. ll_tag_rename parent name newparent newname s = Some s' \<and>
    ll_ok (with_tags (without_tags R name [k]) name [j]) s' \<and> l_replies s' = l_replies s @ [Reply_err 0]"
proof -
  obtain s1 s2 where s1: "rename_untag [k] f s = Some s1" and s2: "rename_tag [j] f s1 = Some s2"
    and ok2: "ll_ok (with_tags (without_tags R name [k]) name [j]) s2" and k2: "same_keys s s2"
    using rename_moves [OF ok known(1), of "[k]" "[j]"] known(2,3) by (auto simp del: rename_untag.simps rename_tag.simps)
  have "l_replies s2 = l_replies s" using k2 by (simp add: same_keys_def)
  moreover have "ll_tag_rename parent name newparent newname s = Some (fuse_reply (Reply_err 0) s2)"
    using assms(2) op np known(1) s1 s2 by (simp add: ll_tag_rename_def del: rename_untag.simps rename_tag.simps)
  ultimately show ?thesis using ok2 by simp
qed

lemma rmdir_effect:
  assumes run: "ll_tag_rmdir parent name s = Some s'" and ok: "ll_ok R s"
  shows "ll_ok R s' \<or> ll_ok (\<lambda>n k. R n k \<and> k \<noteq> name) s'"
proof (cases "parent = 1")
  case False
  with run ok show ?thesis by (auto simp: ll_tag_rmdir_def)
next
  case True
  then obtain s1 where s1: "ll_tag_remove (ll_tag_get name s) s = Some s1" "s' = fuse_reply (Reply_err 0) s1"
    using run by (auto simp: ll_tag_rmdir_def elim!: bind_SomeE)
  then obtain r where r: "l_theap s (ll_tag_get name s) = Some r" by (auto simp: ll_tag_remove_def elim!: bind_SomeE)
  from ok_tag_remove [OF s1(1) ok r] tag_get_value [OF ok refl r] s1(2) show ?thesis by simp
qed

lemma strip_loop_total:
  assumes "l_theap s t = Some r" and "\<forall>f\<in>snd ` set h. l_fheap s f \<noteq> None"
  shows "\<exists>s'. ht_for_each h
       (\<lambda>name f s. do {
          r \<leftarrow> l_theap s t;
          lfile_upd f (\<lambda>x. x\<lparr>lf_tags := snd (ht_remove_entry (lf_tags x) (lt_value r))\<rparr>) s
        }) s = Some s' \<and> l_theap s' t = Some r \<and> l_replies s' = l_replies s"
  using assms
proof (induction h arbitrary: s)
  case Nil
  then show ?case by simp
next
  case (Cons e h)
  obtain n f where e: "e = (n, f)" by fastforce
  with Cons.prems(2) obtain x where x: "l_fheap s f = Some x" by auto
  let ?s1 = "s\<lparr>l_fheap := (l_fheap s)(f \<mapsto> x\<lparr>lf_tags := snd (ht_remove_entry (lf_tags x) (lt_value r))\<rparr>)\<rparr>"
  have "l_theap ?s1 t = Some r" "\<forall>f\<in>snd ` set h. l_fheap ?s1 f \<noteq> None" using Cons.prems by auto
  from Cons.IH [OF this] Cons.prems(1) x show ?case by (simp add: e lfile_upd_def)
qed

lemma rmdir_total:
  assumes ok: "ll_ok R s" and "ll_tag_exist name s"
  shows "\<exists>s'. ll_tag_rmdir 1 name s = Some s' \<and> ll_ok (\<lambda>n k. R n k \<and> k \<noteq> name) s' \<and>
    l_replies s' = l_replies s @ [Reply_err 0]"
proof -
  obtain r where r: "l_theap s (ll_tag_get name s) = Some r" "lt_value r = name"
    using tag_get_live [OF assms] by blast
  have "\<forall>f\<in>snd ` set (lt_files r). l_fheap s f \<noteq> None"
  proof
    fix f assume "f \<in> snd ` set (lt_files r)"
    then obtain n where "(n, f) \<in> set (lt_files r)" by force
    from two_wayD' [OF ll_okD(3) [OF ok] r(1) this] show "l_fheap s f \<noteq> None" by blast
  qed
  from strip_loop_total [OF r(1) this] obtain s1 where
    s1: "ll_tag_remove (ll_tag_get name s) s = Some s1"
    using r(1) by (auto simp: ll_tag_remove_def)
  from ok_tag_remove [OF s1 ok r(1)] r(2) tag_remove_silent [OF s1] show ?thesis
    by (simp add: ll_tag_rmdir_def s1)
qed

lemma rmdir_unknown_faults: "ll_ok R s \<Longrightarrow> \<not> ll_tag_exist name s \<Longrightarrow> ll_tag_rmdir 1 name s = None"
  using no_invalid_tag [of R s] by (simp add: ll_tag_rmdir_def ll_tag_exist_def ll_tag_remove_def)

subsection \<open>Start and reachable states\<close>

lemma ok_static_init:
  assumes "inode_init (ll_static root w) = Some s"
  shows "ll_ok (\<lambda>n k. False) s"
  using assms
  by (auto simp: inode_init_def inode_new_def next_inode_number_def ll_static_def inode_upd_def ht_create_def
      ll_ok_def ll_tables_def ll_fresh_def ll_two_way_def ll_inodes_def ll_tagged_def Let_def fun_eq_iff
      split: if_splits)

lemma ok_add_entries [keeps]: "realdir_add_entries ds s = Some s' \<Longrightarrow> ll_ok R s \<Longrightarrow> ll_ok R s'"
proof (induction ds arbitrary: s)
  case Nil
  then show ?case by simp
next
  case (Cons d ds)
  then show ?case by (cases d) (auto elim!: bind_SomeE split: run_splits dest: ok_file_get_or_create)
qed

lemma parse_line_ok:
  assumes run: "ll_parse_line word f s = Some (f', s')" and ok: "ll_ok R s"
  shows "\<exists>R'. ll_ok R' s'"
proof -
  have "\<exists>R'. ll_ok R' s2"
    if t: "ll_tag_get_or_create k s = (t, s1)" and s2: "ll_tag_file t g s1 = Some s2" for k t g s1 s2
  proof -
    have ok1: "ll_ok R s1" using ok_tag_get_or_create [OF t ok] .
    obtain r x where "l_theap s1 t = Some r" "l_fheap s1 g = Some x"
      using tag_file_live(1) [OF s2] by auto
    from ok_tag_file [OF s2 ok1 this] show ?thesis by blast
  qed
  with run ok show ?thesis
    by (fastforce simp: ll_parse_line_def Let_def elim!: bind_SomeE split: run_splits
        dest: ok_file_get_or_create ok_tag_get_or_create)
qed

lemma parse_lines_ok:
  "ll_parse_lines fi f s = Some (f', s') \<Longrightarrow> ll_ok R s \<Longrightarrow> \<exists>R'. ll_ok R' s'"
proof (induction fi f s arbitrary: R rule: ll_parse_lines.induct)
  case (1 fi f s)
  show ?case
  proof (cases "fi = []")
    case True
    with "1.prems" show ?thesis by (auto simp: ll_parse_lines.simps [of "[]"])
  next
    case False
    obtain word rest where w: "fgets MAX_LENGTH fi = (word, rest)" by fastforce
    with False "1.prems"(1) obtain f1 s1 where s1: "ll_parse_line word f s = Some (f1, s1)"
      "ll_parse_lines rest f1 s1 = Some (f', s')"
      by (auto simp: ll_parse_lines.simps [of fi] elim!: bind_SomeE)
    from parse_line_ok [OF s1(1) "1.prems"(2)] obtain R1 where "ll_ok R1 s1" by blast
    from "1.IH" [OF False w [symmetric] refl _ refl s1(2) this] s1(1) show ?thesis by simp
  qed
qed

lemma init_ok:
  assumes "ll_tag_init os db (ll_static root w) = Some s"
  shows "\<exists>R. ll_ok R s"
proof -
  obtain s1 s2 fi fp s3 where s: "inode_init (ll_static root w) = Some s1"
    "realdir_add_entries (os_readdir os (l_world s1)) s1 = Some s2"
    "ll_parse_lines fi None s2 = Some (fp, s3)" "s = s3\<lparr>l_tagdbpath := l_realdirpath s3 @ ''/'' @ TAG_FILENAME\<rparr>"
    using assms
    by (auto simp: ll_tag_init_def realdir_add_files_def realdir_parse_tags_def ll_parse_tags_def
        elim!: bind_SomeE split: run_splits)
  from parse_lines_ok [OF s(3) ok_add_entries [OF s(2) ok_static_init [OF s(1)]]] s(4) show ?thesis by simp
qed

lemma run_ok:
  assumes "ll_run os fl req s = Some s'" and "ll_ok R s"
  shows "\<exists>R'. ll_ok R' s'"
  using assms
  by (cases req)
    (auto dest: ok_lookup ok_quiet ok_more_quiet ok_mkdir ok_setattr link_effect unlink_effect rename_effect rmdir_effect)

text \<open>
  The states after the start and a sequence of requests; between two requests others may change the
  file system.
\<close>

inductive ll_reach :: "'w os \<Rightarrow> fuse_lib \<Rightarrow> cstring option \<Rightarrow> 'w ll \<Rightarrow> bool" for os fl db where
  start: "ll_tag_init os db (ll_static root w) = Some s \<Longrightarrow> ll_reach os fl db s"
| request: "ll_reach os fl db s \<Longrightarrow> ll_run os fl req s = Some s' \<Longrightarrow> ll_reach os fl db s'"
| others: "ll_reach os fl db s \<Longrightarrow> ll_reach os fl db (s\<lparr>l_world := w\<rparr>)"

lemma reach_ok: "ll_reach os fl db s \<Longrightarrow> \<exists>R. ll_ok R s"
  by (induction rule: ll_reach.induct) (auto dest: init_ok run_ok)

end
