(* ===== verification/Fuse_View.thy ===== *)
theory Fuse_View
  imports Fuse_Inv
begin

text \<open>
  What path objects do to the state. \<open>core\<close> is the part of the state that users can observe:
  the tags in use, the files and everything else but unused tags and reference counts.
  Creating and deleting a path object keep the core; creating one takes references, deleting
  it gives the unused tags back.
\<close>

definition tag_view :: "'w fs \<Rightarrow> tptr \<Rightarrow> (cstring \<times> fptr ht) option" where
  "tag_view s t =
     (case theap s t of
        None \<Rightarrow> None
      | Some r \<Rightarrow> if in_use r then Some (t_value r, t_files r) else None)"

definition live_tags :: "'w fs \<Rightarrow> tptr ht" where
  "live_tags s = filter (\<lambda>e. tag_view s (snd e) \<noteq> None) (tags s)"

record 'w core =
  c_view :: "tptr \<Rightarrow> (cstring \<times> fptr ht) option"
  c_tags :: "tptr ht"
  c_files :: "fptr ht"
  c_fheap :: "fptr \<Rightarrow> tfile option"
  c_dheap :: "dptr \<Rightarrow> file_descriptor option"
  c_dnext :: nat
  c_dirs :: "cstring \<times> cstring"
  c_world :: 'w
  c_logs :: "pollhandle list \<times> pollhandle list"

definition core :: "'w fs \<Rightarrow> 'w core" where
  "core s = \<lparr>c_view = tag_view s, c_tags = live_tags s, c_files = files s, c_fheap = fheap s,
     c_dheap = dheap s, c_dnext = dnext s, c_dirs = (realdirpath s, tagdbpath s),
     c_world = world s, c_logs = (notified s, destroyed s)\<rparr>"

lemma core_eqD:
  assumes "core s = core s'"
  shows "tag_view s = tag_view s'" "live_tags s = live_tags s'" "files s = files s'"
    "fheap s = fheap s'" "dheap s = dheap s'" "dnext s = dnext s'" "realdirpath s = realdirpath s'"
    "tagdbpath s = tagdbpath s'" "world s = world s'" "notified s = notified s'" "destroyed s = destroyed s'"
  using assms by (simp_all add: core_def)

lemma tagged_core: "core s = core s' \<Longrightarrow> tagged s n k = tagged s' n k"
  by (drule core_eqD(4)) (simp add: tagged_def)

text \<open>No tag disappears or loses references.\<close>

definition grows :: "'w fs \<Rightarrow> 'w fs \<Rightarrow> bool" where
  "grows s s' \<longleftrightarrow> set (tags s) \<subseteq> set (tags s') \<and>
     (\<forall>t r. theap s t = Some r \<longrightarrow> (\<exists>r'. theap s' t = Some r' \<and> t_value r' = t_value r \<and>
        (in_use r \<longrightarrow> in_use r') \<and> ref_count r \<le> ref_count r'))"

lemma grows_refl [simp]: "grows s s"
  by (simp add: grows_def)

lemma grows_trans: "grows s s' \<Longrightarrow> grows s' s'' \<Longrightarrow> grows s s''"
proof -
  assume g: "grows s s'" "grows s' s''"
  show "grows s s''" unfolding grows_def
  proof (intro conjI allI impI)
    show "set (tags s) \<subseteq> set (tags s'')" using g by (auto simp: grows_def)
    fix t r assume "theap s t = Some r"
    with g(1) obtain r' where r': "theap s' t = Some r'" "t_value r' = t_value r"
      "in_use r \<longrightarrow> in_use r'" "ref_count r \<le> ref_count r'" unfolding grows_def by blast
    with g(2) obtain r'' where "theap s'' t = Some r''" "t_value r'' = t_value r'"
      "in_use r' \<longrightarrow> in_use r''" "ref_count r' \<le> ref_count r''" unfolding grows_def by blast
    with r' show "\<exists>r'. theap s'' t = Some r' \<and> t_value r' = t_value r \<and>
        (in_use r \<longrightarrow> in_use r') \<and> ref_count r \<le> ref_count r'"
      by (intro exI [of _ r'']) auto
  qed
qed

lemma growsD:
  assumes "grows s s'" and "theap s t = Some r"
  obtains r' where "theap s' t = Some r'" "t_value r' = t_value r" "in_use r \<Longrightarrow> in_use r'"
    "ref_count r \<le> ref_count r'"
  using assms unfolding grows_def by blast

subsection \<open>Taking references\<close>

lemma op_inv_cong:
  assumes "op_inv h s" and "set h' = set h" and "\<And>t. path_refs h' t = path_refs h t"
  shows "op_inv h' s"
  using assms by (simp add: op_inv_def refs_ok_def)

lemma op_inv_weaken:
  assumes "op_inv ((k, t) # h) s"
  shows "op_inv h s"
proof -
  have "path_refs h u \<le> path_refs ((k, t) # h) u" for u by (simp add: path_refs_Cons)
  then show ?thesis using assms unfolding op_inv_def refs_ok_def
    by (meson list.set_intros(2) order_trans)
qed

text \<open>A change of one tag that leaves its name and files alone, and may put it to use.\<close>

lemma tag_change_refs:
  assumes ok: "refs_ok h s" and t: "theap s t = Some r"
    and r': "t_value r' = t_value r" "in_use r \<longrightarrow> in_use r'" "ref_count r \<le> ref_count r'"
    and h': "\<And>u. path_refs h' u = path_refs h u + (if u = t then ref_count r' - ref_count r else 0)"
      "set h' \<subseteq> insert (t_value r, t) (set h)"
      "(t_value r, t) \<in> set h' \<Longrightarrow> in_use r' \<or> sole_owner s (t_value r) t"
  shows "refs_ok h' (s\<lparr>theap := (theap s)(t \<mapsto> r')\<rparr>)" (is "refs_ok h' ?s")
proof -
  have view: "\<exists>y'. theap ?s u = Some y' \<and> t_value y' = t_value y \<and> (in_use y \<longrightarrow> in_use y')"
    if "theap s u = Some y" for u y
    using that t r' by (cases "u = t") auto
  show ?thesis unfolding refs_ok_def
  proof (intro allI impI conjI)
    fix u y' assume u: "theap ?s u = Some y'"
    show "1 \<le> ref_count y'" using u ok t r' by (cases "u = t") (fastforce simp: refs_ok_def)+
    show "path_refs h' u \<le> ref_count y'" if "\<not> in_use y'"
      using u ok t r' h'(1) that by (cases "u = t") (auto simp: refs_ok_def)
  next
    fix k u assume m: "(k, u) \<in> set h'"
    have own: "sole_owner ?s k u = sole_owner s k u" by (simp add: sole_owner_def)
    show "\<exists>r. theap ?s u = Some r \<and> t_value r = k \<and> (in_use r \<or> sole_owner ?s k u)"
    proof (cases "(k, u) \<in> set h")
      case True
      then obtain y where "theap s u = Some y" "t_value y = k" "in_use y \<or> sole_owner s k u"
        using ok unfolding refs_ok_def by metis
      with view [of u y] own show ?thesis by metis
    next
      case False
      with m h'(2) have "k = t_value r" "u = t" by auto
      with h'(3) m r' own show ?thesis by auto
    qed
  qed
qed

lemma tag_change_inv:
  assumes inv: "op_inv h s" and t: "theap s t = Some r"
    and r': "t_value r' = t_value r" "t_files r' = t_files r" "in_use r \<longrightarrow> in_use r'"
      "ref_count r \<le> ref_count r'"
    and h': "\<And>u. path_refs h' u = path_refs h u + (if u = t then ref_count r' - ref_count r else 0)"
      "set h' \<subseteq> insert (t_value r, t) (set h)"
      "(t_value r, t) \<in> set h' \<Longrightarrow> in_use r' \<or> sole_owner s (t_value r) t"
  shows "op_inv h' (s\<lparr>theap := (theap s)(t \<mapsto> r')\<rparr>)" (is "op_inv h' ?s")
proof -
  note ok = op_inv_parts [OF inv]
  have view: "\<exists>y'. theap ?s u = Some y' \<and> t_value y' = t_value y \<and> t_files y' = t_files y \<and>
      (in_use y \<longrightarrow> in_use y')" if "theap s u = Some y" for u y
    using that t r' by (cases "u = t") auto
  have bck: "\<exists>y. theap s u = Some y \<and> t_value y' = t_value y \<and> t_files y' = t_files y \<and>
      (in_use y \<longrightarrow> in_use y') \<and> (u \<noteq> t \<longrightarrow> y' = y) \<and> (u = t \<longrightarrow> y' = r')" if "theap ?s u = Some y'" for u y'
    using that t r' by (cases "u = t") auto
  have "tags_ok ?s" using ok(1) view unfolding tags_ok_def by (metis fs.select_convs(1) fs.surjective fs.update_convs(3))
  moreover have "files_ok ?s" using ok(2) by (simp add: files_ok_def)
  moreover have "fresh_ok ?s" using ok(5) t by (auto simp: fresh_ok_def)
  moreover have "desc_ok ?s" by (rule desc_ok_cong [OF ok(6)]) auto
  moreover have "ftags_ok ?s" unfolding ftags_ok_def
  proof (intro allI impI conjI)
    fix f x assume x: "fheap ?s f = Some x"
    then show "distinct (keys (f_tags x))" using ok(3) by (auto simp: ftags_ok_def)
    fix k u assume m: "(k, u) \<in> set (f_tags x)"
    from x have x': "fheap s f = Some x" by simp
    obtain y where y: "theap s u = Some y" "t_value y = k" "(f_name x, f) \<in> set (t_files y)"
      by (rule ftagsD [OF ok(3) x' m])
    from view [OF y(1)] y
    show "\<exists>r. theap ?s u = Some r \<and> t_value r = k \<and> (f_name x, f) \<in> set (t_files r)" by metis
  qed
  moreover have "tfiles_ok ?s" unfolding tfiles_ok_def
  proof (intro allI impI conjI)
    fix u y' assume "theap ?s u = Some y'"
    from bck [OF this] obtain y where y: "theap s u = Some y" "t_value y' = t_value y"
      "t_files y' = t_files y" "in_use y \<longrightarrow> in_use y'" by blast
    show "distinct (keys (t_files y'))" using y ok(4) by (auto simp: tfiles_ok_def)
    show "in_use y'" "(t_value y', u) \<in> set (tags ?s)" if "t_files y' \<noteq> []"
      using y that ok(4) by (auto simp: tfiles_ok_def)
    fix n f assume "(n, f) \<in> set (t_files y')"
    with y have m: "(n, f) \<in> set (t_files y)" by simp
    show "\<exists>x. fheap ?s f = Some x \<and> f_name x = n \<and> (t_value y', u) \<in> set (f_tags x)"
      by (rule tfilesD [OF ok(4) y(1) m]) (use y in auto)
  qed
  moreover have "refs_ok h' ?s" by (rule tag_change_refs [OF ok(7) t r'(1,3,4) h'])
  moreover have "fds_ok ?s" unfolding fds_ok_def
  proof (intro allI impI)
    fix da fd k u assume "dheap ?s da = Some fd" and m: "(k, u) \<in> set (p_selected_tags (fd_path fd))"
    then have "dheap s da = Some fd" by simp
    then obtain y where y: "theap s u = Some y" "t_value y = k" "in_use y"
      using ok(8) m by (rule fdsD)
    from view [OF y(1)] y(2,3) show "\<exists>r. theap ?s u = Some r \<and> t_value r = k \<and> in_use r" by metis
  qed
  ultimately show ?thesis by (simp add: op_inv_def assoc_ok_def)
qed

lemma tag_change_grows:
  "theap s t = Some r \<Longrightarrow> t_value r' = t_value r \<Longrightarrow> in_use r \<longrightarrow> in_use r' \<Longrightarrow> ref_count r \<le> ref_count r' \<Longrightarrow>
   grows s (s\<lparr>theap := (theap s)(t \<mapsto> r')\<rparr>)"
  by (auto simp: grows_def)

text \<open>The state after a new tag got its first reference.\<close>

definition new_tag_state :: "cstring \<Rightarrow> bool \<Rightarrow> 'w fs \<Rightarrow> 'w fs" where
  "new_tag_state c use s = s\<lparr>theap := (theap s)(TagAt (tnext s) \<mapsto>
      \<lparr>t_value = c, t_files = [], in_use = use, ref_count = 1\<rparr>),
     tnext := Suc (tnext s), tags := tags s @ [(c, TagAt (tnext s))]\<rparr>"

lemma new_tag_refs:
  assumes ok: "tags_ok s" "refs_ok h s" and new: "theap s (TagAt (tnext s)) = None"
    and h: "set h \<subseteq> set (tags s)" and c: "c \<notin> set (keys (tags s))"
  shows "refs_ok ((c, TagAt (tnext s)) # h) (new_tag_state c use s)" (is "refs_ok ?h ?s")
proof -
  let ?t = "TagAt (tnext s)" and ?r = "\<lparr>t_value = c, t_files = [], in_use = use, ref_count = 1\<rparr>"
  have th: "theap ?s = (theap s)(?t \<mapsto> ?r)" by (simp add: new_tag_state_def)
  have old: "theap ?s u = Some y" if "theap s u = Some y" for u y using that new th by auto
  have same: "tags ?s = tags s @ [(c, ?t)]" by (simp add: new_tag_state_def)
  show ?thesis unfolding refs_ok_def
  proof (intro allI impI conjI)
    fix u y assume u: "theap ?s u = Some y"
    have "path_refs h ?t = 0"
    proof -
      have "e \<in> set h \<Longrightarrow> snd e \<noteq> ?t" for e
        using h ok(1) new unfolding tags_ok_def by (cases e) fastforce
      then have "filter (\<lambda>e. snd e = ?t) h = []" by (simp add: filter_empty_conv)
      then show ?thesis by (simp only: path_refs_def) simp
    qed
    then show "1 \<le> ref_count y" "\<not> in_use y \<Longrightarrow> path_refs ?h u \<le> ref_count y"
      using u ok(2) th by (cases "u = ?t"; auto simp: refs_ok_def path_refs_Cons)+
  next
    fix k u assume m: "(k, u) \<in> set ?h"
    show "\<exists>r. theap ?s u = Some r \<and> t_value r = k \<and> (in_use r \<or> sole_owner ?s k u)"
    proof (cases "(k, u) \<in> set h")
      case True
      then obtain y where "theap s u = Some y" "t_value y = k" "in_use y \<or> sole_owner s k u"
        using ok(2) unfolding refs_ok_def by metis
      moreover have "k \<noteq> c" using True h c by force
      ultimately show ?thesis using old [of u y] by (auto simp: sole_owner_def same)
    next
      case False
      with m have "k = c" "u = ?t" by auto
      with th c show ?thesis by (force simp: sole_owner_def same)
    qed
  qed
qed

lemma new_tag_inv:
  assumes inv: "op_inv h s" and h: "set h \<subseteq> set (tags s)" and c: "c \<notin> set (keys (tags s))"
  shows "op_inv ((c, TagAt (tnext s)) # h) (new_tag_state c use s)" (is "op_inv ?h ?s")
proof -
  note ok = op_inv_parts [OF inv]
  let ?t = "TagAt (tnext s)" and ?r = "\<lparr>t_value = c, t_files = [], in_use = use, ref_count = 1\<rparr>"
  have new: "theap s ?t = None" using ok(5) by (simp add: fresh_ok_def)
  have th: "theap ?s = (theap s)(?t \<mapsto> ?r)" by (simp add: new_tag_state_def)
  have old: "theap ?s u = Some y" if "theap s u = Some y" for u y using that new th by auto
  have same: "fheap ?s = fheap s" "dheap ?s = dheap s" "files ?s = files s" "tags ?s = tags s @ [(c, ?t)]"
    "fnext ?s = fnext s" "dnext ?s = dnext s" "tnext ?s = Suc (tnext s)"
    by (simp_all add: new_tag_state_def)
  have "tags_ok ?s" unfolding tags_ok_def
  proof (intro conjI allI impI)
    show "distinct (keys (tags ?s))" using ok(1) c by (auto simp: tags_ok_def same)
    fix k u assume "(k, u) \<in> set (tags ?s)"
    then show "\<exists>r. theap ?s u = Some r \<and> t_value r = k"
      using ok(1) old th unfolding tags_ok_def same by fastforce
  qed
  moreover have "files_ok ?s" using ok(2) by (simp add: files_ok_def same)
  moreover have "fresh_ok ?s" using ok(5) by (auto simp: fresh_ok_def same th)
  moreover have "desc_ok ?s" by (rule desc_ok_cong [OF ok(6)]) (simp_all add: same)
  moreover have "ftags_ok ?s" using ok(3) old unfolding ftags_ok_def same by metis
  moreover have "tfiles_ok ?s" unfolding tfiles_ok_def
  proof (intro allI impI)
    fix u y assume u: "theap ?s u = Some y"
    show "distinct (keys (t_files y)) \<and> (\<forall>n f. (n, f) \<in> set (t_files y) \<longrightarrow>
       (\<exists>x. fheap ?s f = Some x \<and> f_name x = n \<and> (t_value y, u) \<in> set (f_tags x))) \<and>
       (t_files y \<noteq> [] \<longrightarrow> in_use y \<and> (t_value y, u) \<in> set (tags ?s))"
    proof (cases "u = ?t")
      case True
      with u th show ?thesis by auto
    next
      case False
      with u th have "theap s u = Some y" by simp
      with ok(4) show ?thesis unfolding tfiles_ok_def same by simp
    qed
  qed
  moreover have "refs_ok ?h ?s" by (rule new_tag_refs [OF ok(1,7) new h c])
  moreover have "fds_ok ?s" using ok(8) old unfolding fds_ok_def same by meson
  ultimately show ?thesis by (simp add: op_inv_def assoc_ok_def)
qed

lemma new_tag_grows: "fresh_ok s \<Longrightarrow> grows s (new_tag_state c use s)"
  by (auto simp: grows_def new_tag_state_def fresh_ok_def)

lemma new_tag_view:
  "fresh_ok s \<Longrightarrow> tag_view (new_tag_state c use s) =
     (if use then (tag_view s)(TagAt (tnext s) \<mapsto> (c, [])) else tag_view s)"
  by (auto simp: tag_view_def [abs_def] new_tag_state_def fresh_ok_def fun_eq_iff)

lemma new_tag_core:
  assumes "fresh_ok s"
  shows "core (new_tag_state c False s) = core s"
proof -
  have "tag_view (new_tag_state c False s) = tag_view s" by (simp add: new_tag_view [OF assms])
  moreover have "tag_view s (TagAt (tnext s)) = None" using assms by (simp add: tag_view_def fresh_ok_def)
  ultimately show ?thesis by (simp add: core_def live_tags_def) (simp add: new_tag_state_def)
qed

lemma inc_ref_core:
  assumes "theap s t = Some r"
  shows "core (s\<lparr>theap := (theap s)(t \<mapsto> r\<lparr>ref_count := n\<rparr>)\<rparr>) = core s"
proof -
  have "tag_view (s\<lparr>theap := (theap s)(t \<mapsto> r\<lparr>ref_count := n\<rparr>)\<rparr>) = tag_view s"
    using assms by (simp add: tag_view_def [abs_def] fun_eq_iff)
  then show ?thesis by (simp add: core_def live_tags_def)
qed

text \<open>One round of \<^verbatim>\<open>compute_selected_tags\<close>.\<close>

definition select_tag :: "cstring \<Rightarrow> 'w fs \<Rightarrow> (tptr \<times> 'w fs) option" where
  "select_tag c s = do {
     let t = tag_get c s;
     let (t, s) = (if t = INVALID_TAG then tag_get_or_create' c False s else (t, s));
     s \<leftarrow> tag_inc_ref t s;
     Some (t, s)
   }"

lemma select_tags_Cons:
  "select_tags (Some c # cs) sel s =
     do { (t, s) \<leftarrow> select_tag c s; select_tags cs (sel @ [(c, t)]) s }"
  by (simp add: select_tag_def Let_def split: prod.splits)

lemma tag_get_cases:
  assumes "op_inv h s"
  shows "(c \<notin> set (keys (tags s)) \<and> tag_get c s = INVALID_TAG) \<or>
    (\<exists>t r. (c, t) \<in> set (tags s) \<and> tag_get c s = t \<and> t \<noteq> INVALID_TAG \<and> theap s t = Some r \<and> t_value r = c)"
proof (cases "ht_find (tags s) c")
  case None
  moreover from None have "c \<notin> set (keys (tags s))" by (metis ht_find_None_iff)
  ultimately show ?thesis by (simp add: tag_get_def ht_get_entry_def)
next
  case (Some t)
  then have m: "(c, t) \<in> set (tags s)" by (rule ht_find_SomeD)
  note ok = op_inv_parts [OF assms]
  from ok(1) m obtain r where "theap s t = Some r" "t_value r = c" by (auto simp: tags_ok_def)
  moreover from this ok(5) have "t \<noteq> INVALID_TAG" by (auto simp: fresh_ok_def)
  ultimately show ?thesis using Some m by (simp add: tag_get_def ht_get_entry_def)
qed

text \<open>What creating a path object guarantees, given that it selects \<open>new\<close>.\<close>

definition selects :: "tptr ht \<Rightarrow> tptr ht \<Rightarrow> 'w fs \<Rightarrow> 'w fs \<Rightarrow> bool" where
  "selects new h s s' \<longleftrightarrow> op_inv (new @ h) s' \<and> set (new @ h) \<subseteq> set (tags s') \<and> core s' = core s \<and>
     grows s s' \<and> (\<forall>t r. theap s' t = Some r \<longrightarrow> in_use r \<longrightarrow>
        (\<exists>r0. theap s t = Some r0 \<and> ref_count r \<ge> ref_count r0 + path_refs new t))"

lemma selects_Nil: "op_inv h s \<Longrightarrow> set h \<subseteq> set (tags s) \<Longrightarrow> selects [] h s s"
  by (simp add: selects_def)

lemma selects_trans:
  assumes "selects new h s s'" and "selects new' (new @ h) s' s''"
  shows "selects (new @ new') h s s''"
proof -
  have "op_inv (new' @ new @ h) s''" using assms(2) by (simp add: selects_def)
  then have "op_inv ((new @ new') @ h) s''"
    by (rule op_inv_cong) (auto simp: path_refs_append)
  moreover have "grows s s''" using assms by (meson grows_trans selects_def)
  moreover have "\<exists>r0. theap s t = Some r0 \<and> ref_count r \<ge> ref_count r0 + path_refs (new @ new') t"
    if r: "theap s'' t = Some r" "in_use r" for t r
  proof -
    obtain r1 where r1: "theap s' t = Some r1" "ref_count r \<ge> ref_count r1 + path_refs new' t"
      using assms(2) r unfolding selects_def by blast
    have "tag_view s'' t = tag_view s' t" using assms(2) by (auto simp: selects_def dest: core_eqD)
    with r r1 have "in_use r1" by (auto simp: tag_view_def split: if_splits)
    with r1 assms(1) obtain r0 where "theap s t = Some r0" "ref_count r1 \<ge> ref_count r0 + path_refs new t"
      unfolding selects_def by blast
    with r1 show ?thesis by (auto simp: path_refs_append)
  qed
  moreover have "core s'' = core s" "set ((new @ new') @ h) \<subseteq> set (tags s'')"
    using assms by (auto simp: selects_def)
  ultimately show ?thesis unfolding selects_def by blast
qed

lemma select_new_tag:
  assumes "c \<notin> set (keys (tags s))"
  shows "select_tag c s = Some (TagAt (tnext s), new_tag_state c False s)"
proof -
  have "ht_find (tags s) c = None" using assms by (simp add: ht_find_None_iff)
  then show ?thesis
    by (simp add: select_tag_def tag_get_def tag_get_or_create'_def ht_get_entry_def tag_new_def
        tag_inc_ref_def tag_upd_def new_tag_state_def ht_create_def Let_def)
qed

lemma select_tag_inv:
  assumes inv: "op_inv h s" and h: "set h \<subseteq> set (tags s)"
  shows "\<exists>t s'. select_tag c s = Some (t, s') \<and> selects [(c, t)] h s s'"
proof -
  note ok = op_inv_parts [OF inv]
  consider "c \<notin> set (keys (tags s))" "tag_get c s = INVALID_TAG"
    | t r where "(c, t) \<in> set (tags s)" "tag_get c s = t" "t \<noteq> INVALID_TAG" "theap s t = Some r" "t_value r = c"
    using tag_get_cases [OF inv, of c] by blast
  then show ?thesis
  proof cases
    case 1
    let ?t = "TagAt (tnext s)" and ?s = "new_tag_state c False s"
    have "select_tag c s = Some (?t, ?s)" by (rule select_new_tag [OF 1(1)])
    moreover have "selects [(c, ?t)] h s ?s"
      unfolding selects_def
    proof (intro conjI allI impI)
      show "op_inv ([(c, ?t)] @ h) ?s" using new_tag_inv [OF inv h 1(1)] by simp
      show "set ([(c, ?t)] @ h) \<subseteq> set (tags ?s)" using h by (auto simp: new_tag_state_def)
      show "core ?s = core s" by (rule new_tag_core [OF ok(5)])
      show "grows s ?s" by (rule new_tag_grows [OF ok(5)])
      fix u y assume "theap ?s u = Some y" "in_use y"
      then show "\<exists>r0. theap s u = Some r0 \<and> ref_count y \<ge> ref_count r0 + path_refs [(c, ?t)] u"
        by (auto simp: new_tag_state_def path_refs_Cons split: if_splits)
    qed
    ultimately show ?thesis by blast
  next
    case (2 t r)
    let ?r = "r\<lparr>ref_count := ref_count r + 1\<rparr>"
    let ?s = "s\<lparr>theap := (theap s)(t \<mapsto> ?r)\<rparr>"
    have "select_tag c s = Some (t, ?s)"
      using 2 by (simp add: select_tag_def tag_inc_ref_def tag_upd_def)
    moreover have "selects [(c, t)] h s ?s"
      unfolding selects_def
    proof (intro conjI allI impI)
      have "sole_owner s c t" using tags_unique [OF ok(1) 2(1)] by (simp add: sole_owner_def)
      then have "op_inv ((c, t) # h) ?s"
        using 2 by (intro tag_change_inv [OF inv 2(4)]) (auto simp: path_refs_Cons)
      then show "op_inv ([(c, t)] @ h) ?s" by simp
      show "set ([(c, t)] @ h) \<subseteq> set (tags ?s)" using h 2(1) by simp
      show "core ?s = core s" by (rule inc_ref_core [OF 2(4)])
      show "grows s ?s" by (rule tag_change_grows [OF 2(4)]) simp_all
      fix u y assume "theap ?s u = Some y" "in_use y"
      then show "\<exists>r0. theap s u = Some r0 \<and> ref_count y \<ge> ref_count r0 + path_refs [(c, t)] u"
        using 2(4) by (auto simp: path_refs_Cons split: if_splits)
    qed
    ultimately show ?thesis by blast
  qed
qed

lemma select_tags_inv:
  assumes "op_inv (sel @ h) s" and "set (sel @ h) \<subseteq> set (tags s)"
  shows "\<exists>new s'. select_tags (map Some cs) sel s = Some (sel @ new, s') \<and> keys new = cs \<and>
    selects new (sel @ h) s s'"
  using assms
proof (induction cs arbitrary: sel s)
  case Nil
  then show ?case using selects_Nil [of "sel @ h" s] by (intro exI [of _ "[]"] exI [of _ s]) simp
next
  case (Cons c cs)
  obtain t s1 where s1: "select_tag c s = Some (t, s1)" "selects [(c, t)] (sel @ h) s s1"
    using select_tag_inv [OF Cons.prems, of c] by blast
  have "op_inv ([(c, t)] @ sel @ h) s1" using s1(2) by (simp add: selects_def)
  then have inv: "op_inv ((sel @ [(c, t)]) @ h) s1"
    by (rule op_inv_cong) (auto simp: path_refs_append path_refs_Cons)
  moreover have "set ((sel @ [(c, t)]) @ h) \<subseteq> set (tags s1)" using s1(2) by (auto simp: selects_def)
  ultimately obtain new s' where new: "select_tags (map Some cs) (sel @ [(c, t)]) s1 = Some ((sel @ [(c, t)]) @ new, s')"
    "keys new = cs" "selects new ((sel @ [(c, t)]) @ h) s1 s'" using Cons.IH by blast
  have "selects new ([(c, t)] @ sel @ h) s1 s'"
  proof -
    have "op_inv (new @ [(c, t)] @ sel @ h) s'"
      by (rule op_inv_cong [of "new @ (sel @ [(c, t)]) @ h"])
        (use new(3) in \<open>auto simp: selects_def path_refs_append path_refs_Cons\<close>)
    with new(3) show ?thesis by (auto simp: selects_def)
  qed
  then have "selects ([(c, t)] @ new) (sel @ h) s s'" by (rule selects_trans [OF s1(2)])
  moreover have "select_tags (map Some (c # cs)) sel s = Some (sel @ [(c, t)] @ new, s')"
    using s1(1) new(1) by (simp add: select_tags_Cons del: select_tags.simps)
  ultimately show ?case using new(2) by (intro exI [of _ "(c, t) # new"] exI [of _ s']) simp
qed

text \<open>The path object of \<open>path_of cs\<close> that selects \<open>sel\<close>.\<close>

definition path_obj :: "'w fs \<Rightarrow> cstring list \<Rightarrow> tptr ht \<Rightarrow> path" where
  "path_obj s cs sel =
     \<lparr>p_realpath = path_realpath s (path_of cs), p_virtpath = path_of cs,
      p_virtdirpath = path_of (butlast cs), p_filename = (if cs = [] then ''/'' else last cs),
      p_selected_tags = sel\<rparr>"

lemma path_obj_simps [simp]:
  "p_selected_tags (path_obj s cs sel) = sel" "p_virtpath (path_obj s cs sel) = path_of cs"
  "p_virtdirpath (path_obj s cs sel) = path_of (butlast cs)"
  "p_filename (path_obj s (cs @ [c]) sel) = c"
  "p_realpath (path_obj s cs sel) = path_realpath s (path_of cs)"
  by (simp_all add: path_obj_def)

lemma path_create_inv:
  assumes cs: "components cs" and inv: "op_inv h s" and h: "set h \<subseteq> set (tags s)"
  shows "\<exists>sel s'. path_create (path_of cs) is_tag s = Some (path_obj s cs sel, s') \<and>
    keys sel = (if is_tag then cs else butlast cs) \<and> selects sel h s s'"
proof -
  let ?ds = "if is_tag then cs else butlast cs"
  have ds: "components ?ds" using cs components_butlast by simp
  obtain sel s' where s': "select_tags (map Some ?ds) [] s = Some (sel, s')" "keys sel = ?ds"
      "selects sel h s s'"
    using select_tags_inv [of "[]" h s ?ds] inv h by auto
  have "compute_selected_tags (path_of ?ds) s = Some (sel, s')"
    using s'(1) by (simp add: compute_selected_tags_def path_of_neq_dot [OF ds] string_split_path [OF ds] ht_create_def
        del: map_append)
  moreover have "realdirpath s' = realdirpath s" using s'(3) by (auto simp: selects_def dest: core_eqD)
  ultimately have "path_create (path_of cs) is_tag s = Some (path_obj s cs sel, s')"
    using cs by (cases is_tag) (simp_all add: path_create_def dirname_components basename_components
        path_obj_def path_realpath_def)
  with s' show ?thesis by blast
qed

text \<open>A path through one name that is no tag makes an unused tag with one reference.\<close>

lemma path_create_new_tag:
  assumes cs: "components [k, n]" and k: "k \<notin> set (keys (tags s))"
  shows "path_create (path_of [k, n]) False s = Some (path_obj s [k, n] [(k, TagAt (tnext s))], new_tag_state k False s)"
proof -
  have ds: "components [k]" using components_butlast [OF cs] by simp
  have "select_tags (map Some [k]) [] s = Some ([(k, TagAt (tnext s))], new_tag_state k False s)"
    using select_new_tag [OF k] by (simp add: select_tags_Cons del: select_tags.simps(2))
  then have "compute_selected_tags (path_of [k]) s = Some ([(k, TagAt (tnext s))], new_tag_state k False s)"
    by (simp add: compute_selected_tags_def path_of_neq_dot [OF ds] string_split_path [OF ds] ht_create_def
        del: select_tags.simps)
  moreover have "realdirpath (new_tag_state k False s) = realdirpath s" by (simp add: new_tag_state_def)
  ultimately show ?thesis using cs
    by (simp add: path_create_def dirname_components basename_components path_obj_def path_realpath_def
        del: components_single)
qed

subsection \<open>Giving references back\<close>

lemma unused_remove_core:
  assumes t: "theap s t = Some r" and u: "\<not> in_use r" and sole: "sole_owner s (t_value r) t"
  shows "core (s\<lparr>tags := filter (\<lambda>e. fst e \<noteq> t_value r) (tags s),
      theap := (theap s)(t := if b then None else Some (r\<lparr>ref_count := n\<rparr>))\<rparr>) = core s" (is "core ?s = _")
proof -
  have v: "tag_view ?s = tag_view s" using t u by (auto simp: tag_view_def fun_eq_iff)
  have "tag_view s t = None" using t u by (simp add: tag_view_def)
  then have "filter (\<lambda>e. tag_view s (snd e) \<noteq> None) (filter (\<lambda>e. fst e \<noteq> t_value r) (tags s)) =
      filter (\<lambda>e. tag_view s (snd e) \<noteq> None) (tags s)"
    using sole unfolding filter_filter sole_owner_def by (intro filter_cong) auto
  with v show ?thesis by (simp add: core_def live_tags_def)
qed

lemma free_selected_inv:
  assumes "op_inv (sel @ h) s"
  shows "\<exists>s'. free_selected_tags sel s = Some s' \<and> op_inv h s' \<and> core s' = core s"
proof -
  let ?I = "\<lambda>rest s'. op_inv (rest @ h) s' \<and> core s' = core s"
  have step: "\<exists>s''. (do { r \<leftarrow> theap s' t; if \<not> in_use r then tag_remove t s' else Some s' }) = Some s'' \<and>
      ?I rest s''" if I: "?I ((k, t) # rest) s'" for k t rest s'
  proof -
    have inv: "op_inv ((k, t) # rest @ h) s'" using I by simp
    note ok = op_inv_parts [OF inv]
    obtain r where r: "theap s' t = Some r" "t_value r = k" "in_use r \<or> sole_owner s' k t"
      using ok(7) unfolding refs_ok_def by (metis list.set_intros(1))
    show ?thesis
    proof (cases "in_use r")
      case True
      with r I op_inv_weaken [OF inv] show ?thesis by simp
    next
      case False
      have e: "t_files r = []" using ok(4) r(1) False by (auto simp: tfiles_ok_def)
      have sole: "sole_owner s' (t_value r) t" using r False by simp
      have "ref_count r \<ge> path_refs ((k, t) # rest @ h) t" using ok(7) r(1) False unfolding refs_ok_def by blast
      then have ref: "if in_use r then ref_count r \<ge> 2 else ref_count r \<ge> 1 + path_refs (rest @ h) t"
        using False by (simp add: path_refs_Cons)
      from tag_remove_inv [OF op_inv_weaken [OF inv] r(1) e sole ref]
        unused_remove_core [OF r(1) False sole] r(1) False I
      show ?thesis by simp
    qed
  qed
  have "\<exists>s'. ht_for_each sel (\<lambda>n t s. do { r \<leftarrow> theap s t; if \<not> in_use r then tag_remove t s else Some s }) s = Some s'
      \<and> ?I [] s'"
    by (rule ht_for_each_rest [where I = ?I]) (use assms step in auto)
  then show ?thesis by (simp add: free_selected_tags_def)
qed

lemma path_delete_inv:
  "op_inv (p_selected_tags p @ h) s \<Longrightarrow> \<exists>s'. path_delete p s = Some s' \<and> op_inv h s' \<and> core s' = core s"
  by (simp add: path_delete_def free_selected_inv)

text \<open>A path object held for one operation: the operation runs with the selected tags.\<close>

lemma with_path:
  assumes "components cs" and "fs_inv s"
    and "\<And>sel s'. keys sel = (if is_tag then cs else butlast cs) \<Longrightarrow> selects sel [] s s' \<Longrightarrow> 
      \<exists>r s''. f (path_obj s cs sel) s' = Some (r, s'') \<and> op_inv sel s'' \<and> Q r (core s'')"
  shows "\<exists>r s'. do { (p, s) \<leftarrow> path_create (path_of cs) is_tag s; (r, s) \<leftarrow> f p s; s \<leftarrow> path_delete p s; Some (r, s) }
     = Some (r, s') \<and> fs_inv s' \<and> Q r (core s')"
proof -
  obtain sel s1 where s1: "path_create (path_of cs) is_tag s = Some (path_obj s cs sel, s1)"
    "keys sel = (if is_tag then cs else butlast cs)" "selects sel [] s s1"
    using path_create_inv [OF assms(1), of "[]" s is_tag] assms(2) by (auto simp: fs_inv_def)
  obtain r s2 where s2: "f (path_obj s cs sel) s1 = Some (r, s2)" "op_inv sel s2" "Q r (core s2)"
    using assms(3) [OF s1(2,3)] by blast
  obtain s3 where s3: "path_delete (path_obj s cs sel) s2 = Some s3" "op_inv [] s3" "core s3 = core s2"
    using path_delete_inv [of "path_obj s cs sel" "[]" s2] s2(2) by auto
  show ?thesis using s1(1) s2 s3 by (auto simp: fs_inv_def)
qed

end
