(* ===== verification/Fuse_Safe.thy ===== *)
theory Fuse_Safe
  imports Fuse_View
begin

text \<open>
  Safety and effect of the operations of \<^verbatim>\<open>tagfs.c\<close> on states with the invariant: what each
  of them does to the association of files and tags, and that it does not fault.
\<close>

subsection \<open>Looking files up\<close>

text \<open>\<open>files_grow\<close>: files may have been added, without tags; all else is as it was.\<close>

definition files_grow :: "'w fs \<Rightarrow> 'w fs \<Rightarrow> bool" where
  "files_grow s s' \<longleftrightarrow> tags s' = tags s \<and> theap s' = theap s \<and> tnext s' = tnext s \<and>
     dheap s' = dheap s \<and> dnext s' = dnext s \<and> realdirpath s' = realdirpath s \<and>
     tagdbpath s' = tagdbpath s \<and> world s' = world s \<and> notified s' = notified s \<and>
     destroyed s' = destroyed s \<and> tagged s' = tagged s \<and>
     (\<forall>f x. fheap s f = Some x \<longrightarrow> fheap s' f = Some x) \<and> (\<exists>new. files s' = files s @ new)"

lemma files_grow_refl [simp]: "files_grow s s"
  by (simp add: files_grow_def)

lemma files_grow_trans: "files_grow s s' \<Longrightarrow> files_grow s' s'' \<Longrightarrow> files_grow s s''"
  unfolding files_grow_def by (metis append.assoc)

lemma files_growD:
  assumes "files_grow s s'"
  shows "tags s' = tags s" "theap s' = theap s" "dheap s' = dheap s" "realdirpath s' = realdirpath s"
    "world s' = world s" "tagged s' = tagged s" "\<And>f x. fheap s f = Some x \<Longrightarrow> fheap s' f = Some x"
    "dnext s' = dnext s" "tnext s' = tnext s" "tagdbpath s' = tagdbpath s"
  using assms by (auto simp: files_grow_def)

lemma files_grow_tag_view: "files_grow s s' \<Longrightarrow> tag_view s' = tag_view s"
  by (simp add: tag_view_def [abs_def] files_growD fun_eq_iff)

lemma desc_fd_file:
  "desc_ok s \<Longrightarrow> dheap s d = Some fd \<Longrightarrow> \<not> fd_is_tag fd \<Longrightarrow>
   \<exists>g y. fd_object fd = FileObj (Some g) \<and> fheap s g = Some y"
  unfolding desc_ok_def by (metis not_None_eq)

lemma desc_fd_tag: "desc_ok s \<Longrightarrow> dheap s d = Some fd \<Longrightarrow> fd_is_tag fd \<Longrightarrow> \<exists>t. fd_object fd = TagObj t"
  unfolding desc_ok_def by metis

lemma desc_okI:
  assumes "\<And>f x. fheap s f = Some x \<Longrightarrow> distinct (f_descriptors x) \<and> (\<forall>d. d \<in> set (f_descriptors x) \<longleftrightarrow>
        (\<exists>fd. dheap s d = Some fd \<and> \<not> fd_is_tag fd \<and> fd_object fd = FileObj (Some f)))"
    and "\<And>d fd. dheap s d = Some fd \<Longrightarrow> if fd_is_tag fd then \<exists>t. fd_object fd = TagObj t
        else \<exists>f. fd_object fd = FileObj (Some f) \<and> fheap s f \<noteq> None"
  shows "desc_ok s"
  unfolding desc_ok_def using assms by blast

definition new_file :: "'w fs \<Rightarrow> cstring \<Rightarrow> tfile" where
  "new_file s n = \<lparr>f_name = n, f_realpath = path_realpath s n, f_tags = [], f_descriptors = [], f_revents = 0\<rparr>"

text \<open>The state with a new file.\<close>

definition file_added :: "cstring \<Rightarrow> 'w fs \<Rightarrow> 'w fs" where
  "file_added n s = s\<lparr>fheap := (fheap s)(fnext s \<mapsto> new_file s n), fnext := Suc (fnext s),
    files := files s @ [(n, fnext s)]\<rparr>"

lemma new_file_fields: "f_name (new_file s n) = n" "f_tags (new_file s n) = []" "f_descriptors (new_file s n) = []"
  by (simp_all add: new_file_def)

lemma new_file_desc:
  assumes ok: "desc_ok s" and new: "fheap s (fnext s) = None"
  shows "desc_ok (file_added n s)"
  unfolding file_added_def
proof -
  let ?s = "s\<lparr>fheap := (fheap s)(fnext s \<mapsto> new_file s n), fnext := Suc (fnext s),
    files := files s @ [(n, fnext s)]\<rparr>"
  let ?f = "fnext s"
  note fx = new_file_fields [of s n]
  have old: "fheap ?s g = Some y" if "fheap s g = Some y" for g y using that new by auto
  have "distinct (f_descriptors y) \<and> (\<forall>d. d \<in> set (f_descriptors y) \<longleftrightarrow>
      (\<exists>fd. dheap ?s d = Some fd \<and> \<not> fd_is_tag fd \<and> fd_object fd = FileObj (Some g)))"
    if y: "fheap ?s g = Some y" for g y
  proof (cases "g = ?f")
    case True
    have "fd_object fd \<noteq> FileObj (Some ?f)" if "dheap s d = Some fd" "\<not> fd_is_tag fd" for d fd
      using desc_fd_file [OF ok that] new by force
    with True y fx show ?thesis by auto
  next
    case False
    with y have "fheap s g = Some y" by simp
    with ok show ?thesis unfolding desc_ok_def by simp
  qed
  moreover have "if fd_is_tag fd then \<exists>t. fd_object fd = TagObj t
      else \<exists>f. fd_object fd = FileObj (Some f) \<and> fheap ?s f \<noteq> None" if "dheap ?s d = Some fd" for d fd
  proof (cases "fd_is_tag fd")
    case True
    from that have d: "dheap s d = Some fd" by simp
    from True desc_fd_tag [OF ok d] show ?thesis by simp
  next
    case False
    from that have d: "dheap s d = Some fd" by simp
    from False obtain g y where "fd_object fd = FileObj (Some g)" "fheap s g = Some y"
      using desc_fd_file [OF ok d] by blast
    with False old show ?thesis by simp
  qed
  ultimately show "desc_ok ?s" by (rule desc_okI)
qed

lemma new_file_tagged:
  assumes new: "fheap s (fnext s) = None"
  shows "tagged (file_added n s) = tagged s"
  unfolding file_added_def
proof -
  let ?s = "s\<lparr>fheap := (fheap s)(fnext s \<mapsto> new_file s n), fnext := Suc (fnext s),
    files := files s @ [(n, fnext s)]\<rparr>"
  let ?f = "fnext s"
  note fx = new_file_fields [of s n]
  show "tagged ?s = tagged s"
  proof (intro ext)
    fix m k
    have "(\<exists>x. fheap ?s g = Some x \<and> f_name x = m \<and> k \<in> set (keys (f_tags x))) \<longleftrightarrow>
        (\<exists>x. fheap s g = Some x \<and> f_name x = m \<and> k \<in> set (keys (f_tags x)))" for g
      using new fx by (cases "g = ?f") auto
    then show "tagged ?s m k = tagged s m k" unfolding tagged_def by (simp only:)
  qed
qed

lemma new_file_inv:
  assumes inv: "op_inv h s" and n: "n \<notin> set (keys (files s))"
  shows "op_inv h (s\<lparr>fheap := (fheap s)(fnext s \<mapsto> new_file s n), fnext := Suc (fnext s),
    files := files s @ [(n, fnext s)]\<rparr>)" (is "op_inv h ?s")
    and "files_grow s (s\<lparr>fheap := (fheap s)(fnext s \<mapsto> new_file s n), fnext := Suc (fnext s),
    files := files s @ [(n, fnext s)]\<rparr>)"
proof -
  note ok = op_inv_parts [OF inv]
  let ?f = "fnext s" and ?x = "new_file s n"
  have new: "fheap s ?f = None" using ok(5) by (simp add: fresh_ok_def)
  have fx: "f_name ?x = n" "f_tags ?x = []" "f_descriptors ?x = []" by (rule new_file_fields)+
  have old: "fheap ?s g = Some y" if "fheap s g = Some y" for g y using that new by auto
  have "tags_ok ?s" using ok(1) by (simp add: tags_ok_def)
  moreover have "files_ok ?s" unfolding files_ok_def
  proof (intro conjI allI impI)
    show "distinct (keys (files ?s))" using ok(2) n by (auto simp: files_ok_def)
    fix m g assume "(m, g) \<in> set (files ?s)"
    then show "\<exists>x. fheap ?s g = Some x \<and> f_name x = m"
    proof (cases "(m, g) \<in> set (files s)")
      case True
      then obtain y where "fheap s g = Some y" "f_name y = m" using ok(2) by (auto simp: files_ok_def)
      with old show ?thesis by blast
    next
      case False
      with \<open>(m, g) \<in> set (files ?s)\<close> have "m = n" "g = ?f" by auto
      with fx show ?thesis by simp
    qed
  next
    fix g y assume "fheap ?s g = Some y"
    then show "(f_name y, g) \<in> set (files ?s)" using ok(2) fx by (cases "g = ?f") (auto simp: files_ok_def)
  qed
  moreover have "fresh_ok ?s" using ok(5) by (auto simp: fresh_ok_def)
  moreover have "ftags_ok ?s" unfolding ftags_ok_def
  proof (intro allI impI)
    fix g y assume y: "fheap ?s g = Some y"
    show "distinct (keys (f_tags y)) \<and> (\<forall>k t. (k, t) \<in> set (f_tags y) \<longrightarrow>
        (\<exists>r. theap ?s t = Some r \<and> t_value r = k \<and> (f_name y, g) \<in> set (t_files r)))"
    proof (cases "g = ?f")
      case True
      with y fx show ?thesis by simp
    next
      case False
      with y ok(3) show ?thesis by (simp add: ftags_ok_def)
    qed
  qed
  moreover have "tfiles_ok ?s" unfolding tfiles_ok_def
  proof (intro conjI allI impI)
    fix t r assume "theap ?s t = Some r"
    then have t: "theap s t = Some r" by simp
    show "distinct (keys (t_files r))" "t_files r \<noteq> [] \<Longrightarrow> in_use r"
      "t_files r \<noteq> [] \<Longrightarrow> (t_value r, t) \<in> set (tags ?s)"
      using ok(4) t by (auto simp: tfiles_ok_def)
    fix m g assume e: "(m, g) \<in> set (t_files r)"
    obtain x where "fheap s g = Some x" "f_name x = m" "(t_value r, t) \<in> set (f_tags x)"
      by (rule tfilesD [OF ok(4) t e])
    with old show "\<exists>x. fheap ?s g = Some x \<and> f_name x = m \<and> (t_value r, t) \<in> set (f_tags x)" by blast
  qed
  moreover have "desc_ok ?s" using new_file_desc [OF ok(6) new] by (simp only: file_added_def)
  moreover have "refs_ok h ?s" using ok(7) by (simp add: refs_ok_def sole_owner_def)
  moreover have "fds_ok ?s" using ok(8) by (simp add: fds_ok_def)
  ultimately show "op_inv h ?s" by (simp add: op_inv_def assoc_ok_def)
  have "tagged ?s = tagged s" using new_file_tagged [OF new] by (simp only: file_added_def)
  with old show "files_grow s ?s" by (simp add: files_grow_def)
qed

lemma file_get_or_create_inv:
  assumes inv: "op_inv h s"
  shows "\<exists>f s' x. file_get_or_create n s = (f, s') \<and> op_inv h s' \<and> files_grow s s' \<and>
    fheap s' f = Some x \<and> f_name x = n \<and> file_get n s' = Some f"
proof (cases "ht_find (files s) n")
  case None
  then have n: "n \<notin> set (keys (files s))" by (metis ht_find_None_iff)
  from new_file_inv [OF inv n] None show ?thesis
    by (simp add: file_get_or_create_def ht_get_entry_def file_new_def Let_def new_file_def
        ht_create_def file_get_def ht_find_def)
next
  case (Some f)
  then have "(n, f) \<in> set (files s)" by (rule ht_find_SomeD)
  with op_inv_parts(2) [OF inv] obtain x where "fheap s f = Some x" "f_name x = n"
    by (auto simp: files_ok_def)
  with Some inv show ?thesis by (simp add: file_get_or_create_def ht_get_entry_def file_get_def)
qed

lemma file_get_SomeD:
  assumes "op_inv h s" and "file_get n s = Some f"
  obtains x where "fheap s f = Some x" "f_name x = n"
  using assms op_inv_parts(2) [OF assms(1)] unfolding file_get_def ht_get_entry_def files_ok_def
  by (blast dest: ht_find_SomeD)

text \<open>Every selected tag is a live struct of that name.\<close>

definition sel_live :: "tptr ht \<Rightarrow> 'w fs \<Rightarrow> bool" where
  "sel_live sel s \<longleftrightarrow> (\<forall>k t. (k, t) \<in> set sel \<longrightarrow> t \<noteq> INVALID_TAG \<and> (\<exists>r. theap s t = Some r \<and> t_value r = k))"

lemma sel_live_op_inv: "op_inv (sel @ h) s \<Longrightarrow> sel_live sel s"
  unfolding sel_live_def op_inv_def refs_ok_def assoc_ok_def fresh_ok_def
  by (metis Un_iff option.distinct(1) set_append)

lemma sel_live_cong: "sel_live sel s \<Longrightarrow> theap s' = theap s \<Longrightarrow> sel_live sel s'"
  by (simp add: sel_live_def)

lemma file_matches_tags_eq:
  assumes "sel_live sel s" and "fheap s f = Some x"
  shows "file_matches_tags f sel s = Some (\<forall>k\<in>set (keys sel). k \<in> set (keys (f_tags x)))"
proof -
  have "ht_for_each sel (\<lambda>name t match.
          if t = INVALID_TAG then Some False
          else do {
            r \<leftarrow> theap s t;
            x \<leftarrow> fheap s f;
            Some (if \<not> ht_has_entry (f_tags x) (t_value r) then False else match)
          }) b = Some (b \<and> (\<forall>k\<in>set (keys sel). k \<in> set (keys (f_tags x))))" for b
    using assms(1)
  proof (induction sel arbitrary: b)
    case Nil
    then show ?case by simp
  next
    case (Cons e sel)
    obtain k t where e: "e = (k, t)" by fastforce
    from Cons.prems e obtain r where r: "t \<noteq> INVALID_TAG" "theap s t = Some r" "t_value r = k"
      by (auto simp: sel_live_def)
    have "sel_live sel s" using Cons.prems by (simp add: sel_live_def)
    from Cons.IH [OF this] r assms(2) e show ?case by (auto simp: ht_has_entry_iff)
  qed
  then show ?thesis by (simp add: file_matches_tags_def)
qed

text \<open>\<^verbatim>\<open>getattr_intra\<close>: what it returns.\<close>

definition getattr_spec :: "'w os \<Rightarrow> path \<Rightarrow> stat \<Rightarrow> 'w fs \<Rightarrow> int \<times> stat" where
  "getattr_spec os p stbuf s =
     (let (res, st) = c_stat os (p_realpath p) stbuf (world s)
      in if res < 0 \<or> S_ISDIR (st_mode st) then c_stat os (realdirpath s) st (world s)
         else if p_selected_tags p \<noteq> [] then
           (if \<forall>k\<in>set (keys (p_selected_tags p)). tagged s (p_filename p) k then res else - ENOENT, st)
         else (res, if p_filename p = TAG_FILENAME then st\<lparr>st_size := LONG_MAX\<rparr> else st))"

lemma getattr_intra_inv:
  assumes inv: "op_inv h s" and live: "sel_live (p_selected_tags p) s"
  shows "\<exists>s'. getattr_intra os p stbuf s = Some (getattr_spec os p stbuf s, s') \<and> op_inv h s' \<and> files_grow s s'"
proof -
  obtain res st where st: "c_stat os (p_realpath p) stbuf (world s) = (res, st)" by fastforce
  show ?thesis
  proof (cases "res < 0 \<or> S_ISDIR (st_mode st)")
    case True
    with st inv show ?thesis by (auto simp: getattr_intra_def getattr_spec_def)
  next
    case False
    obtain f s1 x where f: "file_get_or_create (p_filename p) s = (f, s1)" "op_inv h s1" "files_grow s s1"
      "fheap s1 f = Some x" "f_name x = p_filename p"
      using file_get_or_create_inv [OF inv] by blast
    have "tagged s (p_filename p) k \<longleftrightarrow> k \<in> set (keys (f_tags x))" for k
      using tagged_file [OF op_inv_parts(2) [OF f(2)] f(4)] f(5) files_growD(6) [OF f(3)] by metis
    moreover have "sel_live (p_selected_tags p) s1"
      using live files_growD(2) [OF f(3)] by (simp add: sel_live_def)
    ultimately have m: "file_matches_tags f (p_selected_tags p) s1 =
        Some (\<forall>k\<in>set (keys (p_selected_tags p)). tagged s (p_filename p) k)"
      using file_matches_tags_eq [OF _ f(4)] by simp
    show ?thesis using False st f m
      by (simp add: getattr_intra_def getattr_spec_def ht_entry_count_pos)
  qed
qed

subsection \<open>Linking\<close>

text \<open>\<open>kept\<close>: the table of tags, the reference counts and the surroundings are as they were.\<close>

definition kept :: "'w fs \<Rightarrow> 'w fs \<Rightarrow> bool" where
  "kept s s' \<longleftrightarrow> tags s' = tags s \<and> dheap s' = dheap s \<and> dnext s' = dnext s \<and>
     realdirpath s' = realdirpath s \<and> tagdbpath s' = tagdbpath s \<and> world s' = world s \<and>
     (\<forall>t r. theap s t = Some r \<longrightarrow> (\<exists>r'. theap s' t = Some r' \<and> t_value r' = t_value r \<and>
        ref_count r' = ref_count r \<and> (in_use r \<longrightarrow> in_use r')))"

lemma kept_refl [simp]: "kept s s"
  by (simp add: kept_def)

lemma keptD:
  assumes "kept s s'" and "theap s t = Some r"
  obtains r' where "theap s' t = Some r'" "t_value r' = t_value r" "ref_count r' = ref_count r"
    "in_use r \<Longrightarrow> in_use r'"
  using assms unfolding kept_def by blast

lemma kept_trans:
  assumes "kept s s'" "kept s' s''"
  shows "kept s s''"
proof -
  have "\<exists>r'. theap s'' t = Some r' \<and> t_value r' = t_value r \<and> ref_count r' = ref_count r \<and>
      (in_use r \<longrightarrow> in_use r')" if r: "theap s t = Some r" for t r
  proof -
    obtain r1 where r1: "theap s' t = Some r1" "t_value r1 = t_value r" "ref_count r1 = ref_count r"
      "in_use r \<Longrightarrow> in_use r1" using keptD [OF assms(1) r] by metis
    obtain r2 where r2: "theap s'' t = Some r2" "t_value r2 = t_value r1" "ref_count r2 = ref_count r1"
      "in_use r1 \<Longrightarrow> in_use r2" using keptD [OF assms(2) r1(1)] by metis
    show ?thesis using r1 r2 by (intro exI [of _ r2]) simp
  qed
  with assms show ?thesis by (simp add: kept_def)
qed

lemma kept_grows: "kept s s' \<Longrightarrow> grows s s'"
  unfolding kept_def grows_def by fastforce

lemma files_grow_kept: "files_grow s s' \<Longrightarrow> kept s s'"
  by (simp add: files_grow_def kept_def)

lemma assoc_upd_kept:
  "theap s t = Some r \<Longrightarrow> t_value r' = t_value r \<Longrightarrow> ref_count r' = ref_count r \<Longrightarrow> in_use r \<longrightarrow> in_use r' \<Longrightarrow>
   kept s (assoc_upd f x t r' ns s)"
  by (auto simp: kept_def assoc_upd_def)

text \<open>The names of the tags in use.\<close>

definition live_name :: "'w fs \<Rightarrow> cstring \<Rightarrow> bool" where
  "live_name s k \<longleftrightarrow> (\<exists>t r. (k, t) \<in> set (tags s) \<and> theap s t = Some r \<and> in_use r)"

lemma live_name_core: "live_name s k \<longleftrightarrow> k \<in> set (keys (live_tags s))"
proof -
  have "k \<in> set (keys (live_tags s)) \<longleftrightarrow> (\<exists>t. (k, t) \<in> set (tags s) \<and> tag_view s t \<noteq> None)"
    by (auto simp: live_tags_def image_iff)
  moreover have "tag_view s t \<noteq> None \<longleftrightarrow> (\<exists>r. theap s t = Some r \<and> in_use r)" for t
    by (auto simp: tag_view_def split: option.splits)
  ultimately show ?thesis unfolding live_name_def by blast
qed

lemma live_name_core_eq: "core s = core s' \<Longrightarrow> live_name s = live_name s'"
  by (rule ext) (drule core_eqD(2), simp only: live_name_core)

lemma files_grow_live: "files_grow s s' \<Longrightarrow> live_name s' = live_name s"
  by (simp add: files_grow_def live_name_def fun_eq_iff)

lemma live_name_use:
  assumes "tags_ok s" and kt: "(k, t) \<in> set (tags s)" and t: "theap s t = Some r"
    and s': "tags s' = tags s" "theap s' = (theap s)(t \<mapsto> r')" "in_use r'"
  shows "live_name s' j \<longleftrightarrow> live_name s j \<or> j = k"
proof (cases "j = k")
  case True
  with kt s' show ?thesis by (auto simp: live_name_def)
next
  case False
  then have "(j, t) \<notin> set (tags s)" using tags_value [OF assms(1) _ t] kt by metis
  with False s' show ?thesis by (auto simp: live_name_def)
qed

lemma tag_files_loop:
  assumes "op_inv h s" and "set sel \<subseteq> set (tags s)" and "fheap s f = Some x"
  shows "\<exists>s' x'. ht_for_each sel (\<lambda>tagname tag s. tag_file tag f s) s = Some s' \<and> op_inv h s' \<and> kept s s' \<and>
    fheap s' f = Some x' \<and> f_name x' = f_name x \<and> files s' = files s \<and>
    (\<forall>n k. tagged s' n k \<longleftrightarrow> tagged s n k \<or> n = f_name x \<and> k \<in> set (keys sel)) \<and>
    (\<forall>k. live_name s' k \<longleftrightarrow> live_name s k \<or> k \<in> set (keys sel))"
  using assms
proof (induction sel arbitrary: s x)
  case Nil
  then show ?case by (intro exI [of _ s] exI [of _ x]) simp
next
  case (Cons e sel)
  obtain k t where e: "e = (k, t)" by fastforce
  note ok = op_inv_parts [OF Cons.prems(1)]
  from Cons.prems(2) e have kt: "(k, t) \<in> set (tags s)" by simp
  then obtain r where r: "theap s t = Some r" "t_value r = k" using ok(1) by (auto simp: tags_ok_def)
  let ?r = "r\<lparr>t_files := snd (ht_add_unique_entry (t_files r) (f_name x) f), in_use := True\<rparr>"
  obtain x1 ns where x1: "tag_file t f s = Some (assoc_upd f x1 t ?r ns s)" "f_name x1 = f_name x"
    "f_tags x1 = snd (ht_add_unique_entry (f_tags x) k t)" "op_inv h (assoc_upd f x1 t ?r ns s)"
    using tag_file_inv [OF Cons.prems(1) r(1) Cons.prems(3)] kt r(2) by blast
  let ?s = "assoc_upd f x1 t ?r ns s"
  have tg: "tagged ?s n j \<longleftrightarrow> tagged s n j \<or> n = f_name x \<and> j = k" for n j
    using tagged_upd [OF ok(2) Cons.prems(3) x1(2)] tagged_file [OF ok(2) Cons.prems(3)] x1(3)
    by (auto simp: ht_add_unique_eq)
  have "set sel \<subseteq> set (tags ?s)" using Cons.prems(2) by simp
  moreover have "fheap ?s f = Some x1" by simp
  ultimately obtain s' x' where s': "ht_for_each sel (\<lambda>tagname tag s. tag_file tag f s) ?s = Some s'"
    "op_inv h s'" "kept ?s s'" "fheap s' f = Some x'" "f_name x' = f_name x1" "files s' = files ?s"
    "\<forall>n j. tagged s' n j \<longleftrightarrow> tagged ?s n j \<or> n = f_name x1 \<and> j \<in> set (keys sel)"
    "\<forall>k. live_name s' k \<longleftrightarrow> live_name ?s k \<or> k \<in> set (keys sel)"
    using Cons.IH [OF x1(4)] by blast
  have "live_name ?s j \<longleftrightarrow> live_name s j \<or> j = k" for j
    by (rule live_name_use [OF ok(1) kt r(1), where r' = ?r]) simp_all
  have "kept s ?s" by (rule assoc_upd_kept [OF r(1)]) simp_all
  then have "kept s s'" using s'(3) by (rule kept_trans)
  with s' x1 tg \<open>\<And>j. live_name ?s j \<longleftrightarrow> live_name s j \<or> j = k\<close> show ?case by (intro exI [of _ s'] exI [of _ x']) (auto simp: e)
qed

lemma path_link_inv:
  assumes inv: "op_inv h s" and live: "sel_live (p_selected_tags ffrom) s"
    and sel: "set (p_selected_tags fto) \<subseteq> set (tags s)"
  shows "\<exists>s'. path_link os ffrom fto s = Some (fst (getattr_spec os ffrom stat0 s), s') \<and> op_inv h s' \<and>
    kept s s' \<and> (\<forall>n k. tagged s' n k \<longleftrightarrow> tagged s n k \<or>
      (fst (getattr_spec os ffrom stat0 s) \<ge> 0 \<and> n = p_filename ffrom \<and> k \<in> set (keys (p_selected_tags fto)))) \<and>
    (\<forall>k. live_name s' k \<longleftrightarrow> live_name s k \<or>
      (fst (getattr_spec os ffrom stat0 s) \<ge> 0 \<and> k \<in> set (keys (p_selected_tags fto)))) \<and>
    (fst (getattr_spec os ffrom stat0 s) \<ge> 0 \<longrightarrow> file_get (p_filename ffrom) s' \<noteq> None)"
proof -
  let ?res = "fst (getattr_spec os ffrom stat0 s)"
  obtain s1 where s1: "getattr_intra os ffrom stat0 s = Some (getattr_spec os ffrom stat0 s, s1)"
    "op_inv h s1" "files_grow s s1" using getattr_intra_inv [OF inv live] by blast
  show ?thesis
  proof (cases "?res < 0")
    case True
    with s1 files_grow_kept [OF s1(3)] show ?thesis
      by (auto simp: path_link_def split_beta files_growD files_grow_live)
  next
    case False
    obtain f s2 x where s2: "file_get_or_create (p_filename ffrom) s1 = (f, s2)" "op_inv h s2"
      "files_grow s1 s2" "fheap s2 f = Some x" "f_name x = p_filename ffrom"
      "file_get (p_filename ffrom) s2 = Some f"
      using file_get_or_create_inv [OF s1(2)] by blast
    have g: "files_grow s s2" by (rule files_grow_trans [OF s1(3) s2(3)])
    have "set (p_selected_tags fto) \<subseteq> set (tags s2)" using sel g by (simp add: files_growD)
    then obtain s3 where s3: "ht_for_each (p_selected_tags fto) (\<lambda>tagname tag s. tag_file tag f s) s2 = Some s3"
      "op_inv h s3" "kept s2 s3"
      "\<forall>n k. tagged s3 n k \<longleftrightarrow> tagged s2 n k \<or> n = f_name x \<and> k \<in> set (keys (p_selected_tags fto))"
      "\<forall>k. live_name s3 k \<longleftrightarrow> live_name s2 k \<or> k \<in> set (keys (p_selected_tags fto))" "files s3 = files s2"
      using tag_files_loop [OF s2(2) _ s2(4)] by blast
    have "path_link os ffrom fto s = Some (?res, s3)"
      using s1(1) s2(1) s3(1) False by (simp add: path_link_def split_beta)
    moreover have "kept s s3" using kept_trans [OF files_grow_kept [OF g] s3(3)] .
    moreover have "tagged s2 = tagged s" using g by (rule files_growD(6))
    moreover have "live_name s2 = live_name s" using g by (rule files_grow_live)
    moreover have "file_get (p_filename ffrom) s3 \<noteq> None" using s2(6) s3(6) by (simp add: file_get_def)
    ultimately show ?thesis using s3(2,4,5) s2(5) False by auto
  qed
qed

subsection \<open>Unlinking\<close>

text \<open>A tag has files exactly if some file carries its name.\<close>

lemma tfiles_tagged:
  assumes inv: "op_inv h s" and t: "theap s t = Some r" and sole: "sole_owner s (t_value r) t"
  shows "t_files r \<noteq> [] \<longleftrightarrow> (\<exists>m. tagged s m (t_value r))"
proof
  note ok = op_inv_parts [OF inv]
  assume "t_files r \<noteq> []"
  then obtain n f where e: "(n, f) \<in> set (t_files r)" by (cases "t_files r") auto
  obtain x where "fheap s f = Some x" "f_name x = n" "(t_value r, t) \<in> set (f_tags x)"
    by (rule tfilesD [OF ok(4) t e])
  then show "\<exists>m. tagged s m (t_value r)" unfolding tagged_def by force
next
  note ok = op_inv_parts [OF inv]
  assume "\<exists>m. tagged s m (t_value r)"
  then obtain f x where x: "fheap s f = Some x" "t_value r \<in> set (keys (f_tags x))"
    unfolding tagged_def by blast
  have "(t_value r, t) \<in> set (f_tags x)" by (rule ftags_self [OF ok(3,4) sole x])
  from ftagsD [OF ok(3) x(1) this] t show "t_files r \<noteq> []" by fastforce
qed

text \<open>
  References to spare. \<^verbatim>\<open>path_unlink\<close> removes a tag that has no files left, once for each time the path
  selects it: a tag in use keeps a reference more than that; of a tag that is not in use \<^verbatim>\<open>path_delete\<close> gives back
  the references of the path objects \<open>h\<close> after it.
\<close>

definition spare :: "tag \<Rightarrow> int \<Rightarrow> int \<Rightarrow> bool" where
  "spare r n m \<longleftrightarrow> ref_count r \<ge> n + (if in_use r then 1 else m)"

definition sel_spare :: "tptr ht \<Rightarrow> tptr ht \<Rightarrow> 'w fs \<Rightarrow> bool" where
  "sel_spare h sel s \<longleftrightarrow> (\<forall>k t. (k, t) \<in> set sel \<longrightarrow> sole_owner s k t \<and>
     (\<exists>r. theap s t = Some r \<and> t_value r = k \<and> spare r (path_refs sel t) (path_refs h t)))"

definition untag_one :: "fptr \<Rightarrow> tptr \<Rightarrow> 'w fs \<Rightarrow> 'w fs option" where
  "untag_one f tag s = do {
     s \<leftarrow> untag_file tag f s;
     r \<leftarrow> theap s tag;
     if ht_entry_count (t_files r) = 0 then tag_remove tag s else Some s
   }"

text \<open>\<open>untagged s s'\<close>: tags leave the table and lose references, none appears.\<close>

definition untagged :: "'w fs \<Rightarrow> 'w fs \<Rightarrow> bool" where
  "untagged s s' \<longleftrightarrow> (\<exists>P. tags s' = filter P (tags s)) \<and> dheap s' = dheap s \<and> dnext s' = dnext s \<and>
     realdirpath s' = realdirpath s \<and> tagdbpath s' = tagdbpath s \<and> world s' = world s \<and> files s' = files s \<and>
     (\<forall>t. map_option (\<lambda>r. (t_value r, in_use r)) (theap s' t) = map_option (\<lambda>r. (t_value r, in_use r)) (theap s t))"

lemma untagged_refl [simp]: "untagged s s"
  by (auto simp: untagged_def intro!: exI [of _ "\<lambda>_. True"])

lemma untagged_trans: "untagged s s' \<Longrightarrow> untagged s' s'' \<Longrightarrow> untagged s s''"
  by (auto simp: untagged_def)

text \<open>The first selected tag may lose its files and a reference.\<close>

lemma sel_spare_pop:
  assumes sp: "sel_spare h ((k, t) # sel) s" and t: "theap s t = Some r"
    and th: "theap s' = (theap s)(t \<mapsto> r')" and tags: "set (tags s') \<subseteq> set (tags s)"
    and r': "t_value r' = t_value r" "in_use r' = in_use r" "ref_count r' \<ge> ref_count r - 1"
  shows "sel_spare h sel s'"
  unfolding sel_spare_def
proof (intro allI impI)
  fix j u assume m: "(j, u) \<in> set sel"
  then obtain y where y: "theap s u = Some y" "t_value y = j" "sole_owner s j u"
    "spare y (path_refs ((k, t) # sel) u) (path_refs h u)"
    using sp unfolding sel_spare_def by (meson list.set_intros(2))
  have "sole_owner s' j u" using y(3) tags by (auto simp: sole_owner_def)
  moreover have "\<exists>r. theap s' u = Some r \<and> t_value r = j \<and> spare r (path_refs sel u) (path_refs h u)"
    using y t r' unfolding th by (cases "u = t") (auto simp: path_refs_Cons spare_def)
  ultimately show "sole_owner s' j u \<and>
      (\<exists>r. theap s' u = Some r \<and> t_value r = j \<and> spare r (path_refs sel u) (path_refs h u))" ..
qed

lemma untag_one_inv:
  assumes inv: "op_inv h s" and f: "fheap s f = Some x" and sp: "sel_spare h ((k, t) # sel) s"
    and held: "(k, t) \<in> set h"
  shows "\<exists>s' x'. untag_one f t s = Some s' \<and> op_inv h s' \<and> fheap s' f = Some x' \<and> f_name x' = f_name x \<and>
    sel_spare h sel s' \<and> untagged s s' \<and>
    (\<forall>n j. tagged s' n j \<longleftrightarrow> tagged s n j \<and> \<not> (n = f_name x \<and> j = k)) \<and>
    (\<forall>j. live_name s' j \<longleftrightarrow> live_name s j \<and> (j = k \<longrightarrow> (\<exists>m. tagged s' m k)))"
proof -
  note ok = op_inv_parts [OF inv]
  from sp obtain r where r: "theap s t = Some r" "t_value r = k" "sole_owner s k t"
    "spare r (path_refs ((k, t) # sel) t) (path_refs h t)" unfolding sel_spare_def by (metis list.set_intros(1))
  let ?r = "r\<lparr>t_files := filter (\<lambda>e. fst e \<noteq> f_name x) (t_files r)\<rparr>"
  obtain x1 ns where x1: "untag_file t f s = Some (assoc_upd f x1 t ?r ns s)" "f_name x1 = f_name x"
    "f_tags x1 = filter (\<lambda>e. fst e \<noteq> k) (f_tags x)" "op_inv h (assoc_upd f x1 t ?r ns s)"
    using untag_file_inv [OF inv r(1) f] r(2,3) by blast
  let ?s = "assoc_upd f x1 t ?r ns s"
  have tg: "tagged ?s n j \<longleftrightarrow> tagged s n j \<and> \<not> (n = f_name x \<and> j = k)" for n j
    using tagged_upd [OF ok(2) f x1(2)] tagged_file [OF ok(2) f] x1(3) by auto
  have sole: "sole_owner ?s (t_value ?r) t" using r by (simp add: sole_owner_def)
  have tr: "theap ?s t = Some ?r" by simp
  have ln: "live_name ?s j = live_name s j" for j
    using r(1) unfolding live_name_def by auto
  have ne: "t_files ?r \<noteq> [] \<longleftrightarrow> (\<exists>m. tagged ?s m k)"
    using tfiles_tagged [OF x1(4) tr sole] r(2) by simp
  have un: "untagged s ?s" using r(1) by (auto simp: untagged_def assoc_upd_def intro!: exI [of _ "\<lambda>_. True"])
  note pop = sel_spare_pop [OF sp r(1)]
  show ?thesis
  proof (cases "t_files ?r = []")
    case False
    have "sel_spare h sel ?s" by (rule pop [where r' = ?r]) auto
    with False x1 tg ln un ne show ?thesis
      by (intro exI [of _ ?s] exI [of _ x1]) (simp add: untag_one_def ht_entry_count_zero)
  next
    case True
    have ref: "if in_use ?r then ref_count ?r \<ge> 2 else ref_count ?r \<ge> 1 + path_refs h t"
      using r(4) path_refs_nonneg [of sel t] by (simp add: path_refs_Cons spare_def split: if_splits)
    let ?s2 = "?s\<lparr>tags := filter (\<lambda>e. fst e \<noteq> t_value ?r) (tags ?s), theap := (theap ?s)(t :=
        if ref_count ?r = 1 then None else Some (?r\<lparr>ref_count := ref_count ?r - 1\<rparr>))\<rparr>"
    note rm = tag_remove_inv [OF x1(4) tr True sole ref]
    have r1: "ref_count r \<noteq> 1" using ref path_refs_pos [OF held] by (simp split: if_splits)
    have th: "theap ?s2 = (theap s)(t \<mapsto> ?r\<lparr>ref_count := ref_count r - 1\<rparr>)" using r1 by simp
    have tg2: "tagged ?s2 n j = tagged ?s n j" for n j by (simp add: tagged_def)
    have "sel_spare h sel ?s2" by (rule pop [OF th]) auto
    moreover have "untagged s ?s2" using un r1 r(1) by (auto simp: untagged_def)
    moreover have "live_name ?s2 j \<longleftrightarrow> live_name s j \<and> (j = k \<longrightarrow> (\<exists>m. tagged ?s2 m k))" for j
    proof (cases "j = k")
      case True
      with ne \<open>t_files ?r = []\<close> tg2 r(2) show ?thesis by (auto simp: live_name_def)
    next
      case False
      have "(j, u) \<in> set (tags ?s2) \<longleftrightarrow> (j, u) \<in> set (tags s)" for u using False r(2) by auto
      moreover have "(\<exists>y. theap ?s2 u = Some y \<and> in_use y) \<longleftrightarrow> (\<exists>y. theap s u = Some y \<and> in_use y)" for u
        using r(1) unfolding th by (cases "u = t") auto
      ultimately have "live_name ?s2 j = live_name s j" unfolding live_name_def by blast
      with False show ?thesis by simp
    qed
    moreover have "fheap ?s2 f = Some x1" by simp
    moreover have "untag_one f t s = Some ?s2"
      using x1(1) rm(1) True by (simp add: untag_one_def ht_entry_count_zero)
    ultimately show ?thesis using rm(2) x1(2) tg tg2 by (intro exI [of _ ?s2] exI [of _ x1]) simp
  qed
qed

lemma untag_loop:
  assumes "op_inv h s" and "fheap s f = Some x" and "sel_spare h sel s" and "set sel \<subseteq> set h"
  shows "\<exists>s' x'. ht_for_each sel (\<lambda>n tag s. untag_one f tag s) s = Some s' \<and> op_inv h s' \<and> untagged s s' \<and>
    fheap s' f = Some x' \<and> f_name x' = f_name x \<and>
    (\<forall>n j. tagged s' n j \<longleftrightarrow> tagged s n j \<and> \<not> (n = f_name x \<and> j \<in> set (keys sel))) \<and>
    (\<forall>j. live_name s' j \<longleftrightarrow> live_name s j \<and> (j \<in> set (keys sel) \<longrightarrow> (\<exists>m. tagged s' m j)))"
  using assms
proof (induction sel arbitrary: s x)
  case Nil
  then show ?case by (intro exI [of _ s] exI [of _ x]) simp
next
  case (Cons e sel)
  obtain k t where e: "e = (k, t)" by fastforce
  obtain s1 x1 where s1: "untag_one f t s = Some s1" "op_inv h s1" "fheap s1 f = Some x1"
    "f_name x1 = f_name x" "sel_spare h sel s1" "untagged s s1"
    "\<forall>n j. tagged s1 n j \<longleftrightarrow> tagged s n j \<and> \<not> (n = f_name x \<and> j = k)"
    "\<forall>j. live_name s1 j \<longleftrightarrow> live_name s j \<and> (j = k \<longrightarrow> (\<exists>m. tagged s1 m k))"
    using untag_one_inv [OF Cons.prems(1,2), of k t sel] Cons.prems(3,4) e by auto
  obtain s2 x2 where s2: "ht_for_each sel (\<lambda>n tag s. untag_one f tag s) s1 = Some s2" "op_inv h s2"
    "untagged s1 s2" "fheap s2 f = Some x2" "f_name x2 = f_name x1"
    "\<forall>n j. tagged s2 n j \<longleftrightarrow> tagged s1 n j \<and> \<not> (n = f_name x1 \<and> j \<in> set (keys sel))"
    "\<forall>j. live_name s2 j \<longleftrightarrow> live_name s1 j \<and> (j \<in> set (keys sel) \<longrightarrow> (\<exists>m. tagged s2 m j))"
    using Cons.IH [OF s1(2,3,5)] Cons.prems(4) by auto
  have "untagged s s2" by (rule untagged_trans [OF s1(6) s2(3)])
  moreover have "tagged s2 n j \<longleftrightarrow> tagged s n j \<and> \<not> (n = f_name x \<and> j \<in> set (keys (e # sel)))" for n j
    using s1(4,7) s2(6) e by auto
  moreover have "live_name s2 j \<longleftrightarrow> live_name s j \<and> (j \<in> set (keys (e # sel)) \<longrightarrow> (\<exists>m. tagged s2 m j))" for j
  proof (cases "j = k \<and> j \<notin> set (keys sel)")
    case True
    then have "tagged s2 m j = tagged s1 m j" for m using s2(6) by auto
    with True s1(8) s2(7) e show ?thesis by auto
  next
    case False
    have "\<exists>m. tagged s2 m j \<Longrightarrow> \<exists>m. tagged s1 m j" using s2(6) by blast
    with False s1(8) s2(7) e show ?thesis by (cases "j = k") (simp, blast, simp)
  qed
  ultimately show ?case using s1(1,4) s2(1,2,4,5)
    by (intro exI [of _ s2] exI [of _ x2]) (simp add: e)
qed

lemma path_unlink_inv:
  assumes inv: "op_inv h s" and sub: "set (p_selected_tags p) \<subseteq> set h"
    and sp: "file_get (p_filename p) s \<noteq> None \<longrightarrow> sel_spare h (p_selected_tags p) s"
  shows "\<exists>s'. path_unlink p s = Some (if file_get (p_filename p) s = None then - ENOENT else 0, s') \<and>
    op_inv h s' \<and> untagged s s' \<and>
    (\<forall>n k. tagged s' n k \<longleftrightarrow> tagged s n k \<and> \<not> (n = p_filename p \<and> k \<in> set (keys (p_selected_tags p)))) \<and>
    (\<forall>k. live_name s' k \<longleftrightarrow> live_name s k \<and>
      (file_get (p_filename p) s \<noteq> None \<and> k \<in> set (keys (p_selected_tags p)) \<longrightarrow> (\<exists>m. tagged s' m k)))"
proof (cases "file_get (p_filename p) s")
  case None
  have "\<not> tagged s (p_filename p) k" for k
  proof
    assume "tagged s (p_filename p) k"
    then obtain f x where "fheap s f = Some x" "f_name x = p_filename p" unfolding tagged_def by blast
    then have "p_filename p \<in> set (keys (files s))" using op_inv_parts(2) [OF inv] by (force simp: files_ok_def)
    with None show False by (simp add: file_get_def ht_get_entry_def ht_find_None_iff)
  qed
  with None inv show ?thesis by (auto simp: path_unlink_def)
next
  case (Some f)
  obtain x where x: "fheap s f = Some x" "f_name x = p_filename p"
    by (rule file_get_SomeD [OF inv Some])
  have "sel_spare h (p_selected_tags p) s" using sp Some by simp
  from untag_loop [OF inv x(1) this sub] x(2) obtain s' where "ht_for_each (p_selected_tags p) (\<lambda>n tag s. untag_one f tag s) s = Some s'"
    "op_inv h s'" "untagged s s'"
    "\<forall>n j. tagged s' n j \<longleftrightarrow> tagged s n j \<and> \<not> (n = p_filename p \<and> j \<in> set (keys (p_selected_tags p)))"
    "\<forall>j. live_name s' j \<longleftrightarrow> live_name s j \<and> (j \<in> set (keys (p_selected_tags p)) \<longrightarrow> (\<exists>m. tagged s' m j))"
    by metis
  with Some show ?thesis
    by (intro exI [of _ s']) (simp add: path_unlink_def untag_one_def [abs_def])
qed

text \<open>A path object whose tags are in use has the references to spare.\<close>

lemma selects_used:
  assumes "selects sel h s s'" and "op_inv h s" and "live_name s k" and m: "(k, t) \<in> set sel"
  shows "\<exists>r. theap s' t = Some r \<and> t_value r = k \<and> in_use r \<and> 1 + path_refs sel t \<le> ref_count r"
proof -
  have inv: "op_inv (sel @ h) s'" and sub: "set (sel @ h) \<subseteq> set (tags s')" and "core s' = core s"
    and sp: "\<And>t r. theap s' t = Some r \<Longrightarrow> in_use r \<Longrightarrow>
      \<exists>r0. theap s t = Some r0 \<and> ref_count r \<ge> ref_count r0 + path_refs sel t"
    using assms(1) by (auto simp: selects_def)
  note ok = op_inv_parts [OF inv]
  have kt: "(k, t) \<in> set (tags s')" using sub m by auto
  have "live_name s' k" using assms(3) live_name_core_eq [OF \<open>core s' = core s\<close>] by simp
  then obtain u r where u: "(k, u) \<in> set (tags s')" "theap s' u = Some r" "in_use r"
    by (auto simp: live_name_def)
  then have "u = t" using tags_unique [OF ok(1)] kt by blast
  with u have r: "theap s' t = Some r" by simp
  have "t_value r = k" by (rule tags_value [OF ok(1) kt r])
  moreover obtain r0 where "theap s t = Some r0" "ref_count r \<ge> ref_count r0 + path_refs sel t"
    using sp [OF r u(3)] by blast
  moreover from this(1) have "ref_count r0 \<ge> 1" using op_inv_parts(7) [OF assms(2)] by (simp add: refs_ok_def)
  ultimately show ?thesis using r u(3) by auto
qed

end
