(* ===== verification/Fuse_Refs.thy ===== *)
theory Fuse_Refs
  imports Fuse_Safe
begin

text \<open>
  The exact reference counts behind path objects, and what happens to a tag that is not in use: each round of
  \<^verbatim>\<open>path_unlink\<close> and of \<^verbatim>\<open>path_delete\<close> takes one reference, the last one frees the struct, and a further one
  uses the freed struct. This decides when \<^verbatim>\<open>unlink\<close> and \<^verbatim>\<open>rename\<close> below a name that is not a tag are undefined.
\<close>

subsection \<open>Counting\<close>

definition ref_at :: "'w fs \<Rightarrow> tptr \<Rightarrow> int" where
  "ref_at s t = (case theap s t of None \<Rightarrow> 0 | Some r \<Rightarrow> ref_count r)"

text \<open>The references of the tag that the table has under a name.\<close>

definition ref_of :: "'w fs \<Rightarrow> cstring \<Rightarrow> int" where
  "ref_of s k = (case ht_find (tags s) k of None \<Rightarrow> 0 | Some t \<Rightarrow> ref_at s t)"

text \<open>Every reference that a path object holds has been counted, and nothing else changed hands.\<close>

definition counted :: "tptr ht \<Rightarrow> 'w fs \<Rightarrow> 'w fs \<Rightarrow> bool" where
  "counted sel s s' \<longleftrightarrow> (\<forall>t. ref_at s' t = ref_at s t + path_refs sel t) \<and>
     (\<forall>k t. (k, t) \<in> set (tags s') \<longrightarrow> (k, t) \<in> set (tags s) \<or> theap s t = None)"

lemma select_tag_counted:
  assumes inv: "op_inv h s" and sel: "select_tag c s = Some (t, s')"
  shows "counted [(c, t)] s s'"
proof -
  note ok = op_inv_parts [OF inv]
  consider "c \<notin> set (keys (tags s))"
    | u r where "tag_get c s = u" "u \<noteq> INVALID_TAG" "theap s u = Some r"
    using tag_get_cases [OF inv, of c] by blast
  then show ?thesis
  proof cases
    case 1
    then have "t = TagAt (tnext s)" "s' = new_tag_state c False s"
      using sel select_new_tag [OF 1] by simp_all
    moreover have "theap s (TagAt (tnext s)) = None" using ok(5) by (simp add: fresh_ok_def)
    ultimately show ?thesis
      by (auto simp: counted_def ref_at_def new_tag_state_def path_refs_Cons)
  next
    case (2 u r)
    with sel show ?thesis
      by (auto simp: select_tag_def tag_inc_ref_def tag_upd_def counted_def ref_at_def path_refs_Cons)
  qed
qed

lemma counted_trans:
  assumes "counted new s s1" "counted new' s1 s2" "grows s s1"
  shows "counted (new @ new') s s2"
proof -
  have none: "theap s t = None" if "theap s1 t = None" for t
    using growsD [OF assms(3)] that by (metis not_None_eq)
  show ?thesis unfolding counted_def
  proof (intro conjI allI impI)
    show "ref_at s2 t = ref_at s t + path_refs (new @ new') t" for t
      using assms(1,2) by (simp add: counted_def path_refs_append)
    show "(k, t) \<in> set (tags s) \<or> theap s t = None" if "(k, t) \<in> set (tags s2)" for k t
    proof -
      have "(k, t) \<in> set (tags s1) \<or> theap s1 t = None" using assms(2) that by (simp add: counted_def)
      then show ?thesis
      proof
        assume "(k, t) \<in> set (tags s1)"
        with assms(1) show ?thesis unfolding counted_def by (elim conjE allE) (erule mp)
      qed (simp add: none)
    qed
  qed
qed

lemma select_tags_counted:
  assumes "op_inv (sel @ h) s" and "set (sel @ h) \<subseteq> set (tags s)"
    and "select_tags (map Some cs) sel s = Some (sel', s')"
  shows "\<exists>new. sel' = sel @ new \<and> counted new s s'"
  using assms
proof (induction cs arbitrary: sel s)
  case Nil
  then show ?case by (auto simp: counted_def)
next
  case (Cons c cs)
  obtain t s1 where s1: "select_tag c s = Some (t, s1)" "selects [(c, t)] (sel @ h) s s1"
    using select_tag_inv [OF Cons.prems(1,2), of c] by blast
  have "op_inv ([(c, t)] @ sel @ h) s1" using s1(2) by (simp add: selects_def)
  then have inv: "op_inv ((sel @ [(c, t)]) @ h) s1"
    by (rule op_inv_cong) (auto simp: path_refs_append path_refs_Cons)
  moreover have "set ((sel @ [(c, t)]) @ h) \<subseteq> set (tags s1)" using s1(2) by (auto simp: selects_def)
  moreover have "select_tags (map Some cs) (sel @ [(c, t)]) s1 = Some (sel', s')"
    using Cons.prems(3) s1(1) by (simp add: select_tags_Cons del: select_tags.simps)
  ultimately obtain new where new: "sel' = (sel @ [(c, t)]) @ new" "counted new s1 s'" using Cons.IH by blast
  have "counted ([(c, t)] @ new) s s'"
    by (rule counted_trans [OF select_tag_counted [OF Cons.prems(1) s1(1)] new(2)]) (use s1(2) in \<open>simp add: selects_def\<close>)
  with new(1) show ?case by simp
qed

lemma path_create_counted:
  assumes cs: "components cs" and inv: "op_inv h s" and h: "set h \<subseteq> set (tags s)"
    and run: "path_create (path_of cs) is_tag s = Some (path_obj s cs sel, s')"
  shows "counted sel s s'"
proof -
  let ?ds = "if is_tag then cs else butlast cs"
  have ds: "components ?ds" using cs components_butlast by simp
  have "select_tags (map Some ?ds) [] s = Some (sel, s')"
  proof -
    have "compute_selected_tags (path_of ?ds) s = select_tags (map Some ?ds) [] s"
      by (simp add: compute_selected_tags_def path_of_neq_dot [OF ds] string_split_path [OF ds] ht_create_def
        del: map_append)
    with run cs show ?thesis
      by (cases is_tag) (auto simp: path_create_def dirname_components path_obj_def elim!: bind_SomeE)
  qed
  from select_tags_counted [OF _ _ this, of h] inv h show ?thesis by simp
qed

text \<open>A path object holds its entries' tags, each as often as its name occurs.\<close>

lemma path_refs_names:
  assumes "tags_ok s" and "set sel \<subseteq> set (tags s)" and "(k, t) \<in> set sel"
  shows "path_refs sel t = int (count_list (keys sel) k)"
proof -
  have kt: "(k, t) \<in> set (tags s)" using assms(2,3) by blast
  have "snd e = t \<longleftrightarrow> fst e = k" if e: "e \<in> set sel" for e
  proof -
    obtain j u where ju: "e = (j, u)" "(j, u) \<in> set (tags s)" using e assms(2) by (metis prod.collapse subsetD)
    obtain r where "theap s t = Some r" "t_value r = k" using assms(1) kt unfolding tags_ok_def by blast
    with tags_value [OF assms(1)] tags_unique [OF assms(1) kt] ju show ?thesis by auto
  qed
  then have "filter (\<lambda>e. snd e = t) sel = filter (\<lambda>e. fst e = k) sel" by (rule filter_cong [OF refl])
  moreover have "length (filter (\<lambda>e. fst e = k) sel) = count_list (keys sel) k" by (induction sel) auto
  ultimately show ?thesis by (simp add: path_refs_def)
qed

lemma ref_before:
  assumes "tags_ok s" and "tags_ok s'" and "grows s s'" and "counted sel s s'" and "(k, t) \<in> set (tags s')"
  shows "ref_at s t = ref_of s k"
proof (cases "ht_find (tags s) k")
  case None
  then have "(k, t) \<notin> set (tags s)" by (force simp: ht_find_None_iff)
  with assms(4,5) have "theap s t = None" by (auto simp: counted_def)
  with None show ?thesis by (simp add: ref_of_def ref_at_def)
next
  case (Some u)
  then have "(k, u) \<in> set (tags s)" by (rule ht_find_SomeD)
  then have "(k, u) \<in> set (tags s')" using assms(3) by (auto simp: grows_def)
  with assms(2,5) have "u = t" using tags_unique by blast
  with Some show ?thesis by (simp add: ref_of_def)
qed

lemma ref_of_nonneg: "op_inv h s \<Longrightarrow> 0 \<le> ref_of s k"
proof -
  assume "op_inv h s"
  then have "ref_count r \<ge> 1" if "theap s t = Some r" for t r using that op_inv_parts(7) by (auto simp: refs_ok_def)
  then show ?thesis by (force simp: ref_of_def ref_at_def split: option.split)
qed

text \<open>The tag selected under a name that is not in use.\<close>

lemma selects_unused:
  assumes sl: "selects sel h s s'" and inv: "op_inv h s" and ct: "counted sel s s'"
    and m: "(k, t) \<in> set sel" and dead: "\<not> live_name s k"
  shows "\<exists>r. theap s' t = Some r \<and> t_value r = k \<and> \<not> in_use r \<and> t_files r = [] \<and>
    ref_count r = ref_of s k + int (count_list (keys sel) k)"
proof -
  have inv': "op_inv (sel @ h) s'" and sub: "set (sel @ h) \<subseteq> set (tags s')" and "core s' = core s" and g: "grows s s'"
    using sl by (auto simp: selects_def)
  note ok = op_inv_parts [OF inv']
  have kt: "(k, t) \<in> set (tags s')" using sub m by auto
  obtain r where r: "theap s' t = Some r" "t_value r = k" using ok(1) kt unfolding tags_ok_def by blast
  have "\<not> live_name s' k" using dead live_name_core_eq [OF \<open>core s' = core s\<close>] by simp
  with kt r(1) have u: "\<not> in_use r" by (auto simp: live_name_def)
  then have "t_files r = []" using ok(4) r(1) unfolding tfiles_ok_def by blast
  moreover have "path_refs sel t = int (count_list (keys sel) k)"
    by (rule path_refs_names [OF ok(1) _ m]) (use sub in auto)
  moreover have "ref_at s t = ref_of s k" by (rule ref_before [OF op_inv_parts(1) [OF inv] ok(1) g ct kt])
  moreover have "ref_at s' t = ref_count r" by (simp add: ref_at_def r(1))
  moreover have "ref_at s' t = ref_at s t + path_refs sel t" using ct by (simp add: counted_def)
  ultimately show ?thesis using r u by simp
qed

text \<open>
  A path object has references to spare if each of its names is in use, or was referenced before at
  least as often as the path selects it.
\<close>

lemma selects_spare:
  assumes sl: "selects sel h s s'" and inv: "op_inv h s" and ct: "counted sel s s'"
    and all: "\<forall>k\<in>set (keys sel). live_name s k \<or> path_refs h' (tag_get k s') \<le> ref_of s k"
  shows "sel_spare h' sel s'"
  unfolding sel_spare_def
proof (intro allI impI)
  fix k t assume m: "(k, t) \<in> set sel"
  have inv': "op_inv (sel @ h) s'" and sub: "set (sel @ h) \<subseteq> set (tags s')" using sl by (auto simp: selects_def)
  note ok = op_inv_parts [OF inv']
  have kt: "(k, t) \<in> set (tags s')" using sub m by auto
  have sole: "sole_owner s' k t" using tags_unique [OF ok(1) kt] by (auto simp: sole_owner_def)
  have "ht_find (tags s') k = Some t" using ok(1) kt by (simp add: ht_find_distinct tags_ok_def)
  then have tg: "tag_get k s' = t" by (simp add: tag_get_def ht_get_entry_def)
  have k: "k \<in> set (keys sel)" using m by (auto intro: rev_image_eqI)
  have pr: "path_refs sel t = int (count_list (keys sel) k)"
    by (rule path_refs_names [OF ok(1) _ m]) (use sub in auto)
  show "sole_owner s' k t \<and> (\<exists>r. theap s' t = Some r \<and> t_value r = k \<and> spare r (path_refs sel t) (path_refs h' t))"
  proof (cases "live_name s k")
    case True
    with selects_used [OF sl inv _ m] sole show ?thesis by (auto simp: spare_def)
  next
    case False
    from selects_unused [OF sl inv ct m False] obtain r where r: "theap s' t = Some r" "t_value r = k" "\<not> in_use r"
      "ref_count r = ref_of s k + int (count_list (keys sel) k)" by blast
    have "path_refs h' t \<le> ref_of s k" using all k False tg by blast
    with r pr have "spare r (path_refs sel t) (path_refs h' t)" by (simp add: spare_def)
    with r(1,2) sole show ?thesis by blast
  qed
qed

subsection \<open>A tag that is not in use\<close>

definition unused_at :: "tptr \<Rightarrow> int \<Rightarrow> 'w fs \<Rightarrow> bool" where
  "unused_at t n s \<longleftrightarrow> (case theap s t of None \<Rightarrow> n = 0
     | Some r \<Rightarrow> 1 \<le> n \<and> ref_count r = n \<and> \<not> in_use r \<and> t_files r = [])"

lemma unused_at_cong: "theap s' t = theap s t \<Longrightarrow> unused_at t n s' = unused_at t n s"
  by (simp add: unused_at_def)

lemma notify_theap: "notify_descriptors f ev ds s = Some s' \<Longrightarrow> theap s' = theap s"
  by (induction ds arbitrary: s) (auto simp: file_upd_def elim!: bind_SomeE split: option.splits)

lemma file_tag_theap:
  "file_remove_tag f t s = Some s' \<Longrightarrow> theap s' = theap s"
  "file_add_tag f t s = Some s'' \<Longrightarrow> theap s'' = theap s"
  by (auto simp: file_remove_tag_def file_add_tag_def file_upd_def notify_descriptors_poll_def elim!: bind_SomeE
      dest!: notify_theap)

lemma tag_upd_theap: "tag_upd t g s = Some s' \<Longrightarrow> \<exists>r. theap s t = Some r \<and> s' = s\<lparr>theap := (theap s)(t \<mapsto> g r)\<rparr>"
  by (auto simp: tag_upd_def elim!: bind_SomeE)

lemma remove_tags_theap:
  "ht_for_each h (\<lambda>name f s. file_remove_tag f t s) s = Some s' \<Longrightarrow> theap s' = theap s"
  by (rule ht_for_each_keeps [where P = "\<lambda>u. theap u = theap s"]) (auto dest: file_tag_theap)

lemma tag_remove_theap:
  assumes "tag_remove u s = Some s'"
  shows "\<exists>r. theap s u = Some r \<and> theap s' = (theap s)(u := if ref_count r = 1 then None
    else Some (r\<lparr>ref_count := ref_count r - 1\<rparr>))"
  using assms
  by (fastforce simp: tag_remove_def tag_dec_ref_def Let_def elim!: bind_SomeE dest!: remove_tags_theap tag_upd_theap
      split: if_splits)

lemma untag_file_theap:
  assumes "untag_file u f s = Some s'"
  shows "\<exists>r n. theap s u = Some r \<and>
    theap s' = (theap s)(u \<mapsto> r\<lparr>t_files := snd (ht_remove_entry (t_files r) n)\<rparr>)"
proof -
  obtain s1 and x :: tfile where s1: "file_remove_tag f u s = Some s1"
    "tag_upd u (\<lambda>r. r\<lparr>t_files := snd (ht_remove_entry (t_files r) (f_name x))\<rparr>) s1 = Some s'"
    using assms unfolding untag_file_def tag_remove_file_def by (elim bind_SomeE) (rule that)
  from tag_upd_theap [OF s1(2)] file_tag_theap(1) [OF s1(1)] show ?thesis by auto
qed

lemma tag_file_theap:
  assumes "tag_file u f s = Some s'" and "u \<noteq> t"
  shows "theap s' t = theap s t"
proof -
  obtain s1 s2 g where s1: "file_add_tag f u s = Some s1" "tag_upd u g s1 = Some s2"
    "tag_upd u (\<lambda>r. r\<lparr>in_use := True\<rparr>) s2 = Some s'"
    using assms(1) unfolding tag_file_def tag_add_file_def by (elim bind_SomeE) (rule that)
  from tag_upd_theap [OF s1(2)] tag_upd_theap [OF s1(3)] file_tag_theap(2) [OF s1(1)] assms(2) show ?thesis by auto
qed

lemma tag_remove_unused:
  assumes "tag_remove u s = Some s'" and "unused_at t n s"
  shows "unused_at t (if u = t then n - 1 else n) s' \<and> (u = t \<longrightarrow> 1 \<le> n)"
  using tag_remove_theap [OF assms(1)] assms(2) by (auto simp: unused_at_def split: option.splits)

lemma untag_one_unused:
  assumes "untag_one f u s = Some s'" and "unused_at t n s"
  shows "unused_at t (if u = t then n - 1 else n) s' \<and> (u = t \<longrightarrow> 1 \<le> n)"
proof -
  obtain s1 r1 where s1: "untag_file u f s = Some s1" "theap s1 u = Some r1"
    "(if ht_entry_count (t_files r1) = 0 then tag_remove u s1 else Some s1) = Some s'"
    using assms(1) by (auto simp: untag_one_def elim!: bind_SomeE)
  obtain r m where r: "theap s u = Some r" "theap s1 = (theap s)(u \<mapsto> r\<lparr>t_files := snd (ht_remove_entry (t_files r) m)\<rparr>)"
    using untag_file_theap [OF s1(1)] by blast
  have u1: "unused_at t n s1"
    using assms(2) r by (cases "u = t") (auto simp: unused_at_def ht_remove_entry_def ht_find_def)
  show ?thesis
  proof (cases "ht_entry_count (t_files r1) = 0")
    case True
    with s1(3) tag_remove_unused [OF _ u1, of u s'] show ?thesis by simp
  next
    case False
    have "u \<noteq> t"
    proof
      assume "u = t"
      with u1 s1(2) have "t_files r1 = []" by (simp add: unused_at_def)
      with False show False by (simp add: ht_entry_count_zero)
    qed
    with False s1(3) u1 show ?thesis by simp
  qed
qed

text \<open>Both loops over the selected tags take a reference for each entry, and fault when none is left.\<close>

lemma drain_loop:
  assumes "ht_for_each sel g s = Some s'" and "unused_at t n s"
    and "\<And>k u c c' m. g k u c = Some c' \<Longrightarrow> unused_at t m c \<Longrightarrow>
      unused_at t (if u = t then m - 1 else m) c' \<and> (u = t \<longrightarrow> 1 \<le> m)"
  shows "unused_at t (n - path_refs sel t) s' \<and> path_refs sel t \<le> n"
  using assms(1,2)
proof (induction sel arbitrary: s n)
  case Nil
  then show ?case by (auto simp: unused_at_def split: option.splits)
next
  case (Cons e sel)
  obtain k u where e: "e = (k, u)" by fastforce
  with Cons.prems(1) obtain s1 where s1: "g k u s = Some s1" "ht_for_each sel g s1 = Some s'" by (auto elim: bind_SomeE)
  have "unused_at t (if u = t then n - 1 else n) s1" using assms(3) [OF s1(1) Cons.prems(2)] by blast
  from Cons.IH [OF s1(2) this] show ?case by (cases "u = t") (simp_all add: e path_refs_Cons algebra_simps)
qed

lemma path_unlink_drains:
  assumes "path_unlink p s = Some (r, s')" and "unused_at t n s" and "file_get (p_filename p) s \<noteq> None"
  shows "unused_at t (n - path_refs (p_selected_tags p) t) s'"
proof -
  obtain f where "ht_for_each (p_selected_tags p) (\<lambda>filename tag s. untag_one f tag s) s = Some s'"
    using assms(1,3) by (auto simp: path_unlink_def untag_one_def [abs_def] elim!: bind_SomeE)
  from drain_loop [OF this assms(2)] untag_one_unused show ?thesis by blast
qed

lemma path_delete_drains:
  assumes "path_delete p s = Some s'" and "unused_at t n s"
  shows "unused_at t (n - path_refs (p_selected_tags p) t) s'" and "path_refs (p_selected_tags p) t \<le> n"
proof -
  have step: "unused_at t (if u = t then m - 1 else m) c' \<and> (u = t \<longrightarrow> 1 \<le> m)"
    if g: "(do { r \<leftarrow> theap c u; if \<not> in_use r then tag_remove u c else Some c }) = Some c'" "unused_at t m c" for u c c' m
  proof -
    obtain r where r: "theap c u = Some r" "(if \<not> in_use r then tag_remove u c else Some c) = Some c'"
      using g(1) by (rule bind_SomeE)
    show ?thesis
    proof (cases "in_use r")
      case True
      then have "u \<noteq> t" using r(1) g(2) by (auto simp: unused_at_def)
      with True r(2) g(2) show ?thesis by simp
    next
      case False
      with r(2) tag_remove_unused [OF _ g(2), of u c'] show ?thesis by simp
    qed
  qed
  from assms(1) have "ht_for_each (p_selected_tags p)
       (\<lambda>n u s. do { r \<leftarrow> theap s u; if \<not> in_use r then tag_remove u s else Some s }) s = Some s'"
    by (simp add: path_delete_def free_selected_tags_def)
  from drain_loop [OF this assms(2)] step have "unused_at t (n - path_refs (p_selected_tags p) t) s' \<and>
    path_refs (p_selected_tags p) t \<le> n" by blast
  then show "unused_at t (n - path_refs (p_selected_tags p) t) s'"
    "path_refs (p_selected_tags p) t \<le> n" by blast+
qed

end
