(* ===== verification/Fuse_Ops.thy ===== *)
theory Fuse_Ops
  imports Fuse_Refs
begin

text \<open>
  The operations of the table \<^verbatim>\<open>tag_oper\<close> that look up, link, unlink and rename: on a state with
  the invariant they do not fault, keep it, and change the relation \<open>tagged\<close> and the set of
  tags in use in the way stated.
\<close>

subsection \<open>mkdir\<close>

text \<open>\<open>same_files\<close>: only the table of tags and the tag structs may differ.\<close>

definition same_files :: "'w fs \<Rightarrow> 'w fs \<Rightarrow> bool" where
  "same_files s s' \<longleftrightarrow> files s' = files s \<and> fheap s' = fheap s \<and> dheap s' = dheap s \<and> dnext s' = dnext s \<and>
     realdirpath s' = realdirpath s \<and> tagdbpath s' = tagdbpath s \<and> world s' = world s"

lemma same_files_tagged: "same_files s s' \<Longrightarrow> tagged s' = tagged s"
  by (simp add: same_files_def tagged_def fun_eq_iff)

lemma core_same_files: "core s' = core s \<Longrightarrow> same_files s s'"
  by (simp add: core_def same_files_def)

definition mkdir_result :: "cstring \<Rightarrow> 'w fs \<Rightarrow> int" where
  "mkdir_result p s =
     (if get_character_count p slash > 1 then - EPERM
      else if live_name s (basenamedup p) then - EEXIST else 0)"

lemma live_name_self:
  assumes "tags_ok s" "(k, t) \<in> set (tags s)" "theap s t = Some r"
  shows "live_name s k \<longleftrightarrow> in_use r"
  using assms tags_unique [OF assms(1,2)] unfolding live_name_def by (metis option.inject)

lemma live_name_absent: "c \<notin> set (keys (tags s)) \<Longrightarrow> \<not> live_name s c"
  unfolding live_name_def by force

lemma new_tag_live:
  assumes "tags_ok s" and "fresh_ok s"
  shows "live_name (new_tag_state c True s) j \<longleftrightarrow> live_name s j \<or> j = c"
proof -
  let ?t = "TagAt (tnext s)" and ?s = "new_tag_state c True s"
  have new: "theap s ?t = None" using assms(2) by (simp add: fresh_ok_def)
  have nt: "(i, ?t) \<notin> set (tags s)" for i using assms(1) new unfolding tags_ok_def by force
  have "(\<exists>y. theap ?s u = Some y \<and> in_use y) \<longleftrightarrow> u = ?t \<or> (\<exists>y. theap s u = Some y \<and> in_use y)" for u
    by (auto simp: new_tag_state_def)
  moreover have "(j, u) \<in> set (tags ?s) \<longleftrightarrow> (j, u) \<in> set (tags s) \<or> j = c \<and> u = ?t" for u
    by (auto simp: new_tag_state_def)
  ultimately show ?thesis using nt unfolding live_name_def by metis
qed

lemma tag_mkdir_inv:
  assumes inv: "op_inv h s" and h: "set h \<subseteq> set (tags s)"
  shows "\<exists>s'. tag_mkdir p s = Some (mkdir_result p s, s') \<and> op_inv h s' \<and> grows s s' \<and> same_files s s' \<and>
    (\<forall>j. live_name s' j \<longleftrightarrow> live_name s j \<or> get_character_count p slash \<le> 1 \<and> j = basenamedup p)"
proof (cases "get_character_count p slash > 1")
  case True
  with inv show ?thesis by (simp add: tag_mkdir_def mkdir_result_def same_files_def)
next
  case False
  note ok = op_inv_parts [OF inv]
  let ?c = "basenamedup p"
  consider "?c \<notin> set (keys (tags s))" "tag_get ?c s = INVALID_TAG"
    | t r where "(?c, t) \<in> set (tags s)" "tag_get ?c s = t" "t \<noteq> INVALID_TAG" "theap s t = Some r" "t_value r = ?c"
    using tag_get_cases [OF inv, of ?c] by blast
  then show ?thesis
  proof cases
    case 1
    let ?t = "TagAt (tnext s)" and ?s = "new_tag_state ?c True s"
    have nl: "\<not> live_name s ?c" using 1(1) by (rule live_name_absent)
    have "ht_find (tags s) ?c = None" using 1(1) by (simp add: ht_find_None_iff)
    then have "tag_mkdir p s = Some (0, ?s)"
      using 1 False by (simp add: tag_mkdir_def tag_get_or_create_def tag_get_or_create'_def ht_get_entry_def
          tag_new_def tag_inc_ref_def tag_upd_def new_tag_state_def ht_create_def Let_def)
    moreover have "op_inv h ?s" using op_inv_weaken [OF new_tag_inv [OF inv h 1(1)]] .
    moreover have "same_files s ?s" by (simp add: same_files_def new_tag_state_def)
    moreover have "live_name ?s j \<longleftrightarrow> live_name s j \<or> j = ?c" for j by (rule new_tag_live [OF ok(1,5)])
    ultimately show ?thesis using new_tag_grows [OF ok(5)] False nl by (auto simp: mkdir_result_def)
  next
    case (2 t r)
    have ln: "live_name s ?c \<longleftrightarrow> in_use r" by (rule live_name_self [OF ok(1) 2(1,4)])
    show ?thesis
    proof (cases "in_use r")
      case True
      with 2 False ln inv show ?thesis by (auto simp: tag_mkdir_def mkdir_result_def same_files_def)
    next
      case unused: False
      let ?s = "s\<lparr>theap := (theap s)(t \<mapsto> r\<lparr>in_use := True\<rparr>)\<rparr>"
      have "tag_mkdir p s = Some (0, ?s)"
        using 2 False unused by (simp add: tag_mkdir_def tag_upd_def Let_def)
      moreover have "op_inv h ?s" by (rule tag_change_inv [OF inv 2(4)]) auto
      moreover have "grows s ?s" by (rule tag_change_grows [OF 2(4)]) simp_all
      moreover have "same_files s ?s" by (simp add: same_files_def)
      moreover have "live_name ?s j \<longleftrightarrow> live_name s j \<or> j = ?c" for j
      proof (cases "j = ?c")
        case True
        with 2 show ?thesis by (auto simp: live_name_def)
      next
        case False
        then have "(j, t) \<notin> set (tags s)" using tags_value [OF ok(1) _ 2(4)] 2(5) by metis
        with False show ?thesis by (auto simp: live_name_def)
      qed
      ultimately show ?thesis using False unused ln by (simp add: mkdir_result_def)
    qed
  qed
qed

subsection \<open>getattr\<close>

lemma selects_live: "selects sel h s s' \<Longrightarrow> sel_live sel s'"
  unfolding selects_def by (blast intro: sel_live_op_inv)

lemma selects_inv: "selects sel [] s s' \<Longrightarrow> op_inv sel s'"
  by (simp add: selects_def)

lemma selects_same: "selects sel h s s' \<Longrightarrow> same_files s s'"
  by (simp add: selects_def core_same_files)

lemma getattr_spec_same:
  "same_files s s' \<Longrightarrow> getattr_spec os p b s' = getattr_spec os p b s"
  by (frule same_files_tagged) (simp add: getattr_spec_def same_files_def split_beta)

text \<open>\<open>refined s s'\<close>: files may have become known, and unused tags may have come or gone.\<close>

definition refined :: "'w fs \<Rightarrow> 'w fs \<Rightarrow> bool" where
  "refined s s' \<longleftrightarrow> tagged s' = tagged s \<and> live_name s' = live_name s \<and> world s' = world s \<and>
     realdirpath s' = realdirpath s \<and> (\<forall>n. file_get n s \<noteq> None \<longrightarrow> file_get n s' \<noteq> None)"

lemma refined_trans: "refined s s' \<Longrightarrow> refined s' s'' \<Longrightarrow> refined s s''"
  by (simp add: refined_def)

lemma core_refined: "core s' = core s \<Longrightarrow> refined s s'"
  by (auto simp: refined_def file_get_def dest: core_eqD live_name_core_eq same_files_tagged [OF core_same_files])

lemma files_grow_refined: "files_grow s s' \<Longrightarrow> refined s s'"
  unfolding refined_def files_grow_def live_name_def [abs_def] file_get_def ht_get_entry_def ht_find_None_iff
  by (auto simp: fun_eq_iff)

text \<open>What \<^verbatim>\<open>getattr\<close> answers for a path, in terms of names.\<close>

definition lookup_name :: "cstring list \<Rightarrow> cstring" where
  "lookup_name cs = (if cs = [] then ''/'' else last cs)"

definition lookup_spec :: "'w os \<Rightarrow> cstring list \<Rightarrow> stat \<Rightarrow> 'w fs \<Rightarrow> int \<times> stat" where
  "lookup_spec os cs stbuf s =
     (let (res, st) = c_stat os (path_realpath s (path_of cs)) stbuf (world s)
      in if res < 0 \<or> S_ISDIR (st_mode st) then c_stat os (realdirpath s) st (world s)
         else if butlast cs \<noteq> [] then
           (if \<forall>k\<in>set (butlast cs). tagged s (lookup_name cs) k then res else - ENOENT, st)
         else (res, if lookup_name cs = TAG_FILENAME then st\<lparr>st_size := LONG_MAX\<rparr> else st))"

lemma path_obj_filename: "p_filename (path_obj s cs sel) = lookup_name cs"
  by (simp add: path_obj_def lookup_name_def)

lemma getattr_spec_lookup:
  "keys sel = butlast cs \<Longrightarrow> getattr_spec os (path_obj s cs sel) b s = lookup_spec os cs b s"
proof -
  assume k: "keys sel = butlast cs"
  then have "sel \<noteq> [] \<longleftrightarrow> butlast cs \<noteq> []" by (metis map_is_Nil_conv)
  then show ?thesis unfolding getattr_spec_def lookup_spec_def path_obj_filename path_obj_simps k by (simp split: prod.splits)
qed

lemma lookup_spec_cong:
  "tagged s' = tagged s \<Longrightarrow> world s' = world s \<Longrightarrow> realdirpath s' = realdirpath s \<Longrightarrow>
   lookup_spec os cs b s' = lookup_spec os cs b s"
  by (simp add: lookup_spec_def path_realpath_def split_beta)

lemma path_obj_cong: "realdirpath s' = realdirpath s \<Longrightarrow> path_obj s' cs sel = path_obj s cs sel"
  by (simp add: path_obj_def path_realpath_def)

lemma tag_getattr_inv:
  assumes cs: "components cs" and inv: "fs_inv s"
  shows "\<exists>s'. tag_getattr os (path_of cs) stbuf s = Some (lookup_spec os cs stbuf s, s') \<and>
    fs_inv s' \<and> refined s s'"
proof -
  have i: "op_inv [] s" using inv by (simp add: fs_inv_def)
  obtain sel s1 where s1: "path_create (path_of cs) False s = Some (path_obj s cs sel, s1)"
    "keys sel = butlast cs" "selects sel [] s s1"
    using path_create_inv [OF cs i, of False] by auto
  obtain s2 where s2: "getattr_intra os (path_obj s cs sel) stbuf s1 =
      Some (getattr_spec os (path_obj s cs sel) stbuf s1, s2)" "op_inv sel s2" "files_grow s1 s2"
    using getattr_intra_inv [OF selects_inv [OF s1(3)], where p = "path_obj s cs sel"]
      selects_live [OF s1(3)] by auto
  obtain s3 where s3: "path_delete (path_obj s cs sel) s2 = Some s3" "op_inv [] s3" "core s3 = core s2"
    using path_delete_inv [of "path_obj s cs sel" "[]" s2] s2(2) by auto
  have "getattr_spec os (path_obj s cs sel) stbuf s1 = lookup_spec os cs stbuf s"
    using getattr_spec_same [OF selects_same [OF s1(3)]] getattr_spec_lookup [OF s1(2)] by simp
  moreover have "refined s s1" using s1(3) by (simp add: selects_def core_refined)
  then have "refined s s3" using files_grow_refined [OF s2(3)] core_refined [OF s3(3)] refined_trans by blast
  ultimately show ?thesis using s1 s2 s3 by (intro exI [of _ s3]) (simp add: tag_getattr_def fs_inv_def)
qed

subsection \<open>link\<close>

lemma grows_subset: "grows s s' \<Longrightarrow> set (tags s) \<subseteq> set (tags s')"
  by (simp add: grows_def)

text \<open>Both path objects of a request, and their release in the order of the code.\<close>

lemma create_two_paths:
  assumes cf: "components from" and ct: "components to" and inv: "op_inv [] s"
  obtains self s1 selt s2 where
    "path_create (path_of from) False s = Some (path_obj s from self, s1)" "keys self = butlast from" "selects self [] s s1"
    "path_create (path_of to) False s1 = Some (path_obj s1 to selt, s2)" "keys selt = butlast to" "selects selt self s1 s2"
    "set self \<subseteq> set (tags s1)" "op_inv (selt @ self) s2" "op_inv (self @ selt) s2" "set (selt @ self) \<subseteq> set (tags s2)"
    "core s2 = core s"
proof -
  obtain self s1 where s1: "path_create (path_of from) False s = Some (path_obj s from self, s1)"
    "keys self = butlast from" "selects self [] s s1"
    using path_create_inv [OF cf inv, of False] by auto
  have i1: "op_inv self s1" "set self \<subseteq> set (tags s1)" using s1(3) by (auto simp: selects_def)
  obtain selt s2 where s2: "path_create (path_of to) False s1 = Some (path_obj s1 to selt, s2)"
    "keys selt = butlast to" "selects selt self s1 s2"
    using path_create_inv [OF ct i1, of False] by auto
  have i2: "op_inv (selt @ self) s2" "set (selt @ self) \<subseteq> set (tags s2)" using s2(3) by (auto simp: selects_def)
  have "op_inv (self @ selt) s2" by (rule op_inv_cong [OF i2(1)]) (auto simp: path_refs_append)
  moreover have "core s2 = core s" using s1(3) s2(3) by (simp add: selects_def)
  ultimately show thesis using that s1 s2 i1(2) i2 by blast
qed

lemma delete_two_paths:
  assumes "op_inv (selt @ self) s"
  obtains s1 s2 where "path_delete (path_obj q from self) s = Some s1" "path_delete (path_obj r to selt) s1 = Some s2"
    "op_inv [] s2" "core s2 = core s"
proof -
  have "op_inv (self @ selt) s" by (rule op_inv_cong [OF assms]) (auto simp: path_refs_append)
  then obtain s1 where s1: "path_delete (path_obj q from self) s = Some s1" "op_inv selt s1" "core s1 = core s"
    using path_delete_inv [of "path_obj q from self" selt s] by auto
  obtain s2 where "path_delete (path_obj r to selt) s1 = Some s2" "op_inv [] s2" "core s2 = core s1"
    using path_delete_inv [of "path_obj r to selt" "[]" s1] s1(2) by auto
  with s1 that show thesis by simp
qed

lemma tag_link_inv:
  assumes cf: "components from" and ct: "components to" and inv: "fs_inv s"
  shows "\<exists>s'. tag_link os (path_of from) (path_of to) s = Some (fst (lookup_spec os from stat0 s), s') \<and> fs_inv s' \<and>
    (\<forall>n k. tagged s' n k \<longleftrightarrow> tagged s n k \<or>
      fst (lookup_spec os from stat0 s) \<ge> 0 \<and> n = lookup_name from \<and> k \<in> set (butlast to)) \<and>
    (\<forall>k. live_name s' k \<longleftrightarrow> live_name s k \<or> length to \<le> 2 \<and> k = lookup_name (butlast to) \<or>
      fst (lookup_spec os from stat0 s) \<ge> 0 \<and> k \<in> set (butlast to)) \<and>
    world s' = world s \<and> realdirpath s' = realdirpath s \<and>
    (fst (lookup_spec os from stat0 s) \<ge> 0 \<longrightarrow> file_get (lookup_name from) s' \<noteq> None)"
proof -
  let ?res = "fst (lookup_spec os from stat0 s)"
  have i: "op_inv [] s" using inv by (simp add: fs_inv_def)
  obtain self s1 selt s2 where s1: "path_create (path_of from) False s = Some (path_obj s from self, s1)"
    "keys self = butlast from" "selects self [] s s1"
    and s2: "path_create (path_of to) False s1 = Some (path_obj s1 to selt, s2)" "keys selt = butlast to"
    and i2: "op_inv (selt @ self) s2" "set (selt @ self) \<subseteq> set (tags s2)" and core2: "core s2 = core s"
    by (rule create_two_paths [OF cf ct i])
  obtain s3 where s3: "tag_mkdir (path_of (butlast to)) s2 = Some (mkdir_result (path_of (butlast to)) s2, s3)"
    "op_inv (selt @ self) s3" "grows s2 s3" "same_files s2 s3"
    "\<forall>j. live_name s3 j \<longleftrightarrow> live_name s2 j \<or>
      get_character_count (path_of (butlast to)) slash \<le> 1 \<and> j = basenamedup (path_of (butlast to))"
    using tag_mkdir_inv [OF i2] by blast
  have sel3: "set selt \<subseteq> set (tags s3)" "set self \<subseteq> set (tags s3)" using i2(2) grows_subset [OF s3(3)] by auto
  have "op_inv (self @ selt) s3" by (rule op_inv_cong [OF s3(2)]) (auto simp: path_refs_append)
  then have live3: "sel_live (p_selected_tags (path_obj s from self)) s3" by (simp add: sel_live_op_inv)
  obtain s4 where s4: "path_link os (path_obj s from self) (path_obj s1 to selt) s3 =
      Some (fst (getattr_spec os (path_obj s from self) stat0 s3), s4)" "op_inv (selt @ self) s4"
    "\<forall>n k. tagged s4 n k \<longleftrightarrow> tagged s3 n k \<or> (fst (getattr_spec os (path_obj s from self) stat0 s3) \<ge> 0 \<and>
       n = p_filename (path_obj s from self) \<and> k \<in> set (keys (p_selected_tags (path_obj s1 to selt))))"
    "\<forall>k. live_name s4 k \<longleftrightarrow> live_name s3 k \<or> (fst (getattr_spec os (path_obj s from self) stat0 s3) \<ge> 0 \<and>
       k \<in> set (keys (p_selected_tags (path_obj s1 to selt))))" "kept s3 s4"
    "fst (getattr_spec os (path_obj s from self) stat0 s3) \<ge> 0 \<longrightarrow> file_get (p_filename (path_obj s from self)) s4 \<noteq> None"
    using path_link_inv [OF s3(2) live3, of "path_obj s1 to selt" os] sel3(1) by auto
  have sf: "same_files s s3" using core_same_files [OF core2] s3(4) by (simp add: same_files_def)
  have res: "fst (getattr_spec os (path_obj s from self) stat0 s3) = ?res"
    by (simp add: getattr_spec_same [OF sf] getattr_spec_lookup [OF s1(2)])
  obtain s5 s6 where s5: "path_delete (path_obj s from self) s4 = Some s5"
    and s6: "path_delete (path_obj s1 to selt) s5 = Some s6" "op_inv [] s6" "core s6 = core s4"
    by (rule delete_two_paths [OF s4(2)])
  have t6: "tagged s6 = tagged s4" "live_name s6 = live_name s4"
    using same_files_tagged [OF core_same_files] live_name_core_eq s6(3) by blast+
  have t3: "tagged s3 = tagged s" by (rule same_files_tagged [OF sf])
  have l2: "live_name s2 = live_name s" by (rule live_name_core_eq [OF core2])
  have cb: "get_character_count (path_of (butlast to)) slash \<le> 1 \<longleftrightarrow> length to \<le> 2"
    using count_slashes_path [OF components_butlast [OF ct]]
    by (cases "butlast to = []") (auto simp: path_of_def length_butlast dest: arg_cong [where f = length])
  have bn: "basenamedup (path_of (butlast to)) = lookup_name (butlast to)"
    using basename_components [OF components_butlast [OF ct]] by (simp add: lookup_name_def)
  have "tag_link os (path_of from) (path_of to) s = Some (?res, s6)"
    using s1(1) s2(1) s3(1) s4(1) s5 s6(1) res by (simp add: tag_link_def)
  moreover have "fs_inv s6" using s6(2) by (simp add: fs_inv_def)
  moreover have "tagged s6 n k \<longleftrightarrow> tagged s n k \<or> ?res \<ge> 0 \<and> n = lookup_name from \<and> k \<in> set (butlast to)" for n k
    using t6(1) t3 s4(3) res s2(2) by (simp add: path_obj_filename)
  moreover have "live_name s6 k \<longleftrightarrow> live_name s k \<or> length to \<le> 2 \<and> k = lookup_name (butlast to) \<or>
      ?res \<ge> 0 \<and> k \<in> set (butlast to)" for k
    using t6(2) l2 s3(5) s4(4) res s2(2) cb bn by auto
  moreover have "world s6 = world s" "realdirpath s6 = realdirpath s"
    using core_eqD(7,9) [OF s6(3)] s4(5) sf by (auto simp: kept_def same_files_def)
  moreover have "?res \<ge> 0 \<longrightarrow> file_get (lookup_name from) s6 \<noteq> None"
    using s4(6) res core_eqD(3) [OF s6(3)] by (simp add: path_obj_filename file_get_def)
  ultimately show ?thesis by blast
qed

subsection \<open>unlink\<close>

text \<open>
  When \<^verbatim>\<open>unlink\<close> is undefined: the file is known and a name of its directory is not a tag in use and was referenced
  before less often than the path selects it. Such references are left by an \<^verbatim>\<open>opendir\<close> that failed.
\<close>

definition unlink_faulty :: "cstring list \<Rightarrow> 'w fs \<Rightarrow> bool" where
  "unlink_faulty cs s \<longleftrightarrow> 2 \<le> length cs \<and> file_get (last cs) s \<noteq> None \<and>
     (\<exists>k\<in>set (butlast cs). \<not> live_name s k \<and> ref_of s k < int (count_list (butlast cs) k))"

lemma live_unlink: "\<forall>k\<in>set (butlast cs). live_name s k \<Longrightarrow> \<not> unlink_faulty cs s"
  by (simp add: unlink_faulty_def)

lemma count_slashes_two: "components cs \<Longrightarrow> 2 \<le> length cs \<Longrightarrow> \<not> get_character_count (path_of cs) slash \<le> 1"
  using count_slashes_path [of cs] by (cases "cs = []") auto

lemma tag_unlink_inv:
  assumes cs: "components cs" and inv: "fs_inv s" and nf: "\<not> unlink_faulty cs s" and two: "length cs \<ge> 2"
  shows "\<exists>s'. tag_unlink (path_of cs) s = Some (if file_get (last cs) s = None then - ENOENT else 0, s') \<and> fs_inv s' \<and>
    (\<forall>n k. tagged s' n k \<longleftrightarrow> tagged s n k \<and> \<not> (n = last cs \<and> k \<in> set (butlast cs))) \<and>
    (\<forall>k. live_name s' k \<longleftrightarrow> live_name s k \<and>
      (file_get (last cs) s \<noteq> None \<and> k \<in> set (butlast cs) \<longrightarrow> (\<exists>m. tagged s' m k)))"
proof -
  have i: "op_inv [] s" using inv by (simp add: fs_inv_def)
  obtain sel s1 where s1: "path_create (path_of cs) False s = Some (path_obj s cs sel, s1)"
    "keys sel = butlast cs" "selects sel [] s s1"
    using path_create_inv [OF cs i, of False] by auto
  have ct: "counted sel s s1" by (rule path_create_counted [OF cs i _ s1(1)]) simp
  have core1: "core s1 = core s" and i1: "op_inv sel s1" and sub1: "set sel \<subseteq> set (tags s1)"
    using s1(3) by (simp_all add: selects_def)
  have fn: "p_filename (path_obj s cs sel) = last cs"
    using two by (auto simp: path_obj_filename lookup_name_def)
  have fg: "file_get (last cs) s1 = file_get (last cs) s" using core1 by (auto simp: file_get_def dest: core_eqD)
  have sp: "sel_spare sel sel s1" if "file_get (last cs) s \<noteq> None"
  proof (rule selects_spare [OF s1(3) i ct], rule ballI)
    fix k assume k: "k \<in> set (keys sel)"
    then obtain t where t: "(k, t) \<in> set sel" by auto
    have "ht_find (tags s1) k = Some t"
      using op_inv_parts(1) [OF i1] t sub1 by (auto simp: ht_find_distinct tags_ok_def)
    then have tg: "tag_get k s1 = t" by (simp add: tag_get_def ht_get_entry_def)
    have "path_refs sel t = int (count_list (butlast cs) k)"
      using path_refs_names [OF op_inv_parts(1) [OF i1] sub1 t] s1(2) by simp
    with nf that two k s1(2) tg show "live_name s k \<or> path_refs sel (tag_get k s1) \<le> ref_of s k"
      unfolding unlink_faulty_def by force
  qed
  obtain s2 where s2: "path_unlink (path_obj s cs sel) s1 = Some (if file_get (last cs) s = None then - ENOENT else 0, s2)"
    "op_inv sel s2"
    "\<forall>n k. tagged s2 n k \<longleftrightarrow> tagged s1 n k \<and> \<not> (n = last cs \<and> k \<in> set (butlast cs))"
    "\<forall>k. live_name s2 k \<longleftrightarrow> live_name s1 k \<and>
      (file_get (last cs) s \<noteq> None \<and> k \<in> set (butlast cs) \<longrightarrow> (\<exists>m. tagged s2 m k))"
    using path_unlink_inv [OF i1, of "path_obj s cs sel"] sp fn fg s1(2) by auto
  obtain s3 where s3: "path_delete (path_obj s cs sel) s2 = Some s3" "op_inv [] s3" "core s3 = core s2"
    using path_delete_inv [of "path_obj s cs sel" "[]" s2] s2(2) by auto
  have t3: "tagged s3 = tagged s2" "live_name s3 = live_name s2" "tagged s1 = tagged s" "live_name s1 = live_name s"
    using same_files_tagged [OF core_same_files] live_name_core_eq s3(3) core1 by blast+
  have "tag_unlink (path_of cs) s = Some (if file_get (last cs) s = None then - ENOENT else 0, s3)"
    using s1(1) s2(1) s3(1) count_slashes_two [OF cs two] by (simp add: tag_unlink_def)
  with s2(3,4) s3(2) t3 show ?thesis by (intro exI [of _ s3]) (simp add: fs_inv_def)
qed

lemma tag_unlink_faults:
  assumes cs: "components cs" and inv: "fs_inv s" and faulty: "unlink_faulty cs s"
  shows "tag_unlink (path_of cs) s = None"
proof (rule ccontr)
  assume "tag_unlink (path_of cs) s \<noteq> None"
  have i: "op_inv [] s" using inv by (simp add: fs_inv_def)
  obtain k where k: "k \<in> set (butlast cs)" "\<not> live_name s k" "ref_of s k < int (count_list (butlast cs) k)"
    and two: "2 \<le> length cs" and known: "file_get (last cs) s \<noteq> None" using faulty by (auto simp: unlink_faulty_def)
  obtain sel s1 where s1: "path_create (path_of cs) False s = Some (path_obj s cs sel, s1)"
    "keys sel = butlast cs" "selects sel [] s s1"
    using path_create_inv [OF cs i, of False] by auto
  have ct: "counted sel s s1" by (rule path_create_counted [OF cs i _ s1(1)]) simp
  have core1: "core s1 = core s" and i1: "op_inv sel s1" and sub1: "set sel \<subseteq> set (tags s1)"
    using s1(3) by (simp_all add: selects_def)
  have "k \<in> set (keys sel)" using k(1) s1(2) by simp
  then obtain t where t: "(k, t) \<in> set sel" by auto
  let ?m = "int (count_list (butlast cs) k)"
  obtain r where r: "theap s1 t = Some r" "\<not> in_use r" "t_files r = []" "ref_count r = ref_of s k + ?m"
    using selects_unused [OF s1(3) i ct t k(2)] s1(2) by auto
  have refs: "path_refs sel t = ?m" using path_refs_names [OF op_inv_parts(1) [OF i1] sub1 t] s1(2) by simp
  have "1 \<le> ref_count r" using op_inv_parts(7) [OF i1] r(1) by (simp add: refs_ok_def)
  with r have u1: "unused_at t (ref_of s k + ?m) s1" by (simp add: unused_at_def)
  have fn: "file_get (p_filename (path_obj s cs sel)) s1 \<noteq> None"
    using two known core_eqD(3) [OF core1] by (auto simp: path_obj_filename lookup_name_def file_get_def)
  obtain res s2 s3 where s2: "path_unlink (path_obj s cs sel) s1 = Some (res, s2)"
    and s3: "path_delete (path_obj s cs sel) s2 = Some s3"
    using \<open>tag_unlink (path_of cs) s \<noteq> None\<close> count_slashes_two [OF cs two] s1(1)
    by (auto simp: tag_unlink_def elim!: bind_SomeE)
  have "unused_at t (ref_of s k) s2" using path_unlink_drains [OF s2 u1 fn] refs by simp
  from path_delete_drains(2) [OF s3 this] refs k(3) show False by simp
qed

subsection \<open>rename\<close>

definition rename_ok :: "cstring list \<Rightarrow> cstring list \<Rightarrow> bool" where
  "rename_ok from to \<longleftrightarrow> length from = 2 \<and> length to = 2"

lemma butlast_length_one: "length (butlast cs) = 1 \<longleftrightarrow> length cs = 2"
  by (auto simp: length_butlast)

lemma two_names: "length cs = 2 \<Longrightarrow> butlast cs = [hd cs] \<and> cs \<noteq> []"
  by (cases cs; cases "tl cs") auto

text \<open>The real directory has a file, not a directory, under the last name of the path.\<close>

definition real_file :: "'w os \<Rightarrow> cstring list \<Rightarrow> 'w fs \<Rightarrow> bool" where
  "real_file os cs s \<longleftrightarrow>
     (case c_stat os (path_realpath s (path_of cs)) stat0 (world s) of (res, st) \<Rightarrow> 0 \<le> res \<and> \<not> S_ISDIR (st_mode st))"

text \<open>
  When \<^verbatim>\<open>rename\<close> is undefined: it is not refused, the table does not have the tag of the old directory, the new
  path does not make it a tag of the file, and the file is known by the time \<^verbatim>\<open>path_unlink\<close> looks it up.
\<close>

definition rename_faulty :: "'w os \<Rightarrow> cstring list \<Rightarrow> cstring list \<Rightarrow> 'w fs \<Rightarrow> bool" where
  "rename_faulty os from to s \<longleftrightarrow> rename_ok from to \<and> hd from \<notin> set (keys (tags s)) \<and>
     \<not> (hd to = hd from \<and> 0 \<le> fst (lookup_spec os from stat0 s)) \<and>
     (file_get (last from) s \<noteq> None \<or> 0 \<le> fst (lookup_spec os from stat0 s) \<or> real_file os from s)"

lemma live_rename: "live_name s (hd from) \<Longrightarrow> \<not> rename_faulty os from to s"
  by (auto simp: rename_faulty_def live_name_def intro: rev_image_eqI)

lemma getattr_intra_known:
  assumes "getattr_intra os p b s = Some (r, s')"
  shows "theap s' = theap s" and "file_get (p_filename p) s' \<noteq> None \<longleftrightarrow> file_get (p_filename p) s \<noteq> None \<or>
    (case c_stat os (p_realpath p) b (world s) of (res, st) \<Rightarrow> 0 \<le> res \<and> \<not> S_ISDIR (st_mode st))"
proof -
  have new: "theap s1 = theap s" "file_get n s1 \<noteq> None" if "file_get_or_create n s = (f, s1)" for n f s1
    using that by (auto simp: file_get_or_create_def file_new_def file_get_def ht_get_entry_def ht_find_None_iff
        ht_add_entry_def ht_create_def Let_def dest!: ht_find_SomeD intro: rev_image_eqI split: option.splits)
  obtain res st where st: "c_stat os (p_realpath p) b (world s) = (res, st)" by fastforce
  obtain f s1 where f: "file_get_or_create (p_filename p) s = (f, s1)" by fastforce
  have "if res < 0 \<or> S_ISDIR (st_mode st) then s' = s else s' = s1"
    using assms st f by (auto simp: getattr_intra_def elim!: bind_SomeE split: if_splits)
  with new [OF f] st show "theap s' = theap s" "file_get (p_filename p) s' \<noteq> None \<longleftrightarrow> file_get (p_filename p) s \<noteq> None \<or>
    (case c_stat os (p_realpath p) b (world s) of (res, st) \<Rightarrow> 0 \<le> res \<and> \<not> S_ISDIR (st_mode st))"
    by (auto split: if_splits)
qed

lemma path_link_fails:
  assumes "path_link os ffrom fto s = Some (res, s')" and "res < 0"
  shows "\<exists>st. getattr_intra os ffrom stat0 s = Some ((res, st), s')"
proof -
  obtain r1 st s1 where s1: "getattr_intra os ffrom stat0 s = Some ((r1, st), s1)"
    "(if r1 < 0 then Some (r1, s1) else do {
       let (f, s) = file_get_or_create (p_filename ffrom) s1;
       s \<leftarrow> ht_for_each (p_selected_tags fto) (\<lambda>tagname tag s. tag_file tag f s) s;
       Some (r1, s)
     }) = Some (res, s')"
    using assms(1) by (auto simp: path_link_def elim!: bind_SomeE)
  then have "r1 = res" by (auto elim!: bind_SomeE split: if_splits prod.splits)
  with s1 assms(2) show ?thesis by auto
qed

text \<open>Linking leaves the struct of a tag alone that the new path does not select.\<close>

lemma path_link_theap:
  assumes run: "path_link os ffrom fto s = Some (res, s')" and t: "\<forall>(k, u)\<in>set (p_selected_tags fto). u \<noteq> t"
  shows "theap s' t = theap s t"
proof -
  obtain r1 st s1 where s1: "getattr_intra os ffrom stat0 s = Some ((r1, st), s1)"
    "(if r1 < 0 then Some (r1, s1) else do {
       let (f, s) = file_get_or_create (p_filename ffrom) s1;
       s \<leftarrow> ht_for_each (p_selected_tags fto) (\<lambda>tagname tag s. tag_file tag f s) s;
       Some (r1, s)
     }) = Some (res, s')"
    using run by (auto simp: path_link_def elim!: bind_SomeE)
  have th: "theap s1 = theap s" by (rule getattr_intra_known(1) [OF s1(1)])
  obtain f s2 where f: "file_get_or_create (p_filename ffrom) s1 = (f, s2)" by fastforce
  then have th2: "theap s2 = theap s1"
    by (auto simp: file_get_or_create_def file_new_def Let_def split: option.splits)
  show ?thesis
  proof (cases "r1 < 0")
    case True
    with s1(2) th show ?thesis by simp
  next
    case False
    with s1(2) f obtain "ht_for_each (p_selected_tags fto) (\<lambda>tagname tag s. tag_file tag f s) s2 = Some s'"
      by (auto elim!: bind_SomeE)
    then have "theap s' t = theap s2 t"
      by (rule ht_for_each_keeps [where P = "\<lambda>c. theap c t = theap s2 t"]) (use t tag_file_theap in \<open>fastforce+\<close>)
    with th th2 show ?thesis by simp
  qed
qed

text \<open>What \<^verbatim>\<open>rename\<close> of a file with one tag to a path with one tag does to the references of the old tag.\<close>

lemma rename_refs:
  assumes cf: "components from" and ct: "components to" and inv: "fs_inv s" and k: "butlast from = [k]"
    and s1: "path_create (path_of from) False s = Some (path_obj s from self, s1)" "selects self [] s s1"
    and s2: "path_create (path_of to) False s1 = Some (path_obj s1 to selt, s2)" "selects selt self s1 s2"
    and self: "self = [(k, t)]"
  shows "ref_at s2 t = ref_of s k + 1 + path_refs selt t"
proof -
  have i: "op_inv [] s" using inv by (simp add: fs_inv_def)
  have i1: "op_inv self s1" "set self \<subseteq> set (tags s1)" and g: "grows s s1" using s1(2) by (auto simp: selects_def)
  have c1: "counted self s s1" by (rule path_create_counted [OF cf i _ s1(1)]) simp
  have c2: "counted selt s1 s2" by (rule path_create_counted [OF ct i1 s2(1)])
  have "ref_at s t = ref_of s k"
    by (rule ref_before [OF op_inv_parts(1) [OF i] op_inv_parts(1) [OF i1(1)] g c1]) (use i1(2) self in auto)
  with c1 c2 self show ?thesis by (simp add: counted_def path_refs_Cons)
qed

lemma file_known_after_link:
  assumes link: "path_link os (path_obj s from self) fto s2 = Some (res, s3)" and core: "core s2 = core s"
    and known: "file_get (lookup_name from) s3 \<noteq> None"
  shows "file_get (lookup_name from) s \<noteq> None \<or> 0 \<le> res \<or> real_file os from s"
proof (cases "res < 0")
  case True
  obtain st where "getattr_intra os (path_obj s from self) stat0 s2 = Some ((res, st), s3)"
    using path_link_fails [OF link True] by blast
  from getattr_intra_known(2) [OF this] known core_eqD(3,9) [OF core] core_eqD(7,8) [OF core] show ?thesis
    by (auto simp: path_obj_filename real_file_def file_get_def)
qed simp

text \<open>After the link the old tag has the references to spare that \<^verbatim>\<open>path_unlink\<close> and \<^verbatim>\<open>path_delete\<close> take.\<close>

lemma rename_spare:
  assumes cf: "components from" and ct: "components to" and inv: "fs_inv s" and nf: "\<not> rename_faulty os from to s"
    and l: "rename_ok from to"
    and s1: "path_create (path_of from) False s = Some (path_obj s from self, s1)" "keys self = butlast from" "selects self [] s s1"
    and s2: "path_create (path_of to) False s1 = Some (path_obj s1 to selt, s2)" "keys selt = butlast to" "selects selt self s1 s2"
    and i2: "op_inv (selt @ self) s2" and sub2: "set (selt @ self) \<subseteq> set (tags s2)" and core2: "core s2 = core s"
    and s3: "path_link os (path_obj s from self) (path_obj s1 to selt) s2 = Some (fst (lookup_spec os from stat0 s), s3)"
      "kept s2 s3" "\<forall>k. live_name s3 k \<longleftrightarrow> live_name s2 k \<or> (fst (lookup_spec os from stat0 s) \<ge> 0 \<and> k \<in> set (keys selt))"
    and known: "file_get (last from) s3 \<noteq> None"
  shows "sel_spare (selt @ self) self s3"
proof -
  have i: "op_inv [] s" using inv by (simp add: fs_inv_def)
  have bl: "butlast from = [hd from]" "butlast to = [hd to]"
    using l two_names unfolding rename_ok_def by blast+
  have fn: "lookup_name from = last from" using two_names l by (auto simp: lookup_name_def rename_ok_def)
  note ok2 = op_inv_parts [OF i2]
  have tags3: "tags s3 = tags s2" using s3(2) by (simp add: kept_def)
  from s1(2) bl(1) obtain t where self: "self = [(hd from, t)]" by (cases self) auto
  have kt: "(hd from, t) \<in> set (tags s2)" using sub2 self by simp
  then obtain r2 where r2: "theap s2 t = Some r2" "t_value r2 = hd from"
    using ok2(1) unfolding tags_ok_def by blast
  obtain r where r: "theap s3 t = Some r" "t_value r = t_value r2" "ref_count r = ref_count r2"
    using keptD [OF s3(2) r2(1)] by metis
  have rc: "ref_count r = ref_of s (hd from) + 1 + path_refs selt t"
    using rename_refs [OF cf ct inv bl(1) s1(1,3) s2(1,3) self] r r2 by (simp add: ref_at_def)
  have refs: "path_refs self t = 1" "path_refs (selt @ self) t = path_refs selt t + 1" "0 \<le> path_refs selt t"
    using self path_refs_nonneg by (simp_all add: path_refs_append path_refs_Cons)
  have "spare r (path_refs self t) (path_refs (selt @ self) t)"
  proof (cases "hd from \<in> set (keys (tags s))")
    case True
    then obtain u where u: "(hd from, u) \<in> set (tags s)" by auto
    then obtain y where "theap s u = Some y" using op_inv_parts(1) [OF i] unfolding tags_ok_def by blast
    moreover from this have "1 \<le> ref_count y" using op_inv_parts(7) [OF i] by (simp add: refs_ok_def)
    moreover have "ht_find (tags s) (hd from) = Some u"
      using u op_inv_parts(1) [OF i] by (simp add: ht_find_distinct tags_ok_def)
    ultimately have "1 \<le> ref_of s (hd from)" by (simp add: ref_of_def ref_at_def)
    with rc refs show ?thesis by (simp add: spare_def)
  next
    case False
    have "file_get (last from) s \<noteq> None \<or> 0 \<le> fst (lookup_spec os from stat0 s) \<or> real_file os from s"
      using file_known_after_link [OF s3(1) core2] known fn by simp
    with nf l False have to: "hd to = hd from" "0 \<le> fst (lookup_spec os from stat0 s)" by (auto simp: rename_faulty_def)
    then have "live_name s3 (hd from)" using s3(3) s2(2) bl by auto
    then obtain u y where u: "(hd from, u) \<in> set (tags s3)" "theap s3 u = Some y" "in_use y"
      by (auto simp: live_name_def)
    then have "u = t" using tags_unique [OF ok2(1) kt] tags3 by simp
    with u r(1) have "in_use r" by simp
    from s2(2) bl(2) to(1) obtain v where v: "selt = [(hd from, v)]" by (cases selt) auto
    then have "v = t" using tags_unique [OF ok2(1) kt, of v] sub2 by simp
    with v have "path_refs selt t = 1" by (simp add: path_refs_Cons)
    with rc refs \<open>in_use r\<close> ref_of_nonneg [OF i, of "hd from"] show ?thesis by (simp add: spare_def)
  qed
  moreover have "sole_owner s3 (hd from) t" using tags_unique [OF ok2(1) kt] tags3 by (auto simp: sole_owner_def)
  ultimately show ?thesis using r r2(2) self by (simp add: sel_spare_def)
qed

lemma tag_rename_inv:
  assumes cf: "components from" and ct: "components to" and inv: "fs_inv s" and nf: "\<not> rename_faulty os from to s"
  shows "\<exists>s'. tag_rename os (path_of from) (path_of to) s = Some (if rename_ok from to then 0 else - EPERM, s') \<and>
    fs_inv s' \<and>
    (\<forall>n k. tagged s' n k \<longleftrightarrow>
      (if rename_ok from to
       then (tagged s n k \<or> fst (lookup_spec os from stat0 s) \<ge> 0 \<and> n = last from \<and> k = hd to) \<and>
         \<not> (n = last from \<and> k = hd from)
       else tagged s n k))"
proof -
  let ?res = "fst (lookup_spec os from stat0 s)"
  have i: "op_inv [] s" using inv by (simp add: fs_inv_def)
  obtain self s1 selt s2 where s1: "path_create (path_of from) False s = Some (path_obj s from self, s1)"
    "keys self = butlast from" "selects self [] s s1"
    and s2: "path_create (path_of to) False s1 = Some (path_obj s1 to selt, s2)" "keys selt = butlast to" "selects selt self s1 s2"
    and i1: "set self \<subseteq> set (tags s1)" and i2: "op_inv (selt @ self) s2" and i2': "op_inv (self @ selt) s2"
    and sub2: "set (selt @ self) \<subseteq> set (tags s2)" and core2: "core s2 = core s"
    by (rule create_two_paths [OF cf ct i])
  have cnt: "ht_entry_count self = 1 \<longleftrightarrow> length from = 2" "ht_entry_count selt = 1 \<longleftrightarrow> length to = 2"
    using arg_cong [OF s1(2), of length] arg_cong [OF s2(2), of length]
    by (auto simp: ht_entry_count_def)
  have finish: "\<exists>s'. tag_rename os (path_of from) (path_of to) s = Some (r, s') \<and> fs_inv s' \<and> tagged s' = tagged s3"
    if mid: "(if ht_entry_count self \<noteq> 1 \<or> ht_entry_count selt \<noteq> 1 then Some (- EPERM, s2)
        else do {
          (r1, u) \<leftarrow> path_link os (path_obj s from self) (path_obj s1 to selt) s2;
          (r2, u) \<leftarrow> path_unlink (path_obj s from self) u;
          Some (0, u)
        }) = Some (r, s3)" and inv3: "op_inv (selt @ self) s3" for r s3
  proof -
    obtain s5 s6 where s5: "path_delete (path_obj s from self) s3 = Some s5"
      and s6: "path_delete (path_obj s1 to selt) s5 = Some s6" "op_inv [] s6" "core s6 = core s3"
      by (rule delete_two_paths [OF inv3])
    have "tagged s6 = tagged s3" by (rule same_files_tagged [OF core_same_files [OF s6(3)]])
    moreover have "tag_rename os (path_of from) (path_of to) s = Some (r, s6)"
      unfolding tag_rename_def s1(1) s2(1) Option.bind.simps prod.case path_obj_simps mid s5 s6(1) ..
    ultimately show ?thesis using s6(2) by (simp add: fs_inv_def)
  qed
  show ?thesis
  proof (cases "rename_ok from to")
    case False
    have "tagged s2 = tagged s" by (rule same_files_tagged [OF core_same_files [OF core2]])
    with False finish [of "- EPERM" s2] i2 cnt show ?thesis by (auto simp: rename_ok_def)
  next
    case True
    then have l: "length from = 2" "length to = 2" by (simp_all add: rename_ok_def)
    then have bl: "butlast from = [hd from]" "butlast to = [hd to]" "from \<noteq> []"
      using two_names [OF l(1)] two_names [OF l(2)] by simp_all
    have live2: "sel_live (p_selected_tags (path_obj s from self)) s2" using i2' by (simp add: sel_live_op_inv)
    obtain s3 where s3: "path_link os (path_obj s from self) (path_obj s1 to selt) s2 =
        Some (fst (getattr_spec os (path_obj s from self) stat0 s2), s3)" "op_inv (selt @ self) s3" "kept s2 s3"
      "\<forall>n k. tagged s3 n k \<longleftrightarrow> tagged s2 n k \<or> (fst (getattr_spec os (path_obj s from self) stat0 s2) \<ge> 0 \<and>
         n = p_filename (path_obj s from self) \<and> k \<in> set (keys (p_selected_tags (path_obj s1 to selt))))"
      "\<forall>k. live_name s3 k \<longleftrightarrow> live_name s2 k \<or> (fst (getattr_spec os (path_obj s from self) stat0 s2) \<ge> 0 \<and>
         k \<in> set (keys (p_selected_tags (path_obj s1 to selt))))"
      using path_link_inv [OF i2 live2, of "path_obj s1 to selt" os] sub2 by auto
    have res: "fst (getattr_spec os (path_obj s from self) stat0 s2) = ?res"
      by (simp add: getattr_spec_same [OF core_same_files [OF core2]] getattr_spec_lookup [OF s1(2)])
    have fn: "p_filename (path_obj s from self) = last from" "lookup_name from = last from"
      using bl by (simp_all add: path_obj_filename lookup_name_def)
    have "sel_spare (selt @ self) self s3" if "file_get (last from) s3 \<noteq> None"
      by (rule rename_spare [OF cf ct inv nf True s1 s2 i2 sub2 core2 _ s3(3) _ that]) (use s3(1,5) res in auto)
    then obtain s4 r4 where s4: "path_unlink (path_obj s from self) s3 = Some (r4, s4)"
      "op_inv (selt @ self) s4" "\<forall>n k. tagged s4 n k \<longleftrightarrow> tagged s3 n k \<and>
        \<not> (n = p_filename (path_obj s from self) \<and> k \<in> set (keys (p_selected_tags (path_obj s from self))))"
      using path_unlink_inv [OF s3(2), of "path_obj s from self"] fn by auto
    have ts: "tagged s2 = tagged s" by (rule same_files_tagged [OF core_same_files [OF core2]])
    have "tagged s4 n k \<longleftrightarrow> (tagged s n k \<or> ?res \<ge> 0 \<and> n = last from \<and> k = hd to) \<and>
         \<not> (n = last from \<and> k = hd from)" for n k
      using s3(4) s4(3) s1(2) s2(2) bl ts res fn by auto
    moreover have "\<exists>s'. tag_rename os (path_of from) (path_of to) s = Some (0, s') \<and> fs_inv s' \<and> tagged s' = tagged s4"
      by (rule finish [OF _ s4(2)]) (use s3(1) s4(1) l cnt in simp)
    ultimately show ?thesis using True by auto
  qed
qed

lemma rename_unused:
  assumes cf: "components from" and ct: "components to" and inv: "fs_inv s" and k: "butlast from = [k]"
    and absent: "k \<notin> set (keys (tags s))"
    and s1: "path_create (path_of from) False s = Some (path_obj s from self, s1)" "selects self [] s s1"
    and s2: "path_create (path_of to) False s1 = Some (path_obj s1 to selt, s2)" "selects selt self s1 s2"
    and self: "self = [(k, t)]" and i2: "op_inv (selt @ self) s2" and core2: "core s2 = core s" and kt: "(k, t) \<in> set (tags s2)"
  shows "unused_at t (1 + path_refs selt t) s2 \<and> (\<exists>r. theap s2 t = Some r \<and> t_value r = k)"
proof -
  note ok2 = op_inv_parts [OF i2]
  obtain r where r: "theap s2 t = Some r" "t_value r = k" using ok2(1) kt unfolding tags_ok_def by blast
  have "\<not> live_name s2 k" using live_name_absent [OF absent] live_name_core_eq [OF core2] by simp
  with kt r have "\<not> in_use r" by (auto simp: live_name_def)
  moreover from this have "t_files r = []" using ok2(4) r(1) unfolding tfiles_ok_def by blast
  moreover have "ht_find (tags s) k = None" using absent by (simp add: ht_find_None_iff)
  then have "ref_count r = 1 + path_refs selt t"
    using rename_refs [OF cf ct inv k s1 s2 self] r by (simp add: ref_at_def ref_of_def)
  ultimately show ?thesis using r path_refs_nonneg [of selt t] by (simp add: unused_at_def)
qed

lemma tag_rename_faults:
  assumes cf: "components from" and ct: "components to" and inv: "fs_inv s" and faulty: "rename_faulty os from to s"
  shows "tag_rename os (path_of from) (path_of to) s = None"
proof (rule ccontr)
  assume run: "tag_rename os (path_of from) (path_of to) s \<noteq> None"
  let ?k = "hd from" and ?res = "fst (lookup_spec os from stat0 s)"
  have i: "op_inv [] s" using inv by (simp add: fs_inv_def)
  have l: "length from = 2" "length to = 2" and absent: "?k \<notin> set (keys (tags s))"
    and other: "\<not> (hd to = ?k \<and> 0 \<le> ?res)"
    and known: "file_get (last from) s \<noteq> None \<or> 0 \<le> ?res \<or> real_file os from s"
    using faulty by (auto simp: rename_faulty_def rename_ok_def)
  have bl: "butlast from = [?k]" "butlast to = [hd to]" "from \<noteq> []"
    using two_names [OF l(1)] two_names [OF l(2)] by simp_all
  obtain self s1 selt s2 where s1: "path_create (path_of from) False s = Some (path_obj s from self, s1)"
    "keys self = butlast from" "selects self [] s s1"
    and s2: "path_create (path_of to) False s1 = Some (path_obj s1 to selt, s2)" "keys selt = butlast to" "selects selt self s1 s2"
    and i1: "set self \<subseteq> set (tags s1)" and i2: "op_inv (selt @ self) s2" and i2': "op_inv (self @ selt) s2"
    and sub2: "set (selt @ self) \<subseteq> set (tags s2)" and core2: "core s2 = core s"
    by (rule create_two_paths [OF cf ct i])
  note ok2 = op_inv_parts [OF i2]
  from s1(2) bl(1) obtain t where self: "self = [(?k, t)]" by (cases self) auto
  from s2(2) bl(2) obtain v where selt: "selt = [(hd to, v)]" by (cases selt) auto
  have kt: "(?k, t) \<in> set (tags s2)" using sub2 self by simp
  obtain r where u2: "unused_at t (1 + path_refs selt t) s2" and r: "theap s2 t = Some r" "t_value r = ?k"
    using rename_unused [OF cf ct inv bl(1) absent s1(1,3) s2(1,3) self i2 core2 kt] by blast
  have live2: "sel_live (p_selected_tags (path_obj s from self)) s2" using i2' by (simp add: sel_live_op_inv)
  have res: "fst (getattr_spec os (path_obj s from self) stat0 s2) = ?res"
    by (simp add: getattr_spec_same [OF core_same_files [OF core2]] getattr_spec_lookup [OF s1(2)])
  obtain s3 where s3: "path_link os (path_obj s from self) (path_obj s1 to selt) s2 = Some (?res, s3)"
    "?res \<ge> 0 \<longrightarrow> file_get (p_filename (path_obj s from self)) s3 \<noteq> None"
    using path_link_inv [OF i2 live2, of "path_obj s1 to selt" os] sub2 res by auto
  have fn: "p_filename (path_obj s from self) = last from" using bl by (simp add: path_obj_filename lookup_name_def)
  have "theap s3 t = theap s2 t \<and> file_get (last from) s3 \<noteq> None"
  proof (cases "?res < 0")
    case True
    obtain st where "getattr_intra os (path_obj s from self) stat0 s2 = Some ((?res, st), s3)"
      using path_link_fails [OF s3(1) True] by blast
    from getattr_intra_known [OF this] known True core_eqD(3) [OF core2] core_eqD(7,9) [OF core2] fn show ?thesis
      by (auto simp: real_file_def file_get_def)
  next
    case False
    with other have "hd to \<noteq> ?k" by simp
    have "v \<noteq> t"
    proof
      assume "v = t"
      then have "(hd to, t) \<in> set (tags s2)" using sub2 selt by simp
      with tags_value [OF ok2(1) this r(1)] r(2) \<open>hd to \<noteq> ?k\<close> show False by simp
    qed
    with path_link_theap [OF s3(1), of t] selt s3(2) False fn show ?thesis by simp
  qed
  then have u3: "unused_at t (1 + path_refs selt t) s3" and f3: "file_get (p_filename (path_obj s from self)) s3 \<noteq> None"
    using u2 fn by (simp_all add: unused_at_cong [of s3 t s2])
  have cnt: "ht_entry_count self = 1" "ht_entry_count selt = 1" using self selt by (simp_all add: ht_entry_count_def)
  obtain x where "tag_rename os (path_of from) (path_of to) s = Some x"
    using run unfolding not_None_eq by (rule exE)
  then have "(do { (res, u) \<leftarrow> (do { (r2, u) \<leftarrow> path_unlink (path_obj s from self) s3; Some (0::int, u) });
      u \<leftarrow> path_delete (path_obj s from self) u; u \<leftarrow> path_delete (path_obj s1 to selt) u; Some (res, u) }) = Some x"
    unfolding tag_rename_def s1(1) s2(1) Option.bind.simps prod.case path_obj_simps cnt s3(1)
    by simp
  then obtain r4 s4 s5 s6 where s4: "path_unlink (path_obj s from self) s3 = Some (r4, s4)"
    and s5: "path_delete (path_obj s from self) s4 = Some s5" and s6: "path_delete (path_obj s1 to selt) s5 = Some s6"
    by (auto elim!: bind_SomeE)
  have "unused_at t (path_refs selt t) s4" using path_unlink_drains [OF s4 u3 f3] self by (simp add: path_refs_Cons)
  from path_delete_drains(1) [OF s5 this] have "unused_at t (path_refs selt t - 1) s5" using self by (simp add: path_refs_Cons)
  from path_delete_drains(2) [OF s6 this] show False by simp
qed

end
