(* ===== verification/Fuse_Fd.thy ===== *)
theory Fuse_Fd
  imports Fuse_Ops
begin

text \<open>
  Descriptors: opening, closing and the operations on an open descriptor, on states with the
  invariant.
\<close>

subsection \<open>Opening\<close>

definition sel_used :: "tptr ht \<Rightarrow> 'w fs \<Rightarrow> bool" where
  "sel_used sel s \<longleftrightarrow> (\<forall>k t. (k, t) \<in> set sel \<longrightarrow> (\<exists>r. theap s t = Some r \<and> t_value r = k \<and> in_use r))"

lemma selects_sel_used:
  assumes "selects sel h s s'" and "op_inv h s" and "\<forall>k\<in>set (keys sel). live_name s k"
  shows "sel_used sel s'"
  unfolding sel_used_def
proof (intro allI impI)
  fix k t assume m: "(k, t) \<in> set sel"
  then have "live_name s k" using assms(3) by (auto intro: rev_image_eqI)
  from selects_used [OF assms(1,2) this m] show "\<exists>r. theap s' t = Some r \<and> t_value r = k \<and> in_use r" by blast
qed

lemma op_inv_env:
  assumes "op_inv h s" and "tags s' = tags s" "theap s' = theap s" "files s' = files s" "tnext s' = tnext s"
    and "fnext s' = fnext s" and "map_option f_tags \<circ> fheap s' = map_option f_tags \<circ> fheap s"
    and "map_option f_name \<circ> fheap s' = map_option f_name \<circ> fheap s"
    and "desc_ok s'" "fds_ok s'" "\<forall>n\<ge>dnext s'. dheap s' n = None"
  shows "op_inv h s'"
proof -
  note ok = op_inv_parts [OF assms(1)]
  have n: "fheap s' f = None \<longleftrightarrow> fheap s f = None" for f
    using fun_cong [OF assms(7), of f] by (cases "fheap s' f"; cases "fheap s f") auto
  have f1: "\<exists>y. fheap s f = Some y \<and> f_tags y = f_tags x \<and> f_name y = f_name x" if "fheap s' f = Some x" for f x
    using fun_cong [OF assms(7), of f] fun_cong [OF assms(8), of f] that by (cases "fheap s f") auto
  have f2: "\<exists>y. fheap s' f = Some y \<and> f_tags y = f_tags x \<and> f_name y = f_name x" if "fheap s f = Some x" for f x
    using fun_cong [OF assms(7), of f] fun_cong [OF assms(8), of f] that by (cases "fheap s' f") auto
  have "tags_ok s'" using ok(1) assms(2,3) by (simp add: tags_ok_def)
  moreover have "files_ok s'" unfolding files_ok_def assms(4)
  proof (intro conjI allI impI)
    show "distinct (keys (files s))" using ok(2) by (simp add: files_ok_def)
    fix m f assume "(m, f) \<in> set (files s)"
    then obtain x where "fheap s f = Some x" "f_name x = m" using ok(2) by (auto simp: files_ok_def)
    with f2 [of f x] show "\<exists>x. fheap s' f = Some x \<and> f_name x = m" by auto
  next
    fix f x assume "fheap s' f = Some x"
    with f1 [of f x] ok(2) show "(f_name x, f) \<in> set (files s)" unfolding files_ok_def by metis
  qed
  moreover have "ftags_ok s'" unfolding ftags_ok_def assms(3)
  proof (intro allI impI)
    fix f x assume "fheap s' f = Some x"
    with f1 [of f x] obtain y where y: "fheap s f = Some y" "f_tags y = f_tags x" "f_name y = f_name x" by blast
    with ok(3) show "distinct (keys (f_tags x)) \<and> (\<forall>k t. (k, t) \<in> set (f_tags x) \<longrightarrow>
        (\<exists>r. theap s t = Some r \<and> t_value r = k \<and> (f_name x, f) \<in> set (t_files r)))"
      unfolding ftags_ok_def by metis
  qed
  moreover have "tfiles_ok s'" unfolding tfiles_ok_def assms(2,3)
  proof (intro conjI allI impI)
    fix t r assume t: "theap s t = Some r"
    show "distinct (keys (t_files r))" "t_files r \<noteq> [] \<Longrightarrow> in_use r" "t_files r \<noteq> [] \<Longrightarrow> (t_value r, t) \<in> set (tags s)"
      using ok(4) t by (auto simp: tfiles_ok_def)
    fix m f assume e: "(m, f) \<in> set (t_files r)"
    obtain x where "fheap s f = Some x" "f_name x = m" "(t_value r, t) \<in> set (f_tags x)"
      by (rule tfilesD [OF ok(4) t e])
    with f2 [of f x] show "\<exists>x. fheap s' f = Some x \<and> f_name x = m \<and> (t_value r, t) \<in> set (f_tags x)" by auto
  qed
  moreover have "fresh_ok s'" using ok(5) n assms(3,5,6,11) by (simp add: fresh_ok_def)
  moreover have "refs_ok h s'" using ok(7) assms(2,3) by (simp add: refs_ok_def sole_owner_def)
  ultimately show ?thesis using assms(9,10) by (simp add: op_inv_def assoc_ok_def)
qed

definition fd_of :: "path \<Rightarrow> bool \<Rightarrow> fd_object \<Rightarrow> int \<Rightarrow> file_descriptor" where
  "fd_of p is_tag obj fh = \<lparr>fd_path = p, fd_is_tag = is_tag, fd_is_tag_file = (p_filename p = TAG_FILENAME),
     fd_ph = None, fd_object = obj, fd_fh = fh\<rparr>"

lemma fd_of_simps [simp]:
  "fd_path (fd_of p b ob fh) = p" "fd_is_tag (fd_of p b ob fh) = b" "fd_object (fd_of p b ob fh) = ob"
  "fd_ph (fd_of p b ob fh) = None" "fd_fh (fd_of p b ob fh) = fh"
  "fd_is_tag_file (fd_of p b ob fh) = (p_filename p = TAG_FILENAME)"
  by (simp_all add: fd_of_def)

lemma desc_fd_obj:
  assumes "desc_ok s" "dheap s d = Some fd" "\<And>f. fheap s f \<noteq> None \<Longrightarrow> fheap s' f \<noteq> None"
  shows "if fd_is_tag fd then \<exists>t. fd_object fd = TagObj t
    else \<exists>f. fd_object fd = FileObj (Some f) \<and> fheap s' f \<noteq> None"
proof (cases "fd_is_tag fd")
  case True
  with desc_fd_tag [OF assms(1,2)] show ?thesis by simp
next
  case False
  then obtain g y where "fd_object fd = FileObj (Some g)" "fheap s g = Some y"
    using desc_fd_file [OF assms(1,2)] by blast
  with False assms(3) [of g] show ?thesis by simp
qed

lemma open_tag_inv:
  assumes inv: "op_inv h s" and used: "sel_used (p_selected_tags p) s"
  shows "op_inv h (s\<lparr>dheap := (dheap s)(dnext s \<mapsto> fd_of p True (TagObj t) fh), dnext := Suc (dnext s)\<rparr>)"
    (is "op_inv h ?s")
proof -
  note ok = op_inv_parts [OF inv]
  have new: "dheap s (dnext s) = None" using ok(5) by (simp add: fresh_ok_def)
  have "desc_ok ?s"
  proof (rule desc_okI)
    fix f x assume "fheap ?s f = Some x"
    then have f: "fheap s f = Some x" by simp
    have "(\<exists>fd. dheap ?s d = Some fd \<and> \<not> fd_is_tag fd \<and> fd_object fd = FileObj (Some f)) \<longleftrightarrow>
        (\<exists>fd. dheap s d = Some fd \<and> \<not> fd_is_tag fd \<and> fd_object fd = FileObj (Some f))" for d
      using new by auto
    with ok(6) f show "distinct (f_descriptors x) \<and> (\<forall>d. d \<in> set (f_descriptors x) \<longleftrightarrow>
        (\<exists>fd. dheap ?s d = Some fd \<and> \<not> fd_is_tag fd \<and> fd_object fd = FileObj (Some f)))"
      unfolding desc_ok_def by blast
  next
    fix d fd assume d: "dheap ?s d = Some fd"
    show "if fd_is_tag fd then \<exists>t. fd_object fd = TagObj t
        else \<exists>f. fd_object fd = FileObj (Some f) \<and> fheap ?s f \<noteq> None"
    proof (cases "d = dnext s")
      case True
      with d show ?thesis by auto
    next
      case False
      with d have "dheap s d = Some fd" by simp
      with ok(6) show ?thesis by (rule desc_fd_obj) simp
    qed
  qed
  moreover have "fds_ok ?s" unfolding fds_ok_def
  proof (intro allI impI)
    fix d fd k u assume d: "dheap ?s d = Some fd" and m: "(k, u) \<in> set (p_selected_tags (fd_path fd))"
    show "\<exists>r. theap ?s u = Some r \<and> t_value r = k \<and> in_use r"
    proof (cases "d = dnext s")
      case True
      with d m used show ?thesis unfolding sel_used_def by auto
    next
      case False
      with d have "dheap s d = Some fd" by simp
      from fdsD [OF this ok(8) m] show ?thesis by auto
    qed
  qed
  ultimately show ?thesis using ok(5) by (intro op_inv_env [OF inv]) (auto simp: fresh_ok_def)
qed

lemma open_file_inv:
  assumes inv: "op_inv h s" and used: "sel_used (p_selected_tags p) s" and f: "fheap s f = Some x"
  shows "op_inv h (s\<lparr>dheap := (dheap s)(dnext s \<mapsto> fd_of p False (FileObj (Some f)) fh), dnext := Suc (dnext s),
    fheap := (fheap s)(f \<mapsto> x\<lparr>f_descriptors := f_descriptors x @ [dnext s]\<rparr>)\<rparr>)"
    (is "op_inv h ?s")
proof -
  note ok = op_inv_parts [OF inv]
  let ?d = "dnext s" and ?x = "x\<lparr>f_descriptors := f_descriptors x @ [dnext s]\<rparr>"
  have new: "dheap s ?d = None" using ok(5) by (simp add: fresh_ok_def)
  have "desc_ok ?s"
  proof (rule desc_okI)
    fix g y assume g: "fheap ?s g = Some y"
    obtain y0 where y0: "fheap s g = Some y0" "f_descriptors y = f_descriptors y0 @ (if g = f then [?d] else [])"
      using g f by (cases "g = f") auto
    have old: "distinct (f_descriptors y0)" "\<And>d. d \<in> set (f_descriptors y0) \<longleftrightarrow>
        (\<exists>fd. dheap s d = Some fd \<and> \<not> fd_is_tag fd \<and> fd_object fd = FileObj (Some g))"
      using ok(6) y0(1) unfolding desc_ok_def by blast+
    have "?d \<notin> set (f_descriptors y0)" using old(2) new by simp
    moreover have "(\<exists>fd. dheap ?s d = Some fd \<and> \<not> fd_is_tag fd \<and> fd_object fd = FileObj (Some g)) \<longleftrightarrow>
        d \<in> set (f_descriptors y0) \<or> d = ?d \<and> g = f" for d
      using old(2) new by auto
    ultimately show "distinct (f_descriptors y) \<and> (\<forall>d. d \<in> set (f_descriptors y) \<longleftrightarrow>
        (\<exists>fd. dheap ?s d = Some fd \<and> \<not> fd_is_tag fd \<and> fd_object fd = FileObj (Some g)))"
      using old(1) y0(2) by auto
  next
    fix d fd assume d: "dheap ?s d = Some fd"
    show "if fd_is_tag fd then \<exists>t. fd_object fd = TagObj t
        else \<exists>f. fd_object fd = FileObj (Some f) \<and> fheap ?s f \<noteq> None"
    proof (cases "d = ?d")
      case True
      with d show ?thesis by auto
    next
      case False
      with d have "dheap s d = Some fd" by simp
      with ok(6) show ?thesis by (rule desc_fd_obj) simp
    qed
  qed
  moreover have "fds_ok ?s" unfolding fds_ok_def
  proof (intro allI impI)
    fix d fd k u assume d: "dheap ?s d = Some fd" and m: "(k, u) \<in> set (p_selected_tags (fd_path fd))"
    show "\<exists>r. theap ?s u = Some r \<and> t_value r = k \<and> in_use r"
    proof (cases "d = ?d")
      case True
      with d m used show ?thesis unfolding sel_used_def by auto
    next
      case False
      with d have "dheap s d = Some fd" by simp
      from fdsD [OF this ok(8) m] show ?thesis by auto
    qed
  qed
  moreover have "map_option f_tags \<circ> fheap ?s = map_option f_tags \<circ> fheap s"
    "map_option f_name \<circ> fheap ?s = map_option f_name \<circ> fheap s" using f by (auto simp: fun_eq_iff)
  ultimately show ?thesis using ok(5) by (intro op_inv_env [OF inv]) (auto simp: fresh_ok_def)
qed

lemma path_of_inj_root: "components cs \<Longrightarrow> path_of cs = ''/'' \<longleftrightarrow> cs = []"
  by (cases cs) (auto simp: path_of_def components_def component_def)

text \<open>\<^verbatim>\<open>opendir\<close> succeeds exactly on the root and on directories whose last tag is in use.\<close>

definition opendir_ok :: "cstring list \<Rightarrow> 'w fs \<Rightarrow> bool" where
  "opendir_ok cs s \<longleftrightarrow> cs = [] \<or> live_name s (last cs)"

text \<open>A path object given up without being released (an error of \<^verbatim>\<open>fd_open\<close>) is harmless.\<close>

lemma op_inv_leak: "op_inv sel s \<Longrightarrow> op_inv [] s"
  using path_refs_nonneg unfolding op_inv_def refs_ok_def
  by (metis empty_iff empty_set path_refs_Nil order_trans zero_le_one)

text \<open>\<^verbatim>\<open>opendir\<close> never faults; where it succeeds, the descriptor keeps the references of its path.\<close>

lemma tag_open_dir_runs:
  assumes cs: "components cs" and inv: "fs_inv s"
  shows "\<exists>sel s1 t. selects sel [] s s1 \<and> keys sel = cs \<and> tag_open_dir os (path_of cs) flags s =
    Some (if opendir_ok cs s
      then ((0, Some (dnext s)), s1\<lparr>dheap := (dheap s1)(dnext s1 \<mapsto> fd_of (path_obj s cs sel) True (TagObj t) (-1)),
          dnext := Suc (dnext s1)\<rparr>)
      else ((- ENOENT, None), s1))"
proof -
  have i: "op_inv [] s" using inv by (simp add: fs_inv_def)
  obtain sel s1 where s1: "path_create (path_of cs) True s = Some (path_obj s cs sel, s1)"
    "keys sel = cs" "selects sel [] s s1"
    using path_create_inv [OF cs i, of True] by auto
  have c1: "core s1 = core s" and i1: "op_inv sel s1" using s1(3) by (simp_all add: selects_def)
  have same: "live_name s1 = live_name s" "dnext s1 = dnext s"
    using live_name_core_eq [OF c1] core_eqD [OF c1] by auto
  have bad: "(if tag_get (p_filename (path_obj s cs sel)) s1 = INVALID_TAG then Some True
      else do { r \<leftarrow> theap s1 (tag_get (p_filename (path_obj s cs sel)) s1); Some (\<not> in_use r) }) =
      Some (\<not> live_name s1 (last cs))" if "cs \<noteq> []"
  proof -
    have fn: "p_filename (path_obj s cs sel) = last cs" using that by (simp add: path_obj_filename lookup_name_def)
    consider "last cs \<notin> set (keys (tags s1))" "tag_get (last cs) s1 = INVALID_TAG"
      | t r where "(last cs, t) \<in> set (tags s1)" "tag_get (last cs) s1 = t" "t \<noteq> INVALID_TAG" "theap s1 t = Some r"
      using tag_get_cases [OF i1, of "last cs"] by blast
    then show ?thesis
    proof cases
      case 1
      with live_name_absent [OF 1(1)] show ?thesis by (simp add: fn)
    next
      case (2 t r)
      with live_name_self [OF op_inv_parts(1) [OF i1] 2(1,4)] show ?thesis by (simp add: fn)
    qed
  qed
  show ?thesis
  proof (cases "opendir_ok cs s")
    case False
    then have ne: "cs \<noteq> []" "\<not> live_name s1 (last cs)" using same by (auto simp: opendir_ok_def)
    then have "path_of cs \<noteq> ''/''" using path_of_inj_root [OF cs] by simp
    with bad [OF ne(1)] ne False s1 show ?thesis
      by (intro exI [of _ sel] exI [of _ s1]) (simp add: tag_open_dir_def tag_open_def fd_open_def fd_open_tag_def)
  next
    case True
    obtain t where t: "fd_open_tag (path_obj s cs sel) s1 =
        Some (Inr (dnext s), s1\<lparr>dheap := (dheap s1)(dnext s1 \<mapsto> fd_of (path_obj s cs sel) True (TagObj t) (-1)), dnext := Suc (dnext s1)\<rparr>)"
    proof (cases "cs = []")
      case True
      then show ?thesis using that [of INVALID_TAG] same
        by (simp add: fd_open_tag_def path_of_def fd_new_def fd_of_def Let_def)
    next
      case False
      then have "path_of cs \<noteq> ''/''" using path_of_inj_root [OF cs] by simp
      with False True bad [OF False] same that show ?thesis
        by (simp add: fd_open_tag_def fd_new_def fd_of_def Let_def opendir_ok_def)
    qed
    have "tag_open_dir os (path_of cs) flags s = Some ((0, Some (dnext s)),
        s1\<lparr>dheap := (dheap s1)(dnext s1 \<mapsto> fd_of (path_obj s cs sel) True (TagObj t) (-1)), dnext := Suc (dnext s1)\<rparr>)"
      using s1(1) t by (simp add: tag_open_dir_def tag_open_def fd_open_def)
    with True s1 show ?thesis by (intro exI [of _ sel] exI [of _ s1] exI [of _ t]) simp
  qed
qed

lemma tag_open_dir_inv:
  assumes cs: "components cs" and inv: "fs_inv s"
    and live: "opendir_ok cs s \<longrightarrow> (\<forall>k\<in>set cs. live_name s k)"
  shows "\<exists>s'. tag_open_dir os (path_of cs) flags s =
      Some (if opendir_ok cs s then (0, Some (dnext s)) else (- ENOENT, None), s') \<and> fs_inv s' \<and>
    tagged s' = tagged s \<and> live_name s' = live_name s \<and> files s' = files s \<and>
    (opendir_ok cs s \<longrightarrow> (\<exists>sel fd. keys sel = cs \<and> dheap s' = (dheap s)(dnext s \<mapsto> fd) \<and>
       fd_is_tag fd \<and> fd_path fd = path_obj s cs sel))"
proof -
  have i: "op_inv [] s" using inv by (simp add: fs_inv_def)
  obtain sel s1 t where sl: "selects sel [] s s1" and k: "keys sel = cs" and run: "tag_open_dir os (path_of cs) flags s =
    Some (if opendir_ok cs s
      then ((0, Some (dnext s)), s1\<lparr>dheap := (dheap s1)(dnext s1 \<mapsto> fd_of (path_obj s cs sel) True (TagObj t) (-1)),
          dnext := Suc (dnext s1)\<rparr>)
      else ((- ENOENT, None), s1))"
    using tag_open_dir_runs [OF cs inv] by blast
  have c1: "core s1 = core s" and i1: "op_inv sel s1" using sl by (simp_all add: selects_def)
  have same: "tagged s1 = tagged s" "live_name s1 = live_name s" "dnext s1 = dnext s" "dheap s1 = dheap s" "files s1 = files s"
    using same_files_tagged [OF core_same_files [OF c1]] live_name_core_eq [OF c1] core_eqD [OF c1] by auto
  have w: "op_inv [] s1" by (rule op_inv_leak [OF i1])
  show ?thesis
  proof (cases "opendir_ok cs s")
    case False
    with run w same show ?thesis by (intro exI [of _ s1]) (simp add: fs_inv_def)
  next
    case True
    have used: "sel_used sel s1" by (rule selects_sel_used [OF sl i]) (use live True k in simp)
    let ?s = "s1\<lparr>dheap := (dheap s1)(dnext s1 \<mapsto> fd_of (path_obj s cs sel) True (TagObj t) (-1)), dnext := Suc (dnext s1)\<rparr>"
    have "op_inv [] ?s" using open_tag_inv [OF w, of "path_obj s cs sel"] used by simp
    moreover have "tagged ?s = tagged s" "live_name ?s = live_name s" "files ?s = files s"
      using same by (auto simp: tagged_def live_name_def fun_eq_iff)
    ultimately show ?thesis using True run k same
      by (intro exI [of _ ?s]) (auto simp: fs_inv_def intro!: exI [of _ sel])
  qed
qed

lemma tagged_cong:
  fixes s s' :: "'w fs"
  assumes "\<And>f. map_option (\<lambda>x. (f_name x, keys (f_tags x))) (fheap s' f) =
      map_option (\<lambda>x. (f_name x, keys (f_tags x))) (fheap s f)"
  shows "tagged s' = tagged s"
proof (intro ext)
  fix n k
  let ?m = "\<lambda>u f. map_option (\<lambda>x. (f_name x, keys (f_tags x))) (fheap u f)"
  have eq: "(\<exists>x. fheap u f = Some x \<and> f_name x = n \<and> k \<in> set (keys (f_tags x))) \<longleftrightarrow>
      (\<exists>ks. ?m u f = Some (n, ks) \<and> k \<in> set ks)" for u :: "'w fs" and f
    by (cases "fheap u f") auto
  show "tagged s' n k = tagged s n k" unfolding tagged_def eq assms ..
qed

lemma op_inv_destroyed: "op_inv h s \<Longrightarrow> op_inv h (s\<lparr>destroyed := l\<rparr>)"
proof -
  assume inv: "op_inv h s"
  note ok = op_inv_parts [OF inv]
  show ?thesis
    by (rule op_inv_env [OF inv])
      (use ok(6,8) ok(5) in \<open>auto simp: fds_ok_def fresh_ok_def intro: desc_ok_cong\<close>)
qed

lemma op_inv_world: "op_inv h s \<Longrightarrow> op_inv h (s\<lparr>world := w\<rparr>)"
proof -
  assume inv: "op_inv h s"
  note ok = op_inv_parts [OF inv]
  show ?thesis
    by (rule op_inv_env [OF inv])
      (use ok(6,8) ok(5) in \<open>auto simp: fds_ok_def fresh_ok_def intro: desc_ok_cong\<close>)
qed

text \<open>
  \<^verbatim>\<open>open\<close> uses the file of the name without a check: with the real file opened and no such file known, it
  reads through a null pointer. The tables stay consistent if the tags of the directory are in use.
\<close>

definition open_result :: "'w os \<Rightarrow> cstring list \<Rightarrow> 32 word \<Rightarrow> 'w fs \<Rightarrow> int \<times> dptr option" where
  "open_result os cs flags s =
     (case fst (os_open os (path_realpath s (path_of cs)) flags (world s)) of
        Inl errno \<Rightarrow> (- errno, None)
      | Inr fh \<Rightarrow> (0, Some (dnext s)))"

lemma tag_open_file_inv:
  assumes cs: "components cs" and inv: "fs_inv s"
    and live: "\<forall>k\<in>set (butlast cs). live_name s k" and known: "file_get (lookup_name cs) s \<noteq> None"
  shows "\<exists>s'. tag_open_file os (path_of cs) flags s = Some (open_result os cs flags s, s') \<and> fs_inv s' \<and>
    tagged s' = tagged s \<and> live_name s' = live_name s \<and> files s' = files s \<and>
    world s' = snd (os_open os (path_realpath s (path_of cs)) flags (world s)) \<and>
    (\<forall>d. snd (open_result os cs flags s) = Some d \<longrightarrow>
       (\<exists>sel fd f. keys sel = butlast cs \<and> dheap s' = (dheap s)(d \<mapsto> fd) \<and> \<not> fd_is_tag fd \<and>
          fd_path fd = path_obj s cs sel \<and> fd_object fd = FileObj (Some f) \<and> file_get (lookup_name cs) s = Some f))"
proof -
  have i: "op_inv [] s" using inv by (simp add: fs_inv_def)
  obtain sel s1 where s1: "path_create (path_of cs) False s = Some (path_obj s cs sel, s1)"
    "keys sel = butlast cs" "selects sel [] s s1"
    using path_create_inv [OF cs i, of False] by auto
  have c1: "core s1 = core s" and i1: "op_inv sel s1" using s1(3) by (simp_all add: selects_def)
  have same: "tagged s1 = tagged s" "live_name s1 = live_name s" "dnext s1 = dnext s" "dheap s1 = dheap s"
    "files s1 = files s" "world s1 = world s"
    using same_files_tagged [OF core_same_files [OF c1]] live_name_core_eq [OF c1] core_eqD [OF c1] by auto
  obtain res w where open': "os_open os (path_realpath s (path_of cs)) flags (world s) = (res, w)" by fastforce
  let ?s1 = "s1\<lparr>world := w\<rparr>"
  have w1: "op_inv [] ?s1" by (rule op_inv_world [OF op_inv_leak [OF i1]])
  have tl: "tagged ?s1 = tagged s" "live_name ?s1 = live_name s"
    using same by (auto simp: tagged_def live_name_def fun_eq_iff)
  obtain f where f: "file_get (lookup_name cs) s = Some f" using known by blast
  then have fg: "file_get (p_filename (path_obj s cs sel)) ?s1 = Some f"
    using same by (simp add: path_obj_filename file_get_def)
  show ?thesis
  proof (cases res)
    case (Inl errno)
    then have "tag_open_file os (path_of cs) flags s = Some ((- errno, None), ?s1)"
      using s1(1) open' same by (simp add: tag_open_file_def tag_open_def fd_open_def)
    with w1 tl same open' Inl show ?thesis
      by (intro exI [of _ ?s1]) (simp add: fs_inv_def open_result_def)
  next
    case (Inr fh)
    obtain x where x: "fheap ?s1 f = Some x" by (rule file_get_SomeD [OF w1 fg])
    let ?fd = "fd_of (path_obj s cs sel) False (FileObj (Some f)) fh"
    let ?s = "?s1\<lparr>dheap := (dheap ?s1)(dnext ?s1 \<mapsto> ?fd), dnext := Suc (dnext ?s1),
      fheap := (fheap ?s1)(f \<mapsto> x\<lparr>f_descriptors := f_descriptors x @ [dnext ?s1]\<rparr>)\<rparr>"
    have used: "sel_used sel ?s1"
      using selects_sel_used [OF s1(3) i] live s1(2) by (simp add: sel_used_def)
    have "op_inv [] ?s" by (rule open_file_inv [OF w1 _ x]) (use used in simp)
    moreover have "tagged ?s = tagged ?s1"
      by (rule tagged_cong) (use x in auto)
    moreover have "live_name ?s = live_name ?s1" by (simp add: live_name_def fun_eq_iff)
    moreover have "tag_open_file os (path_of cs) flags s = Some ((0, Some (dnext s)), ?s)"
      using s1(1) open' same Inr fg x
      by (simp add: tag_open_file_def tag_open_def fd_open_def fd_new_def fd_of_def Let_def
          file_add_descriptor_def file_upd_def)
    ultimately show ?thesis using tl same open' Inr s1(2) f
      by (intro exI [of _ ?s]) (auto simp: fs_inv_def open_result_def intro!: exI [of _ sel])
  qed
qed

lemma tag_open_file_runs:
  assumes cs: "components cs" and inv: "fs_inv s"
  shows "(tag_open_file os (path_of cs) flags s = None) \<longleftrightarrow>
      (file_get (lookup_name cs) s = None \<and>
       (\<exists>fh. fst (os_open os (path_realpath s (path_of cs)) flags (world s)) = Inr fh))"
    and "fst (os_open os (path_realpath s (path_of cs)) flags (world s)) = Inl e \<Longrightarrow>
      \<exists>s'. tag_open_file os (path_of cs) flags s = Some ((- e, None), s') \<and> fs_inv s'"
proof -
  have i: "op_inv [] s" using inv by (simp add: fs_inv_def)
  obtain sel s1 where s1: "path_create (path_of cs) False s = Some (path_obj s cs sel, s1)" "selects sel [] s s1"
    using path_create_inv [OF cs i, of False] by auto
  have c1: "core s1 = core s" and i1: "op_inv sel s1" using s1(2) by (simp_all add: selects_def)
  have same: "files s1 = files s" "world s1 = world s" using core_eqD [OF c1] by auto
  obtain res w where op: "os_open os (path_realpath s (path_of cs)) flags (world s) = (res, w)" by fastforce
  have w1: "op_inv [] (s1\<lparr>world := w\<rparr>)" by (rule op_inv_world [OF op_inv_leak [OF i1]])
  have fg: "file_get (p_filename (path_obj s cs sel)) (s1\<lparr>world := w\<rparr>) = file_get (lookup_name cs) s"
    using same by (simp add: path_obj_filename file_get_def)
  show "(tag_open_file os (path_of cs) flags s = None) \<longleftrightarrow>
      (file_get (lookup_name cs) s = None \<and>
       (\<exists>fh. fst (os_open os (path_realpath s (path_of cs)) flags (world s)) = Inr fh))"
  proof (cases res)
    case (Inl e)
    with s1(1) op same show ?thesis by (simp add: tag_open_file_def tag_open_def fd_open_def)
  next
    case (Inr fh)
    show ?thesis
    proof (cases "file_get (lookup_name cs) s")
      case None
      with Inr s1(1) op same fg show ?thesis
        by (simp add: tag_open_file_def tag_open_def fd_open_def fd_new_def file_add_descriptor_def Let_def)
    next
      case (Some f)
      obtain x where "fheap (s1\<lparr>world := w\<rparr>) f = Some x" by (rule file_get_SomeD [OF w1]) (use fg Some in simp)
      with Some Inr s1(1) op same fg show ?thesis
        by (simp add: tag_open_file_def tag_open_def fd_open_def fd_new_def file_add_descriptor_def file_upd_def Let_def)
    qed
  qed
  show "\<exists>s'. tag_open_file os (path_of cs) flags s = Some ((- e, None), s') \<and> fs_inv s'"
    if "fst (os_open os (path_realpath s (path_of cs)) flags (world s)) = Inl e"
    using that s1(1) op same w1 by (simp add: tag_open_file_def tag_open_def fd_open_def fs_inv_def)
qed

subsection \<open>Closing\<close>

lemma free_selected_used: "sel_used sel s \<Longrightarrow> free_selected_tags sel s = Some s"
proof (induction sel)
  case Nil
  then show ?case by (simp add: free_selected_tags_def)
next
  case (Cons e sel)
  obtain k t where e: "e = (k, t)" by fastforce
  from Cons.prems e obtain r where "theap s t = Some r" "in_use r"
    unfolding sel_used_def by (metis list.set_intros(1))
  moreover have "free_selected_tags sel s = Some s" using Cons by (simp add: sel_used_def)
  ultimately show ?case by (simp add: free_selected_tags_def e)
qed

lemma fds_used: "fds_ok s \<Longrightarrow> dheap s d = Some fd \<Longrightarrow> sel_used (p_selected_tags (fd_path fd)) s"
  unfolding fds_ok_def sel_used_def by blast

lemma close_inv:
  assumes inv: "op_inv h s" and d: "dheap s d = Some fd"
    and f: "if fd_is_tag fd then fh' = fheap s
      else \<exists>f x. fd_object fd = FileObj (Some f) \<and> fheap s f = Some x \<and>
        fh' = (fheap s)(f \<mapsto> x\<lparr>f_descriptors := remove1 d (f_descriptors x)\<rparr>)"
  shows "op_inv h (s\<lparr>dheap := (dheap s)(d := None), fheap := fh'\<rparr>)" (is "op_inv h ?s")
proof -
  note ok = op_inv_parts [OF inv]
  have fh: "\<exists>y. fheap s g = Some y \<and> f_tags x = f_tags y \<and> f_name x = f_name y \<and>
      f_descriptors x = (if \<not> fd_is_tag fd \<and> fd_object fd = FileObj (Some g) then remove1 d (f_descriptors y)
        else f_descriptors y)" if "fh' g = Some x" for g x
    using f that by (auto split: if_splits)
  have fn: "fh' g = None \<longleftrightarrow> fheap s g = None" for g
    using f by (auto split: if_splits)
  have "desc_ok ?s"
  proof (rule desc_okI)
    fix g x assume "fheap ?s g = Some x"
    then have "fh' g = Some x" by simp
    from fh [OF this] obtain y where y: "fheap s g = Some y"
      "f_descriptors x = (if \<not> fd_is_tag fd \<and> fd_object fd = FileObj (Some g) then remove1 d (f_descriptors y)
        else f_descriptors y)" by blast
    have old: "distinct (f_descriptors y)" "\<And>e. e \<in> set (f_descriptors y) \<longleftrightarrow>
        (\<exists>fd. dheap s e = Some fd \<and> \<not> fd_is_tag fd \<and> fd_object fd = FileObj (Some g))"
      using ok(6) y(1) unfolding desc_ok_def by blast+
    have "(\<exists>fd. dheap ?s e = Some fd \<and> \<not> fd_is_tag fd \<and> fd_object fd = FileObj (Some g)) \<longleftrightarrow>
        e \<in> set (f_descriptors y) \<and> e \<noteq> d" for e
      using old(2) by auto
    moreover have "d \<in> set (f_descriptors y) \<longleftrightarrow> \<not> fd_is_tag fd \<and> fd_object fd = FileObj (Some g)"
      using old(2) d by auto
    ultimately show "distinct (f_descriptors x) \<and> (\<forall>e. e \<in> set (f_descriptors x) \<longleftrightarrow>
        (\<exists>fd. dheap ?s e = Some fd \<and> \<not> fd_is_tag fd \<and> fd_object fd = FileObj (Some g)))"
      using old(1) y(2) by (auto simp: set_remove1_eq)
  next
    fix e fe assume "dheap ?s e = Some fe"
    then have "dheap s e = Some fe" by (simp split: if_splits)
    with ok(6) show "if fd_is_tag fe then \<exists>t. fd_object fe = TagObj t
        else \<exists>f. fd_object fe = FileObj (Some f) \<and> fheap ?s f \<noteq> None"
      by (rule desc_fd_obj) (simp add: fn)
  qed
  moreover have "fds_ok ?s" using ok(8) unfolding fds_ok_def by (auto split: if_splits)
  moreover have "map_option f_tags (fh' g) = map_option f_tags (fheap s g)"
    "map_option f_name (fh' g) = map_option f_name (fheap s g)" for g
    using f by (auto split: if_splits)
  ultimately show ?thesis using ok(5)
    by (intro op_inv_env [OF inv]) (simp_all add: fresh_ok_def fun_eq_iff)
qed

lemma tag_release_inv:
  assumes inv: "fs_inv s" and d: "dheap s d = Some fd"
  shows "\<exists>s'. tag_release_generic os d s =
      Some (case fst (os_close os (fd_fh fd) (world s)) of Inl errno \<Rightarrow> - errno | Inr u \<Rightarrow> 0, s') \<and> fs_inv s' \<and>
    tagged s' = tagged s \<and> live_name s' = live_name s \<and> files s' = files s \<and> dheap s' = (dheap s)(d := None) \<and>
    tags s' = tags s \<and> theap s' = theap s"
proof -
  have i: "op_inv [] s" using inv by (simp add: fs_inv_def)
  note ok = op_inv_parts [OF i]
  obtain res w where cl: "os_close os (fd_fh fd) (world s) = (res, w)" by fastforce
  let ?ds = "case fd_ph fd of None \<Rightarrow> destroyed s | Some ph \<Rightarrow> destroyed s @ [ph]"
  have pd: "path_delete (fd_path fd) (s\<lparr>world := w\<rparr>) = Some (s\<lparr>world := w\<rparr>)"
    using free_selected_used [of "p_selected_tags (fd_path fd)" "s\<lparr>world := w\<rparr>"] fds_used [OF ok(8) d]
    by (simp add: path_delete_def sel_used_def)
  obtain fh' where fh': "if fd_is_tag fd then fh' = fheap s
      else \<exists>f x. fd_object fd = FileObj (Some f) \<and> fheap s f = Some x \<and>
        fh' = (fheap s)(f \<mapsto> x\<lparr>f_descriptors := remove1 d (f_descriptors x)\<rparr>)"
    using desc_fd_file [OF ok(6) d] by (cases "fd_is_tag fd") auto
  let ?s = "s\<lparr>dheap := (dheap s)(d := None), fheap := fh'\<rparr>"
  have "op_inv [] ?s" by (rule close_inv [OF i d fh'])
  then have "op_inv [] (?s\<lparr>world := w\<rparr>)" by (rule op_inv_world)
  then have inv': "op_inv [] (?s\<lparr>world := w, destroyed := ?ds\<rparr>)"
    using op_inv_destroyed by fastforce
  have tg: "tagged (?s\<lparr>world := w, destroyed := ?ds\<rparr>) = tagged s"
    by (rule tagged_cong) (use fh' in \<open>auto split: if_splits\<close>)
  have "tag_release_generic os d s = Some (case res of Inl errno \<Rightarrow> - errno | Inr u \<Rightarrow> 0,
      ?s\<lparr>world := w, destroyed := ?ds\<rparr>)"
  proof (cases "fd_is_tag fd")
    case True
    with cl pd d fh' show ?thesis
      by (cases "fd_ph fd") (simp_all add: tag_release_generic_def fd_close_def)
  next
    case False
    with fh' obtain f x where "fd_object fd = FileObj (Some f)" "fheap s f = Some x"
        "fh' = (fheap s)(f \<mapsto> x\<lparr>f_descriptors := remove1 d (f_descriptors x)\<rparr>)" by auto
    with False cl pd d show ?thesis
      by (cases "fd_ph fd") (simp_all add: tag_release_generic_def fd_close_def file_remove_descriptor_def file_upd_def)
  qed
  with cl inv' tg show ?thesis
    by (intro exI [of _ "?s\<lparr>world := w, destroyed := ?ds\<rparr>"]) (simp add: fs_inv_def live_name_def fun_eq_iff)
qed

end
