(* ===== verification/Fuse_Readdir.thy ===== *)
theory Fuse_Readdir
  imports Fuse_Fd
begin

text \<open>
  Directory listings: the tags that \<^verbatim>\<open>readdir\<close> offers at the root (all tags in use) and in a
  tag directory (the further tags of the files that carry all tags of the path), and the files.
\<close>

subsection \<open>Tags at the root\<close>

lemma tag_list_fold:
  assumes "op_inv h s" and b: "length (tags s) + 2 < 2 ^ 32"
    and "ht_for_each (elem_calls (rev (map (Some \<circ> snd) (tags s)))) (\<lambda>_. f) a = Some a'"
  shows "\<exists>l l'. tag_list s = Some l \<and> list_fold_from l 1 (list_size l) f a = Some (a', l')"
proof -
  obtain l where l: "ht_to_list (tags s) = Some l" "clist_repr l (rev (map (Some \<circ> snd) (tags s)))"
    using ht_to_list_repr [OF b] by blast
  from list_each_r_repr [OF l(2) assms(3)] obtain l' where "list_fold_from l 1 (list_size l) f a = Some (a', l')"
    by (auto simp: list_each_r_def)
  with l(1) show ?thesis by (auto simp: tag_list_def)
qed

lemma mode1_loop:
  assumes ok: "tags_ok s" and sub: "set ts \<subseteq> set (tags s)"
  shows "ht_for_each (elem_calls (map (Some \<circ> snd) ts)) (\<lambda>_ t buf. do {
          t \<leftarrow> t;
          r \<leftarrow> theap s t;
          Some (if \<not> ht_has_entry sel (t_value r) \<and> in_use r then buf @ [t_value r] else buf)
        }) buf = Some (buf @ [k. (k, t) \<leftarrow> ts, k \<notin> set (keys sel) \<and> tag_view s t \<noteq> None])"
  using sub
proof (induction ts arbitrary: buf)
  case Nil
  then show ?case by simp
next
  case (Cons e ts)
  obtain k t where e: "e = (k, t)" by fastforce
  with Cons.prems have kt: "(k, t) \<in> set (tags s)" by simp
  with ok obtain r where r: "theap s t = Some r" "t_value r = k" by (auto simp: tags_ok_def)
  from Cons.IH Cons.prems r show ?case by (simp add: e ht_has_entry_iff tag_view_def)
qed

lemma live_tags_listed:
  "[k. (k, t) \<leftarrow> rev (tags s), k \<notin> K \<and> tag_view s t \<noteq> None] =
   rev (filter (\<lambda>k. k \<notin> K) (keys (live_tags s)))"
proof -
  have "[k. (k, t) \<leftarrow> ts, k \<notin> K \<and> tag_view s t \<noteq> None] =
      filter (\<lambda>k. k \<notin> K) (map fst (filter (\<lambda>e. tag_view s (snd e) \<noteq> None) ts))" for ts
    by (induction ts) (auto split: prod.splits)
  then show ?thesis by (simp only: live_tags_def rev_filter rev_map)
qed

lemma readdir_mode1:
  assumes inv: "op_inv h s" and b: "length (tags s) + 2 < 2 ^ 32"
  shows "readdir_list_tags_mode1 sel buf s =
    Some (buf @ rev (filter (\<lambda>k. k \<notin> set (keys sel)) (keys (live_tags s))))"
proof -
  have "set (rev (tags s)) \<subseteq> set (tags s)" by simp
  from mode1_loop [OF op_inv_parts(1) [OF inv] this, of sel buf]
  have "ht_for_each (elem_calls (rev (map (Some \<circ> snd) (tags s)))) (\<lambda>_ t buf. do {
          t \<leftarrow> t;
          r \<leftarrow> theap s t;
          Some (if \<not> ht_has_entry sel (t_value r) \<and> in_use r then buf @ [t_value r] else buf)
        }) buf = Some (buf @ rev (filter (\<lambda>k. k \<notin> set (keys sel)) (keys (live_tags s))))"
    unfolding live_tags_listed by (simp add: rev_map)
  from tag_list_fold [OF inv b this] show ?thesis by (auto simp: readdir_list_tags_mode1_def)
qed

subsection \<open>Tags in a tag directory\<close>

lemma op_inv_tfiles:
  assumes inv: "op_inv h s" and r: "theap s t = Some r" and m: "(n, f) \<in> set (t_files r)"
  obtains x where "fheap s f = Some x" "f_name x = n" "tagged s n (t_value r)"
proof -
  obtain x where "fheap s f = Some x" "f_name x = n" "(t_value r, t) \<in> set (f_tags x)"
    by (rule tfilesD [OF op_inv_parts(4) [OF inv] r m])
  then show thesis using that unfolding tagged_def by force
qed

text \<open>A table of files under their names.\<close>

definition file_table :: "'w fs \<Rightarrow> fptr ht \<Rightarrow> bool" where
  "file_table s h \<longleftrightarrow> distinct (keys h) \<and> (\<forall>n f. (n, f) \<in> set h \<longrightarrow> (\<exists>x. fheap s f = Some x \<and> f_name x = n))"

text \<open>The files of the tags that a path selects.\<close>

definition sel_files :: "'w fs \<Rightarrow> tptr ht \<Rightarrow> cstring set" where
  "sel_files s sel = {n. \<exists>k t r. (k, t) \<in> set sel \<and> theap s t = Some r \<and> n \<in> set (keys (t_files r))}"

lemma sel_files_own:
  assumes inv: "op_inv h s" and live: "sel_used sel s" and own: "\<forall>k t. (k, t) \<in> set sel \<longrightarrow> sole_owner s k t"
  shows "sel_files s sel = {n. \<exists>k\<in>set (keys sel). tagged s n k}"
proof (intro set_eqI iffI)
  fix n assume "n \<in> sel_files s sel"
  then obtain k t r f where k: "(k, t) \<in> set sel" "theap s t = Some r" "(n, f) \<in> set (t_files r)"
    by (auto simp: sel_files_def)
  then have "t_value r = k" using live unfolding sel_used_def by (metis option.inject)
  moreover have "tagged s n (t_value r)" by (rule op_inv_tfiles [OF inv k(2,3)])
  ultimately show "n \<in> {n. \<exists>k\<in>set (keys sel). tagged s n k}" using k(1) by force
next
  note ok = op_inv_parts [OF inv]
  fix n assume "n \<in> {n. \<exists>k\<in>set (keys sel). tagged s n k}"
  then obtain k where "k \<in> set (keys sel)" and tg: "tagged s n k" by blast
  then obtain t where kt: "(k, t) \<in> set sel" by auto
  from tg obtain f x where "fheap s f = Some x" "f_name x = n" "k \<in> set (keys (f_tags x))"
    unfolding tagged_def by blast
  with kt have x: "(k, t) \<in> set sel" "fheap s f = Some x" "f_name x = n" "k \<in> set (keys (f_tags x))" by simp_all
  then obtain r where r: "theap s t = Some r" "t_value r = k" using live unfolding sel_used_def by blast
  have "(t_value r, t) \<in> set (f_tags x)"
    by (rule ftags_self [OF ok(3,4) _ x(2)]) (use r x own in auto)
  then obtain r' where "theap s t = Some r'" "(f_name x, f) \<in> set (t_files r')"
    using ftagsD [OF ok(3) x(2)] by metis
  with r(1) x(3) have "(n, f) \<in> set (t_files r)" by simp
  with x(1) r(1) show "n \<in> sel_files s sel" unfolding sel_files_def by force
qed

lemma collect_files:
  assumes inv: "op_inv h s" and live: "\<forall>k t. (k, t) \<in> set sel \<longrightarrow> (\<exists>r. theap s t = Some r \<and> t_value r = k)"
    and tab: "file_table s acc"
  shows "\<exists>sf. ht_for_each sel
       (\<lambda>n tag selected_files. do {
          t \<leftarrow> theap s tag;
          ht_for_each (t_files t)
            (\<lambda>n file selected_files. do {
               f \<leftarrow> fheap s file;
               Some (snd (ht_add_unique_entry selected_files (f_name f) file))
             }) selected_files
        }) acc = Some sf \<and> file_table s sf \<and>
    set (keys sf) = set (keys acc) \<union> sel_files s sel"
  using live tab
proof (induction sel arbitrary: acc)
  case Nil
  then show ?case by (simp add: sel_files_def)
next
  case (Cons e sel)
  obtain k t where e: "e = (k, t)" by fastforce
  from Cons.prems(1) e obtain r where r: "theap s t = Some r" "t_value r = k" by auto
  have inner: "\<exists>sf. ht_for_each fs
            (\<lambda>n file selected_files. do {
               f \<leftarrow> fheap s file;
               Some (snd (ht_add_unique_entry selected_files (f_name f) file))
             }) acc = Some sf \<and> file_table s sf \<and> set (keys sf) = set (keys acc) \<union> set (keys fs)"
    if "set fs \<subseteq> set (t_files r)" "file_table s acc" for fs acc
    using that
  proof (induction fs arbitrary: acc)
    case Nil
    then show ?case by simp
  next
    case (Cons g fs)
    obtain n f where g: "g = (n, f)" by fastforce
    with Cons.prems(1) have m: "(n, f) \<in> set (t_files r)" by simp
    obtain x where x: "fheap s f = Some x" "f_name x = n" by (rule op_inv_tfiles [OF inv r(1) m])
    have "file_table s (snd (ht_add_unique_entry acc n f))"
      using Cons.prems(2) x by (auto simp: file_table_def ht_add_unique_eq)
    from Cons.IH [OF _ this] Cons.prems(1) obtain sf where "ht_for_each fs
            (\<lambda>n file selected_files. do {
               f \<leftarrow> fheap s file;
               Some (snd (ht_add_unique_entry selected_files (f_name f) file))
             }) (snd (ht_add_unique_entry acc n f)) = Some sf" "file_table s sf"
       "set (keys sf) = set (keys (snd (ht_add_unique_entry acc n f))) \<union> set (keys fs)" by auto
    with g x show ?case by (auto simp: ht_add_unique_eq split: if_splits)
  qed
  have names: "sel_files s (e # sel) = set (keys (t_files r)) \<union> sel_files s sel"
    using r(1) by (auto simp: sel_files_def e)
  obtain sf where sf: "ht_for_each (t_files r)
            (\<lambda>n file selected_files. do {
               f \<leftarrow> fheap s file;
               Some (snd (ht_add_unique_entry selected_files (f_name f) file))
             }) acc = Some sf" "file_table s sf" "set (keys sf) = set (keys acc) \<union> set (keys (t_files r))"
    using inner [OF subset_refl Cons.prems(2)] by blast
  have live': "\<forall>k t. (k, t) \<in> set sel \<longrightarrow> (\<exists>r. theap s t = Some r \<and> t_value r = k)"
    using Cons.prems(1) by simp
  obtain sf' where sf': "ht_for_each sel
       (\<lambda>n tag selected_files. do {
          t \<leftarrow> theap s tag;
          ht_for_each (t_files t)
            (\<lambda>n file selected_files. do {
               f \<leftarrow> fheap s file;
               Some (snd (ht_add_unique_entry selected_files (f_name f) file))
             }) selected_files
        }) sf = Some sf'" "file_table s sf'" "set (keys sf') = set (keys sf) \<union> sel_files s sel"
    using Cons.IH [OF live' sf(2)] by blast
  have "set (keys sf') = set (keys acc) \<union> sel_files s (e # sel)" unfolding sf'(3) sf(3) names by blast
  with sf' sf(1) r(1) show ?case by (intro exI [of _ sf']) (simp add: e)
qed

lemma collect_not_matching:
  assumes inv: "op_inv h s" and live: "\<forall>k t. (k, t) \<in> set sel \<longrightarrow> (\<exists>r. theap s t = Some r \<and> t_value r = k)"
    and tab: "file_table s sf"
  shows "\<exists>nm. ht_for_each sf
       (\<lambda>n file not_matching.
          ht_for_each sel
            (\<lambda>n tag not_matching. do {
               f \<leftarrow> fheap s file;
               t \<leftarrow> theap s tag;
               Some (if \<not> ht_has_entry (f_tags f) (t_value t)
                     then snd (ht_add_entry not_matching (f_name f) file) else not_matching)
             }) not_matching) acc = Some nm \<and>
    set (keys nm) = set (keys acc) \<union> {n \<in> set (keys sf). \<exists>k\<in>set (keys sel). \<not> tagged s n k}"
  using tab
proof (induction sf arbitrary: acc)
  case Nil
  then show ?case by simp
next
  case (Cons e sf)
  obtain n f where e: "e = (n, f)" by fastforce
  from Cons.prems e obtain x where x: "fheap s f = Some x" "f_name x = n"
    unfolding file_table_def by (metis list.set_intros(1))
  have tg: "tagged s n k \<longleftrightarrow> k \<in> set (keys (f_tags x))" for k
    using tagged_file [OF op_inv_parts(2) [OF inv] x(1)] x(2) by simp
  have inner: "\<exists>nm. ht_for_each sel'
            (\<lambda>n tag not_matching. do {
               f' \<leftarrow> fheap s f;
               t \<leftarrow> theap s tag;
               Some (if \<not> ht_has_entry (f_tags f') (t_value t)
                     then snd (ht_add_entry not_matching (f_name f') f) else not_matching)
             }) acc = Some nm \<and>
      set (keys nm) = set (keys acc) \<union> (if \<exists>k\<in>set (keys sel'). \<not> tagged s n k then {n} else {})"
    if "set sel' \<subseteq> set sel" for sel' acc
    using that
  proof (induction sel' arbitrary: acc)
    case Nil
    then show ?case by simp
  next
    case (Cons g sel')
    obtain k t where g: "g = (k, t)" by fastforce
    from Cons.prems g live obtain r where r: "theap s t = Some r" "t_value r = k" by auto
    let ?acc = "if \<not> tagged s n k then acc @ [(n, f)] else acc"
    from Cons.IH [of ?acc] Cons.prems obtain nm where "ht_for_each sel'
            (\<lambda>n tag not_matching. do {
               f' \<leftarrow> fheap s f;
               t \<leftarrow> theap s tag;
               Some (if \<not> ht_has_entry (f_tags f') (t_value t)
                     then snd (ht_add_entry not_matching (f_name f') f) else not_matching)
             }) ?acc = Some nm"
      "set (keys nm) = set (keys ?acc) \<union> (if \<exists>k\<in>set (keys sel'). \<not> tagged s n k then {n} else {})"
      by auto
    with g r x tg show ?case by (auto simp: ht_has_entry_iff split: if_splits)
  qed
  from inner [OF subset_refl, of acc] obtain nm1 where nm1: "ht_for_each sel
            (\<lambda>n tag not_matching. do {
               f' \<leftarrow> fheap s f;
               t \<leftarrow> theap s tag;
               Some (if \<not> ht_has_entry (f_tags f') (t_value t)
                     then snd (ht_add_entry not_matching (f_name f') f) else not_matching)
             }) acc = Some nm1"
      "set (keys nm1) = set (keys acc) \<union> (if \<exists>k\<in>set (keys sel). \<not> tagged s n k then {n} else {})" by blast
  have "file_table s sf" using Cons.prems by (simp add: file_table_def)
  from Cons.IH [OF this, of nm1] nm1 show ?case by (auto simp: e)
qed

lemma remove_all:
  "distinct (keys sf) \<Longrightarrow>
   ht_for_each nm (\<lambda>n f sf. Some (snd (ht_remove_entry sf n))) sf =
   Some (filter (\<lambda>e. fst e \<notin> set (keys nm)) sf)"
proof (induction nm arbitrary: sf)
  case Nil
  then show ?case by simp
next
  case (Cons e nm)
  obtain n f where "e = (n, f)" by fastforce
  with Cons show ?case
    by (auto simp: ht_remove_distinct distinct_keys_filter intro!: filter_cong)
qed

lemma selected_files:
  assumes inv: "op_inv h s" and live: "\<forall>k t. (k, t) \<in> set sel \<longrightarrow> (\<exists>r. theap s t = Some r \<and> t_value r = k)"
  shows "\<exists>sf. readdir_get_selected_files sel s = Some sf \<and> file_table s sf \<and>
    set (keys sf) = {n \<in> sel_files s sel. \<forall>k\<in>set (keys sel). tagged s n k}"
proof -
  have "file_table s []" by (simp add: file_table_def)
  from collect_files [OF inv live this] obtain sf0 where sf0: "ht_for_each sel
       (\<lambda>n tag selected_files. do {
          t \<leftarrow> theap s tag;
          ht_for_each (t_files t)
            (\<lambda>n file selected_files. do {
               f \<leftarrow> fheap s file;
               Some (snd (ht_add_unique_entry selected_files (f_name f) file))
             }) selected_files
        }) [] = Some sf0" "file_table s sf0" "set (keys sf0) = sel_files s sel"
    by auto
  from collect_not_matching [OF inv live sf0(2), of "[]"] obtain nm where nm: "ht_for_each sf0
       (\<lambda>n file not_matching.
          ht_for_each sel
            (\<lambda>n tag not_matching. do {
               f \<leftarrow> fheap s file;
               t \<leftarrow> theap s tag;
               Some (if \<not> ht_has_entry (f_tags f) (t_value t)
                     then snd (ht_add_entry not_matching (f_name f) file) else not_matching)
             }) not_matching) [] = Some nm"
    "set (keys nm) = {n \<in> set (keys sf0). \<exists>k\<in>set (keys sel). \<not> tagged s n k}" by auto
  let ?sf = "filter (\<lambda>e. fst e \<notin> set (keys nm)) sf0"
  have "readdir_get_selected_files sel s = Some ?sf"
    using sf0(1) nm(1) remove_all [of sf0 nm] sf0(2)
    by (simp add: readdir_get_selected_files_def ht_create_def file_table_def)
  moreover have "file_table s ?sf" using sf0(2) by (auto simp: file_table_def distinct_keys_filter)
  moreover have "set (keys ?sf) = {n \<in> sel_files s sel. \<forall>k\<in>set (keys sel). tagged s n k}"
  proof -
    have "set (keys ?sf) = {n \<in> set (keys sf0). n \<notin> set (keys nm)}" by force
    then show ?thesis using nm(2) sf0(3) by auto
  qed
  ultimately show ?thesis by blast
qed

text \<open>The further tags of the files with all selected tags.\<close>

definition further_tags :: "'w fs \<Rightarrow> tptr ht \<Rightarrow> cstring set" where
  "further_tags s sel = {k. k \<notin> set (keys sel) \<and>
     (\<exists>n\<in>sel_files s sel. tagged s n k \<and> (\<forall>j\<in>set (keys sel). tagged s n j))}"

lemma further_tags_own:
  assumes "op_inv h s" and "sel_used sel s" and "\<forall>k t. (k, t) \<in> set sel \<longrightarrow> sole_owner s k t" and ne: "sel \<noteq> []"
  shows "further_tags s sel = {k. k \<notin> set (keys sel) \<and> (\<exists>n. tagged s n k \<and> (\<forall>j\<in>set (keys sel). tagged s n j))}"
proof -
  obtain k0 where "k0 \<in> set (keys sel)" using ne by (cases sel) auto
  then show ?thesis unfolding further_tags_def sel_files_own [OF assms(1-3)] by blast
qed

text \<open>The accumulator of \<^verbatim>\<open>readdir_fill_remaining_tags\<close>: the names given to \<^verbatim>\<open>filler\<close>.\<close>

definition fill_ok :: "cstring list \<Rightarrow> cstring set \<Rightarrow> cstring list \<times> tptr ht \<Rightarrow> bool" where
  "fill_ok buf K acc \<longleftrightarrow> (\<exists>names. fst acc = buf @ names \<and> set (keys (snd acc)) = set names \<and>
     distinct names \<and> set names = K)"

lemma fill_tags:
  assumes "fill_ok buf K acc" and "\<forall>k t. (k, t) \<in> set ts \<longrightarrow> (\<exists>r. theap s t = Some r \<and> t_value r = k)"
  shows "\<exists>acc'. ht_for_each ts
            (\<lambda>n tag (buf, remaining_tags). do {
               t \<leftarrow> theap s tag;
               Some (if \<not> ht_has_entry sel (t_value t) \<and>
                        \<not> ht_has_entry remaining_tags (t_value t)
                     then (buf @ [t_value t], snd (ht_add_unique_entry remaining_tags (t_value t) tag))
                     else (buf, remaining_tags))
             }) acc = Some acc' \<and> fill_ok buf (K \<union> (set (keys ts) - set (keys sel))) acc'"
    (is "\<exists>acc'. ht_for_each ts ?F acc = Some acc' \<and> _")
  using assms
proof (induction ts arbitrary: K acc)
  case Nil
  then show ?case by simp
next
  case (Cons e ts)
  obtain k t where e: "e = (k, t)" by fastforce
  obtain r where r: "theap s t = Some r" "t_value r = k" using Cons.prems(2) e by (metis list.set_intros(1))
  obtain b rem where acc: "acc = (b, rem)" by fastforce
  let ?new = "k \<notin> set (keys sel) \<and> k \<notin> set (keys rem)"
  let ?acc = "if ?new then (b @ [k], snd (ht_add_unique_entry rem k t)) else (b, rem)"
  have "fill_ok buf (K \<union> ({k} - set (keys sel))) ?acc"
  proof -
    obtain names where n: "b = buf @ names" "set (keys rem) = set names" "distinct names" "set names = K"
      using Cons.prems(1) acc by (auto simp: fill_ok_def)
    show ?thesis
    proof (cases ?new)
      case True
      with n have "fill_ok buf (K \<union> ({k} - set (keys sel))) (b @ [k], rem @ [(k, t)])"
        unfolding fill_ok_def by (intro exI [of _ "names @ [k]"]) auto
      with True show ?thesis by (simp add: ht_add_unique_eq)
    next
      case False
      with n have "K \<union> ({k} - set (keys sel)) = K" by auto
      with n False show ?thesis unfolding fill_ok_def by auto
    qed
  qed
  moreover have "\<forall>k t. (k, t) \<in> set ts \<longrightarrow> (\<exists>r. theap s t = Some r \<and> t_value r = k)"
    using Cons.prems(2) by simp
  ultimately obtain acc' where acc': "ht_for_each ts
            (\<lambda>n tag (buf, remaining_tags). do {
               t \<leftarrow> theap s tag;
               Some (if \<not> ht_has_entry sel (t_value t) \<and>
                        \<not> ht_has_entry remaining_tags (t_value t)
                     then (buf @ [t_value t], snd (ht_add_unique_entry remaining_tags (t_value t) tag))
                     else (buf, remaining_tags))
             }) ?acc = Some acc'" "fill_ok buf (K \<union> ({k} - set (keys sel)) \<union> (set (keys ts) - set (keys sel))) acc'"
    using Cons.IH by blast
  have "K \<union> ({k} - set (keys sel)) \<union> (set (keys ts) - set (keys sel)) =
      K \<union> (set (keys (e # ts)) - set (keys sel))" by (auto simp: e)
  moreover have "ht_for_each (e # ts) ?F acc = ht_for_each ts ?F ?acc"
    using r by (simp add: e acc ht_has_entry_iff)
  ultimately show ?case using acc' by (intro exI [of _ acc']) (simp only: simp_thms)
qed

lemma fill_remaining:
  assumes inv: "op_inv h s" and tab: "file_table s sf"
  shows "\<exists>names. readdir_fill_remaining_tags sel sf buf s = Some (buf @ names) \<and> distinct names \<and>
    set names = {k. k \<notin> set (keys sel) \<and> (\<exists>n\<in>set (keys sf). tagged s n k)}"
proof -
  note ok = op_inv_parts [OF inv]
  have loop: "\<exists>acc'. ht_for_each sf
       (\<lambda>n file acc. do {
          f \<leftarrow> fheap s file;
          ht_for_each (f_tags f)
            (\<lambda>n tag (buf, remaining_tags). do {
               t \<leftarrow> theap s tag;
               Some (if \<not> ht_has_entry sel (t_value t) \<and>
                        \<not> ht_has_entry remaining_tags (t_value t)
                     then (buf @ [t_value t], snd (ht_add_unique_entry remaining_tags (t_value t) tag))
                     else (buf, remaining_tags))
             }) acc
        }) acc = Some acc' \<and>
      fill_ok buf (K \<union> {k. k \<notin> set (keys sel) \<and> (\<exists>n\<in>set (keys sf). tagged s n k)}) acc'"
    if "fill_ok buf K acc" "file_table s sf" for K acc sf
    using that
  proof (induction sf arbitrary: K acc)
    case Nil
    then show ?case by simp
  next
    case (Cons e sf)
    obtain n f where e: "e = (n, f)" by fastforce
    from Cons.prems e obtain x where x: "fheap s f = Some x" "f_name x = n"
      unfolding file_table_def by (metis list.set_intros(1))
    have tg: "set (keys (f_tags x)) = {k. tagged s n k}"
      using tagged_file [OF ok(2) x(1)] x(2) by blast
    have "\<forall>k t. (k, t) \<in> set (f_tags x) \<longrightarrow> (\<exists>r. theap s t = Some r \<and> t_value r = k)"
      using ok(3) x(1) unfolding ftags_ok_def by blast
    from fill_tags [OF Cons.prems(1) this, of sel] obtain acc1 where acc1: "ht_for_each (f_tags x)
            (\<lambda>n tag (buf, remaining_tags). do {
               t \<leftarrow> theap s tag;
               Some (if \<not> ht_has_entry sel (t_value t) \<and>
                        \<not> ht_has_entry remaining_tags (t_value t)
                     then (buf @ [t_value t], snd (ht_add_unique_entry remaining_tags (t_value t) tag))
                     else (buf, remaining_tags))
             }) acc = Some acc1" "fill_ok buf (K \<union> (set (keys (f_tags x)) - set (keys sel))) acc1" by blast
    have "file_table s sf" using Cons.prems(2) by (simp add: file_table_def)
    from Cons.IH [OF acc1(2) this] obtain acc2 where acc2: "ht_for_each sf
       (\<lambda>n file acc. do {
          f \<leftarrow> fheap s file;
          ht_for_each (f_tags f)
            (\<lambda>n tag (buf, remaining_tags). do {
               t \<leftarrow> theap s tag;
               Some (if \<not> ht_has_entry sel (t_value t) \<and>
                        \<not> ht_has_entry remaining_tags (t_value t)
                     then (buf @ [t_value t], snd (ht_add_unique_entry remaining_tags (t_value t) tag))
                     else (buf, remaining_tags))
             }) acc
        }) acc1 = Some acc2"
      "fill_ok buf (K \<union> (set (keys (f_tags x)) - set (keys sel)) \<union>
        {k. k \<notin> set (keys sel) \<and> (\<exists>n\<in>set (keys sf). tagged s n k)}) acc2" by blast
    have "K \<union> (set (keys (f_tags x)) - set (keys sel)) \<union>
        {k. k \<notin> set (keys sel) \<and> (\<exists>n\<in>set (keys sf). tagged s n k)} =
        K \<union> {k. k \<notin> set (keys sel) \<and> (\<exists>n\<in>set (keys (e # sf)). tagged s n k)}"
      unfolding tg by (auto simp: e)
    with acc1(1) acc2 x show ?case by (simp add: e)
  qed
  have "fill_ok buf {} (buf, [])" by (simp add: fill_ok_def)
  from loop [OF this tab] show ?thesis
    by (auto simp: readdir_fill_remaining_tags_def ht_create_def fill_ok_def)
qed

lemma readdir_mode2:
  assumes inv: "op_inv h s" and live: "\<forall>k t. (k, t) \<in> set sel \<longrightarrow> (\<exists>r. theap s t = Some r \<and> t_value r = k)"
  shows "\<exists>names. readdir_list_tags_mode2 sel buf s = Some (buf @ names) \<and> distinct names \<and>
    set names = further_tags s sel"
proof -
  obtain sf where sf: "readdir_get_selected_files sel s = Some sf" "file_table s sf"
    "set (keys sf) = {n \<in> sel_files s sel. \<forall>k\<in>set (keys sel). tagged s n k}"
    using selected_files [OF inv live] by blast
  from fill_remaining [OF inv sf(2), of sel buf] obtain names where
    "readdir_fill_remaining_tags sel sf buf s = Some (buf @ names)" "distinct names"
    "set names = {k. k \<notin> set (keys sel) \<and> (\<exists>n\<in>set (keys sf). tagged s n k)}" by blast
  with sf(1,3) show ?thesis by (auto simp: readdir_list_tags_mode2_def further_tags_def)
qed

subsection \<open>Files\<close>

text \<open>A name of the real directory is listed if \<^verbatim>\<open>getattr\<close> of the path with that name succeeds.\<close>

definition listed :: "'w os \<Rightarrow> path \<Rightarrow> 'w fs \<Rightarrow> cstring \<Rightarrow> bool" where
  "listed os dirpath s d =
     (fst (getattr_spec os (path_set s (p_virtpath dirpath) d (p_selected_tags dirpath)) stat0 s) \<ge> 0)"

lemma getattr_spec_grow: "files_grow s s' \<Longrightarrow> getattr_spec os p b s' = getattr_spec os p b s"
  by (simp add: getattr_spec_def files_growD split_beta)

lemma listed_grow: "files_grow s s' \<Longrightarrow> listed os p s' = listed os p s"
  by (simp add: listed_def fun_eq_iff getattr_spec_grow path_set_def files_growD(4))

lemma readdir_entries_inv:
  assumes "op_inv h s" and "sel_live (p_selected_tags p) s"
  shows "\<exists>s'. readdir_entries os p ds buf s =
      Some (buf @ [d. (d, dir) \<leftarrow> ds, \<not> dir \<and> listed os p s d], s') \<and> op_inv h s' \<and> files_grow s s'"
  using assms
proof (induction ds arbitrary: buf s)
  case Nil
  then show ?case by simp
next
  case (Cons e ds)
  obtain d dir where e: "e = (d, dir)" by fastforce
  show ?case
  proof (cases dir)
    case True
    with Cons.IH [OF Cons.prems] show ?thesis by (simp add: e)
  next
    case False
    let ?p = "path_set s (p_virtpath p) d (p_selected_tags p)"
    have "p_selected_tags ?p = p_selected_tags p" by (simp add: path_set_def)
    then obtain s1 where s1: "getattr_intra os ?p stat0 s = Some (getattr_spec os ?p stat0 s, s1)"
      "op_inv h s1" "files_grow s s1"
      using getattr_intra_inv [OF Cons.prems(1), of ?p os stat0] Cons.prems(2) by auto
    have "sel_live (p_selected_tags p) s1"
      by (rule sel_live_cong [OF Cons.prems(2)]) (simp add: files_growD(2) [OF s1(3)])
    from Cons.IH [OF s1(2) this, of "if listed os p s d then buf @ [d] else buf"] obtain s2 where
      s2: "readdir_entries os p ds (if listed os p s d then buf @ [d] else buf) s1 =
        Some ((if listed os p s d then buf @ [d] else buf) @ [d. (d, dir) \<leftarrow> ds, \<not> dir \<and> listed os p s1 d], s2)"
      "op_inv h s2" "files_grow s1 s2" by blast
    have "readdir_entries os p (e # ds) buf s = readdir_entries os p ds (if listed os p s d then buf @ [d] else buf) s1"
      using s1(1) False by (auto simp: e listed_def split_beta)
    with s2 listed_grow [OF s1(3)] False files_grow_trans [OF s1(3) s2(3)] show ?thesis by (auto simp: e)
  qed
qed

lemma tag_readdir_inv:
  assumes inv: "fs_inv s" and d: "dheap s d = Some fd" and b: "length (tags s) + 2 < 2 ^ 32"
  shows "\<exists>names s'. tag_readdir os d s = Some ((0, [''.'', ''..''] @ names @
      [d. (d, dir) \<leftarrow> os_readdir os (world s), \<not> dir \<and> listed os (fd_path fd) s d]), s') \<and>
    fs_inv s' \<and> files_grow s s' \<and>
    (p_selected_tags (fd_path fd) = [] \<longrightarrow> names = rev (keys (live_tags s))) \<and>
    (p_selected_tags (fd_path fd) \<noteq> [] \<longrightarrow> distinct names \<and>
      set names = further_tags s (p_selected_tags (fd_path fd)))"
proof -
  have i: "op_inv [] s" using inv by (simp add: fs_inv_def)
  note ok = op_inv_parts [OF i]
  let ?sel = "p_selected_tags (fd_path fd)"
  have used: "sel_used ?sel s" by (rule fds_used [OF ok(8) d])
  have live: "sel_live ?sel s"
    unfolding sel_live_def
  proof (intro allI impI conjI)
    fix k t assume "(k, t) \<in> set ?sel"
    then show "\<exists>r. theap s t = Some r \<and> t_value r = k" using used unfolding sel_used_def by blast
    then show "t \<noteq> INVALID_TAG" using ok(5) by (auto simp: fresh_ok_def)
  qed
  have live': "\<forall>k t. (k, t) \<in> set ?sel \<longrightarrow> (\<exists>r. theap s t = Some r \<and> t_value r = k)"
    using used unfolding sel_used_def by blast
  have "\<exists>names. (if ht_entry_count ?sel > 0 then readdir_list_tags_mode2 ?sel [''.'', ''..''] s
      else readdir_list_tags_mode1 ?sel [''.'', ''..''] s) = Some ([''.'', ''..''] @ names) \<and>
    (?sel = [] \<longrightarrow> names = rev (keys (live_tags s))) \<and>
    (?sel \<noteq> [] \<longrightarrow> distinct names \<and> set names = further_tags s ?sel)"
  proof (cases "?sel = []")
    case True
    with readdir_mode1 [OF i b, of ?sel "[''.'', ''..'']"] show ?thesis by (simp add: ht_entry_count_pos)
  next
    case False
    with readdir_mode2 [OF i live', of "[''.'', ''..'']"] show ?thesis
      by (auto simp: ht_entry_count_pos simp del: append.simps)
  qed
  then obtain names where names: "(if ht_entry_count ?sel > 0 then readdir_list_tags_mode2 ?sel [''.'', ''..''] s
      else readdir_list_tags_mode1 ?sel [''.'', ''..''] s) = Some ([''.'', ''..''] @ names)"
    "?sel = [] \<longrightarrow> names = rev (keys (live_tags s))"
    "?sel \<noteq> [] \<longrightarrow> distinct names \<and> set names = further_tags s ?sel" by blast
  obtain s' where s': "readdir_entries os (fd_path fd) (os_readdir os (world s)) ([''.'', ''..''] @ names) s =
      Some (([''.'', ''..''] @ names) @ [d. (d, dir) \<leftarrow> os_readdir os (world s), \<not> dir \<and> listed os (fd_path fd) s d], s')"
    "op_inv [] s'" "files_grow s s'"
    using readdir_entries_inv [OF i live] by blast
  have "tag_readdir os d s = Some ((0, ([''.'', ''..''] @ names) @
      [d. (d, dir) \<leftarrow> os_readdir os (world s), \<not> dir \<and> listed os (fd_path fd) s d]), s')"
    unfolding tag_readdir_def Let_def d Option.bind.simps names(1) readdir_list_files_def s'(1) prod.case ..
  with names(2,3) s'(2,3) show ?thesis by (intro exI [of _ names] exI [of _ s']) (simp add: fs_inv_def)
qed

end
