(* ===== verification/Fuse_Text.thy ===== *)
theory Fuse_Text
  imports Fuse_Readdir
begin

text \<open>
  The texts the file system makes of its state: the tags of a file in one string
  (\<^verbatim>\<open>file_get_tags_string\<close>) and the tag database (\<^verbatim>\<open>tag_db_dump\<close>), and how \<^verbatim>\<open>parse_tags_db\<close> reads
  the database back.
\<close>

subsection \<open>The tags of a file\<close>

fun join :: "cstring list \<Rightarrow> cstring" where
  "join [] = []"
| "join [k] = k"
| "join (k # ks) = k @ '' '' @ join ks"

lemma join_snoc: "join (ks @ [k]) = (if ks = [] then k else join ks @ '' '' @ k)"
  by (induction ks rule: join.induct) auto

lemma tags_string_loop:
  assumes "\<forall>k t. (k, t) \<in> set h \<longrightarrow> (\<exists>r. theap s t = Some r \<and> t_value r = k)"
  shows "ht_for_each h
       (\<lambda>n tag (str, size, c). do {
          t \<leftarrow> theap s tag;
          let str = str @ (if c = 0 then [] else '' '') @ t_value t;
          Some (str, int (length str), c + 1)
        }) (join ks, int (length (join ks)), length ks) =
     Some (join (ks @ keys h), int (length (join (ks @ keys h))), length (ks @ keys h))"
  using assms
proof (induction h arbitrary: ks)
  case Nil
  then show ?case by simp
next
  case (Cons e h)
  obtain k t where e: "e = (k, t)" by fastforce
  obtain r where "theap s t = Some r" "t_value r = k" using Cons.prems e by (metis list.set_intros(1))
  with Cons.IH [of "ks @ [k]"] Cons.prems show ?case
    by (cases "ks = []") (simp_all add: e join_snoc ac_simps)
qed

lemma file_get_tags_string_eq:
  assumes "ftags_ok s" and "fheap s f = Some x"
  shows "file_get_tags_string f s = Some (join (keys (f_tags x)), int (length (join (keys (f_tags x)))))"
proof -
  have "\<forall>k t. (k, t) \<in> set (f_tags x) \<longrightarrow> (\<exists>r. theap s t = Some r \<and> t_value r = k)"
    using assms unfolding ftags_ok_def by blast
  from tags_string_loop [OF this, of "[]"] assms(2) show ?thesis
    by (simp add: file_get_tags_string_def)
qed

subsection \<open>The database\<close>

definition tag_line :: "cstring \<Rightarrow> cstring" where
  "tag_line k = k @ [newline]"

definition section_text :: "cstring \<times> cstring list \<Rightarrow> cstring" where
  "section_text e =
     (case e of (n, ks) \<Rightarrow>
        if ks = [] then []
        else tag_line (''['' @ n @ '']'') @ concat (map tag_line ks) @ tag_line [])"

text \<open>The files in the order \<^verbatim>\<open>file_list\<close> gives them, the youngest first, with their tags.\<close>

definition sections :: "'w fs \<Rightarrow> (cstring \<times> cstring list) list" where
  "sections s = map (\<lambda>(n, f). (n, case fheap s f of None \<Rightarrow> [] | Some x \<Rightarrow> keys (f_tags x))) (rev (files s))"

lemma dump_tags_eq:
  assumes "\<forall>k t. (k, t) \<in> set h \<longrightarrow> (\<exists>r. theap s t = Some r \<and> t_value r = k)"
  shows "dump_tags s h out = Some (out @ concat (map tag_line (keys h)))"
  unfolding dump_tags_def using assms
proof (induction h arbitrary: out)
  case Nil
  then show ?case by simp
next
  case (Cons e h)
  obtain k t where e: "e = (k, t)" by fastforce
  obtain r where "theap s t = Some r" "t_value r = k" using Cons.prems e by (metis list.set_intros(1))
  with Cons.IH [of "out @ tag_line k"] Cons.prems show ?case by (simp add: e tag_line_def)
qed

lemma dump_loop:
  assumes inv: "op_inv h s" and sub: "set fs \<subseteq> set (files s)"
  shows "ht_for_each (elem_calls (map (Some \<circ> snd) fs)) (\<lambda>_. dump_file s) out =
    Some (out @ concat (map section_text (map (\<lambda>(n, f). (n, case fheap s f of None \<Rightarrow> [] | Some x \<Rightarrow> keys (f_tags x))) fs)))"
  using sub
proof (induction fs arbitrary: out)
  case Nil
  then show ?case by simp
next
  case (Cons e fs)
  note ok = op_inv_parts [OF inv]
  obtain n f where e: "e = (n, f)" by fastforce
  with Cons.prems have "(n, f) \<in> set (files s)" by simp
  then obtain x where x: "fheap s f = Some x" "f_name x = n" using ok(2) unfolding files_ok_def by blast
  have "\<forall>k t. (k, t) \<in> set (f_tags x) \<longrightarrow> (\<exists>r. theap s t = Some r \<and> t_value r = k)"
    using ok(3) x(1) unfolding ftags_ok_def by blast
  then have d: "dump_tags s (f_tags x) o' = Some (o' @ concat (map tag_line (keys (f_tags x))))" for o'
    by (rule dump_tags_eq)
  have "dump_file s (Some f) out = Some (out @ section_text (n, keys (f_tags x)))"
    by (simp add: dump_file_def x d ht_entry_count_zero section_text_def tag_line_def)
  with Cons.IH Cons.prems x show ?case by (simp add: e)
qed

lemma tag_db_dump_eq:
  assumes inv: "op_inv h s" and b: "length (files s) + 2 < 2 ^ 32"
  shows "tag_db_dump s = Some (concat (map section_text (sections s)))"
proof -
  obtain l where l: "ht_to_list (files s) = Some l" "clist_repr l (rev (map (Some \<circ> snd) (files s)))"
    using ht_to_list_repr [OF b] by blast
  have "set (rev (files s)) \<subseteq> set (files s)" by simp
  from dump_loop [OF inv this, of "[]"] have
    "ht_for_each (elem_calls (rev (map (Some \<circ> snd) (files s)))) (\<lambda>_. dump_file s) [] =
      Some (concat (map section_text (sections s)))"
    by (simp add: rev_map sections_def)
  from list_each_r_repr [OF l(2) this] l(1) show ?thesis
    by (auto simp: tag_db_dump_def file_list_def list_each_r_def)
qed

text \<open>The sections are the relation of files and tags.\<close>

lemma sections_tagged:
  assumes "files_ok s"
  shows "tagged s n k \<longleftrightarrow> (\<exists>ks. (n, ks) \<in> set (sections s) \<and> k \<in> set ks)"
proof
  assume "tagged s n k"
  then obtain f x where x: "fheap s f = Some x" "f_name x = n" "k \<in> set (keys (f_tags x))"
    unfolding tagged_def by blast
  then have "(n, f) \<in> set (files s)" using assms unfolding files_ok_def by blast
  with x show "\<exists>ks. (n, ks) \<in> set (sections s) \<and> k \<in> set ks"
    by (intro exI [of _ "keys (f_tags x)"]) (force simp: sections_def)
next
  assume "\<exists>ks. (n, ks) \<in> set (sections s) \<and> k \<in> set ks"
  then obtain f where f: "(n, f) \<in> set (files s)"
      "k \<in> set (case fheap s f of None \<Rightarrow> [] | Some x \<Rightarrow> keys (f_tags x))"
    by (auto simp: sections_def)
  with assms obtain x where "fheap s f = Some x" "f_name x = n" unfolding files_ok_def by blast
  with f(2) show "tagged s n k" unfolding tagged_def by auto
qed

lemma distinct_sections: "files_ok s \<Longrightarrow> distinct (map fst (sections s))"
proof -
  assume "files_ok s"
  then have "distinct (keys (rev (files s)))" by (simp add: files_ok_def rev_map [symmetric])
  moreover have "map fst (sections s) = keys (rev (files s))"
    by (simp add: sections_def comp_def split_beta)
  ultimately show ?thesis by simp
qed

lemma concat_nonempty_sections:
  "concat (map section_text D) = concat (map section_text (filter (\<lambda>e. snd e \<noteq> []) D))"
  by (induction D) (auto simp: section_text_def)

subsection \<open>Reading the database\<close>

text \<open>What a database can hold: a line must fit the buffer and keep its meaning.\<close>

definition plain_line :: "cstring \<Rightarrow> bool" where
  "plain_line l \<longleftrightarrow> newline \<notin> set l \<and> length l < 999"

definition tag_text :: "cstring \<Rightarrow> bool" where
  "tag_text k \<longleftrightarrow> plain_line k \<and> k \<noteq> [] \<and> \<not> isspace (hd k) \<and> hd k \<noteq> CHR ''['' \<and> hd k \<noteq> CHR ''#''"

definition file_text :: "cstring \<Rightarrow> bool" where
  "file_text n \<longleftrightarrow> plain_line (''['' @ n @ '']'') \<and> CHR '']'' \<notin> set n"

lemma fgets_line: "newline \<notin> set l \<Longrightarrow> length l < n \<Longrightarrow> fgets (Suc n) (l @ newline # rest) = (l @ [newline], rest)"
proof (induction l arbitrary: n)
  case Nil
  then show ?case by (cases n) auto
next
  case (Cons c l)
  then obtain m where "n = Suc m" by (cases n) auto
  with Cons show ?case by auto
qed

lemma parse_lines_step:
  assumes "plain_line l"
  shows "parse_lines ga (tag_line l @ rest) f s =
    do { (f, s) \<leftarrow> parse_line ga (tag_line l) f s; parse_lines ga rest f s }"
proof -
  have "fgets MAX_LENGTH (tag_line l @ rest) = (tag_line l, rest)"
    using fgets_line [of l 999 rest] assms by (simp add: tag_line_def plain_line_def MAX_LENGTH_def)
  then show ?thesis by (subst parse_lines.simps) (simp add: tag_line_def)
qed

lemma parse_lines_end: "parse_lines ga [] f s = Some (f, s)"
  by (subst parse_lines.simps) simp

lemma takeWhile_line: "newline \<notin> set l \<Longrightarrow> copy_word_until (l @ [newline]) newline = l"
  unfolding copy_word_until_def by (subst takeWhile_append2) auto

lemma parse_empty_line: "parse_line ga (tag_line []) f s = Some (f, s)"
  by (simp add: parse_line_def tag_line_def isspace_def parse_tag_def copy_word_until_def)

lemma parse_tag_line:
  assumes "tag_text k"
  shows "parse_line ga (tag_line k) f s = do {
    (t, s) \<leftarrow> tag_get_or_create k s;
    s \<leftarrow> (case f of None \<Rightarrow> Some s | Some f \<Rightarrow> tag_file t f s);
    Some (f, s) }"
proof -
  have k: "k \<noteq> []" "\<not> isspace (hd k)" "hd k \<noteq> CHR ''[''" "hd k \<noteq> CHR ''#''" "newline \<notin> set k"
    using assms by (auto simp: tag_text_def plain_line_def)
  then have "dropWhile isspace (k @ [newline]) = k @ [newline]" by (cases k) auto
  with k show ?thesis
    by (cases "tag_get_or_create k s")
      (auto simp: parse_line_def tag_line_def parse_tag_def takeWhile_line hd_append)
qed

lemma parse_file_line:
  assumes "file_text n"
  shows "parse_line ga (tag_line (''['' @ n @ '']'')) f s = do {
    (res, s) \<leftarrow> ga n s;
    if res \<ge> 0 then let (f, s) = file_get_or_create n s in Some (Some f, s) else Some (None, s) }"
proof -
  have "CHR '']'' \<notin> set n" using assms by (simp add: file_text_def)
  then have "takeWhile (\<lambda>c. c \<noteq> CHR '']'') (n @ CHR '']'' # [newline]) = n"
    by (subst takeWhile_append2) auto
  then show ?thesis
    by (simp add: parse_line_def tag_line_def isspace_def parse_file_def copy_word_until_def)
qed

lemma tag_get_or_create_inv:
  assumes inv: "op_inv [] s"
  shows "\<exists>t s' r. tag_get_or_create k s = Some (t, s') \<and> op_inv [] s' \<and> (k, t) \<in> set (tags s') \<and>
    theap s' t = Some r \<and> t_value r = k \<and> same_files s s'"
proof -
  note ok = op_inv_parts [OF inv]
  consider "k \<notin> set (keys (tags s))" "tag_get k s = INVALID_TAG"
    | t r where "(k, t) \<in> set (tags s)" "tag_get k s = t" "t \<noteq> INVALID_TAG" "theap s t = Some r" "t_value r = k"
    using tag_get_cases [OF inv, of k] by blast
  then show ?thesis
  proof cases
    case 1
    let ?s = "new_tag_state k True s"
    have "ht_find (tags s) k = None" using 1(1) by (simp add: ht_find_None_iff)
    then have "tag_get_or_create k s = Some (TagAt (tnext s), ?s)"
      by (simp add: tag_get_or_create_def tag_get_or_create'_def ht_get_entry_def tag_new_def tag_inc_ref_def
          tag_upd_def new_tag_state_def ht_create_def Let_def)
    moreover have "op_inv [] ?s" using op_inv_weaken [OF new_tag_inv [OF inv _ 1(1)]] by simp
    ultimately show ?thesis by (simp add: new_tag_state_def same_files_def)
  next
    case (2 t r)
    let ?s = "s\<lparr>theap := (theap s)(t \<mapsto> r\<lparr>ref_count := ref_count r + 1\<rparr>)\<rparr>"
    have "ht_find (tags s) k = Some t" using ok(1) 2(1) by (simp add: ht_find_distinct tags_ok_def)
    then have "tag_get_or_create k s = Some (t, ?s)"
      using 2 by (simp add: tag_get_or_create_def tag_get_or_create'_def ht_get_entry_def tag_inc_ref_def tag_upd_def)
    moreover have "op_inv [(k, t)] ?s"
    proof (rule tag_change_inv [OF inv 2(4)])
      show "in_use (r\<lparr>ref_count := ref_count r + 1\<rparr>) \<or> sole_owner s (t_value r) t"
        using tags_unique [OF ok(1) 2(1)] 2(5) by (simp add: sole_owner_def)
    qed (use 2(5) in \<open>auto simp: path_refs_Cons\<close>)
    then have "op_inv [] ?s" by (rule op_inv_weaken)
    moreover have "(k, t) \<in> set (tags ?s)" "theap ?s t = Some (r\<lparr>ref_count := ref_count r + 1\<rparr>)"
      "t_value (r\<lparr>ref_count := ref_count r + 1\<rparr>) = k" "same_files s ?s" using 2 by (simp_all add: same_files_def)
    ultimately show ?thesis by blast
  qed
qed

text \<open>
  The reader and its callback: \<^verbatim>\<open>parse_tags_db\<close> is handed a function that looks a file up. It
  needs of it that a lookup succeeds, keeps the invariant and does not tag anything, under a
  condition \<open>P\<close> on the surroundings.
\<close>

locale db_reader =
  fixes getattr :: "'w getattr_fn"
    and P :: "'w fs \<Rightarrow> bool"
    and good :: "cstring \<Rightarrow> bool"
  assumes getattr_ok: "op_inv [] s \<Longrightarrow> P s \<Longrightarrow> good n \<Longrightarrow>
      \<exists>r s'. getattr n s = Some (r, s') \<and> r \<ge> 0 \<and> op_inv [] s' \<and> P s' \<and> tagged s' = tagged s"
    and P_surroundings: "P s \<Longrightarrow> world s' = world s \<Longrightarrow> realdirpath s' = realdirpath s \<Longrightarrow> P s'"
begin

lemma parse_tag_lines:
  assumes "op_inv [] s" "P s" "fheap s f = Some x" "\<forall>k\<in>set ks. tag_text k"
  shows "\<exists>s'. parse_lines getattr (concat (map tag_line ks) @ rest) (Some f) s = parse_lines getattr rest (Some f) s' \<and>
    op_inv [] s' \<and> P s' \<and> (\<forall>m j. tagged s' m j \<longleftrightarrow> tagged s m j \<or> m = f_name x \<and> j \<in> set ks)"
  using assms
proof (induction ks arbitrary: s x)
  case Nil
  then show ?case by auto
next
  case (Cons k ks)
  have k: "tag_text k" "plain_line k" using Cons.prems(4) by (auto simp: tag_text_def)
  obtain t s1 r where s1: "tag_get_or_create k s = Some (t, s1)" "op_inv [] s1" "(k, t) \<in> set (tags s1)"
    "theap s1 t = Some r" "t_value r = k" "same_files s s1"
    using tag_get_or_create_inv [OF Cons.prems(1)] by metis
  have x1: "fheap s1 f = Some x" using s1(6) Cons.prems(3) by (simp add: same_files_def)
  have "set [(k, t)] \<subseteq> set (tags s1)" using s1(3) by simp
  from tag_files_loop [OF s1(2) this x1] obtain s2 x2 where s2: "tag_file t f s1 = Some s2" "op_inv [] s2"
    "kept s1 s2" "fheap s2 f = Some x2" "f_name x2 = f_name x"
    "\<forall>m j. tagged s2 m j \<longleftrightarrow> tagged s1 m j \<or> m = f_name x \<and> j \<in> set (keys [(k, t)])"
    by (cases "tag_file t f s1") auto
  have "P s2" using Cons.prems(2) s1(6) s2(3) P_surroundings by (metis kept_def same_files_def)
  from Cons.IH [OF s2(2) this s2(4)] Cons.prems(4) obtain s3 where s3:
    "parse_lines getattr (concat (map tag_line ks) @ rest) (Some f) s2 = parse_lines getattr rest (Some f) s3"
    "op_inv [] s3" "P s3" "\<forall>m j. tagged s3 m j \<longleftrightarrow> tagged s2 m j \<or> m = f_name x2 \<and> j \<in> set ks"
    by auto
  have "parse_lines getattr (concat (map tag_line (k # ks)) @ rest) (Some f) s =
      parse_lines getattr (concat (map tag_line ks) @ rest) (Some f) s2"
    using s1(1) s2(1) by (simp add: parse_lines_step [OF k(2)] parse_tag_line [OF k(1)])
  moreover have "tagged s1 = tagged s" by (rule same_files_tagged [OF s1(6)])
  ultimately show ?case using s3 s2(5,6) by (intro exI [of _ s3]) auto
qed

lemma parse_sections:
  assumes "op_inv [] s" "P s"
    and "\<forall>(n, ks)\<in>set D. good n \<and> file_text n \<and> (\<forall>k\<in>set ks. tag_text k)"
  shows "\<exists>f' s'. parse_lines getattr (concat (map section_text D)) f s = Some (f', s') \<and> op_inv [] s' \<and> P s' \<and>
    (\<forall>m j. tagged s' m j \<longleftrightarrow> tagged s m j \<or> (\<exists>ks. (m, ks) \<in> set D \<and> j \<in> set ks))"
  using assms
proof (induction D arbitrary: f s)
  case Nil
  then show ?case by (simp add: parse_lines_end)
next
  case (Cons e D)
  obtain n ks where e: "e = (n, ks)" by fastforce
  show ?case
  proof (cases "ks = []")
    case True
    from Cons.IH [OF Cons.prems(1,2), of f] Cons.prems(3) True show ?thesis
      by (auto simp: e section_text_def)
  next
    case False
    have n: "good n" "file_text n" "plain_line (''['' @ n @ '']'')" and ks: "\<forall>k\<in>set ks. tag_text k"
      using Cons.prems(3) by (auto simp: e file_text_def)
    obtain r s1 where s1: "getattr n s = Some (r, s1)" "r \<ge> 0" "op_inv [] s1" "P s1" "tagged s1 = tagged s"
      using getattr_ok [OF Cons.prems(1,2) n(1)] by blast
    obtain g s2 x where s2: "file_get_or_create n s1 = (g, s2)" "op_inv [] s2" "files_grow s1 s2"
      "fheap s2 g = Some x" "f_name x = n"
      using file_get_or_create_inv [OF s1(3)] by blast
    have P2: "P s2" using P_surroundings [OF s1(4)] s2(3) by (simp add: files_growD)
    let ?rest = "tag_line [] @ concat (map section_text D)"
    obtain s3 where s3: "parse_lines getattr (concat (map tag_line ks) @ ?rest) (Some g) s2 =
        parse_lines getattr ?rest (Some g) s3" "op_inv [] s3" "P s3"
      "\<forall>m j. tagged s3 m j \<longleftrightarrow> tagged s2 m j \<or> m = f_name x \<and> j \<in> set ks"
      using parse_tag_lines [OF s2(2) P2 s2(4) ks] by blast
    have D: "\<forall>(n, ks)\<in>set D. good n \<and> file_text n \<and> (\<forall>k\<in>set ks. tag_text k)" using Cons.prems(3) by simp
    obtain f' s4 where s4: "parse_lines getattr (concat (map section_text D)) (Some g) s3 = Some (f', s4)"
      "op_inv [] s4" "P s4" "\<forall>m j. tagged s4 m j \<longleftrightarrow> tagged s3 m j \<or> (\<exists>ks. (m, ks) \<in> set D \<and> j \<in> set ks)"
      using Cons.IH [OF s3(2,3) D] by blast
    have "plain_line []" by (simp add: plain_line_def)
    from parse_lines_step [OF this] have blank: "parse_lines getattr ?rest (Some g) s3 =
        parse_lines getattr (concat (map section_text D)) (Some g) s3"
      by (simp add: parse_empty_line)
    have "parse_lines getattr (concat (map section_text (e # D))) f s =
        parse_lines getattr (concat (map tag_line ks) @ ?rest) (Some g) s2"
      using s1(1,2) s2(1) False n(3)
      by (simp add: e section_text_def parse_lines_step parse_file_line [OF n(2), simplified])
    with s3(1) blank s4(1) have "parse_lines getattr (concat (map section_text (e # D))) f s = Some (f', s4)" by simp
    moreover have "tagged s2 = tagged s" using s1(5) files_growD(6) [OF s2(3)] by simp
    ultimately show ?thesis using s4 s3(4) s2(5) by (intro exI [of _ f'] exI [of _ s4]) (auto simp: e)
  qed
qed

lemma parse_dump:
  assumes "op_inv [] s" "P s" "\<forall>(n, ks)\<in>set D. good n \<and> file_text n \<and> (\<forall>k\<in>set ks. tag_text k)"
  shows "\<exists>s'. parse_tags_db (Some (concat (map section_text D))) getattr s = Some s' \<and> op_inv [] s' \<and>
    (\<forall>m j. tagged s' m j \<longleftrightarrow> tagged s m j \<or> (\<exists>ks. (m, ks) \<in> set D \<and> j \<in> set ks))"
  using parse_sections [OF assms, of None] by (auto simp: parse_tags_db_def parse_tags_db2_def)

end

text \<open>A plain name, as the database has it, is looked up like a file of the root directory.\<close>

lemma getattr_plain:
  assumes n: "component n" and inv: "op_inv [] s" and root: "os_stat os (realdirpath s) (world s) = Inr st"
  shows "\<exists>r s'. getattr_callback os n s = Some (r, s') \<and> r \<ge> 0 \<and> op_inv [] s' \<and> files_grow s s'"
proof -
  let ?p = "\<lparr>p_realpath = path_realpath s n, p_virtpath = n, p_virtdirpath = ''.'', p_filename = n, p_selected_tags = []\<rparr>"
  have pc: "path_create n False s = Some (?p, s)"
    by (simp add: path_create_def dirname_plain [OF n] basename_plain [OF n] compute_selected_tags_def ht_create_def)
  obtain s1 where s1: "getattr_intra os ?p stat0 s = Some (getattr_spec os ?p stat0 s, s1)" "op_inv [] s1" "files_grow s s1"
    using getattr_intra_inv [OF inv, of ?p os stat0] by (auto simp: sel_live_def)
  have pd: "path_delete ?p s1 = Some s1" by (simp add: path_delete_def free_selected_tags_def)
  have "fst (getattr_spec os ?p stat0 s) \<ge> 0"
    using root by (auto simp: getattr_spec_def c_stat_def split: sum.splits)
  moreover have "getattr_callback os n s = Some (fst (getattr_spec os ?p stat0 s), s1)"
    unfolding getattr_callback_def tag_getattr_def pc
    by (cases "getattr_spec os ?p stat0 s") (simp add: s1(1) pd)
  ultimately show ?thesis using s1(2,3) by blast
qed

interpretation startup: db_reader "getattr_callback os"
  "\<lambda>s. \<exists>st. os_stat os (realdirpath s) (world s) = Inr st" component for os
proof
  fix s n assume "op_inv [] s" "\<exists>st. os_stat os (realdirpath s) (world s) = Inr st" "component n"
  then obtain st where st: "os_stat os (realdirpath s) (world s) = Inr st" by blast
  from getattr_plain [OF \<open>component n\<close> \<open>op_inv [] s\<close> st] obtain r s' where
    s': "getattr_callback os n s = Some (r, s')" "r \<ge> 0" "op_inv [] s'" "files_grow s s'" by blast
  from s'(4) st have "os_stat os (realdirpath s') (world s') = Inr st" by (simp add: files_growD)
  with s' show "\<exists>r s'. getattr_callback os n s = Some (r, s') \<and> 0 \<le> r \<and> op_inv [] s' \<and>
      (\<exists>st. os_stat os (realdirpath s') (world s') = Inr st) \<and> tagged s' = tagged s"
    using files_growD(6) [OF s'(4)] by blast
qed simp

subsection \<open>Mounting with any database\<close>

text \<open>
  Whatever text the database has and whatever the lookups answer, the state after \<^verbatim>\<open>set_root_directory\<close>
  satisfies the invariant.
\<close>

lemma select_tags_some: "select_tags cs sel s = Some r \<Longrightarrow> \<exists>ks. cs = map Some ks"
proof (induction cs arbitrary: sel s)
  case (Cons c cs)
  from Cons.prems obtain k where k: "c = Some k" by (cases c) simp_all
  with Cons.prems obtain sel' s1 where "select_tags cs sel' s1 = Some r"
    by (auto simp: Let_def split_beta elim!: bind_SomeE)
  with Cons.IH obtain ks where "cs = map Some ks" by blast
  with k have "c # cs = map Some (k # ks)" by simp
  then show ?case by (rule exI)
qed simp

lemma path_create_any:
  assumes "op_inv h s" and "set h \<subseteq> set (tags s)" and "path_create p is_tag s = Some (q, s')"
  shows "selects (p_selected_tags q) h s s'"
proof -
  let ?d = "if is_tag then p else dirnamedup p"
  have c: "compute_selected_tags ?d s = Some (p_selected_tags q, s')"
    using assms(3) by (auto simp: path_create_def Let_def elim!: bind_SomeE)
  show ?thesis
  proof (cases "?d = ''.''")
    case True
    with c selects_Nil [of h s] assms(1,2) show ?thesis by (simp add: compute_selected_tags_def ht_create_def)
  next
    case False
    with c obtain n cs where "select_tags cs [] s = Some (p_selected_tags q, s')"
      by (auto simp: compute_selected_tags_def ht_create_def elim!: bind_SomeE)
    moreover from this obtain ks where "cs = map Some ks" using select_tags_some by blast
    ultimately show ?thesis using select_tags_inv [of "[]" h s ks] assms(1,2) by auto
  qed
qed

lemma getattr_callback_inv:
  assumes "op_inv [] s" and run: "getattr_callback os n s = Some (r, s')"
  shows "op_inv [] s'"
proof -
  obtain p s1 x s2 where s1: "path_create n False s = Some (p, s1)" "getattr_intra os p stat0 s1 = Some (x, s2)"
    "path_delete p s2 = Some s'"
    using run by (auto simp: getattr_callback_def tag_getattr_def elim!: bind_SomeE)
  have sl: "selects (p_selected_tags p) [] s s1" by (rule path_create_any [OF assms(1) _ s1(1)]) simp
  from getattr_intra_inv [OF selects_inv [OF sl] selects_live [OF sl], of os stat0] s1(2)
  have "op_inv (p_selected_tags p) s2" by auto
  with path_delete_inv [of p "[]" s2] s1(3) show ?thesis by auto
qed

lemma parse_line_inv:
  assumes inv: "op_inv [] s" and f: "\<forall>g. f = Some g \<longrightarrow> fheap s g \<noteq> None"
    and run: "parse_line (getattr_callback os) word f s = Some (f', s')"
  shows "op_inv [] s' \<and> (\<forall>g. f' = Some g \<longrightarrow> fheap s' g \<noteq> None)"
proof -
  have from_file: "op_inv [] s' \<and> (\<forall>g. f' = Some g \<longrightarrow> fheap s' g \<noteq> None)"
    if pf: "parse_file w (getattr_callback os) s = Some (f', s')" for w
  proof -
    obtain r s1 where s1: "getattr_callback os (copy_word_until w (CHR '']'')) s = Some (r, s1)"
      using pf by (cases "getattr_callback os (copy_word_until w (CHR '']'')) s") (auto simp: parse_file_def)
    have i1: "op_inv [] s1" by (rule getattr_callback_inv [OF inv s1])
    with pf s1 file_get_or_create_inv [OF i1, of "copy_word_until w (CHR '']'')"] show ?thesis
      by (auto simp: parse_file_def split: if_splits)
  qed
  have from_tag: "op_inv [] s' \<and> (\<forall>g. f = Some g \<longrightarrow> fheap s' g \<noteq> None)" if "parse_tag f w s = Some s'" for w
  proof (cases "copy_word_until w newline = []")
    case True
    with that inv f show ?thesis by (simp add: parse_tag_def)
  next
    case False
    let ?k = "copy_word_until w newline"
    obtain t s1 r where s1: "tag_get_or_create ?k s = Some (t, s1)" "op_inv [] s1" "(?k, t) \<in> set (tags s1)"
      "theap s1 t = Some r" "t_value r = ?k" "same_files s s1"
      using tag_get_or_create_inv [OF inv] by metis
    show ?thesis
    proof (cases f)
      case None
      with False that s1 show ?thesis by (simp add: parse_tag_def)
    next
      case (Some g)
      with f s1(6) obtain x where x: "fheap s1 g = Some x" by (auto simp: same_files_def)
      have "set [(?k, t)] \<subseteq> set (tags s1)" using s1(3) by simp
      from tag_files_loop [OF s1(2) this x] obtain s2 x2 where s2: "tag_file t g s1 = Some s2" "op_inv [] s2"
        "fheap s2 g = Some x2" by (cases "tag_file t g s1") auto
      with False that s1(1) Some show ?thesis by (simp add: parse_tag_def)
    qed
  qed
  show ?thesis using run inv f from_file from_tag by (fastforce simp: parse_line_def Let_def elim!: bind_SomeE split: if_splits)
qed

lemma parse_lines_inv:
  assumes "op_inv [] s" and "\<forall>g. f = Some g \<longrightarrow> fheap s g \<noteq> None"
    and "parse_lines (getattr_callback os) fi f s = Some (f', s')"
  shows "op_inv [] s'"
  using assms
proof (induction "length fi" arbitrary: fi f s rule: less_induct)
  case less
  show ?case
  proof (cases "fi = []")
    case True
    with less.prems show ?thesis by (simp add: parse_lines_end)
  next
    case False
    obtain word rest where w: "fgets MAX_LENGTH fi = (word, rest)" by fastforce
    have "(do { (f, s) \<leftarrow> parse_line (getattr_callback os) word f s; parse_lines (getattr_callback os) rest f s }) = Some (f', s')"
      using less.prems(3) False w by (subst (asm) parse_lines.simps) simp
    then obtain g s1 where s1: "parse_line (getattr_callback os) word f s = Some (g, s1)"
      "parse_lines (getattr_callback os) rest g s1 = Some (f', s')" by (auto elim!: bind_SomeE)
    from parse_line_inv [OF less.prems(1,2) s1(1)] have "op_inv [] s1" "\<forall>h. g = Some h \<longrightarrow> fheap s1 h \<noteq> None"
      by blast+
    then show ?thesis using less.hyps [of rest, OF _ _ _ s1(2)] fgets_shorter [OF w [symmetric] False] by blast
  qed
qed

lemma mount_inv:
  assumes "set_root_directory os path real db w = Some s"
  shows "fs_inv s"
proof (cases db)
  case None
  with assms fs_inv_init show ?thesis by (auto simp: set_root_directory_def parse_tags_db_def)
next
  case (Some fi)
  with assms obtain f where "parse_lines (getattr_callback os) fi None (fs_init real (append_dir path TAG_FILENAME) w) = Some (f, s)"
    by (auto simp: set_root_directory_def parse_tags_db_def parse_tags_db2_def elim!: bind_SomeE)
  from parse_lines_inv [OF _ _ this] fs_inv_init [of real "append_dir path TAG_FILENAME" w] show ?thesis by (simp add: fs_inv_def)
qed

end
