(* ===== verification/Ll_Text.thy ===== *)
theory Ll_Text
  imports Ll_Rel Fuse_Text
begin

text \<open>
  The tag database of \<^verbatim>\<open>fuse_lowlevel\<close>: what \<^verbatim>\<open>tag_db_dump\<close> writes, how \<^verbatim>\<open>parse_tags\<close> reads it back,
  and that the start completes as long as inode numbers do not wrap around.
\<close>

subsection \<open>What the dump says\<close>

definition ll_sections :: "'w ll \<Rightarrow> (cstring \<times> cstring list) list" where
  "ll_sections s = map (\<lambda>(n, f). (n, case l_fheap s f of None \<Rightarrow> [] | Some x \<Rightarrow> keys (lf_tags x))) (rev (l_files s))"

lemma ll_dump_tags_eq:
  assumes "\<forall>k t. (k, t) \<in> set h \<longrightarrow> (\<exists>r. l_theap s t = Some r \<and> lt_value r = k)"
  shows "ll_dump_tags s h out = Some (out @ concat (map tag_line (keys h)))"
  unfolding ll_dump_tags_def using assms
proof (induction h arbitrary: out)
  case Nil
  then show ?case by simp
next
  case (Cons e h)
  obtain k t where e: "e = (k, t)" by fastforce
  obtain r where "l_theap s t = Some r" "lt_value r = k" using Cons.prems e by (metis list.set_intros(1))
  with Cons.IH [of "out @ tag_line k"] Cons.prems show ?case by (simp add: e tag_line_def)
qed

lemma ll_dump_loop:
  assumes ok: "ll_ok R s" and sub: "set fs \<subseteq> set (l_files s)"
  shows "ht_for_each (elem_calls (map (Some \<circ> snd) fs)) (\<lambda>_. ll_dump_file s) out =
    Some (out @ concat (map section_text (map (\<lambda>(n, f). (n, case l_fheap s f of None \<Rightarrow> [] | Some x \<Rightarrow> keys (lf_tags x))) fs)))"
  using sub
proof (induction fs arbitrary: out)
  case Nil
  then show ?case by simp
next
  case (Cons e fs)
  obtain n f where e: "e = (n, f)" by fastforce
  with Cons.prems have "(n, f) \<in> set (l_files s)" by simp
  then obtain x where x: "l_fheap s f = Some x" "lf_name x = n" using ll_okD(1) [OF ok] unfolding ll_tables_def by blast
  have "\<forall>k t. (k, t) \<in> set (lf_tags x) \<longrightarrow> (\<exists>r. l_theap s t = Some r \<and> lt_value r = k)"
    using two_wayD [OF ll_okD(3) [OF ok] x(1)] by metis
  then have d: "ll_dump_tags s (lf_tags x) o' = Some (o' @ concat (map tag_line (keys (lf_tags x))))" for o'
    by (rule ll_dump_tags_eq)
  have "ll_dump_file s (Some f) out = Some (out @ section_text (n, keys (lf_tags x)))"
    by (simp add: ll_dump_file_def x d ht_entry_count_zero section_text_def tag_line_def)
  with Cons.IH Cons.prems x show ?case by (simp add: e)
qed

lemma ll_dump_eq:
  assumes ok: "ll_ok R s" and b: "length (l_files s) + 2 < 2 ^ 32"
  shows "ll_tag_db_dump s = Some (concat (map section_text (ll_sections s)))"
proof -
  obtain l where l: "ht_to_list (l_files s) = Some l" "clist_repr l (rev (map (Some \<circ> snd) (l_files s)))"
    using ht_to_list_repr [OF b] by blast
  have "set (rev (l_files s)) \<subseteq> set (l_files s)" by simp
  from ll_dump_loop [OF ok this, of "[]"] have
    "ht_for_each (elem_calls (rev (map (Some \<circ> snd) (l_files s)))) (\<lambda>_. ll_dump_file s) [] =
      Some (concat (map section_text (ll_sections s)))"
    by (simp add: rev_map ll_sections_def)
  from list_each_r_repr [OF l(2) this] l(1) show ?thesis
    by (auto simp: ll_tag_db_dump_def ll_file_list_def list_each_r_def)
qed

lemma ll_sections_tagged:
  assumes "ll_tables s"
  shows "ll_tagged s n k \<longleftrightarrow> (\<exists>ks. (n, ks) \<in> set (ll_sections s) \<and> k \<in> set ks)"
proof
  assume "ll_tagged s n k"
  then obtain f x where x: "l_fheap s f = Some x" "lf_name x = n" "k \<in> set (keys (lf_tags x))"
    unfolding ll_tagged_def by blast
  then have "(n, f) \<in> set (l_files s)" using assms unfolding ll_tables_def by blast
  with x show "\<exists>ks. (n, ks) \<in> set (ll_sections s) \<and> k \<in> set ks"
    by (intro exI [of _ "keys (lf_tags x)"]) (force simp: ll_sections_def)
next
  assume "\<exists>ks. (n, ks) \<in> set (ll_sections s) \<and> k \<in> set ks"
  then obtain f where f: "(n, f) \<in> set (l_files s)"
      "k \<in> set (case l_fheap s f of None \<Rightarrow> [] | Some x \<Rightarrow> keys (lf_tags x))"
    by (auto simp: ll_sections_def)
  with assms obtain x where "l_fheap s f = Some x" "lf_name x = n" unfolding ll_tables_def by blast
  with f(2) show "ll_tagged s n k" unfolding ll_tagged_def by auto
qed

subsection \<open>Inodes can be made\<close>

lemma inode_get_live:
  assumes "ll_inodes s" and "inode_get m s = Some p"
  shows "\<exists>i. l_iheap s p = Some i \<and> i_number i = m"
proof -
  have "(m, p) \<in> set (rev (l_itable s))" using assms(2) unfolding inode_get_def by (rule map_of_SomeD)
  then show ?thesis using assms(1) by (auto simp: ll_inodes_def)
qed

lemma root_found:
  assumes "ll_inodes s"
  shows "\<exists>p i. inode_get 1 s = Some p \<and> l_iheap s p = Some i \<and> i_number i = 1"
proof -
  obtain i where i: "l_iheap s 0 = Some i" using assms unfolding ll_inodes_def by blast
  then have "i_number i = ino_of (Suc 0)" using assms unfolding ll_inodes_def by blast
  then have "i_number i = 1" by simp
  with i have "(1, 0) \<in> set (l_itable s)" using assms unfolding ll_inodes_def by blast
  then have "inode_get 1 s \<noteq> None" unfolding inode_get_def map_of_eq_None_iff by (force simp: image_iff)
  with inode_get_live [OF assms] show ?thesis by blast
qed

lemma root_is_first:
  assumes inv: "ll_inodes s" and b: "l_inext s < 2 ^ 32"
  shows "inode_get 1 s = Some 0"
proof -
  obtain p i where p: "inode_get 1 s = Some p" "l_iheap s p = Some i" "i_number i = 1" using root_found [OF inv] by blast
  then have n: "p < l_inext s" "i_number i = ino_of (Suc p)" using inv unfolding ll_inodes_def by blast+
  have "ino_of (Suc p) = 1" "p < 2 ^ 32" using n p(3) b by simp_all
  then have "2 ^ 32 dvd p" by (simp only: ino_of_eq_1)
  with \<open>p < 2 ^ 32\<close> have "p = 0" using nat_dvd_not_less by blast
  with p(1) show ?thesis by simp
qed

lemma file_get_or_create_total:
  assumes ok: "ll_ok R s" and b: "l_inext s < 2 ^ 32"
  shows "\<exists>f s'. ll_file_get_or_create n s = Some (f, s') \<and> l_inext s' \<le> Suc (l_inext s)"
proof (cases "ht_get_entry (l_files s) n")
  case (Some f)
  then show ?thesis by (simp add: ll_file_get_or_create_def)
next
  case None
  have root: "inode_get 1 s = Some 0" by (rule root_is_first [OF ll_okD(4) [OF ok] b])
  obtain i where i: "l_iheap s 0 = Some i" "i_is_directory i"
    using ll_okD(4) [OF ok] unfolding ll_inodes_def by blast
  have root': "inode_get 1 (s\<lparr>l_fheap := h, l_fnext := m\<rparr>) = Some 0" for h m using root by (simp add: inode_get_def)
  show ?thesis using None root' i
    by (simp add: ll_file_get_or_create_def ll_file_new_def Let_def get_or_create_file_inode_def
        get_or_create_inode_def inode_new_def next_inode_number_def inode_upd_def lfile_upd_def ht_add_entry_def)
qed

lemma add_entries_total:
  assumes "ll_ok R s" and "l_inext s + length ds \<le> 2 ^ 32"
  shows "\<exists>s'. realdir_add_entries ds s = Some s' \<and> ll_ok R s' \<and> l_inext s' \<le> l_inext s + length ds"
  using assms
proof (induction ds arbitrary: s)
  case Nil
  then show ?case by simp
next
  case (Cons d ds)
  obtain n dir where d: "d = (n, dir)" by fastforce
  show ?case
  proof (cases dir)
    case True
    with Cons.IH [OF Cons.prems(1)] Cons.prems(2) show ?thesis by (auto simp: d)
  next
    case False
    from file_get_or_create_total [OF Cons.prems(1), of n] Cons.prems(2) obtain f s1 where
      s1: "ll_file_get_or_create n s = Some (f, s1)" "l_inext s1 \<le> Suc (l_inext s)" by auto
    from Cons.IH [OF ok_file_get_or_create [OF s1(1) Cons.prems(1)]] Cons.prems(2) s1(2) obtain s2 where
      "realdir_add_entries ds s1 = Some s2" "ll_ok R s2" "l_inext s2 \<le> l_inext s1 + length ds" by auto
    with s1 False show ?thesis by (auto simp: d)
  qed
qed

subsection \<open>Reading the database\<close>

lemma ll_parse_lines_step:
  assumes "plain_line l"
  shows "ll_parse_lines (tag_line l @ rest) f s =
    do { (f, s) \<leftarrow> ll_parse_line (tag_line l) f s; ll_parse_lines rest f s }"
proof -
  have "fgets MAX_LENGTH (tag_line l @ rest) = (tag_line l, rest)"
    using fgets_line [of l 999 rest] assms by (simp add: tag_line_def plain_line_def MAX_LENGTH_def)
  then show ?thesis by (subst ll_parse_lines.simps) (simp add: tag_line_def)
qed

lemma ll_parse_empty_line: "ll_parse_line (tag_line []) f s = Some (f, s)"
  by (simp add: ll_parse_line_def tag_line_def isspace_def copy_word_until_def)

lemma ll_parse_tag_line:
  assumes "tag_text k"
  shows "ll_parse_line (tag_line k) (Some g) s =
    (let (t, s) = ll_tag_get_or_create k s in do { s \<leftarrow> ll_tag_file t g s; Some (Some g, s) })"
proof -
  have k: "k \<noteq> []" "\<not> isspace (hd k)" "hd k \<noteq> CHR ''[''" "hd k \<noteq> CHR ''#''" "newline \<notin> set k"
    using assms by (auto simp: tag_text_def plain_line_def)
  then have "dropWhile isspace (k @ [newline]) = k @ [newline]" by (cases k) auto
  with k show ?thesis
    by (cases "ll_tag_get_or_create k s")
      (auto simp: ll_parse_line_def tag_line_def takeWhile_line hd_append)
qed

lemma ll_parse_file_line:
  assumes "file_text n"
  shows "ll_parse_line (tag_line (''['' @ n @ '']'')) f s = do {
    (f, s) \<leftarrow> ll_file_get_or_create n s;
    Some (Some f, s) }"
proof -
  have "CHR '']'' \<notin> set n" using assms by (simp add: file_text_def)
  then have "takeWhile (\<lambda>c. c \<noteq> CHR '']'') (n @ CHR '']'' # [newline]) = n"
    by (subst takeWhile_append2) auto
  then show ?thesis
    by (simp add: ll_parse_line_def tag_line_def isspace_def copy_word_until_def)
qed

lemma tag_create_live:
  assumes "ll_tag_get_or_create k s = (t, s')" and ok: "ll_ok R s"
  shows "\<exists>r. l_theap s' t = Some r \<and> lt_value r = k \<and> l_fheap s' = l_fheap s \<and> l_inext s' = l_inext s"
proof (cases "ht_get_entry (l_tags s) k")
  case (Some u)
  then have "(k, u) \<in> set (l_tags s)" by (simp add: ht_get_entry_def ht_find_SomeD)
  with ll_okD(1) [OF ok] have "\<exists>r. l_theap s u = Some r \<and> lt_value r = k" unfolding ll_tables_def by blast
  with assms(1) Some show ?thesis by (simp add: ll_tag_get_or_create_def)
next
  case None
  with assms(1) show ?thesis by (auto simp: ll_tag_get_or_create_def ll_tag_new_def Let_def)
qed

lemma ll_parse_tag_lines:
  assumes "ll_ok R s" and "l_fheap s f = Some x" and "\<forall>k\<in>set ks. tag_text k"
  shows "\<exists>s'. ll_parse_lines (concat (map tag_line ks) @ rest) (Some f) s = ll_parse_lines rest (Some f) s' \<and>
    ll_ok (with_tags R (lf_name x) ks) s' \<and> l_inext s' = l_inext s"
  using assms
proof (induction ks arbitrary: s x R)
  case Nil
  then show ?case by auto
next
  case (Cons k ks)
  have k: "tag_text k" "plain_line k" using Cons.prems(3) by (auto simp: tag_text_def)
  obtain t s1 where s1: "ll_tag_get_or_create k s = (t, s1)" by fastforce
  from tag_create_live [OF this Cons.prems(1)] Cons.prems(2) obtain r where
    r: "l_theap s1 t = Some r" "lt_value r = k" "l_fheap s1 f = Some x" "l_inext s1 = l_inext s" by auto
  have ok1: "ll_ok R s1" by (rule ok_tag_get_or_create [OF s1 Cons.prems(1)])
  from tag_file_total(1) [OF r(1,3)] obtain s2 where s2: "ll_tag_file t f s1 = Some s2" by blast
  have R2: "(\<lambda>n j. if n = lf_name x \<and> j = lt_value r then True else R n j) = with_tags R (lf_name x) [k]"
    using r(2) by (auto simp: fun_eq_iff)
  have ok2: "ll_ok (with_tags R (lf_name x) [k]) s2" using ok_tag_file [OF s2 ok1 r(1,3)] unfolding R2 .
  have i2: "l_inext s2 = l_inext s1" using tag_file_live(1) [OF s2] by (simp add: same_keys_def ll_ino_def)
  obtain x2 where x2: "l_fheap s2 f = Some x2" "lf_name x2 = lf_name x"
    using s2 r(1,3) by (auto simp: ll_tag_file_def ltag_upd_def lfile_upd_def)
  from Cons.IH [OF ok2 x2(1)] Cons.prems(3) obtain s3 where
    s3: "ll_parse_lines (concat (map tag_line ks) @ rest) (Some f) s2 = ll_parse_lines rest (Some f) s3"
    "ll_ok (with_tags (with_tags R (lf_name x) [k]) (lf_name x2) ks) s3" "l_inext s3 = l_inext s2" by auto
  have "with_tags (with_tags R (lf_name x) [k]) (lf_name x2) ks = with_tags R (lf_name x) (k # ks)"
    by (auto simp: fun_eq_iff x2(2))
  with s3(2) have ok3: "ll_ok (with_tags R (lf_name x) (k # ks)) s3" by metis
  have "ll_parse_lines (concat (map tag_line (k # ks)) @ rest) (Some f) s =
      ll_parse_lines (concat (map tag_line ks) @ rest) (Some f) s2"
    using s1 s2 by (simp add: ll_parse_lines_step [OF k(2)] ll_parse_tag_line [OF k(1)])
  with s3(1,3) ok3 i2 r(4) show ?case by (intro exI [of _ s3]) simp
qed

lemma ll_parse_sections:
  assumes "ll_ok R s" and "l_inext s + length D \<le> 2 ^ 32"
    and "\<forall>(n, ks)\<in>set D. ks \<noteq> [] \<longrightarrow> file_text n \<and> (\<forall>k\<in>set ks. tag_text k)"
  shows "\<exists>f' s'. ll_parse_lines (concat (map section_text D)) f s = Some (f', s') \<and>
    ll_ok (\<lambda>n k. R n k \<or> (\<exists>ks. (n, ks) \<in> set D \<and> k \<in> set ks)) s'"
  using assms
proof (induction D arbitrary: s R f)
  case Nil
  have "ll_parse_lines [] f s = Some (f, s)" by (subst ll_parse_lines.simps) simp
  with Nil show ?case by simp
next
  case (Cons e D)
  obtain n ks where e: "e = (n, ks)" by fastforce
  show ?case
  proof (cases "ks = []")
    case True
    then have "(\<exists>js. (m, js) \<in> set (e # D) \<and> k \<in> set js) = (\<exists>js. (m, js) \<in> set D \<and> k \<in> set js)" for m k
      by (auto simp: e)
    moreover have "section_text e = []" by (simp add: e section_text_def True)
    moreover have "l_inext s + length D \<le> 2 ^ 32" using Cons.prems(2) by simp
    ultimately show ?thesis using Cons.IH [OF Cons.prems(1), of f] Cons.prems(3) by simp
  next
    case False
    have n: "file_text n" "plain_line (''['' @ n @ '']'')" and ks: "\<forall>k\<in>set ks. tag_text k"
      using Cons.prems(3) False by (auto simp: e file_text_def)
    let ?rest = "concat (map section_text D)"
    from file_get_or_create_total [OF Cons.prems(1), of n] Cons.prems(2) obtain g s1 where
      s1: "ll_file_get_or_create n s = Some (g, s1)" "l_inext s1 \<le> Suc (l_inext s)" by auto
    have ok1: "ll_ok R s1" by (rule ok_file_get_or_create [OF s1(1) Cons.prems(1)])
    obtain x where x: "l_fheap s1 g = Some x" "lf_name x = n"
      using file_get_or_create_name [OF s1(1) Cons.prems(1)] by blast
    from ll_parse_tag_lines [OF ok1 x(1) ks, of "tag_line [] @ ?rest"] obtain s2 where
      s2: "ll_parse_lines (concat (map tag_line ks) @ tag_line [] @ ?rest) (Some g) s1 =
          ll_parse_lines (tag_line [] @ ?rest) (Some g) s2"
        "ll_ok (with_tags R n ks) s2" "l_inext s2 = l_inext s1" unfolding x(2) by blast
    have empty: "ll_parse_lines (tag_line [] @ ?rest) (Some g) s2 = ll_parse_lines ?rest (Some g) s2"
      by (subst ll_parse_lines_step) (simp_all add: plain_line_def ll_parse_empty_line)
    have "l_inext s2 + length D \<le> 2 ^ 32" using Cons.prems(2) s1(2) s2(3) by simp
    from Cons.IH [OF s2(2) this, of "Some g"] Cons.prems(3) obtain f' s' where
      s': "ll_parse_lines ?rest (Some g) s2 = Some (f', s')"
        "ll_ok (\<lambda>m k. with_tags R n ks m k \<or> (\<exists>ks. (m, ks) \<in> set D \<and> k \<in> set ks)) s'" by auto
    have "(\<lambda>m k. with_tags R n ks m k \<or> (\<exists>ks. (m, ks) \<in> set D \<and> k \<in> set ks)) =
        (\<lambda>m k. R m k \<or> (\<exists>js. (m, js) \<in> set (e # D) \<and> k \<in> set js))"
      by (auto simp: fun_eq_iff e)
    moreover have "ll_parse_lines (concat (map section_text (e # D))) f s = Some (f', s')"
      using False s1(1) s2(1) empty s'(1)
      by (simp add: e section_text_def ll_parse_lines_step [OF n(2), simplified] ll_parse_file_line [OF n(1), simplified])
    ultimately show ?thesis using s'(2) by simp
  qed
qed

lemma init_total:
  assumes "length (os_readdir os w) + length D < 2 ^ 32"
    and "\<forall>(n, ks)\<in>set D. ks \<noteq> [] \<longrightarrow> file_text n \<and> (\<forall>k\<in>set ks. tag_text k)"
  shows "\<exists>s. ll_tag_init os (Some (concat (map section_text D))) (ll_static root w) = Some s \<and>
    ll_ok (\<lambda>n k. \<exists>ks. (n, ks) \<in> set D \<and> k \<in> set ks) s"
proof -
  obtain s1 where s1: "inode_init (ll_static root w) = Some s1" "l_inext s1 = 1" "l_world s1 = w"
    by (simp add: inode_init_def inode_new_def next_inode_number_def ll_static_def inode_upd_def Let_def)
  have "l_inext s1 + length (os_readdir os w) \<le> 2 ^ 32" using assms(1) s1(2) by simp
  from add_entries_total [OF ok_static_init [OF s1(1)] this] obtain s2 where
    s2: "realdir_add_entries (os_readdir os w) s1 = Some s2" "ll_ok (\<lambda>n k. False) s2"
      "l_inext s2 \<le> 1 + length (os_readdir os w)" using s1(2) by auto
  have "l_inext s2 + length D \<le> 2 ^ 32" using assms(1) s2(3) by simp
  from ll_parse_sections [OF s2(2) this assms(2), of None] obtain f' s3 where
    s3: "ll_parse_lines (concat (map section_text D)) None s2 = Some (f', s3)"
      "ll_ok (\<lambda>n k. \<exists>ks. (n, ks) \<in> set D \<and> k \<in> set ks) s3" by auto
  with s1 s2 show ?thesis
    by (simp add: ll_tag_init_def realdir_add_files_def realdir_parse_tags_def ll_parse_tags_def)
qed

lemma init_without_database: "ll_tag_init os None s = None"
  by (simp add: ll_tag_init_def realdir_parse_tags_def ll_parse_tags_def split: Option.bind_split)

subsection \<open>The tags of a file\<close>

lemma ll_tags_string_loop:
  assumes "\<forall>k t. (k, t) \<in> set h \<longrightarrow> (\<exists>r. l_theap s t = Some r \<and> lt_value r = k)"
  shows "ht_for_each h
       (\<lambda>n t (str, size, c). do {
          r \<leftarrow> l_theap s t;
          let str = str @ (if c = 0 then [] else '' '') @ lt_value r;
          Some (str, Some (int (length str)), c + 1)
        }) (join ks, if ks = [] then None else Some (int (length (join ks))), length ks) =
     Some (join (ks @ keys h), if ks @ keys h = [] then None else Some (int (length (join (ks @ keys h)))), length (ks @ keys h))"
  using assms
proof (induction h arbitrary: ks)
  case Nil
  then show ?case by simp
next
  case (Cons e h)
  obtain k t where e: "e = (k, t)" by fastforce
  obtain r where "l_theap s t = Some r" "lt_value r = k" using Cons.prems e by (metis list.set_intros(1))
  with Cons.IH [of "ks @ [k]"] Cons.prems show ?case
    by (cases "ks = []") (simp_all add: e join_snoc ac_simps)
qed

lemma ll_tags_string_eq:
  assumes ok: "ll_ok R s" and x: "l_fheap s f = Some x"
  shows "ll_file_get_tags_string f s =
    Some (join (keys (lf_tags x)), if lf_tags x = [] then None else Some (int (length (join (keys (lf_tags x))))))"
proof -
  have "\<forall>k t. (k, t) \<in> set (lf_tags x) \<longrightarrow> (\<exists>r. l_theap s t = Some r \<and> lt_value r = k)"
    using two_wayD [OF ll_okD(3) [OF ok] x] by metis
  from ll_tags_string_loop [OF this, of "[]"] x show ?thesis
    by (simp add: ll_file_get_tags_string_def)
qed

end
