(* ===== verification/Ll_Dir.thy ===== *)
theory Ll_Dir
  imports Ll_Text
begin

text \<open>
  Directories of \<^verbatim>\<open>fuse_lowlevel\<close>: the inode that \<^verbatim>\<open>create_directory_inode\<close> makes, the counting of
  lookups, and the listings of a directory.
\<close>

subsection \<open>New directories\<close>

definition fresh_number :: "'w ll \<Rightarrow> ino" where
  "fresh_number s = scast (fst (next_inode_number s))"

definition dir_inode :: "'w ll \<Rightarrow> cstring list \<Rightarrow> cstring \<Rightarrow> inode" where
  "dir_inode s ks name =
     \<lparr>i_number = fresh_number s, i_is_tagfile = False, i_is_directory = True, i_st = stat0, i_nlookup = 0,
      i_selected_tags = Some (ll_select_tags (ks @ [name]) ht_create s), i_name = Some name,
      i_realpath = None, i_tag = ks @ [name]\<rparr>"

lemma select_tags_cong: "l_tags s' = l_tags s \<Longrightarrow> ll_select_tags ks h s' = ll_select_tags ks h s"
  by (induction ks arbitrary: h) (simp_all add: ll_tag_get_def)

lemma create_directory_eq:
  assumes inv: "ll_inodes s" and par: "l_iheap s parent = Some par"
  shows "create_directory_inode parent name s = Some (l_inext s,
    s\<lparr>next_ino := next_ino s + 1, l_inext := Suc (l_inext s), l_itable := l_itable s @ [(fresh_number s, l_inext s)],
      l_iheap := (l_iheap s)(l_inext s \<mapsto> dir_inode s (i_tag par) name)\<rparr>)"
proof -
  have "parent \<noteq> l_inext s" using inv par unfolding ll_inodes_def by blast
  moreover have "ll_select_tags ks h
      (s\<lparr>next_ino := a, l_iheap := b, l_inext := c, l_itable := d\<rparr>) = ll_select_tags ks h s" for ks h a b c d
    by (rule select_tags_cong) simp
  ultimately show ?thesis using par
    by (simp add: create_directory_inode_def inode_new_def next_inode_number_def inode_upd_def Let_def dir_inode_def fresh_number_def)
qed

lemma inode_get_new:
  "inode_get m (s\<lparr>next_ino := a, l_inext := b, l_itable := l_itable s @ [(m, p)], l_iheap := h\<rparr>) = Some p"
  by (simp add: inode_get_def)

lemma ll_stat_frame: "ll_stat os path b s = (r, s') \<Longrightarrow> s' = s\<lparr>c_errno := c_errno s'\<rparr>"
  by (auto simp: ll_stat_def split: sum.splits)

lemma next_gen_frame: "next_gen_number s = (g, s') \<Longrightarrow> s' = s\<lparr>next_gen := next_gen s'\<rparr>"
  by (auto simp: next_gen_number_def Let_def split: if_splits)

lemma tag_create_effect:
  assumes "ll_tag_get_or_create k s = (t, s')" and ok: "ll_ok R s"
  shows "l_replies s' = l_replies s \<and> next_ino s' = next_ino s \<and> ll_tag_exist k s'"
proof -
  have "t \<noteq> INVALID_TAG"
    using tag_create_live [OF assms] no_invalid_tag [OF ok_tag_get_or_create [OF assms]] by auto
  moreover have "ht_get_entry (l_tags s') k = Some t" "l_replies s' = l_replies s" "next_ino s' = next_ino s"
    using assms(1)
    by (auto simp: ll_tag_get_or_create_def ll_tag_new_def Let_def ht_get_entry_def ht_find_def ht_add_entry_def
        split: option.splits)
  ultimately show ?thesis by (simp add: ll_tag_exist_def ll_tag_get_def)
qed

subsection \<open>Counting lookups\<close>

lemma forget_deletes:
  assumes ok: "ll_ok R s" and p: "inode_get number s = Some p" "l_iheap s p = Some i" and n: "number \<noteq> 1"
  shows "\<exists>s'. ll_tag_forget number (i_nlookup i) s = Some s' \<and> l_iheap s' p = None \<and>
    l_world s' = l_world s \<and> l_realdirpath s' = l_realdirpath s \<and> ll_rel s' = ll_rel s"
proof -
  have "i_number i = number" using inode_get_live [OF ll_okD(4) [OF ok] p(1)] p(2) by auto
  with p n show ?thesis
    by (simp add: ll_tag_forget_def inode_upd_def inode_delete_if_noref_def fuse_reply_def ll_rel_def)
qed

text \<open>A file keeps its pointer to an inode that a forget has freed.\<close>

lemma lookup_forgotten:
  assumes ok: "ll_ok R s" and f: "ll_file_get name s = Some f" "l_fheap s f = Some x" "lf_ino x = Some p"
    and dead: "l_iheap s p = None"
    and st: "os_stat os (ll_tag_realpath s name) (l_world s) = Inr st" "\<not> S_ISDIR (st_mode st)"
  shows "ll_tag_lookup os 1 name s = None"
proof -
  obtain r i where "inode_get 1 s = Some r" "l_iheap s r = Some i" using root_found [OF ll_okD(4) [OF ok]] by blast
  with f dead st show ?thesis
    by (simp add: ll_tag_lookup_def ll_stat_def ll_file_get_or_create_def ll_file_get_def)
qed

subsection \<open>Listing the files of several tags\<close>

lemma ht_for_each_gains:
  assumes run: "ht_for_each h g a = Some b" and e: "(k, d) \<in> set h"
    and start: "\<And>c c'. g k d c = Some c' \<Longrightarrow> Q c'"
    and keep: "\<And>j e c c'. (j, e) \<in> set h \<Longrightarrow> g j e c = Some c' \<Longrightarrow> Q c \<Longrightarrow> Q c'"
  shows "Q b"
  using run e keep
proof (induction h arbitrary: a)
  case Nil
  then show ?case by simp
next
  case (Cons e0 h)
  obtain j u where e0: "e0 = (j, u)" by fastforce
  with Cons.prems(1) obtain c where c: "g j u a = Some c" "ht_for_each h g c = Some b" by (auto elim: bind_SomeE)
  show ?case
  proof (cases "(k, d) \<in> set h")
    case True
    with Cons.IH [OF c(2)] Cons.prems(3) show ?thesis by auto
  next
    case False
    with Cons.prems(2) e0 c(1) have "Q c" using start by auto
    from ht_for_each_keeps [where P = Q, OF c(2) this] Cons.prems(3) show ?thesis by auto
  qed
qed

text \<open>
  A file with one of the selected tags that lacks another: the second loop of
  \<^verbatim>\<open>readdir_get_selected_files\<close> waits for its own lock. The tags selected are in use; \<open>sel_live\<close> names their
  structs. First the files that the first loop collects.
\<close>

definition sel_live :: "tptr ht \<Rightarrow> 'w ll \<Rightarrow> bool" where
  "sel_live sel s \<longleftrightarrow> (\<forall>(k, t)\<in>set sel. \<exists>r. l_theap s t = Some r \<and> lt_value r = k)"

lemma sel_liveD: "sel_live sel s \<Longrightarrow> (k, t) \<in> set sel \<Longrightarrow> \<exists>r. l_theap s t = Some r \<and> lt_value r = k"
  by (auto simp: sel_live_def)

definition selected_of :: "tptr ht \<Rightarrow> 'w ll \<Rightarrow> fptr ht \<Rightarrow> bool" where
  "selected_of sel s c \<longleftrightarrow> (\<forall>(n, f)\<in>set c. \<exists>x k. l_fheap s f = Some x \<and> lf_name x = n \<and> k \<in> set (keys sel) \<and>
     k \<in> set (keys (lf_tags x)))"

lemma ht_for_each_total:
  assumes "\<And>k d c. (k, d) \<in> set h \<Longrightarrow> Q c \<Longrightarrow> \<exists>c'. g k d c = Some c' \<and> Q c'" and "Q a"
  shows "\<exists>b. ht_for_each h g a = Some b \<and> Q b"
  using assms
proof (induction h arbitrary: a)
  case Nil
  then show ?case by simp
next
  case (Cons e h)
  obtain k d where e: "e = (k, d)" by fastforce
  with Cons.prems(1) [of k d a] Cons.prems(2) obtain c where c: "g k d a = Some c" "Q c" by auto
  from Cons.IH [of c] Cons.prems(1) c(2) obtain b where "ht_for_each h g c = Some b \<and> Q b" by (metis list.set_intros(2))
  with c(1) e show ?case by simp
qed

lemma selected_of_add:
  assumes "selected_of sel s c" and "l_fheap s f = Some x" "k \<in> set (keys sel)" "k \<in> set (keys (lf_tags x))"
  shows "selected_of sel s (snd (ht_add_unique_entry c (lf_name x) f))"
  using assms unfolding selected_of_def by (auto simp: ht_add_unique_eq)

lemma selected_files_loop:
  assumes ok: "ll_ok R s" and sel: "sel_live sel s"
  shows "\<exists>fs. ht_for_each sel
       (\<lambda>n t c. do {
          r \<leftarrow> l_theap s t;
          ht_for_each (lt_files r) (\<lambda>n f c. do { x \<leftarrow> l_fheap s f; Some (snd (ht_add_unique_entry c (lf_name x) f)) }) c
        }) ht_create = Some fs \<and> selected_of sel s fs \<and>
    (\<forall>n k. k \<in> set (keys sel) \<longrightarrow> ll_tagged s n k \<longrightarrow> n \<in> set (keys fs))"
proof -
  let ?add = "\<lambda>(n :: cstring) f c. do { x \<leftarrow> l_fheap s f; Some (snd (ht_add_unique_entry c (lf_name x) f)) }"
  let ?tag = "\<lambda>(n :: cstring) t c. do { r \<leftarrow> l_theap s t; ht_for_each (lt_files r) ?add c }"
  have tag: "\<exists>c'. ?tag k t c = Some c' \<and> selected_of sel s c'" if kt: "(k, t) \<in> set sel" "selected_of sel s c" for k t c
  proof -
    obtain r where r: "l_theap s t = Some r" "lt_value r = k" using sel_liveD [OF sel kt(1)] by blast
    have k: "k \<in> set (keys sel)" using kt(1) by (auto intro: rev_image_eqI)
    have "\<exists>c'. ?add m f c = Some c' \<and> selected_of sel s c'" if mf: "(m, f) \<in> set (lt_files r)" "selected_of sel s c" for m f c
    proof -
      obtain x where x: "l_fheap s f = Some x" "(k, t) \<in> set (lf_tags x)"
        by (rule two_wayD' [OF ll_okD(3) [OF ok] r(1) mf(1)]) (use r(2) in auto)
      have "k \<in> set (keys (lf_tags x))" using x(2) by (auto intro: rev_image_eqI)
      from selected_of_add [OF mf(2) x(1) k this] x(1) show ?thesis by simp
    qed
    then have "\<exists>b. ht_for_each (lt_files r) ?add c = Some b \<and> selected_of sel s b"
      by (rule ht_for_each_total [where Q = "selected_of sel s", OF _ kt(2)])
    with r(1) show ?thesis by simp
  qed
  have "selected_of sel s ht_create" by (simp add: selected_of_def ht_create_def)
  then have "\<exists>fs. ht_for_each sel ?tag ht_create = Some fs \<and> selected_of sel s fs"
    by (rule ht_for_each_total [where Q = "selected_of sel s", rotated]) (rule tag)
  then obtain fs where fs: "ht_for_each sel ?tag ht_create = Some fs" "selected_of sel s fs" by blast
  have mono: "n \<in> set (keys c')" if c: "?add m g c = Some c'" "n \<in> set (keys c)" for m g c c' n
    using c by (auto simp: ht_add_unique_eq elim!: bind_SomeE)
  have mono': "n \<in> set (keys c')" if c: "?tag m v c = Some c'" "n \<in> set (keys c)" for m v c c' n
  proof -
    from c(1) obtain r :: ltag where r: "ht_for_each (lt_files r) ?add c = Some c'" by (rule bind_SomeE)
    show ?thesis by (rule ht_for_each_keeps [OF r, where P = "\<lambda>c. n \<in> set (keys c)"]) (rule c(2), erule mono)
  qed
  have "n \<in> set (keys fs)" if k: "k \<in> set (keys sel)" "ll_tagged s n k" for n k
  proof -
    obtain t where t: "(k, t) \<in> set sel" using k(1) by auto
    obtain r where r: "l_theap s t = Some r" "lt_value r = k" using sel_liveD [OF sel t] by blast
    obtain f x t' where x: "l_fheap s f = Some x" "lf_name x = n" "(k, t') \<in> set (lf_tags x)"
      using k(2) unfolding ll_tagged_def by auto
    from two_wayD [OF ll_okD(3) [OF ok] x(1,3)] tag_at [OF ll_okD(1) [OF ok] r(1)] r(2) have "t' = t" by metis
    with two_wayD [OF ll_okD(3) [OF ok] x(1,3)] r(1) x(2) have inr: "(n, f) \<in> set (lt_files r)" by (metis option.inject)
    show ?thesis
    proof (rule ht_for_each_gains [OF fs(1) t, where Q = "\<lambda>c. n \<in> set (keys c)"])
      fix c c' assume "?tag k t c = Some c'"
      then have c: "ht_for_each (lt_files r) ?add c = Some c'" using r(1) by simp
      show "n \<in> set (keys c')"
      proof (rule ht_for_each_gains [OF c inr, where Q = "\<lambda>c. n \<in> set (keys c)"])
        show "n \<in> set (keys c')" if "?add n f c = Some c'" for c c' using that x by (auto simp: ht_add_unique_eq)
      qed (rule mono)
    qed (rule mono')
  qed
  with fs show ?thesis by blast
qed

lemma selected_files_wait:
  assumes ok: "ll_ok R s" and sel: "sel_live sel s"
  shows "\<exists>fs. ll_readdir_get_selected_files sel s = Some
    (if \<exists>n k j. k \<in> set (keys sel) \<and> j \<in> set (keys sel) \<and> ll_tagged s n k \<and> \<not> ll_tagged s n j then Waits else Returns fs)"
proof -
  obtain fs where fs: "ht_for_each sel
       (\<lambda>n t c. do {
          r \<leftarrow> l_theap s t;
          ht_for_each (lt_files r) (\<lambda>n f c. do { x \<leftarrow> l_fheap s f; Some (snd (ht_add_unique_entry c (lf_name x) f)) }) c
        }) ht_create = Some fs" "selected_of sel s fs"
    "\<And>n k. k \<in> set (keys sel) \<Longrightarrow> ll_tagged s n k \<Longrightarrow> n \<in> set (keys fs)"
    using selected_files_loop [OF ok sel] by blast
  let ?lacks = "\<lambda>(n :: cstring) f. \<exists>(k, t)\<in>set sel. k \<notin> set (keys (lf_tags (the (l_fheap s f))))"
  let ?inner = "\<lambda>(n :: cstring) f c.
          for_each_entry sel
            (\<lambda>n t c. do {
               x \<leftarrow> l_fheap s f;
               r \<leftarrow> l_theap s t;
               if \<not> ht_has_entry (lf_tags x) (lt_value r)
               then case lk_remove_entry c (lf_name x) of Waits \<Rightarrow> Some Waits | Returns (_, c) \<Rightarrow> Some (Returns c)
               else Some (Returns c)
             }) c"
  have inner: "?inner n f (lk_reading fs) = Some (if ?lacks n f then Waits else Returns (lk_reading fs))"
    if nf: "(n, f) \<in> set fs" for n f
  proof -
    obtain x where x: "l_fheap s f = Some x" using fs(2) nf unfolding selected_of_def by blast
    show ?thesis
      by (rule for_each_entry_waits [where P = "\<lambda>k t. k \<notin> set (keys (lf_tags (the (l_fheap s f))))"])
        (use sel_liveD [OF sel] x in \<open>fastforce simp: ht_has_entry_iff\<close>)
  qed
  have iff: "(\<exists>(n, f)\<in>set fs. ?lacks n f) \<longleftrightarrow>
      (\<exists>n k j. k \<in> set (keys sel) \<and> j \<in> set (keys sel) \<and> ll_tagged s n k \<and> \<not> ll_tagged s n j)"
  proof
    assume "\<exists>(n, f)\<in>set fs. ?lacks n f"
    then obtain n f j u where nf: "(n, f) \<in> set fs" "(j, u) \<in> set sel" "j \<notin> set (keys (lf_tags (the (l_fheap s f))))" by auto
    obtain x k where x: "l_fheap s f = Some x" "lf_name x = n" "k \<in> set (keys sel)" "k \<in> set (keys (lf_tags x))"
      using fs(2) nf(1) unfolding selected_of_def by blast
    have "\<not> ll_tagged s n j"
    proof
      assume "ll_tagged s n j"
      then obtain g y where y: "l_fheap s g = Some y" "lf_name y = n" "j \<in> set (keys (lf_tags y))"
        unfolding ll_tagged_def by auto
      from file_at [OF ll_okD(1) [OF ok] x(1) y(1)] x(2) y(2) have "g = f" by simp
      with y x(1) nf(3) show False by simp
    qed
    moreover have "ll_tagged s n k" "j \<in> set (keys sel)" using x nf(2) unfolding ll_tagged_def by (auto intro: rev_image_eqI)
    ultimately show "\<exists>n k j. k \<in> set (keys sel) \<and> j \<in> set (keys sel) \<and> ll_tagged s n k \<and> \<not> ll_tagged s n j"
      using x(3) by blast
  next
    assume "\<exists>n k j. k \<in> set (keys sel) \<and> j \<in> set (keys sel) \<and> ll_tagged s n k \<and> \<not> ll_tagged s n j"
    then obtain n k j where nk: "k \<in> set (keys sel)" "j \<in> set (keys sel)" "ll_tagged s n k" "\<not> ll_tagged s n j" by blast
    then obtain u where nkj: "k \<in> set (keys sel)" "(j, u) \<in> set sel" "ll_tagged s n k" "\<not> ll_tagged s n j" by auto
    from fs(3) [OF nkj(1,3)] obtain f where f: "(n, f) \<in> set fs" by auto
    then obtain x where "l_fheap s f = Some x" "lf_name x = n" using fs(2) unfolding selected_of_def by blast
    with nkj(4) have "j \<notin> set (keys (lf_tags (the (l_fheap s f))))" unfolding ll_tagged_def by auto
    with f nkj(2) show "\<exists>(n, f)\<in>set fs. ?lacks n f" by blast
  qed
  have "lk_for_each (lk_of fs) ?inner = Some (if \<exists>(n, f)\<in>set fs. ?lacks n f then Waits else Returns (lk_of fs))"
    by (rule lk_for_each_waits) (rule inner)
  then show ?thesis unfolding iff by (auto simp: ll_readdir_get_selected_files_def fs(1) lk_of_def)
qed

end
