(* ===== verification/Fuse_Step.thy ===== *)
theory Fuse_Step
  imports Fuse_Text
begin

text \<open>
  The file system as a state machine. A request is one entry of the table \<^verbatim>\<open>tag_oper\<close> with its
  arguments; \<open>run\<close> dispatches it, and is \<open>None\<close> where the code dereferences a null, freed or invalid pointer.
  A request is \<open>well_formed\<close> if its paths have ordinary components and its descriptors are open: nothing else
  is asked of it, in particular not that the directories on its path are tags, because \<^verbatim>\<open>getattr\<close> answers
  success for unknown names and so lets every path through.

  \<open>faulty\<close> lists the requests that are undefined behaviour in a state, and \<open>orderly\<close> excludes one more thing: that a
  descriptor is opened below a name that is not a tag in use. Such an \<^verbatim>\<open>opendir\<close> or \<^verbatim>\<open>open\<close> is answered, but its
  descriptor holds a tag that is not in use, and the release of the descriptor later takes the name out of
  the table whatever has become of it. The reachable states are those after mounting with any tag
  database and any sequence of well-formed, orderly requests.
\<close>

subsection \<open>Requests\<close>

type_synonym names = "cstring list"

datatype request =
    Open names "32 word"
  | Opendir names "32 word"
  | Release dptr
  | Getattr names
  | Fgetattr dptr
  | Setxattr names
  | Getxattr names cstring "char list" nat
  | Read dptr "char list" nat int
  | Readdir dptr
  | Write dptr "char list" nat int
  | Link names names
  | Unlink names
  | Rmdir names
  | Mknod names "32 word" "64 word"
  | Mkdir names
  | Truncate names int
  | Chmod names "32 word"
  | Chown names "32 word" "32 word"
  | Utime names "(int \<times> int) \<times> (int \<times> int)"
  | Rename names names
  | Ioctl dptr "32 word" "32 word" tag_ioctl
  | Poll dptr "pollhandle option"

datatype reply =
    Ret int
  | RetFd int "dptr option"
  | RetStat int stat
  | RetBuf int "char list"
  | RetNames int "cstring list"
  | RetIoctl int tag_ioctl
  | RetPoll int "32 word"

fun run :: "'w os \<Rightarrow> request \<Rightarrow> 'w fs \<Rightarrow> (reply \<times> 'w fs) option" where
  "run os (Open p flags) s = do { ((r, d), s) \<leftarrow> tag_open_file os (path_of p) flags s; Some (RetFd r d, s) }"
| "run os (Opendir p flags) s = do { ((r, d), s) \<leftarrow> tag_open_dir os (path_of p) flags s; Some (RetFd r d, s) }"
| "run os (Release d) s = do { (r, s) \<leftarrow> tag_release_generic os d s; Some (Ret r, s) }"
| "run os (Getattr p) s = do { ((r, st), s) \<leftarrow> tag_getattr os (path_of p) stat0 s; Some (RetStat r st, s) }"
| "run os (Fgetattr d) s = do { ((r, st), s) \<leftarrow> tag_fgetattr os d stat0 s; Some (RetStat r st, s) }"
| "run os (Setxattr p) s = (let (r, s) = tag_setxattr (path_of p) s in Some (Ret r, s))"
| "run os (Getxattr p name value sz) s =
     do { ((r, buf), s) \<leftarrow> tag_getxattr os (path_of p) name value sz s; Some (RetBuf r buf, s) }"
| "run os (Read d buf len off) s = do { ((r, buf), s) \<leftarrow> tag_read os d buf len off s; Some (RetBuf r buf, s) }"
| "run os (Readdir d) s = do { ((r, ns), s) \<leftarrow> tag_readdir os d s; Some (RetNames r ns, s) }"
| "run os (Write d buf len off) s = do { (r, s) \<leftarrow> tag_write os d buf len off s; Some (Ret r, s) }"
| "run os (Link p q) s = do { (r, s) \<leftarrow> tag_link os (path_of p) (path_of q) s; Some (Ret r, s) }"
| "run os (Unlink p) s = do { (r, s) \<leftarrow> tag_unlink (path_of p) s; Some (Ret r, s) }"
| "run os (Rmdir p) s = (let (r, s) = tag_rmdir_noop (path_of p) s in Some (Ret r, s))"
| "run os (Mknod p mode dev) s = (let (r, s) = tag_mknod os (path_of p) mode dev s in Some (Ret r, s))"
| "run os (Mkdir p) s = (let (r, s) = tag_noop_mkdir (path_of p) s in Some (Ret r, s))"
| "run os (Truncate p len) s = (let (r, s) = tag_truncate os (path_of p) len s in Some (Ret r, s))"
| "run os (Chmod p mode) s = (let (r, s) = tag_chmod os (path_of p) mode s in Some (Ret r, s))"
| "run os (Chown p uid gid) s = (let (r, s) = tag_chown os (path_of p) uid gid s in Some (Ret r, s))"
| "run os (Utime p tb) s = (let (r, s) = tag_utime os (path_of p) tb s in Some (Ret r, s))"
| "run os (Rename p q) s = do { (r, s) \<leftarrow> tag_rename os (path_of p) (path_of q) s; Some (Ret r, s) }"
| "run os (Ioctl d cmd flags data) s = do { ((r, data), s) \<leftarrow> tag_ioctl d cmd flags data s; Some (RetIoctl r data, s) }"
| "run os (Poll d ph) s = do { ((r, ev), s) \<leftarrow> tag_poll d ph s; Some (RetPoll r ev, s) }"

text \<open>The bound on the tables keeps list positions below the width of \<^verbatim>\<open>unsigned int\<close>.\<close>

definition bounded :: "'w fs \<Rightarrow> bool" where
  "bounded s \<longleftrightarrow> length (tags s) + 2 < 2 ^ 32 \<and> length (files s) + 2 < 2 ^ 32"

fun well_formed :: "request \<Rightarrow> 'w fs \<Rightarrow> bool" where
  "well_formed (Open p flags) s \<longleftrightarrow> components p"
| "well_formed (Opendir p flags) s \<longleftrightarrow> components p"
| "well_formed (Release d) s \<longleftrightarrow> dheap s d \<noteq> None"
| "well_formed (Getattr p) s \<longleftrightarrow> components p"
| "well_formed (Fgetattr d) s \<longleftrightarrow> dheap s d \<noteq> None"
| "well_formed (Getxattr p name value sz) s \<longleftrightarrow> components p"
| "well_formed (Read d buf len off) s \<longleftrightarrow> dheap s d \<noteq> None \<and> bounded s"
| "well_formed (Readdir d) s \<longleftrightarrow> dheap s d \<noteq> None \<and> bounded s"
| "well_formed (Write d buf len off) s \<longleftrightarrow> dheap s d \<noteq> None"
| "well_formed (Link p q) s \<longleftrightarrow> components p \<and> components q"
| "well_formed (Unlink p) s \<longleftrightarrow> components p"
| "well_formed (Rename p q) s \<longleftrightarrow> components p \<and> components q"
| "well_formed (Ioctl d cmd flags data) s \<longleftrightarrow> dheap s d \<noteq> None \<and> io_behind data = None"
| "well_formed (Poll d ph) s \<longleftrightarrow> dheap s d \<noteq> None"
| "well_formed _ s \<longleftrightarrow> True"

text \<open>Whether the system call \<^verbatim>\<open>open\<close> on the real file of a path succeeds.\<close>

definition opens :: "'w os \<Rightarrow> names \<Rightarrow> 32 word \<Rightarrow> 'w fs \<Rightarrow> bool" where
  "opens os p flags s \<longleftrightarrow>
     (case fst (os_open os (path_realpath s (path_of p)) flags (world s)) of Inl errno \<Rightarrow> False | Inr fh \<Rightarrow> True)"

text \<open>
  The undefined requests: \<^verbatim>\<open>open\<close> of a file that no request has named before (a null pointer), \<^verbatim>\<open>unlink\<close> and
  \<^verbatim>\<open>rename\<close> of a known file below a name that is not a tag (a freed struct), the \<^verbatim>\<open>ioctl\<close> that reads the tags of a
  known file (a byte behind the buffer), and \<^verbatim>\<open>poll\<close> on a directory (a tag read as a file).
\<close>

fun faulty :: "'w os \<Rightarrow> request \<Rightarrow> 'w fs \<Rightarrow> bool" where
  "faulty os (Open p flags) s \<longleftrightarrow> file_get (lookup_name p) s = None \<and> opens os p flags s"
| "faulty os (Unlink p) s \<longleftrightarrow> unlink_faulty p s"
| "faulty os (Rename p q) s \<longleftrightarrow> rename_faulty os p q s"
| "faulty os (Ioctl d cmd flags data) s \<longleftrightarrow> (case dheap s d of None \<Rightarrow> False | Some fd \<Rightarrow>
     \<not> fd_is_tag fd \<and> \<not> fd_is_tag_file fd \<and> flags AND FUSE_IOCTL_COMPAT = 0 \<and> cmd = TAG_IOC_READ_TAGS \<and>
     file_get (p_filename (fd_path fd)) s \<noteq> None)"
| "faulty os (Poll d ph) s \<longleftrightarrow> (case dheap s d of None \<Rightarrow> False | Some fd \<Rightarrow> fd_is_tag fd)"
| "faulty os _ s \<longleftrightarrow> False"

text \<open>No descriptor is opened below a name that is not a tag in use.\<close>

fun orderly :: "'w os \<Rightarrow> request \<Rightarrow> 'w fs \<Rightarrow> bool" where
  "orderly os (Open p flags) s \<longleftrightarrow> (opens os p flags s \<longrightarrow> (\<forall>k\<in>set (butlast p). live_name s k))"
| "orderly os (Opendir p flags) s \<longleftrightarrow> (opendir_ok p s \<longrightarrow> (\<forall>k\<in>set p. live_name s k))"
| "orderly os _ s \<longleftrightarrow> True"

definition guard :: "'w os \<Rightarrow> request \<Rightarrow> 'w fs \<Rightarrow> bool" where
  "guard os req s \<longleftrightarrow> well_formed req s \<and> orderly os req s"

text \<open>The outcome of a request shows undefined behaviour: no result, or a write behind the buffer.\<close>

fun undefined_outcome :: "(reply \<times> 'w fs) option \<Rightarrow> bool" where
  "undefined_outcome None \<longleftrightarrow> True"
| "undefined_outcome (Some (RetIoctl r data, s)) \<longleftrightarrow> io_behind data \<noteq> None"
| "undefined_outcome (Some (rep, s)) \<longleftrightarrow> False"

inductive step :: "'w os \<Rightarrow> 'w fs \<Rightarrow> request \<Rightarrow> reply \<Rightarrow> 'w fs \<Rightarrow> bool" for os where
  step: "guard os req s \<Longrightarrow> run os req s = Some (rep, s') \<Longrightarrow> step os s req rep s'"

inductive reachable :: "'w os \<Rightarrow> 'w fs \<Rightarrow> bool" for os where
  mounted: "set_root_directory os path real db w = Some s \<Longrightarrow> reachable os s"
| next_state: "reachable os s \<Longrightarrow> step os s req rep s' \<Longrightarrow> reachable os s'"

inductive_cases step_cases: "step os s req rep s'"
inductive_simps step_simps: "step os s req rep s'"

subsection \<open>Which requests are safe\<close>

lemma file_table_known: "op_inv h s \<Longrightarrow> tagged s n k \<Longrightarrow> file_get n s \<noteq> None"
  unfolding tagged_def file_get_def ht_get_entry_def ht_find_None_iff
  using op_inv_parts(2) unfolding files_ok_def by force

lemma getxattr_inv:
  assumes cs: "components cs" and inv: "fs_inv s"
  shows "\<exists>r s'. tag_getxattr os (path_of cs) name value sz s = Some (r, s') \<and> fs_inv s' \<and> refined s s' \<and>
    (name = ''tags'' \<longrightarrow> fst (lookup_spec os cs stat0 s) = 0 \<longrightarrow>
       \<not> S_ISDIR (st_mode (snd (lookup_spec os cs stat0 s))) \<longrightarrow>
       (\<exists>ks. (\<forall>k. k \<in> set ks \<longleftrightarrow> tagged s (lookup_name cs) k) \<and> distinct ks \<and>
          r = (int (length (join ks)), strncpy value (join ks) sz)))"
proof (cases "name = ''tags''")
  case False
  with inv show ?thesis
    by (cases "name = ''fs_type''") (auto simp: tag_getxattr_def refined_def)
next
  case True
  have i: "op_inv [] s" using inv by (simp add: fs_inv_def)
  obtain sel s1 where s1: "path_create (path_of cs) False s = Some (path_obj s cs sel, s1)"
    "keys sel = butlast cs" "selects sel [] s s1"
    using path_create_inv [OF cs i, of False] by auto
  obtain s2 where s2: "getattr_intra os (path_obj s cs sel) stat0 s1 =
      Some (getattr_spec os (path_obj s cs sel) stat0 s1, s2)" "op_inv sel s2" "files_grow s1 s2"
    using getattr_intra_inv [OF selects_inv [OF s1(3)], where p = "path_obj s cs sel"]
      selects_live [OF s1(3)] by auto
  have gs: "getattr_spec os (path_obj s cs sel) stat0 s1 = lookup_spec os cs stat0 s"
    by (simp add: getattr_spec_same [OF selects_same [OF s1(3)]] getattr_spec_lookup [OF s1(2)])
  obtain err st where es: "lookup_spec os cs stat0 s = (err, st)" by fastforce
  obtain f s3 x where s3: "file_get_or_create (lookup_name cs) s2 = (f, s3)" "op_inv sel s3" "files_grow s2 s3"
    "fheap s3 f = Some x" "f_name x = lookup_name cs"
    using file_get_or_create_inv [OF s2(2)] by blast
  note ok3 = op_inv_parts [OF s3(2)]
  let ?mid = "if err \<noteq> 0 then ((err, value), s2) else if S_ISDIR (st_mode st) then ((- EISDIR, value), s2)
    else ((int (length (join (keys (f_tags x)))), strncpy value (join (keys (f_tags x))) sz), s3)"
  have mid: "(if err \<noteq> 0 then Some ((err, value), s2) else if S_ISDIR (st_mode st) then Some ((- EISDIR, value), s2)
      else do {
          let (f, s) = file_get_or_create (p_filename (path_obj s cs sel)) s2;
          (str, len) \<leftarrow> file_get_tags_string f s;
          Some ((len, strncpy value str sz), s) }) = Some ?mid"
    using s3(1) file_get_tags_string_eq [OF ok3(3) s3(4)] by (simp add: path_obj_filename)
  have g: "files_grow s1 (snd ?mid)" "op_inv sel (snd ?mid)"
    using s2(2,3) s3(2) files_grow_trans [OF s2(3) s3(3)] by auto
  obtain s4 where s4: "path_delete (path_obj s cs sel) (snd ?mid) = Some s4" "op_inv [] s4" "core s4 = core (snd ?mid)"
    using path_delete_inv [of "path_obj s cs sel" "[]" "snd ?mid"] g(2) by auto
  have "tag_getxattr os (path_of cs) name value sz s = Some (fst ?mid, s4)"
    using s4(1) True s3(1) file_get_tags_string_eq [OF ok3(3) s3(4)]
    by (auto simp: tag_getxattr_def tag_getxattr_list_tags_def s1(1) s2(1) gs es path_obj_filename split: if_splits)
  moreover have "refined s s4"
  proof -
    have "refined s s1" using s1(3) by (simp add: selects_def core_refined)
    then show ?thesis using files_grow_refined [OF g(1)] core_refined [OF s4(3)] refined_trans by blast
  qed
  moreover have "\<exists>ks. (\<forall>k. k \<in> set ks \<longleftrightarrow> tagged s (lookup_name cs) k) \<and> distinct ks \<and>
          fst ?mid = (int (length (join ks)), strncpy value (join ks) sz)" if "err = 0" "\<not> S_ISDIR (st_mode st)"
  proof -
    have "tagged s = tagged s1" using same_files_tagged [OF selects_same [OF s1(3)]] by simp
    then have "tagged s = tagged s3" using files_growD(6) [OF s2(3)] files_growD(6) [OF s3(3)] by simp
    then have "k \<in> set (keys (f_tags x)) \<longleftrightarrow> tagged s (lookup_name cs) k" for k
      using tagged_file [OF ok3(2) s3(4)] s3(5) by simp
    moreover have "distinct (keys (f_tags x))" using ok3(3) s3(4) by (simp add: ftags_ok_def)
    ultimately show ?thesis using that by (intro exI [of _ "keys (f_tags x)"]) simp
  qed
  ultimately show ?thesis using s4(2) es by (intro exI [of _ "fst ?mid"] exI [of _ s4]) (simp add: fs_inv_def)
qed

lemma read_tag_file_eq:
  assumes "op_inv h s" and "bounded s"
  shows "read_tag_file buf len off s = Some (if off < 0 then (- EINVAL, buf) else
    (let bytes = take len (drop (nat off) (concat (map section_text (sections s))))
     in (int (length bytes), bytes @ replicate (len - length bytes) (CHR 0x00) @ drop len buf)))"
  using tag_db_dump_eq [OF assms(1)] assms(2) by (simp add: read_tag_file_def bounded_def Let_def)

lemma fd_read_env: "dheap s d = Some fd \<Longrightarrow> \<exists>r w. fd_read os d buf len off s = Some (r, s\<lparr>world := w\<rparr>)"
  by (auto simp: fd_read_def Let_def split: prod.splits sum.splits)

lemma fd_write_env: "dheap s d = Some fd \<Longrightarrow> \<exists>r w. fd_write os d buf len off s = Some (r, s\<lparr>world := w\<rparr>)"
  by (auto simp: fd_write_def Let_def split: prod.splits sum.splits)

lemma world_id: "s\<lparr>world := world s\<rparr> = s"
  by simp

lemma read_inv:
  assumes "fs_inv s" "dheap s d = Some fd" "bounded s"
  shows "\<exists>r w. tag_read os d buf len off s = Some (r, s\<lparr>world := w\<rparr>)"
proof (cases "fd_is_tag_file fd")
  case True
  with assms read_tag_file_eq [of "[]" s buf len off] show ?thesis
    by (intro exI exI [of _ "world s"]) (simp add: tag_read_def fs_inv_def)
next
  case False
  with assms(2) fd_read_env [OF assms(2), of os buf len off] show ?thesis by (simp add: tag_read_def)
qed

lemma write_inv:
  assumes "dheap s d = Some fd"
  shows "\<exists>r w. tag_write os d buf len off s = Some (r, s\<lparr>world := w\<rparr>)"
proof (cases "fd_is_tag_file fd")
  case True
  with assms show ?thesis by (intro exI exI [of _ "world s"]) (simp add: tag_write_def)
next
  case False
  with assms fd_write_env [OF assms, of os buf len off] show ?thesis by (simp add: tag_write_def)
qed

lemma ioctl_inv:
  assumes inv: "fs_inv s" and d: "dheap s d = Some fd" and new: "io_behind data = None"
  shows "\<exists>r data'. tag_ioctl d cmd flags data s = Some ((r, data'), s) \<and>
    (io_behind data' \<noteq> None \<longleftrightarrow> \<not> fd_is_tag fd \<and> \<not> fd_is_tag_file fd \<and> flags AND FUSE_IOCTL_COMPAT = 0 \<and>
       cmd = TAG_IOC_READ_TAGS \<and> file_get (p_filename (fd_path fd)) s \<noteq> None)"
proof -
  have i: "op_inv [] s" using inv by (simp add: fs_inv_def)
  have "\<exists>r data'. ioctl_read_tags d data s = Some (r, data') \<and>
      (io_behind data' \<noteq> None \<longleftrightarrow> file_get (p_filename (fd_path fd)) s \<noteq> None)"
  proof (cases "file_get (p_filename (fd_path fd)) s")
    case None
    with d new show ?thesis by (simp add: ioctl_read_tags_def)
  next
    case (Some f)
    obtain x where x: "fheap s f = Some x" by (rule file_get_SomeD [OF i Some])
    from file_get_tags_string_eq [OF op_inv_parts(3) [OF i] x] Some d show ?thesis
      by (simp add: ioctl_read_tags_def ioctl_fill_def Let_def)
  qed
  with d new show ?thesis by (cases "fd_is_tag fd \<or> fd_is_tag_file fd") (auto simp: tag_ioctl_def)
qed

lemma fgetattr_inv:
  assumes inv: "fs_inv s" and d: "dheap s d = Some fd"
  shows "\<exists>r s'. tag_fgetattr os d b s = Some (r, s') \<and> fs_inv s' \<and> files_grow s s'"
proof -
  have i: "op_inv [] s" using inv by (simp add: fs_inv_def)
  note ok = op_inv_parts [OF i]
  have "sel_used (p_selected_tags (fd_path fd)) s" by (rule fds_used [OF ok(8) d])
  then have "sel_live (p_selected_tags (fd_path fd)) s"
    using ok(5) unfolding sel_used_def sel_live_def fresh_ok_def by (metis option.distinct(1))
  from getattr_intra_inv [OF i this, of os b] d show ?thesis
    by (auto simp: tag_fgetattr_def fs_inv_def)
qed

lemma poll_inv:
  assumes inv: "fs_inv s" and d: "dheap s d = Some fd" and nt: "\<not> fd_is_tag fd"
  shows "\<exists>f x s'. fd_object fd = FileObj (Some f) \<and> fheap s f = Some x \<and>
    tag_poll d ph s = Some ((0, f_revents x), s') \<and> fs_inv s' \<and> fheap s' f = Some (x\<lparr>f_revents := 0\<rparr>)"
proof -
  have i: "op_inv [] s" using inv by (simp add: fs_inv_def)
  note ok = op_inv_parts [OF i]
  obtain f x where f: "fd_object fd = FileObj (Some f)" "fheap s f = Some x"
    using desc_fd_file [OF ok(6) d nt] by blast
  let ?ds = "case fd_ph fd of None \<Rightarrow> destroyed s | Some old \<Rightarrow> destroyed s @ [old]"
  let ?s1 = "s\<lparr>dheap := (dheap s)(d \<mapsto> fd\<lparr>fd_ph := ph\<rparr>), fheap := (fheap s)(f \<mapsto> x\<lparr>f_revents := 0\<rparr>)\<rparr>"
  have "desc_ok ?s1"
  proof (rule desc_okI)
    fix g y assume "fheap ?s1 g = Some y"
    then obtain y0 where y0: "fheap s g = Some y0" "f_descriptors y = f_descriptors y0"
      using f(2) by (cases "g = f") auto
    have "(\<exists>fe. dheap ?s1 e = Some fe \<and> \<not> fd_is_tag fe \<and> fd_object fe = FileObj (Some g)) \<longleftrightarrow>
        (\<exists>fe. dheap s e = Some fe \<and> \<not> fd_is_tag fe \<and> fd_object fe = FileObj (Some g))" for e
      using d by auto
    with ok(6) y0 show "distinct (f_descriptors y) \<and> (\<forall>e. e \<in> set (f_descriptors y) \<longleftrightarrow>
        (\<exists>fe. dheap ?s1 e = Some fe \<and> \<not> fd_is_tag fe \<and> fd_object fe = FileObj (Some g)))"
      unfolding desc_ok_def by simp
  next
    fix e fe assume "dheap ?s1 e = Some fe"
    then obtain fe0 where fe0: "dheap s e = Some fe0" "fd_is_tag fe = fd_is_tag fe0" "fd_object fe = fd_object fe0"
      using d by (cases "e = d") auto
    from ok(6) fe0(1) have "if fd_is_tag fe0 then \<exists>t. fd_object fe0 = TagObj t
        else \<exists>f. fd_object fe0 = FileObj (Some f) \<and> fheap ?s1 f \<noteq> None" by (rule desc_fd_obj) simp
    then show "if fd_is_tag fe then \<exists>t. fd_object fe = TagObj t
        else \<exists>f. fd_object fe = FileObj (Some f) \<and> fheap ?s1 f \<noteq> None" unfolding fe0(2,3) .
  qed
  moreover have "fds_ok ?s1" unfolding fds_ok_def
  proof (intro allI impI)
    fix e fe k t assume "dheap ?s1 e = Some fe" "(k, t) \<in> set (p_selected_tags (fd_path fe))"
    then have "\<exists>fe0. dheap s e = Some fe0 \<and> (k, t) \<in> set (p_selected_tags (fd_path fe0))"
      using d by (cases "e = d") auto
    with ok(8) show "\<exists>r. theap ?s1 t = Some r \<and> t_value r = k \<and> in_use r"
      unfolding fds_ok_def by auto
  qed
  ultimately have "op_inv [] ?s1"
    using f(2) d ok(5) by (intro op_inv_env [OF i]) (auto simp: fun_eq_iff fresh_ok_def)
  then have inv': "op_inv [] (?s1\<lparr>destroyed := ?ds\<rparr>)" by (rule op_inv_destroyed)
  have "tag_poll d ph s = Some ((0, f_revents x), ?s1\<lparr>destroyed := ?ds\<rparr>)"
    using d f by (cases "fd_ph fd") (simp_all add: tag_poll_def fd_upd_def file_upd_def)
  with inv' f show ?thesis by (auto simp: fs_inv_def)
qed

lemma world_inv: "fs_inv s \<Longrightarrow> fs_inv (s\<lparr>world := w\<rparr>)"
  by (simp add: fs_inv_def op_inv_world)

lemma real_ops_inv:
  assumes "fs_inv s"
  shows "\<exists>r w. tag_mknod os p mode dev s = (r, s\<lparr>world := w\<rparr>)"
    and "\<exists>r w. tag_truncate os p len s = (r, s\<lparr>world := w\<rparr>)"
    and "\<exists>r w. tag_chmod os p mode s = (r, s\<lparr>world := w\<rparr>)"
    and "\<exists>r w. tag_chown os p uid gid s = (r, s\<lparr>world := w\<rparr>)"
    and "\<exists>r w. tag_utime os p tb s = (r, s\<lparr>world := w\<rparr>)"
proof -
  show "\<exists>r w. tag_mknod os p mode dev s = (r, s\<lparr>world := w\<rparr>)"
  proof (cases "os_access os (path_realpath s p) (world s)")
    case (Inl e)
    then show ?thesis by (auto simp: tag_mknod_def Let_def split: prod.splits)
  next
    case (Inr u)
    then show ?thesis by (intro exI exI [of _ "world s"]) (simp add: tag_mknod_def)
  qed
  show "\<exists>r w. tag_truncate os p len s = (r, s\<lparr>world := w\<rparr>)"
  proof (cases "p = ''/.tags'' \<or> p = ''.tags''")
    case True
    then show ?thesis by (intro exI exI [of _ "world s"]) (auto simp: tag_truncate_def)
  next
    case False
    then show ?thesis by (auto simp: tag_truncate_def split: prod.splits)
  qed
qed (auto simp: tag_chmod_def tag_chown_def tag_utime_def split: prod.splits)

lemma unlink_root: "components cs \<Longrightarrow> length cs < 2 \<Longrightarrow> tag_unlink (path_of cs) s = Some (- EPERM, s)"
  using count_slashes_path [of cs] by (cases "cs = []") (auto simp: tag_unlink_def path_of_def)

text \<open>A request is undefined exactly if it is \<open>faulty\<close>, and an orderly one keeps the invariant.\<close>

definition outcome_ok :: "'w os \<Rightarrow> request \<Rightarrow> 'w fs \<Rightarrow> bool" where
  "outcome_ok os req s \<longleftrightarrow> (undefined_outcome (run os req s) \<longleftrightarrow> faulty os req s) \<and>
     (\<forall>rep s'. run os req s = Some (rep, s') \<and> orderly os req s \<longrightarrow> fs_inv s')"

lemma open_outcome:
  assumes inv: "fs_inv s" and p: "components p"
  shows "outcome_ok os (Open p flags) s"
proof (cases "fst (os_open os (path_realpath s (path_of p)) flags (world s))")
  case (Inl e)
  from tag_open_file_runs(2) [OF p inv this] Inl show ?thesis by (auto simp: outcome_ok_def opens_def)
next
  case (Inr fh)
  then have op: "opens os p flags s" by (simp add: opens_def)
  note runs = tag_open_file_runs(1) [OF p inv, of os flags]
  show ?thesis
  proof (cases "file_get (lookup_name p) s = None")
    case True
    with runs Inr op show ?thesis by (simp add: outcome_ok_def)
  next
    case False
    with runs obtain r s' where run: "tag_open_file os (path_of p) flags s = Some (r, s')" by auto
    have "fs_inv s'" if "\<forall>k\<in>set (butlast p). live_name s k"
      using tag_open_file_inv [OF p inv that False, of os flags] run by auto
    with run op False show ?thesis by (cases r) (auto simp: outcome_ok_def)
  qed
qed

lemma opendir_outcome:
  assumes inv: "fs_inv s" and p: "components p"
  shows "outcome_ok os (Opendir p flags) s"
proof -
  from tag_open_dir_runs [OF p inv, of os flags] obtain r s' where run: "tag_open_dir os (path_of p) flags s = Some (r, s')"
    by (auto split: if_splits)
  have "fs_inv s'" if "opendir_ok p s \<longrightarrow> (\<forall>k\<in>set p. live_name s k)"
    using tag_open_dir_inv [OF p inv that, of os flags] run by auto
  with run show ?thesis by (cases r) (auto simp: outcome_ok_def)
qed

lemma unlink_outcome:
  assumes inv: "fs_inv s" and p: "components p"
  shows "outcome_ok os (Unlink p) s"
proof (cases "unlink_faulty p s")
  case True
  with tag_unlink_faults [OF p inv] show ?thesis by (simp add: outcome_ok_def)
next
  case False
  show ?thesis
  proof (cases "length p \<ge> 2")
    case True
    from tag_unlink_inv [OF p inv False True] obtain r s' where "tag_unlink (path_of p) s = Some (r, s')" "fs_inv s'" by blast
    with False show ?thesis by (simp add: outcome_ok_def)
  next
    case short: False
    with unlink_root [OF p, of s] inv False show ?thesis by (simp add: outcome_ok_def)
  qed
qed

lemma rename_outcome:
  assumes inv: "fs_inv s" and p: "components p" "components q"
  shows "outcome_ok os (Rename p q) s"
proof (cases "rename_faulty os p q s")
  case True
  with tag_rename_faults [OF p inv] show ?thesis by (simp add: outcome_ok_def)
next
  case False
  from tag_rename_inv [OF p inv False] obtain r s' where
    "tag_rename os (path_of p) (path_of q) s = Some (r, s')" "fs_inv s'" by blast
  with False show ?thesis by (simp add: outcome_ok_def)
qed

lemma poll_outcome:
  assumes inv: "fs_inv s" and d: "dheap s d = Some fd"
  shows "outcome_ok os (Poll d ph) s"
proof (cases "fd_is_tag fd")
  case True
  obtain t where "fd_object fd = TagObj t"
    using desc_fd_tag [OF _ d True] op_inv_parts(6) inv unfolding fs_inv_def by blast
  with d True show ?thesis
    by (cases "fd_ph fd") (simp_all add: outcome_ok_def tag_poll_def fd_upd_def)
next
  case False
  from poll_inv [OF inv d False, of ph] d False show ?thesis by (auto simp: outcome_ok_def)
qed

lemma ok_outcome:
  assumes "run os req s = Some (rep, s')" "fs_inv s'" "\<not> faulty os req s" "\<forall>r data. rep \<noteq> RetIoctl r data"
  shows "outcome_ok os req s"
  using assms by (cases rep) (simp_all add: outcome_ok_def)

lemma run_outcome:
  assumes inv: "fs_inv s" and g: "well_formed req s"
  shows "outcome_ok os req s"
proof (cases req)
  case (Open p flags)
  with g open_outcome [OF inv] show ?thesis by simp
next
  case (Opendir p flags)
  with g opendir_outcome [OF inv] show ?thesis by simp
next
  case (Release d)
  with g obtain fd where d: "dheap s d = Some fd" by auto
  from tag_release_inv [OF inv d, of os] obtain r s' where "tag_release_generic os d s = Some (r, s')" "fs_inv s'" by blast
  with Release show ?thesis by (auto intro: ok_outcome)
next
  case (Getattr p)
  with g have p: "components p" by simp
  from tag_getattr_inv [OF p inv, of os stat0] obtain s' where
    "tag_getattr os (path_of p) stat0 s = Some (lookup_spec os p stat0 s, s')" "fs_inv s'" by blast
  with Getattr show ?thesis by (cases "lookup_spec os p stat0 s") (auto intro: ok_outcome)
next
  case (Fgetattr d)
  with g obtain fd where d: "dheap s d = Some fd" by auto
  from fgetattr_inv [OF inv d, of os stat0] Fgetattr show ?thesis by (auto intro: ok_outcome)
next
  case (Getxattr p nm v sz)
  with g have p: "components p" by simp
  from getxattr_inv [OF p inv, of os nm v sz] Getxattr show ?thesis by (auto intro: ok_outcome)
next
  case (Read d buf len off)
  with g obtain fd where d: "dheap s d = Some fd" "bounded s" by auto
  from read_inv [OF inv d, of os buf len off] Read world_inv [OF inv] show ?thesis by (auto intro: ok_outcome)
next
  case (Readdir d)
  with g obtain fd where d: "dheap s d = Some fd" "bounded s" by auto
  from d(2) have "length (tags s) + 2 < 2 ^ 32" by (simp add: bounded_def)
  from tag_readdir_inv [OF inv d(1) this, of os] Readdir show ?thesis by (auto intro: ok_outcome)
next
  case (Write d buf len off)
  with g obtain fd where d: "dheap s d = Some fd" by auto
  from write_inv [OF d, of os buf len off] Write world_inv [OF inv] show ?thesis by (auto intro: ok_outcome)
next
  case (Link p q)
  with g have p: "components p" "components q" by simp_all
  from tag_link_inv [OF p inv, of os] Link show ?thesis by (auto intro: ok_outcome)
next
  case (Unlink p)
  with g unlink_outcome [OF inv] show ?thesis by simp
next
  case (Rename p q)
  with g rename_outcome [OF inv] show ?thesis by simp
next
  case (Ioctl d cmd flags data)
  with g obtain fd where d: "dheap s d = Some fd" "io_behind data = None" by auto
  from ioctl_inv [OF inv d, of cmd flags] Ioctl inv d(1) show ?thesis by (auto simp: outcome_ok_def)
next
  case (Poll d ph)
  with g obtain fd where d: "dheap s d = Some fd" by auto
  from poll_outcome [OF inv d] Poll show ?thesis by simp
next
  case (Mknod p mode dev)
  with real_ops_inv(1) [OF inv, of os "path_of p" mode dev] world_inv [OF inv] show ?thesis by (auto intro: ok_outcome)
next
  case (Truncate p len)
  with real_ops_inv(2) [OF inv, of os "path_of p" len] world_inv [OF inv] show ?thesis by (auto intro: ok_outcome)
next
  case (Chmod p mode)
  with real_ops_inv(3) [OF inv, of os "path_of p" mode] world_inv [OF inv] show ?thesis by (auto intro: ok_outcome)
next
  case (Chown p uid gid)
  with real_ops_inv(4) [OF inv, of os "path_of p" uid gid] world_inv [OF inv] show ?thesis by (auto intro: ok_outcome)
next
  case (Utime p tb)
  with real_ops_inv(5) [OF inv, of os "path_of p" tb] world_inv [OF inv] show ?thesis by (auto intro: ok_outcome)
qed (use inv in \<open>simp_all add: outcome_ok_def tag_setxattr_def tag_rmdir_noop_def tag_noop_mkdir_def\<close>)

lemma reachable_inv: "reachable os s \<Longrightarrow> fs_inv s"
proof (induction rule: reachable.induct)
  case (mounted path real db w s)
  then show ?case by (rule mount_inv)
next
  case (next_state s req rep s')
  then have "guard os req s" "run os req s = Some (rep, s')" by (auto elim: step_cases)
  with run_outcome [OF next_state.IH] show ?case by (auto simp: guard_def outcome_ok_def)
qed

end
