(* ===== verification/Fuse_Props.thy ===== *)
theory Fuse_Props
  imports Fuse_Step
begin

text \<open>
  The properties of the \<^verbatim>\<open>fuse\<close> file system, over the reachable states of \<open>Fuse_Step\<close>, each with
  a run on a small concrete system where it has hypotheses.
\<close>

subsection \<open>A concrete system\<close>

text \<open>One directory \<^verbatim>\<open>/r\<close> with the regular files \<^verbatim>\<open>f\<close> and \<^verbatim>\<open>.tags\<close> and a subdirectory \<^verbatim>\<open>sub\<close>.\<close>

definition demo_os :: "unit os" where
  "demo_os = \<lparr>os_stat = (\<lambda>p w. if p = ''/r/f'' \<or> p = ''/r/.tags'' then Inr (stat0\<lparr>st_mode := 0x81A4\<rparr>)
       else if p = ''/r'' then Inr (stat0\<lparr>st_mode := 0x41ED\<rparr>) else Inl 2),
     os_readdir = (\<lambda>w. [(''f'', False), (''sub'', True)]),
     os_open = (\<lambda>p fl w. (if p = ''/r/f'' \<or> p = ''/r/.tags'' then Inr 3 else Inl 2, w)),
     os_close = (\<lambda>fh w. (if fh = 3 then Inr () else Inl 9, w)),
     os_lseek = (\<lambda>fh off w. (Inr (), w)),
     os_read = (\<lambda>fh n w. (Inr (take n ''hello''), w)),
     os_write = (\<lambda>fh b w. (Inr (length b), w)),
     os_access = (\<lambda>p w. if p = ''/r/f'' then Inr () else Inl 2),
     os_mknod = (\<lambda>p m d w. (Inr (), w)), os_truncate = (\<lambda>p n w. (Inr (), w)),
     os_chmod = (\<lambda>p m w. (Inr (), w)), os_chown = (\<lambda>p u g w. (Inr (), w)),
     os_utimens = (\<lambda>p tb w. (Inr (), w))\<rparr>"

definition demo_init :: "unit fs" where
  "demo_init = fs_init ''/r'' ''/r/.tags'' ()"

text \<open>The effect of a list of requests: the replies and the last state.\<close>

fun run_all :: "'w os \<Rightarrow> request list \<Rightarrow> 'w fs \<Rightarrow> (reply list \<times> 'w fs) option" where
  "run_all os [] s = Some ([], s)"
| "run_all os (req # reqs) s = do {
     (r, s) \<leftarrow> run os req s;
     (rs, s) \<leftarrow> run_all os reqs s;
     Some (r # rs, s)
   }"

definition replies :: "(reply list \<times> 'w fs) option \<Rightarrow> reply list option" where
  "replies = map_option fst"

text \<open>Whether these requests, one after the other, are well-formed, orderly and answered.\<close>

fun guards :: "'w os \<Rightarrow> request list \<Rightarrow> 'w fs \<Rightarrow> bool" where
  "guards os [] s \<longleftrightarrow> True"
| "guards os (req # reqs) s \<longleftrightarrow>
     guard os req s \<and> (case run os req s of None \<Rightarrow> False | Some (r, s') \<Rightarrow> guards os reqs s')"

definition demo_after :: "request list \<Rightarrow> unit fs" where
  "demo_after reqs = (case run_all demo_os reqs demo_init of None \<Rightarrow> demo_init | Some (rs, s) \<Rightarrow> s)"

lemma live_name_code [code]:
  "live_name s k \<longleftrightarrow> list_ex (\<lambda>(j, t). j = k \<and> (case theap s t of None \<Rightarrow> False | Some r \<Rightarrow> in_use r)) (tags s)"
  by (force simp: live_name_def list_ex_iff split: option.splits)

lemma components_code [code]:
  "components cs \<longleftrightarrow> list_all component cs \<and> int (length cs) + 2 < 4294967296"
  by (auto simp: components_def list_all_iff)

lemma bounded_code [code]:
  "bounded s \<longleftrightarrow> int (length (tags s)) + 2 < 4294967296 \<and> int (length (files s)) + 2 < 4294967296"
  by (auto simp: bounded_def)

lemma run_all_reachable:
  "reachable os s \<Longrightarrow> guards os reqs s \<Longrightarrow> \<exists>rs s'. run_all os reqs s = Some (rs, s') \<and> reachable os s'"
proof (induction reqs arbitrary: s)
  case Nil
  then show ?case by simp
next
  case (Cons req reqs)
  then obtain r s1 where s1: "guard os req s" "run os req s = Some (r, s1)" "guards os reqs s1"
    by (auto split: option.splits)
  then have "reachable os s1" by (meson Cons.prems(1) reachable.next_state step.step)
  from Cons.IH [OF this s1(3)] s1(2) show ?case by auto
qed

lemma demo_reachable: "reachable demo_os demo_init"
  by (rule reachable.mounted [of _ "''/r''" "''/r''" None "()"])
    (simp add: set_root_directory_def parse_tags_db_def demo_init_def append_dir_def TAG_FILENAME_def)

lemma demo_after_reachable: "guards demo_os reqs demo_init \<Longrightarrow> reachable demo_os (demo_after reqs)"
  using run_all_reachable [OF demo_reachable] unfolding demo_after_def by fastforce

lemma demo_tagged:
  assumes "guards demo_os reqs demo_init"
  shows "tagged (demo_after reqs) n k \<longleftrightarrow> (\<exists>ks. (n, ks) \<in> set (sections (demo_after reqs)) \<and> k \<in> set ks)"
proof (rule sections_tagged)
  have "op_inv [] (demo_after reqs)"
    using reachable_inv [OF demo_after_reachable [OF assms]] by (simp add: fs_inv_def)
  then show "files_ok (demo_after reqs)" by (rule op_inv_parts(2))
qed

lemma demo_paths: "path_of [''f''] = ''/f''" "path_of [''y'', ''f''] = ''/y/f''"
  "basenamedup ''/f'' = ''f''" "basenamedup ''/y/f'' = ''f''"
  by code_simp+

lemma demo_stat: "realdirpath s = ''/r'' \<Longrightarrow> path_of cs = p \<Longrightarrow> basenamedup p = ''f'' \<Longrightarrow>
    c_stat demo_os (path_realpath s (path_of cs)) b w = (0, stat0\<lparr>st_mode := 0x81A4\<rparr>)"
  by (simp add: c_stat_def path_realpath_def append_dir_def demo_os_def)

lemma demo_not_dir: "\<not> S_ISDIR 0x81A4"
  by (simp add: S_ISDIR_def)

lemma demo_lookup: "lookup_spec demo_os [''f''] stat0 demo_init = (0, stat0\<lparr>st_mode := 0x81A4\<rparr>)"
  using demo_stat [of demo_init "[''f'']", OF _ demo_paths(1,3)]
  by (simp add: lookup_spec_def demo_init_def fs_init_def demo_not_dir lookup_name_def TAG_FILENAME_def)

lemma demo_root: "realdirpath demo_init = ''/r''"
  by (simp add: demo_init_def fs_init_def)

lemma demo_component [simp]: "component ''f''" "component ''y''" "component ''z''"
  by (simp_all add: component_def)

lemma demo_components [simp]:
  "components [''f'']" "components [''y'', ''f'']" "components [''z'', ''f'']" "components [''y'']"
  by (simp_all add: components_def)

text \<open>The state in which \<^verbatim>\<open>f\<close> carries the tag \<^verbatim>\<open>y\<close>.\<close>

lemma demo_linked:
  "\<exists>s. reachable demo_os s \<and> (\<forall>n k. tagged s n k \<longleftrightarrow> n = ''f'' \<and> k = ''y'') \<and> live_name s ''y'' \<and>
    file_get ''f'' s \<noteq> None \<and> realdirpath s = ''/r'' \<and> world s = ()"
proof -
  have inv: "fs_inv demo_init" by (rule reachable_inv [OF demo_reachable])
  obtain s where s: "tag_link demo_os (path_of [''f'']) (path_of [''y'', ''f'']) demo_init = Some (0, s)"
    "\<forall>n k. tagged s n k \<longleftrightarrow> tagged demo_init n k \<or> n = ''f'' \<and> k = ''y''"
    "live_name s ''y''" "realdirpath s = ''/r''" "file_get ''f'' s \<noteq> None"
  proof -
    obtain s where "tag_link demo_os (path_of [''f'']) (path_of [''y'', ''f'']) demo_init =
        Some (fst (lookup_spec demo_os [''f''] stat0 demo_init), s)"
      "\<forall>n k. tagged s n k \<longleftrightarrow> tagged demo_init n k \<or>
        fst (lookup_spec demo_os [''f''] stat0 demo_init) \<ge> 0 \<and> n = lookup_name [''f''] \<and> k \<in> set (butlast [''y'', ''f''])"
      "\<forall>k. live_name s k \<longleftrightarrow> live_name demo_init k \<or> length [''y'', ''f''] \<le> 2 \<and> k = lookup_name (butlast [''y'', ''f'']) \<or>
        fst (lookup_spec demo_os [''f''] stat0 demo_init) \<ge> 0 \<and> k \<in> set (butlast [''y'', ''f''])"
      "realdirpath s = realdirpath demo_init"
      "fst (lookup_spec demo_os [''f''] stat0 demo_init) \<ge> 0 \<longrightarrow> file_get (lookup_name [''f'']) s \<noteq> None"
      using tag_link_inv [OF demo_components(1,2) inv, of demo_os] by blast
    then show thesis
      by (intro that [of s]) (simp_all add: demo_lookup lookup_name_def demo_root)
  qed
  have "step demo_os demo_init (Link [''f''] [''y'', ''f'']) (Ret 0) s"
    by (rule step.step) (simp_all add: s(1) guard_def)
  then have "reachable demo_os s" by (rule reachable.next_state [OF demo_reachable])
  moreover have "\<not> tagged demo_init n k" for n k by (simp add: tagged_def demo_init_def fs_init_def)
  ultimately show ?thesis using s by (intro exI [of _ s]) auto
qed

subsection \<open>Safety and consistency\<close>





text \<open>
  Why the requests have to be orderly: a directory opened below the unused name \<^verbatim>\<open>n\<close> keeps a struct for \<^verbatim>\<open>n\<close> that is
  not in use. A lookup takes it out of the table, a \<^verbatim>\<open>link\<close> makes \<^verbatim>\<open>n\<close> a tag with a struct of its own, and the release of the
  directory removes that new struct from the table by name. Then \<^verbatim>\<open>f\<close> has the tag \<^verbatim>\<open>n\<close>, the table of tags has not,
  and \<^verbatim>\<open>unlink\<close> of the file below \<^verbatim>\<open>n\<close> is undefined, although every request before was answered with success.
\<close>

definition unused_requests :: "request list" where
  "unused_requests = [Link [''f''] [''y'', ''f''], Getattr [''n'', ''y''], Opendir [''n'', ''y''] 0, Getattr [''n'', ''f''],
     Link [''f''] [''n'', ''f''], Release 0]"

lemma opendir_below_unused_breaks:
  "map_option length (replies (run_all demo_os unused_requests demo_init)) = Some 6 \<and>
   ''n'' \<in> set (keys (f_tags (the (fheap (demo_after unused_requests) 0)))) \<and>
   ''n'' \<notin> set (keys (tags (demo_after unused_requests))) \<and>
   run demo_os (Unlink [''n'', ''f'']) (demo_after unused_requests) = None"
proof (intro conjI)
  show "map_option length (replies (run_all demo_os unused_requests demo_init)) = Some 6" by code_simp
  show "''n'' \<in> set (keys (f_tags (the (fheap (demo_after unused_requests) 0))))" by code_simp
  show "''n'' \<notin> set (keys (tags (demo_after unused_requests)))" by code_simp
  show "run demo_os (Unlink [''n'', ''f'']) (demo_after unused_requests) = None" by code_simp
qed

subsection \<open>The operations on the relation of files and tags\<close>







text \<open>
  C6. A lookup (\<^verbatim>\<open>getattr\<close>) answers: the attributes of the real file if it exists and carries all
  tags of its directory, \<^verbatim>\<open>ENOENT\<close> if it misses one, and the attributes of the root directory if
  no such file exists; it changes neither tags in use nor the relation.
\<close>
theorem getattr_answer:
  assumes "reachable os s" and "components cs"
  shows "\<exists>s'. run os (Getattr cs) s =
      Some (RetStat (fst (lookup_spec os cs stat0 s)) (snd (lookup_spec os cs stat0 s)), s') \<and>
    tagged s' = tagged s \<and> live_name s' = live_name s"
proof -
  obtain s' where "tag_getattr os (path_of cs) stat0 s = Some (lookup_spec os cs stat0 s, s')" "refined s s'"
    using tag_getattr_inv [OF assms(2) reachable_inv [OF assms(1)], of os stat0] by blast
  then show ?thesis by (simp add: split_beta refined_def)
qed

theorem getattr_answer_witness:
  "\<exists>s'. run demo_os (Getattr [''f'']) demo_init = Some (RetStat 0 (stat0\<lparr>st_mode := 0x81A4\<rparr>), s')"
  using getattr_answer [OF demo_reachable demo_components(1)] unfolding demo_lookup by auto

text \<open>
  \<^verbatim>\<open>opendir\<close> succeeds on the root and on a directory whose last component is a tag in use, and
  answers \<^verbatim>\<open>ENOENT\<close> otherwise; a listing of the open directory later shows its own tags.
\<close>
theorem opendir_answer:
  assumes "reachable os s" and "components cs"
  shows "\<exists>s'. run os (Opendir cs flags) s =
      Some (if cs = [] \<or> live_name s (last cs) then RetFd 0 (Some (dnext s)) else RetFd (- ENOENT) None, s') \<and>
    tagged s' = tagged s \<and> live_name s' = live_name s"
proof -
  obtain sel s1 t where sl: "selects sel [] s s1" and run: "tag_open_dir os (path_of cs) flags s =
    Some (if opendir_ok cs s
      then ((0, Some (dnext s)), s1\<lparr>dheap := (dheap s1)(dnext s1 \<mapsto> fd_of (path_obj s cs sel) True (TagObj t) (-1)),
          dnext := Suc (dnext s1)\<rparr>)
      else ((- ENOENT, None), s1))"
    using tag_open_dir_runs [OF assms(2) reachable_inv [OF assms(1)]] by blast
  have c1: "core s1 = core s" using sl by (simp add: selects_def)
  have "tagged s1 = tagged s" "live_name s1 = live_name s"
    using same_files_tagged [OF core_same_files [OF c1]] live_name_core_eq [OF c1] by auto
  with run show ?thesis by (auto simp: opendir_ok_def tagged_def live_name_def fun_eq_iff)
qed

theorem opendir_answer_witness:
  "\<exists>s s'. live_name s ''y'' \<and> run demo_os (Opendir [''y''] 0) s = Some (RetFd 0 (Some (dnext s)), s')"
proof -
  obtain s where s: "reachable demo_os s" "\<forall>n k. tagged s n k \<longleftrightarrow> n = ''f'' \<and> k = ''y''" "live_name s ''y''"
    "file_get ''f'' s \<noteq> None" "realdirpath s = ''/r''" "world s = ()"
    using demo_linked by (elim exE conjE) (rule that)
  from opendir_answer [OF s(1) demo_components(4), of 0] s(3) show ?thesis by auto
qed

text \<open>
  C7. A listing of an open descriptor shows \<^verbatim>\<open>.\<close> and \<^verbatim>\<open>..\<close>; then, at the root, every tag in use
  (the youngest first), and in a tag directory whose tags are still in the table each further
  tag that some file has together with all of them, once; then the names of the real directory
  that a lookup under this directory finds.
\<close>
theorem readdir_lists:
  assumes "reachable os s" and "bounded s" and "dheap s d = Some fd"
    and "\<forall>k t. (k, t) \<in> set (p_selected_tags (fd_path fd)) \<longrightarrow> sole_owner s k t"
  shows "\<exists>names s'. run os (Readdir d) s = Some (RetNames 0 ([''.'', ''..''] @ names @
      [n. (n, dir) \<leftarrow> os_readdir os (world s), \<not> dir \<and> listed os (fd_path fd) s n]), s') \<and>
    (p_selected_tags (fd_path fd) = [] \<longrightarrow> names = rev (keys (live_tags s))) \<and>
    (p_selected_tags (fd_path fd) \<noteq> [] \<longrightarrow> distinct names \<and>
      set names = {k. k \<notin> set (keys (p_selected_tags (fd_path fd))) \<and>
        (\<exists>n. tagged s n k \<and> (\<forall>j\<in>set (keys (p_selected_tags (fd_path fd))). tagged s n j))}) \<and>
    tagged s' = tagged s"
proof -
  have inv: "fs_inv s" by (rule reachable_inv [OF assms(1)])
  then have i: "op_inv [] s" by (simp add: fs_inv_def)
  have b: "length (tags s) + 2 < 2 ^ 32" using assms(2) by (simp add: bounded_def)
  have used: "sel_used (p_selected_tags (fd_path fd)) s" by (rule fds_used [OF op_inv_parts(8) [OF i] assms(3)])
  from tag_readdir_inv [OF inv assms(3) b, of os] obtain names s' where r: "tag_readdir os d s = Some ((0, [''.'', ''..''] @ names @
      [n. (n, dir) \<leftarrow> os_readdir os (world s), \<not> dir \<and> listed os (fd_path fd) s n]), s')"
    "files_grow s s'" "p_selected_tags (fd_path fd) = [] \<longrightarrow> names = rev (keys (live_tags s))"
    "p_selected_tags (fd_path fd) \<noteq> [] \<longrightarrow> distinct names \<and> set names = further_tags s (p_selected_tags (fd_path fd))"
    by blast
  show ?thesis
    using r(1,3,4) further_tags_own [OF i used assms(4)] files_growD(6) [OF r(2)]
    by (intro exI [of _ names] exI [of _ s']) simp
qed

theorem readdir_lists_witness:
  "\<exists>s'. run demo_os (Readdir 0) (demo_after [Link [''f''] [''y'', ''f''], Opendir [''y''] 0]) =
     Some (RetNames 0 [''.'', ''..'', ''f''], s') \<and>
     tagged s' = tagged (demo_after [Link [''f''] [''y'', ''f''], Opendir [''y''] 0])"
proof -
  let ?reqs = "[Link [''f''] [''y'', ''f''], Opendir [''y''] 0]"
  let ?s = "demo_after ?reqs"
  let ?fd = "the (dheap ?s 0)"
  have g: "guards demo_os ?reqs demo_init" by code_simp
  have b: "bounded ?s" by code_simp
  have "dheap ?s 0 \<noteq> None" by code_simp
  then have d: "dheap ?s 0 = Some ?fd" by simp
  have sel: "p_selected_tags (fd_path ?fd) = [(''y'', TagAt 0)]" "tags ?s = [(''y'', TagAt 0)]" by code_simp+
  have own: "\<forall>k t. (k, t) \<in> set (p_selected_tags (fd_path ?fd)) \<longrightarrow> sole_owner ?s k t"
    by (simp add: sel sole_owner_def)
  from readdir_lists [OF demo_after_reachable [OF g] b d own] obtain names s' where
    "run demo_os (Readdir 0) ?s = Some (RetNames 0 names, s')" "tagged s' = tagged ?s" by blast
  moreover have "fst (the (run demo_os (Readdir 0) ?s)) = RetNames 0 [''.'', ''..'', ''f'']" by code_simp
  ultimately show ?thesis by (intro exI [of _ s']) simp
qed

end
