(* ===== verification/Fuse_Report.thy ===== *)
theory Fuse_Report
  imports Fuse_Props
begin

text \<open>
  What the \<^verbatim>\<open>fuse\<close> file system tells about its tags: the attribute \<^verbatim>\<open>tags\<close>, the tag file, poll
  events, and the database that a later mount reads back.
\<close>

text \<open>
  C9. The attribute \<^verbatim>\<open>tags\<close> of a file that a lookup finds is the list of exactly its tags, each
  once, separated by single spaces and cut at the buffer's size; the answer is its full length.
\<close>
theorem getxattr_tags:
  assumes "reachable os s" and "components cs"
    and "fst (lookup_spec os cs stat0 s) = 0" and "\<not> S_ISDIR (st_mode (snd (lookup_spec os cs stat0 s)))"
  shows "\<exists>ks s'. run os (Getxattr cs ''tags'' v sz) s =
      Some (RetBuf (int (length (join ks))) (strncpy v (join ks) sz), s') \<and>
    set ks = {k. tagged s (lookup_name cs) k} \<and> distinct ks"
proof -
  obtain r s' where "tag_getxattr os (path_of cs) ''tags'' v sz s = Some (r, s')"
    "\<exists>ks. (\<forall>k. k \<in> set ks \<longleftrightarrow> tagged s (lookup_name cs) k) \<and> distinct ks \<and>
      r = (int (length (join ks)), strncpy v (join ks) sz)"
    using getxattr_inv [OF assms(2) reachable_inv [OF assms(1)], of os "''tags''" v sz] assms(3,4) by blast
  then show ?thesis by auto
qed

theorem getxattr_tags_witness:
  "\<exists>s'. run demo_os (Getxattr [''f''] ''tags'' ''------'' 4) (demo_after [Link [''f''] [''y'', ''z'', ''f'']]) =
     Some (RetBuf 3 (''y z'' @ [CHR 0x00] @ ''--''), s')"
proof -
  let ?reqs = "[Link [''f''] [''y'', ''z'', ''f'']]"
  let ?s = "demo_after ?reqs"
  have g: "guards demo_os ?reqs demo_init" by code_simp
  have r: "realdirpath ?s = ''/r''" by code_simp
  have l: "lookup_spec demo_os [''f''] stat0 ?s = (0, stat0\<lparr>st_mode := 0x81A4\<rparr>)"
    using demo_stat [OF r demo_paths(1,3)] by (simp add: lookup_spec_def demo_not_dir lookup_name_def TAG_FILENAME_def)
  have ok: "fst (lookup_spec demo_os [''f''] stat0 ?s) = 0" "\<not> S_ISDIR (st_mode (snd (lookup_spec demo_os [''f''] stat0 ?s)))"
    unfolding l by (simp_all add: demo_not_dir)
  from getxattr_tags [OF demo_after_reachable [OF g] demo_components(1) ok, of "''------''" 4] obtain ks s' where
    "run demo_os (Getxattr [''f''] ''tags'' ''------'' 4) ?s =
      Some (RetBuf (int (length (join ks))) (strncpy ''------'' (join ks) 4), s')" by blast
  moreover have "fst (the (run demo_os (Getxattr [''f''] ''tags'' ''------'' 4) ?s)) =
      RetBuf 3 (''y z'' @ [CHR 0x00] @ ''--'')" by code_simp
  ultimately show ?thesis by (intro exI [of _ s']) simp
qed

text \<open>
  C10. Reading the tag file at an offset gives the bytes of the dump from there on, padded with
  null characters; the dump is the sections of the files, and these are the relation.
\<close>
theorem read_tag_file_bytes:
  assumes "reachable os s" and "bounded s" and "dheap s d = Some fd" and "fd_is_tag_file fd" and "off \<ge> 0"
    and "length buf = len"
  shows "\<exists>D bytes. run os (Read d buf len off) s =
      Some (RetBuf (int (length bytes)) (bytes @ replicate (len - length bytes) (CHR 0x00)), s) \<and>
    bytes = take len (drop (nat off) (concat (map section_text D))) \<and>
    distinct (map fst D) \<and> (\<forall>n k. tagged s n k \<longleftrightarrow> (\<exists>ks. (n, ks) \<in> set D \<and> k \<in> set ks))"
proof -
  have i: "op_inv [] s" using reachable_inv [OF assms(1)] by (simp add: fs_inv_def)
  note ok = op_inv_parts(2) [OF i]
  let ?bytes = "take len (drop (nat off) (concat (map section_text (sections s))))"
  have "read_tag_file buf len off s =
      Some (int (length ?bytes), ?bytes @ replicate (len - length ?bytes) (CHR 0x00) @ drop len buf)"
    using assms(5) by (simp add: read_tag_file_eq [OF i assms(2)] Let_def)
  then have "run os (Read d buf len off) s =
      Some (RetBuf (int (length ?bytes)) (?bytes @ replicate (len - length ?bytes) (CHR 0x00)), s)"
    using assms(3,4,6) by (simp add: tag_read_def)
  with sections_tagged [OF ok] distinct_sections [OF ok] show ?thesis
    by (intro exI [of _ "sections s"] exI [of _ ?bytes]) simp
qed

theorem read_tag_file_bytes_witness:
  "run demo_os (Read 0 ''-------------'' 13 2)
       (demo_after [Link [''f''] [''y'', ''f''], Getattr [''.tags''], Open [''.tags''] 0]) =
     Some (RetBuf 5 ('']'' @ [newline] @ ''y'' @ [newline, newline] @ replicate 8 (CHR 0x00)),
       demo_after [Link [''f''] [''y'', ''f''], Getattr [''.tags''], Open [''.tags''] 0])"
proof -
  let ?reqs = "[Link [''f''] [''y'', ''f''], Getattr [''.tags''], Open [''.tags''] 0]"
  let ?s = "demo_after ?reqs"
  have g: "guards demo_os ?reqs demo_init" by code_simp
  have b: "bounded ?s" by code_simp
  have "dheap ?s 0 \<noteq> None" and tf: "fd_is_tag_file (the (dheap ?s 0))" by code_simp+
  then have d: "dheap ?s 0 = Some (the (dheap ?s 0))" by simp
  have off: "(2::int) \<ge> 0" and len: "length ''-------------'' = 13" by simp_all
  from read_tag_file_bytes [OF demo_after_reachable [OF g] b d tf off len] obtain r where
    "run demo_os (Read 0 ''-------------'' 13 2) ?s = Some (r, ?s)" by blast
  moreover have "fst (the (run demo_os (Read 0 ''-------------'' 13 2) ?s)) =
      RetBuf 5 ('']'' @ [newline] @ ''y'' @ [newline, newline] @ replicate 8 (CHR 0x00))" by code_simp
  ultimately show ?thesis by simp
qed

text \<open>
  C8. Persistence: the database dumped from a state, read by the next mount of the same
  directory, gives the same relation of files and tags, if every name fits a line of the file.
\<close>
theorem dump_mount_roundtrip:
  assumes "reachable os s" and "bounded s"
    and names: "\<forall>n k. tagged s n k \<longrightarrow> component n \<and> file_text n \<and> tag_text k"
    and root: "os_stat os root w = Inr st"
  shows "\<exists>db s'. save_tag_db s = Some (tagdbpath s @ ''.new'', db) \<and>
    set_root_directory os path root (Some db) w = Some s' \<and> tagged s' = tagged s"
proof -
  have i: "op_inv [] s" using reachable_inv [OF assms(1)] by (simp add: fs_inv_def)
  note ok = op_inv_parts(2) [OF i]
  let ?s0 = "fs_init root (append_dir path TAG_FILENAME) w"
  let ?D = "filter (\<lambda>e. snd e \<noteq> []) (sections s)"
  have D: "concat (map section_text (sections s)) = concat (map section_text ?D)"
    by (rule concat_nonempty_sections)
  have "\<forall>(n, ks)\<in>set ?D. component n \<and> file_text n \<and> (\<forall>k\<in>set ks. tag_text k)"
  proof (rule ballI, clarify)
    fix n ks assume "(n, ks) \<in> set ?D"
    then have m: "(n, ks) \<in> set (sections s)" and "hd ks \<in> set ks" by auto
    then have "tagged s n (hd ks)" "\<forall>k\<in>set ks. tagged s n k" using sections_tagged [OF ok] by blast+
    with names show "component n \<and> file_text n \<and> (\<forall>k\<in>set ks. tag_text k)" by blast
  qed
  moreover have "op_inv [] ?s0" using fs_inv_init by (simp add: fs_inv_def)
  moreover have "\<exists>st. os_stat os (realdirpath ?s0) (world ?s0) = Inr st" using root by (simp add: fs_init_def)
  ultimately obtain s' where s': "parse_tags_db (Some (concat (map section_text ?D))) (getattr_callback os) ?s0 = Some s'"
    "\<forall>m j. tagged s' m j \<longleftrightarrow> tagged ?s0 m j \<or> (\<exists>ks. (m, ks) \<in> set ?D \<and> j \<in> set ks)"
    using startup.parse_dump [of ?s0 os ?D] by blast
  have "\<not> tagged ?s0 m j" for m j by (simp add: tagged_def fs_init_def)
  moreover have "tagged s m j \<longleftrightarrow> (\<exists>ks. (m, ks) \<in> set ?D \<and> j \<in> set ks)" for m j
    using sections_tagged [OF ok, of m j] by auto
  ultimately have "tagged s' = tagged s" using s'(2) by (simp add: fun_eq_iff)
  moreover have "tag_db_dump s = Some (concat (map section_text ?D))"
    using tag_db_dump_eq [OF i] assms(2) D by (simp add: bounded_def)
  ultimately show ?thesis using s'(1)
    by (intro exI [of _ "concat (map section_text ?D)"] exI [of _ s']) (simp add: save_tag_db_def set_root_directory_def)
qed

theorem dump_mount_roundtrip_witness:
  "\<exists>db s'. save_tag_db (demo_after [Link [''f''] [''y'', ''f'']]) = Some (''/r/.tags.new'', db) \<and>
     db = ''[f]'' @ [newline] @ ''y'' @ [newline, newline] \<and>
     set_root_directory demo_os ''/r'' ''/r'' (Some db) () = Some s' \<and> tagged s' ''f'' ''y''"
proof -
  let ?reqs = "[Link [''f''] [''y'', ''f'']]"
  let ?s = "demo_after ?reqs"
  have g: "guards demo_os ?reqs demo_init" by code_simp
  have b: "bounded ?s" by code_simp
  have "sections ?s = [(''f'', [''y''])]" by code_simp
  from demo_tagged [OF g, unfolded this] have t: "tagged ?s n k \<longleftrightarrow> n = ''f'' \<and> k = ''y''" for n k by auto
  have "file_text ''f''" "tag_text ''y''" by (simp_all add: file_text_def tag_text_def plain_line_def isspace_def)
  then have names: "\<forall>n k. tagged ?s n k \<longrightarrow> component n \<and> file_text n \<and> tag_text k" by (simp add: t)
  have root: "os_stat demo_os ''/r'' () = Inr (stat0\<lparr>st_mode := 0x41ED\<rparr>)" by (simp add: demo_os_def)
  from dump_mount_roundtrip [OF demo_after_reachable [OF g] b names root, of "''/r''"] obtain db s' where
    "save_tag_db ?s = Some (tagdbpath ?s @ ''.new'', db)"
    "set_root_directory demo_os ''/r'' ''/r'' (Some db) () = Some s'" "tagged s' = tagged ?s" by blast
  moreover have "save_tag_db ?s = Some (''/r/.tags.new'', ''[f]'' @ [newline] @ ''y'' @ [newline, newline])"
    by code_simp
  ultimately show ?thesis using t by auto
qed

subsection \<open>Events and ioctl\<close>

text \<open>
  \<^verbatim>\<open>poll\<close> on an open file answers the events collected since the last poll and clears them: a
  second poll answers none.
\<close>
theorem poll_reports_once:
  assumes "reachable os s" and fd: "dheap s d = Some fd" "\<not> fd_is_tag fd"
  shows "\<exists>f x s'. fheap s f = Some x \<and> run os (Poll d ph) s = Some (RetPoll 0 (f_revents x), s') \<and>
    (\<exists>s''. run os (Poll d ph') s' = Some (RetPoll 0 0, s''))"
proof -
  from poll_inv [OF reachable_inv [OF assms(1)] fd, of ph] obtain f x s' where
    s': "fd_object fd = FileObj (Some f)" "fheap s f = Some x" "tag_poll d ph s = Some ((0, f_revents x), s')"
      "fs_inv s'" "fheap s' f = Some (x\<lparr>f_revents := 0\<rparr>)" by blast
  obtain fd' where fd': "dheap s' d = Some fd'" "fd_object fd' = FileObj (Some f)" "\<not> fd_is_tag fd'"
    using s'(2,3) fd s'(1) by (cases "fd_ph fd") (auto simp: tag_poll_def fd_upd_def file_upd_def split: fd_object.splits)
  from poll_inv [OF s'(4) fd'(1,3), of ph'] fd'(2) s'(5) obtain s'' where
    "tag_poll d ph' s' = Some ((0, 0), s'')" by auto
  with s' show ?thesis by (intro exI [of _ f] exI [of _ x] exI [of _ s']) simp
qed

theorem poll_reports_once_witness:
  "\<exists>s'. run demo_os (Poll 0 None)
       (demo_after [Getattr [''f''], Open [''f''] 0, Poll 0 (Some 7), Link [''f''] [''y'', ''f'']]) =
     Some (RetPoll 0 POLLIN, s') \<and> (\<exists>s''. run demo_os (Poll 0 None) s' = Some (RetPoll 0 0, s''))"
proof -
  let ?reqs = "[Getattr [''f''], Open [''f''] 0, Poll 0 (Some 7), Link [''f''] [''y'', ''f'']]"
  have g: "guards demo_os ?reqs demo_init" by code_simp
  let ?fd = "the (dheap (demo_after ?reqs) 0)"
  have "dheap (demo_after ?reqs) 0 \<noteq> None" by code_simp
  then have d: "dheap (demo_after ?reqs) 0 = Some ?fd" by simp
  have n: "\<not> fd_is_tag ?fd" by code_simp
  obtain x :: tfile and s' where
    "run demo_os (Poll 0 None) (demo_after ?reqs) = Some (RetPoll 0 (f_revents x), s')"
    "\<exists>s''. run demo_os (Poll 0 None) s' = Some (RetPoll 0 0, s'')"
    using poll_reports_once [OF demo_after_reachable [OF g] d n, of None] by blast
  moreover have "fst (the (run demo_os (Poll 0 None) (demo_after ?reqs))) = RetPoll 0 POLLIN" by code_simp
  ultimately show ?thesis by (intro exI [of _ s']) simp
qed

text \<open>
  C11. The ioctl that reads the tags of an open file answers 0 with exactly its tags in the
  buffer, \<open>ENOENT\<close> for an unknown one, and in the first case always writes the byte behind the
  buffer.
\<close>
theorem ioctl_tags:
  assumes "reachable os s" and "dheap s d = Some fd" and "\<not> fd_is_tag fd" and "\<not> fd_is_tag_file fd"
    and "flags AND FUSE_IOCTL_COMPAT = 0"
  shows "\<exists>r data'. run os (Ioctl d TAG_IOC_READ_TAGS flags data) s = Some (RetIoctl r data', s) \<and>
    (file_get (p_filename (fd_path fd)) s = None \<longrightarrow> r = - ENOENT \<and> data' = data) \<and>
    (file_get (p_filename (fd_path fd)) s \<noteq> None \<longrightarrow> r = 0 \<and> io_behind data' = Some (CHR 0x00) \<and>
      (\<exists>ks. set ks = {k. tagged s (p_filename (fd_path fd)) k} \<and> distinct ks \<and>
        io_buf data' = strncpy (io_buf data) (join ks) BUFSIZE \<and>
        io_size data' = min (length (join ks)) BUFSIZE))"
proof (cases "file_get (p_filename (fd_path fd)) s")
  case None
  with assms(2-5) show ?thesis by (simp add: tag_ioctl_def ioctl_read_tags_def)
next
  case (Some f)
  have i: "op_inv [] s" using reachable_inv [OF assms(1)] by (simp add: fs_inv_def)
  note ok = op_inv_parts [OF i]
  obtain x where x: "fheap s f = Some x" "f_name x = p_filename (fd_path fd)" by (rule file_get_SomeD [OF i Some])
  let ?ks = "keys (f_tags x)"
  from x(2) have "set ?ks = {k. tagged s (p_filename (fd_path fd)) k}" using tagged_file [OF ok(2) x(1)] by simp
  moreover have "distinct ?ks" using ok(3) x(1) by (simp add: ftags_ok_def)
  moreover have "run os (Ioctl d TAG_IOC_READ_TAGS flags data) s =
      Some (RetIoctl 0 (ioctl_fill (join ?ks) (int (length (join ?ks))) data), s)"
    using assms(2-5) Some file_get_tags_string_eq [OF ok(3) x(1)]
    by (simp add: tag_ioctl_def ioctl_read_tags_def)
  ultimately show ?thesis using Some
    by (intro exI [of _ 0] exI [of _ "ioctl_fill (join ?ks) (int (length (join ?ks))) data"])
      (auto simp: ioctl_fill_def Let_def intro!: exI [of _ ?ks])
qed

theorem ioctl_tags_witness:
  "\<exists>data'. run demo_os (Ioctl 0 TAG_IOC_READ_TAGS 0 \<lparr>io_size = 0, io_off = 0, io_buf = [], io_behind = None\<rparr>)
       (demo_after [Getattr [''f''], Open [''f''] 0]) =
     Some (RetIoctl 0 data', demo_after [Getattr [''f''], Open [''f''] 0]) \<and> io_behind data' = Some (CHR 0x00)"
proof -
  let ?reqs = "[Getattr [''f''], Open [''f''] 0]"
  let ?s = "demo_after ?reqs"
  let ?data = "\<lparr>io_size = 0, io_off = 0, io_buf = [], io_behind = None\<rparr>"
  let ?fd = "the (dheap ?s 0)"
  have g: "guards demo_os ?reqs demo_init" by code_simp
  have "dheap ?s 0 \<noteq> None" by code_simp
  then have d: "dheap ?s 0 = Some ?fd" by simp
  have n: "\<not> fd_is_tag ?fd" "\<not> fd_is_tag_file ?fd" and k: "file_get (p_filename (fd_path ?fd)) ?s \<noteq> None"
    by code_simp+
  have "(0::32 word) AND FUSE_IOCTL_COMPAT = 0" by simp
  from ioctl_tags [OF demo_after_reachable [OF g] d n this, of ?data] k show ?thesis by auto
qed

subsection \<open>What the code gets wrong\<close>

lemma path_unlink_new_tag:
  assumes inv: "op_inv [] s" and f: "file_get n s = Some f" and k: "k \<notin> set (keys (tags s))"
    and p: "p_filename p = n" "p_selected_tags p = [(k, TagAt (tnext s))]"
  shows "\<exists>s'. path_unlink p (new_tag_state k False s) = Some (0, s') \<and> theap s' (TagAt (tnext s)) = None"
proof -
  let ?s = "new_tag_state k False s" and ?t = "TagAt (tnext s)"
  have t: "theap ?s ?t = Some \<lparr>t_value = k, t_files = [], in_use = False, ref_count = 1\<rparr>" by (simp add: new_tag_state_def)
  obtain x where "fheap s f = Some x" by (rule file_get_SomeD [OF inv f])
  then have x: "fheap ?s f = Some x" by (simp add: new_tag_state_def)
  have "desc_ok ?s" using op_inv_parts(6) [OF new_tag_inv [OF inv _ k, of False]] by simp
  from untag_file_effect [OF t x this] obtain s1 where s1: "untag_file ?t f ?s = Some s1"
    "theap s1 ?t = Some \<lparr>t_value = k, t_files = [], in_use = False, ref_count = 1\<rparr>"
    by (auto simp: ht_remove_entry_def ht_find_def)
  from tag_remove_effect [OF s1(2)] obtain s2 where "tag_remove ?t s1 = Some s2" "theap s2 ?t = None" by simp
  moreover have "file_get n ?s = Some f" using f by (simp add: new_tag_state_def file_get_def)
  ultimately show ?thesis using s1 p by (simp add: path_unlink_def ht_entry_count_def)
qed

text \<open>
  C12. \<^verbatim>\<open>unlink\<close> of a known file in a directory that is not a tag, for example one whose tag went away after the path was looked up,
  runs into freed memory, in every reachable state: the tag created for the path is
  freed by \<^verbatim>\<open>path_unlink\<close> and used again by \<^verbatim>\<open>path_delete\<close>.
\<close>
theorem unlink_unknown_tag_faults:
  assumes "reachable os s" and cs: "components [k, n]" and k: "k \<notin> set (keys (tags s))" and "file_get n s = Some f"
  shows "run os (Unlink [k, n]) s = None"
proof -
  let ?p = "path_obj s [k, n] [(k, TagAt (tnext s))]"
  have i: "op_inv [] s" using reachable_inv [OF assms(1)] by (simp add: fs_inv_def)
  have p: "p_filename ?p = n" "p_selected_tags ?p = [(k, TagAt (tnext s))]" by (simp_all add: path_obj_def)
  obtain s' where "path_unlink ?p (new_tag_state k False s) = Some (0, s')" "theap s' (TagAt (tnext s)) = None"
    using path_unlink_new_tag [OF i assms(4) k p] by blast
  moreover from this(2) have "path_delete ?p s' = None" by (simp add: path_delete_def free_selected_tags_def p(2))
  moreover have "get_character_count (path_of [k, n]) slash = 2" using count_slashes_path [OF cs] by simp
  ultimately show ?thesis by (simp add: tag_unlink_def path_create_new_tag [OF cs k])
qed

theorem unlink_unknown_tag_faults_witness:
  "run demo_os (Unlink [''y'', ''f'']) (demo_after [Getattr [''f'']]) = None"
proof -
  have g: "guards demo_os [Getattr [''f'']] demo_init" by code_simp
  have "file_get ''f'' (demo_after [Getattr [''f'']]) \<noteq> None" by code_simp
  then obtain f where f: "file_get ''f'' (demo_after [Getattr [''f'']]) = Some f" by blast
  have "''y'' \<notin> set (keys (tags (demo_after [Getattr [''f'']])))" by code_simp
  then show ?thesis by (rule unlink_unknown_tag_faults [OF demo_after_reachable [OF g] demo_components(2) _ f])
qed

text \<open>
  C13. A hard link of a file at the root gives it no tag but makes a tag with the name of the root
  directory, which the root then lists; and \<^verbatim>\<open>open\<close> of a file that no request has named before reads a
  null pointer.
\<close>
theorem root_link_and_first_open:
  assumes "reachable os s" and "components cs" and "component m"
    and found: "fst (lookup_spec os cs stat0 s) = 0"
    and opened: "os_open os (path_realpath s (path_of ds)) flags (world s) = (Inr fh, w)"
    and new: "components ds" "file_get (lookup_name ds) s = None"
  shows "(\<exists>s'. run os (Link cs [m]) s = Some (Ret 0, s') \<and> tagged s' = tagged s \<and> live_name s' ''/'') \<and>
    run os (Open ds flags) s = None"
proof
  have inv: "fs_inv s" by (rule reachable_inv [OF assms(1)])
  then have i: "op_inv [] s" by (simp add: fs_inv_def)
  have m: "components [m]" using assms(3) by simp
  from tag_link_inv [OF assms(2) m inv, of os] found obtain s' where
    "tag_link os (path_of cs) (path_of [m]) s = Some (0, s')" "\<forall>n k. tagged s' n k \<longleftrightarrow> tagged s n k"
    "\<forall>k. live_name s' k \<longleftrightarrow> live_name s k \<or> k = ''/''" by (auto simp: lookup_name_def)
  then show "\<exists>s'. run os (Link cs [m]) s = Some (Ret 0, s') \<and> tagged s' = tagged s \<and> live_name s' ''/''"
    by (auto simp: fun_eq_iff)
  obtain sel s1 where s1: "path_create (path_of ds) False s = Some (path_obj s ds sel, s1)" "core s1 = core s"
    using path_create_inv [OF new(1) i, of False] by (auto simp: selects_def)
  have same: "world s1 = world s" "files s1 = files s" using core_eqD [OF s1(2)] by simp_all
  then have "file_get (p_filename (path_obj s ds sel)) s1 = None" using new(2) by (simp add: path_obj_filename file_get_def)
  with s1(1) opened same show "run os (Open ds flags) s = None"
    by (simp add: tag_open_file_def tag_open_def fd_open_def fd_new_def file_add_descriptor_def file_get_def split_beta)
qed

theorem root_link_and_first_open_witness:
  "(\<exists>s'. run demo_os (Link [''f''] [''z'']) demo_init = Some (Ret 0, s') \<and> live_name s' ''/'') \<and>
   run demo_os (Open [''f''] 0) demo_init = None"
proof -
  have o: "os_open demo_os (path_realpath demo_init (path_of [''f''])) 0 (world demo_init) = (Inr 3, ())"
    by code_simp
  have n: "file_get (lookup_name [''f'']) demo_init = None" by code_simp
  have l: "fst (lookup_spec demo_os [''f''] stat0 demo_init) = 0" by (simp add: demo_lookup)
  show ?thesis
    using root_link_and_first_open [OF demo_reachable demo_components(1) demo_component(3) l o demo_components(1) n] by blast
qed

text \<open>
  The release of a directory answers the error of \<^verbatim>\<open>close(-1)\<close>, and the operations on the
  real file answer -1 (\<open>- EPERM\<close>) whatever the error of the system call was.
\<close>
theorem real_file_errors:
  "(os_chmod os (path_realpath s (path_of p)) mode (world s) = (Inl e, w) \<longrightarrow>
      run os (Chmod p mode) s = Some (Ret (- EPERM), s\<lparr>world := w\<rparr>)) \<and>
   (os_chown os (path_realpath s (path_of p)) uid gid (world s) = (Inl e, w) \<longrightarrow>
      run os (Chown p uid gid) s = Some (Ret (- EPERM), s\<lparr>world := w\<rparr>)) \<and>
   (os_utimens os (path_realpath s (path_of p)) tb (world s) = (Inl e, w) \<longrightarrow>
      run os (Utime p tb) s = Some (Ret (- EPERM), s\<lparr>world := w\<rparr>)) \<and>
   replies (run_all demo_os [Opendir [] 0, Release 0] demo_init) = Some [RetFd 0 (Some 0), Ret (- EBADF)]"
proof (intro conjI impI)
  show "replies (run_all demo_os [Opendir [] 0, Release 0] demo_init) = Some [RetFd 0 (Some 0), Ret (- EBADF)]"
    by code_simp
qed (simp_all add: tag_chmod_def tag_chown_def tag_utime_def EPERM_def)

theorem real_file_errors_witness:
  "run (demo_os\<lparr>os_chmod := \<lambda>p m w. (Inl 30, w)\<rparr>) (Chmod [''f''] 0) demo_init = Some (Ret (- EPERM), demo_init)"
  using real_file_errors [THEN conjunct1, THEN mp, of "demo_os\<lparr>os_chmod := \<lambda>p m w. (Inl 30, w)\<rparr>" demo_init "[''f'']" 0 30 "()"]
  by simp

end
