(* ===== verification/Ll_Props.thy ===== *)
theory Ll_Props
  imports Ll_Dir Fuse_Report
begin

text \<open>
  The properties of \<^verbatim>\<open>fuse_lowlevel\<close> over its reachable states (\<open>ll_reach\<close>), each with a run on a
  small concrete system where it has hypotheses.
\<close>

subsection \<open>A concrete system\<close>

text \<open>
  The files of \<open>demo_os\<close>, a database that gives \<^verbatim>\<open>f\<close> the tag \<^verbatim>\<open>y\<close>, and directory entries that are
  the bare names.
\<close>

definition demo_lib :: fuse_lib where
  "demo_lib = \<lparr>direntry_size = length, direntry = (\<lambda>name ino off. name)\<rparr>"

definition demo_db :: cstring where
  "demo_db = ''[f]'' @ [newline] @ ''y'' @ [newline, newline]"

fun ll_run_all :: "'w os \<Rightarrow> fuse_lib \<Rightarrow> ll_request list \<Rightarrow> 'w ll \<Rightarrow> 'w ll option" where
  "ll_run_all os fl [] s = Some s"
| "ll_run_all os fl (req # reqs) s = do { s \<leftarrow> ll_run os fl req s; ll_run_all os fl reqs s }"

definition ll_demo :: "ll_request list \<Rightarrow> unit ll option" where
  "ll_demo reqs = do {
     s \<leftarrow> ll_tag_init demo_os (Some demo_db) (ll_static ''/r'' ());
     ll_run_all demo_os demo_lib reqs s
   }"

lemma run_all_reach: "ll_run_all os fl reqs s = Some s' \<Longrightarrow> ll_reach os fl db s \<Longrightarrow> ll_reach os fl db s'"
  by (induction reqs arbitrary: s) (auto elim!: bind_SomeE dest: ll_reach.request)

lemma demo_reach: "ll_demo reqs = Some s \<Longrightarrow> ll_reach demo_os demo_lib (Some demo_db) s"
  by (auto simp: ll_demo_def elim!: bind_SomeE intro: run_all_reach ll_reach.start)

text \<open>A condition on the state after these requests, in a form that computes.\<close>

definition demo_sat :: "ll_request list \<Rightarrow> (unit ll \<Rightarrow> bool) \<Rightarrow> bool" where
  "demo_sat reqs P = (case ll_demo reqs of None \<Rightarrow> False | Some s \<Rightarrow> P s)"

lemma demo_satD: "demo_sat reqs P \<Longrightarrow> \<exists>s. ll_reach demo_os demo_lib (Some demo_db) s \<and> ll_demo reqs = Some s \<and> P s"
  using demo_reach by (auto simp: demo_sat_def split: option.splits)

lemma tables_consistent_relation:
  "ll_reach os fl db s \<Longrightarrow> ll_tagged s n k \<longleftrightarrow> (\<exists>ks. (n, ks) \<in> set (ll_sections s) \<and> k \<in> set ks)"
  using reach_ok [of os fl db s] ll_sections_tagged ll_okD(1) by blast

definition inode_at :: "ino \<Rightarrow> 'w ll \<Rightarrow> inode option" where
  "inode_at number s = Option.bind (inode_get number s) (l_iheap s)"

lemma inode_atD: "inode_at number s = Some i \<Longrightarrow> \<exists>p. inode_get number s = Some p \<and> l_iheap s p = Some i"
  by (auto simp: inode_at_def elim: bind_SomeE)

definition inode_sat :: "ino \<Rightarrow> (inode \<Rightarrow> bool) \<Rightarrow> 'w ll \<Rightarrow> bool" where
  "inode_sat number P s = (case inode_at number s of None \<Rightarrow> False | Some i \<Rightarrow> P i)"

lemma inode_satD: "inode_sat number P s \<Longrightarrow> \<exists>i. inode_at number s = Some i \<and> P i"
  by (simp add: inode_sat_def split: option.splits)

text \<open>The relation of files and tags, read off the tables.\<close>

definition tagged_in :: "'w ll \<Rightarrow> cstring \<Rightarrow> cstring \<Rightarrow> bool" where
  "tagged_in s n k =
     (case Option.bind (ll_file_get n s) (l_fheap s) of None \<Rightarrow> False | Some x \<Rightarrow> ht_has_entry (lf_tags x) k)"

lemma tagged_in_iff:
  assumes "ll_reach os fl db s"
  shows "tagged_in s n k \<longleftrightarrow> ll_tagged s n k"
proof -
  obtain R where ok: "ll_ok R s" using reach_ok [OF assms] by blast
  show ?thesis
  proof (cases "ll_file_get n s")
    case None
    then have "n \<notin> set (keys (l_files s))" by (simp add: ll_file_get_def ht_get_entry_def ht_find_None_iff)
    moreover have "(n, f) \<in> set (l_files s)" if "l_fheap s f = Some x" "lf_name x = n" for f x
      using ll_okD(1) [OF ok] that unfolding ll_tables_def by blast
    ultimately have "\<not> ll_tagged s n k" unfolding ll_tagged_def by force
    with None show ?thesis by (simp add: tagged_in_def)
  next
    case (Some f)
    obtain x where x: "l_fheap s f = Some x" "lf_name x = n" using file_get_live [OF ok Some] by blast
    have "ll_tagged s n k \<longleftrightarrow> (\<exists>u. (k, u) \<in> set (lf_tags x))"
      using tagged_live [OF ll_okD(1) [OF ok] x(1), of k] by (simp add: x(2))
    also have "\<dots> \<longleftrightarrow> k \<in> set (keys (lf_tags x))" by force
    finally show ?thesis using Some x(1) by (simp add: tagged_in_def ht_has_entry_iff)
  qed
qed

subsection \<open>The protocol\<close>

lemma ioctl_answers:
  assumes "ll_tag_ioctl number cmd flags data s = Some s'"
  shows "\<exists>rs. l_replies s' = l_replies s @ rs \<and> rs \<noteq> [] \<and> length rs \<le> 3"
  using assms
  by (auto simp: ll_tag_ioctl_def ll_ioctl_read_tags_def Let_def elim!: bind_SomeE dest!: silent split: run_splits)

text \<open>
  Property C15. Every callback that ends has answered its request: once, except that \<^verbatim>\<open>ioctl\<close> answers
  up to three times because its first two checks do not return.
\<close>

theorem every_request_answered:
  assumes "ll_run os fl req s = Some s'"
  shows "\<exists>rs. l_replies s' = l_replies s @ rs \<and> rs \<noteq> [] \<and>
    length rs \<le> (case req of LIoctl number cmd flags data \<Rightarrow> 3 | _ \<Rightarrow> 1)"
proof (cases "\<exists>n cmd flags data. req = LIoctl n cmd flags data")
  case True
  then show ?thesis using assms ioctl_answers by fastforce
next
  case False
  with run_answers [OF assms] have "answered s s'" by blast
  then show ?thesis by (fastforce simp: answered_def split: ll_request.splits)
qed

theorem every_request_answered_witness:
  "\<exists>s s' rs. ll_run demo_os demo_lib (LIoctl 1 0 1 \<lparr>io_size = 0, io_off = 0, io_buf = [], io_behind = None\<rparr>) s = Some s' \<and>
     l_replies s' = l_replies s @ rs \<and> rs \<noteq> [] \<and> length rs \<le> 3"
proof -
  let ?req = "LIoctl 1 0 1 \<lparr>io_size = 0, io_off = 0, io_buf = [], io_behind = None\<rparr>"
  have "demo_sat [] (\<lambda>s. ll_run demo_os demo_lib ?req s \<noteq> None)" by code_simp
  from demo_satD [OF this] obtain s s' where s: "ll_run demo_os demo_lib ?req s = Some s'" by blast
  from every_request_answered [OF this] show ?thesis using s by auto
qed

subsection \<open>The association of files and tags\<close>

text \<open>
  Property C14. In every reachable state the tables of files and tags have unique keys and name live
  structs, each entry of a file's table of tags has its counterpart in the tag's table of files and
  conversely, and the table of inodes holds exactly the live inodes and always the root.
\<close>

theorem tables_consistent:
  assumes "ll_reach os fl db s"
  shows "ll_tables s \<and> ll_fresh s \<and> ll_two_way s \<and> ll_inodes s"
  using reach_ok [OF assms] ll_okD by blast

theorem tables_consistent_witness:
  "\<exists>s. ll_tagged s ''f'' ''y'' \<and> ll_tagged s ''f'' ''z'' \<and> l_inext (s :: unit ll) = 3 \<and>
     ll_tables s \<and> ll_fresh s \<and> ll_two_way s \<and> ll_inodes s"
proof -
  have "demo_sat [LLookup 1 ''f'', LMkdir 1 ''z'', LLink 2 3 ''f'']
      (\<lambda>s. l_inext s = 3 \<and> tagged_in s ''f'' ''y'' \<and> tagged_in s ''f'' ''z'')" by code_simp
  from demo_satD [OF this] obtain s where s: "ll_reach demo_os demo_lib (Some demo_db) s" "l_inext s = 3"
    "tagged_in s ''f'' ''y''" "tagged_in s ''f'' ''z''" by blast
  from tables_consistent [OF s(1)] s(2-4) show ?thesis unfolding tagged_in_iff [OF s(1)] by blast
qed

text \<open>
  Property C16. Linking a file, under its own name, into the directory of an existing tag gives the file
  this tag, changes the relation in no other way and answers with the entry of the file.
\<close>

theorem link_adds_tag:
  assumes "ll_reach os fl db s"
    and "inode_at number s = Some i" "\<not> i_is_directory i" "i_name i = Some name" "ll_file_get name s \<noteq> None"
    and "inode_at newparent s = Some par" "i_is_directory par" "i_name par = Some k" "ll_tag_exist k s"
  shows "\<exists>s'. ll_tag_link number newparent name s = Some s' \<and>
    (\<forall>n j. ll_tagged s' n j \<longleftrightarrow> ll_tagged s n j \<or> n = name \<and> j = k) \<and>
    l_replies s' = l_replies s @
      [Reply_entry \<lparr>e_ino = i_number i, e_generation = fst (next_gen_number s), e_attr = i_st i\<rparr>]"
proof -
  obtain R where ok: "ll_ok R s" using reach_ok [OF assms(1)] by blast
  obtain q p f where q: "inode_get number s = Some q" "l_iheap s q = Some i"
    and p: "inode_get newparent s = Some p" "l_iheap s p = Some par" and f: "ll_file_get name s = Some f"
    using inode_atD [OF assms(2)] inode_atD [OF assms(6)] assms(5) by blast
  from link_total [OF ok q assms(3,4) p assms(7,8) f assms(9)] ll_okD(5) [OF ok] show ?thesis
    by (auto simp: fun_eq_iff dest: ll_okD(5))
qed

theorem link_adds_tag_witness:
  "\<exists>s s'. \<not> ll_tagged s ''f'' ''z'' \<and> ll_tag_link 2 3 ''f'' s = Some (s' :: unit ll) \<and> ll_tagged s' ''f'' ''z''"
proof -
  have "demo_sat [LLookup 1 ''f'', LMkdir 1 ''z'']
      (\<lambda>s. inode_sat 2 (\<lambda>i. \<not> i_is_directory i \<and> i_name i = Some ''f'') s \<and> ll_file_get ''f'' s \<noteq> None \<and>
        inode_sat 3 (\<lambda>i. i_is_directory i \<and> i_name i = Some ''z'') s \<and> ll_tag_exist ''z'' s \<and>
        \<not> tagged_in s ''f'' ''z'')" by code_simp
  from demo_satD [OF this] obtain s where s: "ll_reach demo_os demo_lib (Some demo_db) s" "ll_file_get ''f'' s \<noteq> None"
    "ll_tag_exist ''z'' s" "\<not> tagged_in s ''f'' ''z''"
    and i: "inode_sat 2 (\<lambda>i. \<not> i_is_directory i \<and> i_name i = Some ''f'') s"
    and p: "inode_sat 3 (\<lambda>i. i_is_directory i \<and> i_name i = Some ''z'') s" by blast
  from link_adds_tag [OF s(1) _ _ _ s(2) _ _ _ s(3)] inode_satD [OF i] inode_satD [OF p]
  obtain s' where "ll_tag_link 2 3 ''f'' s = Some s'" "ll_tagged s' ''f'' ''z''" by blast
  with s(4) tagged_in_iff [OF s(1)] show ?thesis by blast
qed

text \<open>
  Unlinking a file in the directory of a single existing tag takes exactly this tag from
  the file and answers 0.
\<close>

theorem unlink_removes_tag:
  assumes "ll_reach os fl db s" and "parent \<noteq> 1" and "ll_file_get name s \<noteq> None"
    and "inode_at parent s = Some par" "i_is_directory par" "i_name par = Some k" "ll_tag_exist k s"
      "i_selected_tags par = Some sel" "ht_entry_count sel \<le> 1"
  shows "\<exists>s'. ll_tag_unlink parent name s = Some s' \<and>
    (\<forall>n j. ll_tagged s' n j \<longleftrightarrow> ll_tagged s n j \<and> \<not> (n = name \<and> j = k)) \<and>
    l_replies s' = l_replies s @ [Reply_err 0]"
proof -
  obtain R where ok: "ll_ok R s" using reach_ok [OF assms(1)] by blast
  obtain p f where p: "inode_get parent s = Some p" "l_iheap s p = Some par" and f: "ll_file_get name s = Some f"
    using inode_atD [OF assms(4)] assms(3) by blast
  from unlink_total [OF ok assms(2) p assms(5,6,8,9) f assms(7)] ll_okD(5) [OF ok] show ?thesis
    by (auto simp: fun_eq_iff dest: ll_okD(5))
qed

theorem unlink_removes_tag_witness:
  "\<exists>s s'. ll_tagged s ''f'' ''y'' \<and> ll_tag_unlink 3 ''f'' s = Some (s' :: unit ll) \<and> \<not> ll_tagged s' ''f'' ''y''"
proof -
  have "demo_sat [LLookup 1 ''y'']
      (\<lambda>s. ll_file_get ''f'' s \<noteq> None \<and> tagged_in s ''f'' ''y'' \<and> ll_tag_exist ''y'' s \<and>
        inode_sat 3 (\<lambda>i. i_is_directory i \<and> i_name i = Some ''y'' \<and>
          map_option ht_entry_count (i_selected_tags i) = Some 1) s)" by code_simp
  from demo_satD [OF this] obtain s where s: "ll_reach demo_os demo_lib (Some demo_db) s"
    "ll_file_get ''f'' s \<noteq> None" "tagged_in s ''f'' ''y''" "ll_tag_exist ''y'' s"
    and i: "inode_sat 3 (\<lambda>i. i_is_directory i \<and> i_name i = Some ''y'' \<and>
          map_option ht_entry_count (i_selected_tags i) = Some 1) s" by blast
  from inode_satD [OF i] obtain par sel where par: "inode_at 3 s = Some par" "i_is_directory par"
    "i_name par = Some ''y''" "i_selected_tags par = Some sel" "ht_entry_count sel = 1" by auto
  from unlink_removes_tag [OF s(1) _ s(2) par(1-3) s(4) par(4)] par(5)
  obtain s' where "ll_tag_unlink 3 ''f'' s = Some s'" "\<not> ll_tagged s' ''f'' ''y''" by auto
  with s(3) tagged_in_iff [OF s(1)] show ?thesis by blast
qed

text \<open>
  Property C17. Renaming between the directories of two existing tags moves the file from the one tag to
  the other and answers 0; the new name is not looked at.
\<close>

theorem ll_rename_moves_tag:
  assumes "ll_reach os fl db s" and "parent \<noteq> newparent" and "ll_file_get name s \<noteq> None"
    and "inode_at parent s = Some oi" "i_number oi \<noteq> 1" "i_tag oi = [k]" "ll_tag_exist k s"
    and "inode_at newparent s = Some ni" "i_number ni \<noteq> 1" "i_tag ni = [j]" "ll_tag_exist j s"
  shows "\<exists>s'. ll_tag_rename parent name newparent newname s = Some s' \<and>
    (\<forall>n l. ll_tagged s' n l \<longleftrightarrow> n = name \<and> l = j \<or> ll_tagged s n l \<and> \<not> (n = name \<and> l = k)) \<and>
    l_replies s' = l_replies s @ [Reply_err 0]"
proof -
  obtain R where ok: "ll_ok R s" using reach_ok [OF assms(1)] by blast
  obtain op np f where op: "inode_get parent s = Some op" "l_iheap s op = Some oi"
    and np: "inode_get newparent s = Some np" "l_iheap s np = Some ni" and f: "ll_file_get name s = Some f"
    using inode_atD [OF assms(4)] inode_atD [OF assms(8)] assms(3) by blast
  from rename_total [OF ok assms(2) op assms(5,6) np assms(9,10) f assms(7,11), of newname] obtain s' where
    s': "ll_tag_rename parent name newparent newname s = Some s'"
      "ll_ok (with_tags (without_tags R name [k]) name [j]) s'" "l_replies s' = l_replies s @ [Reply_err 0]" by blast
  with ll_okD(5) [OF s'(2)] ll_okD(5) [OF ok] show ?thesis by simp
qed

theorem ll_rename_moves_tag_witness:
  "\<exists>s s'. ll_tagged s ''f'' ''y'' \<and> ll_tag_rename 3 ''f'' 4 ''g'' s = Some (s' :: unit ll) \<and>
     \<not> ll_tagged s' ''f'' ''y'' \<and> ll_tagged s' ''f'' ''z''"
proof -
  have "demo_sat [LLookup 1 ''y'', LMkdir 1 ''z'']
      (\<lambda>s. ll_file_get ''f'' s \<noteq> None \<and> tagged_in s ''f'' ''y'' \<and> ll_tag_exist ''y'' s \<and> ll_tag_exist ''z'' s \<and>
        inode_sat 3 (\<lambda>i. i_number i \<noteq> 1 \<and> i_tag i = [''y'']) s \<and>
        inode_sat 4 (\<lambda>i. i_number i \<noteq> 1 \<and> i_tag i = [''z'']) s)" by code_simp
  from demo_satD [OF this] obtain s where s: "ll_reach demo_os demo_lib (Some demo_db) s"
    "ll_file_get ''f'' s \<noteq> None" "tagged_in s ''f'' ''y''" "ll_tag_exist ''y'' s" "ll_tag_exist ''z'' s"
    and i: "inode_sat 3 (\<lambda>i. i_number i \<noteq> 1 \<and> i_tag i = [''y'']) s"
    and j: "inode_sat 4 (\<lambda>i. i_number i \<noteq> 1 \<and> i_tag i = [''z'']) s" by blast
  obtain oi ni where "inode_at 3 s = Some oi" "i_number oi \<noteq> 1" "i_tag oi = [''y'']"
    "inode_at 4 s = Some ni" "i_number ni \<noteq> 1" "i_tag ni = [''z'']"
    using inode_satD [OF i] inode_satD [OF j] by blast
  from ll_rename_moves_tag [OF s(1) _ s(2) this(1-3) s(4) this(4-6) s(5), of "''g''"]
  obtain s' where "ll_tag_rename 3 ''f'' 4 ''g'' s = Some s'" "\<not> ll_tagged s' ''f'' ''y''" "ll_tagged s' ''f'' ''z''"
    by auto
  with s(3) tagged_in_iff [OF s(1)] show ?thesis by blast
qed

lemma rmdir_forgets_tag:
  assumes "ll_tag_rmdir 1 name s = Some s'" and ok: "ll_ok R s"
  shows "\<not> ll_tag_exist name s'"
proof -
  have keep: "l_tags u' = l_tags s" if "ht_for_each h
       (\<lambda>name f s. do {
          r \<leftarrow> l_theap s t;
          lfile_upd f (\<lambda>x. x\<lparr>lf_tags := snd (ht_remove_entry (lf_tags x) (lt_value r))\<rparr>) s
        }) s = Some u'" for h t u'
    by (rule ht_for_each_keeps [OF that, where P = "\<lambda>u. l_tags u = l_tags s"])
      (auto simp: lfile_upd_def elim!: bind_SomeE)
  let ?t = "ll_tag_get name s"
  obtain r s1 q where r: "l_theap s ?t = Some r" and s1: "ht_for_each (lt_files r)
       (\<lambda>name f s. do {
          r \<leftarrow> l_theap s ?t;
          lfile_upd f (\<lambda>x. x\<lparr>lf_tags := snd (ht_remove_entry (lf_tags x) (lt_value r))\<rparr>) s
        }) s = Some s1" and q: "l_theap s1 ?t = Some q"
    "s' = fuse_reply (Reply_err 0) (s1\<lparr>l_tags := snd (ht_remove_entry (l_tags s1) (lt_value q)), l_theap := (l_theap s1)(?t := None)\<rparr>)"
    using assms(1) by (auto simp: ll_tag_rmdir_def ll_tag_remove_def Let_def elim!: bind_SomeE)
  have "l_theap s1 = l_theap s"
    by (rule ht_for_each_keeps [OF s1, where P = "\<lambda>u. l_theap u = l_theap s"])
      (auto simp: lfile_upd_def elim!: bind_SomeE)
  with q(1) tag_get_value [OF ok refl r] r have "lt_value q = name" by simp
  moreover have "distinct (keys (l_tags s))" using ll_okD(1) [OF ok] by (simp add: ll_tables_def)
  ultimately have "name \<notin> set (keys (l_tags s'))"
    using keep [OF s1] by (auto simp: q(2) fuse_reply_def set_ht_remove)
  then show ?thesis
    by (simp add: ll_tag_exist_def ll_tag_get_def ht_get_entry_def ht_find_None_iff [THEN iffD2])
qed

text \<open>
  Property C18. Removing the directory of an existing tag takes the tag from every file and answers 0; for a
  name that is no tag the callback dereferences the invalid tag pointer, since its check is for null.
\<close>

theorem rmdir_removes_tag:
  assumes "ll_reach os fl db s"
  shows "if ll_tag_exist name s
    then \<exists>s'. ll_tag_rmdir 1 name s = Some s' \<and> (\<forall>n k. ll_tagged s' n k \<longleftrightarrow> ll_tagged s n k \<and> k \<noteq> name) \<and>
      \<not> ll_tag_exist name s' \<and> l_replies s' = l_replies s @ [Reply_err 0]
    else ll_tag_rmdir 1 name s = None"
proof -
  obtain R where ok: "ll_ok R s" using reach_ok [OF assms] by blast
  show ?thesis
  proof (cases "ll_tag_exist name s")
    case False
    with rmdir_unknown_faults [OF ok] show ?thesis by simp
  next
    case True
    from rmdir_total [OF ok True] obtain s' where s': "ll_tag_rmdir 1 name s = Some s'"
      "ll_ok (\<lambda>n k. R n k \<and> k \<noteq> name) s'" "l_replies s' = l_replies s @ [Reply_err 0]" by blast
    have "\<not> ll_tag_exist name s'" by (rule rmdir_forgets_tag [OF s'(1) ok])
    with True s' ll_okD(5) [OF ok] ll_okD(5) [OF s'(2)] show ?thesis by simp
  qed
qed

theorem rmdir_removes_tag_witness:
  "\<exists>s s'. ll_tagged s ''f'' ''y'' \<and> ll_tag_rmdir 1 ''y'' s = Some (s' :: unit ll) \<and> \<not> ll_tagged s' ''f'' ''y'' \<and>
     ll_tag_rmdir 1 ''z'' s = None"
proof -
  have "demo_sat [] (\<lambda>s. tagged_in s ''f'' ''y'' \<and> ll_tag_exist ''y'' s \<and> \<not> ll_tag_exist ''z'' s)" by code_simp
  from demo_satD [OF this] obtain s where s: "ll_reach demo_os demo_lib (Some demo_db) s"
    "tagged_in s ''f'' ''y''" "ll_tag_exist ''y'' s" "\<not> ll_tag_exist ''z'' s" by blast
  from rmdir_removes_tag [OF s(1), of "''y''"] rmdir_removes_tag [OF s(1), of "''z''"] s(2-4) tagged_in_iff [OF s(1)]
  show ?thesis by auto
qed

subsection \<open>Directories and the counting of lookups\<close>

text \<open>
  Property C19. Making a directory in the root makes the tag and an inode with the next number whose
  only tag is the new one, and tags nothing. The entry in the reply is not counted as a lookup: forgetting it once
  takes the count below zero, to \<open>2 ^ 64 - 1\<close>, and the inode stays.
\<close>

theorem mkdir_makes_tag:
  assumes "ll_reach os fl db s" and "\<not> ll_tag_exist name s"
  shows "\<exists>s' e. ll_tag_mkdir os 1 name s = Some s' \<and> l_replies s' = l_replies s @ [Reply_entry e] \<and>
    e_ino e = fresh_number s \<and> ll_tag_exist name s' \<and> ll_tagged s' = ll_tagged s \<and>
    inode_sat (fresh_number s) (\<lambda>i. i_is_directory i \<and> i_name i = Some name \<and> i_nlookup i = 0 \<and> last (i_tag i) = name) s' \<and>
    (\<exists>s''. ll_tag_forget (fresh_number s) 1 s' = Some s'' \<and> inode_sat (fresh_number s) (\<lambda>i. i_nlookup i = - 1) s'')"
proof -
  obtain R where ok: "ll_ok R s" using reach_ok [OF assms(1)] by blast
  obtain t s1 where s1: "ll_tag_get_or_create name s = (t, s1)" by fastforce
  have ok1: "ll_ok R s1" by (rule ok_tag_get_or_create [OF s1 ok])
  have e1: "l_replies s1 = l_replies s" "fresh_number s1 = fresh_number s" "ll_tag_exist name s1"
    using tag_create_effect [OF s1 ok] by (simp_all add: fresh_number_def next_inode_number_def)
  obtain p par where par: "inode_get 1 s1 = Some p" "l_iheap s1 p = Some par"
    using root_found [OF ll_okD(4) [OF ok1]] by blast
  let ?q = "l_inext s1"
  let ?i = "dir_inode s1 (i_tag par) name"
  let ?s2 = "s1\<lparr>next_ino := next_ino s1 + 1, l_inext := Suc ?q, l_itable := l_itable s1 @ [(fresh_number s1, ?q)],
      l_iheap := (l_iheap s1)(?q \<mapsto> ?i)\<rparr>"
  obtain res st s3 where s3: "ll_stat os (l_realdirpath ?s2) stat0 ?s2 = ((res, st), s3)" by (metis prod.exhaust)
  obtain g s4 where s4: "next_gen_number s3 = (g, s4)" by fastforce
  let ?e = "\<lparr>e_ino = fresh_number s, e_generation = g, e_attr = st\<lparr>st_ino := fresh_number s\<rparr>\<rparr>"
  let ?s' = "fuse_reply (Reply_entry ?e) s4"
  have e4: "l_iheap s4 = l_iheap ?s2" "l_itable s4 = l_itable ?s2" "l_tags s4 = l_tags s1" "l_replies s4 = l_replies s"
  proof -
    obtain c d where "s3 = ?s2\<lparr>c_errno := c\<rparr>" "s4 = s3\<lparr>next_gen := d\<rparr>"
      using ll_stat_frame [OF s3] next_gen_frame [OF s4] by blast
    then show "l_iheap s4 = l_iheap ?s2" "l_itable s4 = l_itable ?s2" "l_tags s4 = l_tags s1" "l_replies s4 = l_replies s"
      using e1(1) by simp_all
  qed
  have run: "ll_tag_mkdir os 1 name s = Some ?s'"
    using assms(2) s1 par create_directory_eq [OF ll_okD(4) [OF ok1] par(2)] s3 s4
    by (simp add: ll_tag_mkdir_def ll_tag_exist_def e1(2) dir_inode_def)
  have new: "inode_get (fresh_number s) ?s' = Some ?q" "l_iheap ?s' ?q = Some ?i"
    using e4 by (simp_all add: fuse_reply_def inode_get_def e1(2))
  have tag: "ll_tag_exist name ?s'" using e1(3) e4(3) by (simp add: fuse_reply_def ll_tag_exist_def ll_tag_get_def)
  have forget: "\<exists>s''. ll_tag_forget (fresh_number s) 1 ?s' = Some s'' \<and> inode_sat (fresh_number s) (\<lambda>i. i_nlookup i = - 1) s''"
    using new
    by (simp add: ll_tag_forget_def inode_upd_def inode_delete_if_noref_def inode_sat_def inode_at_def inode_get_def
        dir_inode_def fuse_reply_def)
  have "ll_tagged ?s' = ll_tagged s" using ll_okD(5) [OF ok_mkdir [OF run ok]] ll_okD(5) [OF ok] by simp
  with run tag forget new e4(4) show ?thesis
    by (intro exI [of _ ?s'] exI [of _ ?e]) (simp add: inode_sat_def inode_at_def dir_inode_def)
qed

theorem mkdir_makes_tag_witness:
  "\<exists>s s' s''. ll_tag_mkdir demo_os 1 ''z'' s = Some (s' :: unit ll) \<and> ll_tag_exist ''z'' s' \<and>
     ll_tag_forget 3 1 s' = Some s'' \<and> inode_sat 3 (\<lambda>i. i_nlookup i = - 1) s''"
proof -
  have "demo_sat [] (\<lambda>s. \<not> ll_tag_exist ''z'' s \<and> fresh_number s = 3)" by code_simp
  from demo_satD [OF this] obtain s where s: "ll_reach demo_os demo_lib (Some demo_db) s"
    "\<not> ll_tag_exist ''z'' s" "fresh_number s = 3" by blast
  from mkdir_makes_tag [OF s(1,2)] show ?thesis unfolding s(3) by blast
qed

text \<open>
  Property C20. When the kernel forgets all lookups of a file's inode, the inode is freed, but the file keeps its
  pointer to it: the next lookup of the existing file uses freed memory.
\<close>

theorem lookup_after_forget_faults:
  assumes "ll_reach os fl db s" and "ll_file_get name s = Some f" "l_fheap s f = Some x" "lf_ino x = Some p"
    and "inode_get number s = Some p" "l_iheap s p = Some i" "number \<noteq> 1"
    and "os_stat os (ll_tag_realpath s name) (l_world s) = Inr st" "\<not> S_ISDIR (st_mode st)"
  shows "\<exists>s'. ll_tag_forget number (i_nlookup i) s = Some s' \<and> ll_tag_lookup os 1 name s' = None"
proof -
  obtain R where ok: "ll_ok R s" using reach_ok [OF assms(1)] by blast
  from forget_deletes [OF ok assms(5-7)] obtain s' where
    s': "ll_tag_forget number (i_nlookup i) s = Some s'" "l_iheap s' p = None" "l_world s' = l_world s"
    "l_realdirpath s' = l_realdirpath s" "ll_rel s' = ll_rel s" by blast
  have "ll_ok R s'" by (rule ok_quiet(1) [OF s'(1) ok])
  moreover have "ll_file_get name s' = Some f" "l_fheap s' f = Some x"
    using s'(5) assms(2,3) by (simp_all add: ll_rel_def ll_file_get_def)
  moreover have "os_stat os (ll_tag_realpath s' name) (l_world s') = Inr st"
    using assms(8) s'(3,4) by (simp add: ll_tag_realpath_def)
  ultimately have "ll_tag_lookup os 1 name s' = None"
    using lookup_forgotten [of R s'] assms(4,9) s'(2) by blast
  with s'(1) show ?thesis by blast
qed

theorem lookup_after_forget_faults_witness:
  "\<exists>s s'. ll_tag_lookup demo_os 1 ''f'' s \<noteq> None \<and> ll_tag_forget 2 1 (s :: unit ll) = Some s' \<and>
     ll_tag_lookup demo_os 1 ''f'' s' = None"
proof -
  have "demo_sat [LLookup 1 ''f''] (\<lambda>s. ll_tag_lookup demo_os 1 ''f'' s \<noteq> None \<and> ll_file_get ''f'' s = Some 0 \<and>
      map_option lf_ino (l_fheap s 0) = Some (Some 1) \<and> inode_get 2 s = Some 1 \<and>
      map_option i_nlookup (l_iheap s 1) = Some 1 \<and>
      os_stat demo_os (ll_tag_realpath s ''f'') (l_world s) = Inr (stat0\<lparr>st_mode := 0x81A4\<rparr>))" by code_simp
  from demo_satD [OF this] obtain s x i where s: "ll_reach demo_os demo_lib (Some demo_db) s"
    "ll_tag_lookup demo_os 1 ''f'' s \<noteq> None" "ll_file_get ''f'' s = Some 0" "l_fheap s 0 = Some x" "lf_ino x = Some 1"
    "inode_get 2 s = Some 1" "l_iheap s 1 = Some i" "i_nlookup i = 1"
    "os_stat demo_os (ll_tag_realpath s ''f'') (l_world s) = Inr (stat0\<lparr>st_mode := 0x81A4\<rparr>)" by auto
  from lookup_after_forget_faults [OF s(1,3-7) _ s(9)] s(2,8) demo_not_dir show ?thesis by auto
qed

text \<open>
  C21. Let the selected tags of a directory be tags in use. Listing it waits for ever exactly
  when some file has one of the tags and lacks another: the second loop of \<^verbatim>\<open>readdir_get_selected_files\<close>
  holds the read lock of its table of files, and \<^verbatim>\<open>ht_remove_entry\<close> waits for the write lock of the same
  table. The request is then never answered. So a directory of several tags is listed only when no file has
  to be left out.
\<close>

theorem readdir_waits:
  assumes "ll_reach os fl db s" and "number \<noteq> 1"
    and "l_iheap s p = Some i" "i_is_directory i" "i_selected_tags i = Some sel"
    and "\<forall>(k, t)\<in>set sel. t = ll_tag_get k s \<and> ll_tag_exist k s"
  shows "ll_tag_readdir os fl number len off (Some p) s = Some Waits \<longleftrightarrow>
    (\<exists>n k j. k \<in> set (keys sel) \<and> j \<in> set (keys sel) \<and> ll_tagged s n k \<and> \<not> ll_tagged s n j)"
proof -
  obtain R where ok: "ll_ok R s" using reach_ok [OF assms(1)] by blast
  have "sel_live sel s" using assms(6) tag_get_live [OF ok] unfolding sel_live_def by fastforce
  from selected_files_wait [OF ok this] obtain fs where fs: "ll_readdir_get_selected_files sel s = Some
    (if \<exists>n k j. k \<in> set (keys sel) \<and> j \<in> set (keys sel) \<and> ll_tagged s n k \<and> \<not> ll_tagged s n j then Waits else Returns fs)" ..
  have ret: "(map_option Returns r \<bind> (\<lambda>r. case r of Waits \<Rightarrow> Some Waits | Returns (b, s) \<Rightarrow> do {
      (b, s) \<leftarrow> ll_readdir_list_files os fl b sel s; Some (Returns (reply_buf_limited (d_p b) (d_size b) off len s)) })) \<noteq> Some Waits"
    for r by (cases r) (auto elim!: bind_SomeE)
  show ?thesis
    using fs assms(2-5) ret by (auto simp: ll_tag_readdir_def ll_readdir_list_tags_mode2_def)
qed

theorem readdir_waits_witness:
  "\<exists>s. ll_tagged s ''f'' ''y'' \<and> ll_tag_readdir demo_os demo_lib 4 4096 0 (Some 3) (s :: unit ll) = Some Waits"
proof -
  have "demo_sat [LMkdir 1 ''z'', LLookup 3 ''y'']
      (\<lambda>s. tagged_in s ''f'' ''y'' \<and> \<not> tagged_in s ''f'' ''z'' \<and> ll_tag_exist ''y'' s \<and> ll_tag_exist ''z'' s \<and>
        map_option i_is_directory (l_iheap s 3) = Some True \<and>
        map_option i_selected_tags (l_iheap s 3) = Some (Some [(''z'', ll_tag_get ''z'' s), (''y'', ll_tag_get ''y'' s)]))"
    by code_simp
  from demo_satD [OF this] obtain s i where s: "ll_reach demo_os demo_lib (Some demo_db) s"
    "tagged_in s ''f'' ''y''" "\<not> tagged_in s ''f'' ''z''" "ll_tag_exist ''y'' s" "ll_tag_exist ''z'' s"
    "l_iheap s 3 = Some i" "i_is_directory i"
    "i_selected_tags i = Some [(''z'', ll_tag_get ''z'' s), (''y'', ll_tag_get ''y'' s)]" by auto
  have "ll_tagged s ''f'' ''y''" "\<not> ll_tagged s ''f'' ''z''" using s(2,3) tagged_in_iff [OF s(1)] by simp_all
  with readdir_waits [OF s(1) _ s(6-8), of 4 4096 0] s(4,5) show ?thesis by auto
qed

subsection \<open>Texts\<close>

text \<open>
  Property C22. Starting on the dump of a reachable state, with names that a line of the database can hold, rebuilds the relation of files and
  tags; without a database the start closes a null stream.
\<close>

theorem dump_restart_roundtrip:
  assumes "ll_reach os fl db s" and "length (l_files s) + 2 < 2 ^ 32"
    and "\<forall>n k. ll_tagged s n k \<longrightarrow> file_text n \<and> tag_text k"
    and "length (os_readdir os' w) + length (l_files s) < 2 ^ 32"
  shows "\<exists>d s'. ll_tag_db_dump s = Some d \<and> ll_tag_init os' (Some d) (ll_static root w) = Some s' \<and>
    ll_tagged s' = ll_tagged s \<and> ll_tag_init os' None (ll_static root w) = None"
proof -
  obtain R where ok: "ll_ok R s" using reach_ok [OF assms(1)] by blast
  note rel = ll_sections_tagged [OF ll_okD(1) [OF ok]]
  have len: "length (os_readdir os' w) + length (ll_sections s) < 2 ^ 32" using assms(4) by (simp add: ll_sections_def)
  have "\<forall>(n, ks)\<in>set (ll_sections s). ks \<noteq> [] \<longrightarrow> file_text n \<and> (\<forall>k\<in>set ks. tag_text k)"
  proof clarify
    fix n ks assume e: "(n, ks) \<in> set (ll_sections s)" "ks \<noteq> []"
    then have "ll_tagged s n k" if "k \<in> set ks" for k using rel that by blast
    with assms(3) e(2) show "file_text n \<and> (\<forall>k\<in>set ks. tag_text k)" by (metis list.set_intros(1) neq_Nil_conv)
  qed
  from init_total [OF len this] obtain s' where
    s': "ll_tag_init os' (Some (concat (map section_text (ll_sections s)))) (ll_static root w) = Some s'"
      "ll_ok (\<lambda>n k. \<exists>ks. (n, ks) \<in> set (ll_sections s) \<and> k \<in> set ks) s'" by blast
  have "ll_tagged s' = ll_tagged s" using ll_okD(5) [OF s'(2)] rel by (simp add: fun_eq_iff)
  with ll_dump_eq [OF ok assms(2)] s'(1) init_without_database show ?thesis by blast
qed

theorem dump_restart_roundtrip_witness:
  "\<exists>s d s'. ll_tagged s ''f'' ''y'' \<and> ll_tag_db_dump (s :: unit ll) = Some d \<and>
     ll_tag_init demo_os (Some d) (ll_static ''/r'' ()) = Some s' \<and> ll_tagged s' ''f'' ''y''"
proof -
  have "demo_sat [] (\<lambda>s. tagged_in s ''f'' ''y'' \<and> length (l_files s) = 1 \<and>
      ll_sections s = [(''f'', [''y''])] \<and> file_text ''f'' \<and> tag_text ''y'' \<and> length (os_readdir demo_os ()) = 2)"
    by code_simp
  from demo_satD [OF this] obtain s where s: "ll_reach demo_os demo_lib (Some demo_db) s"
    "tagged_in s ''f'' ''y''" "length (l_files s) = 1" "ll_sections s = [(''f'', [''y''])]" "file_text ''f''"
    "tag_text ''y''" "length (os_readdir demo_os ()) = 2" by blast
  have "\<forall>n k. ll_tagged s n k \<longrightarrow> file_text n \<and> tag_text k"
    using tables_consistent_relation [OF s(1)] s(4-6) by auto
  from dump_restart_roundtrip [OF s(1) _ this, of demo_os "()"] s(2,3,7) tagged_in_iff [OF s(1)] show ?thesis by fastforce
qed

lemma buf_part_whole: "length buf = n \<Longrightarrow> buf_part buf n (int off) n = drop off buf"
  by (simp add: buf_part_def)

text \<open>
  Property C23. The read of the tag file applies the offset twice, once in the dump and once in the buffer
  read from there: at offset \<open>off\<close> it answers \<open>len - off\<close> bytes, the dump from \<open>2 * off\<close> on, padded with null
  characters. At an offset of \<open>len\<close> or more it always answers the end of the file.
\<close>

theorem tag_file_read_offset:
  assumes "ll_reach os fl db s" and "length (l_files s) + 2 < 2 ^ 32"
    and "inode_at number s = Some i" "i_is_tagfile i"
  shows "\<exists>s' b. ll_tag_read os number len (int off) fh s = Some s' \<and> l_replies s' = l_replies s @ [Reply_buf b] \<and>
    length b = len - off \<and>
    (\<forall>j<length b. b ! j = (let d = concat (map section_text (ll_sections s)) in
       if 2 * off + j < length d then d ! (2 * off + j) else CHR 0x00))"
proof -
  obtain R where ok: "ll_ok R s" using reach_ok [OF assms(1)] by blast
  obtain p where p: "inode_get number s = Some p" "l_iheap s p = Some i" using inode_atD [OF assms(3)] by blast
  let ?d = "concat (map section_text (ll_sections s))"
  let ?t = "take len (drop off ?d)"
  obtain bytes where bytes: "bytes = ?t @ replicate (len - length ?t) (CHR 0x00)" by simp
  have len: "length bytes = len" by (simp add: bytes)
  have at: "bytes ! j = (if off + j < length ?d then ?d ! (off + j) else CHR 0x00)" if "j < len" for j
    using that by (auto simp: bytes nth_append)
  have run: "ll_tag_read os number len (int off) fh s = Some (reply_buf_limited bytes len (int off) len s)"
    using p assms(4) ll_dump_eq [OF ok assms(2)] by (simp add: ll_tag_read_def ll_read_tag_file_def bytes)
  have "drop off bytes ! j = (if 2 * off + j < length ?d then ?d ! (2 * off + j) else CHR 0x00)"
    if "j < length (drop off bytes)" for j
  proof -
    have j: "off + j < len" "drop off bytes ! j = bytes ! (off + j)" using that len by simp_all
    from at [OF j(1)] show ?thesis unfolding j(2) by (simp add: mult_2 add.assoc)
  qed
  with run buf_part_whole [OF len] len show ?thesis
    by (intro exI [of _ "reply_buf_limited bytes len (int off) len s"] exI [of _ "drop off bytes"])
      (simp add: Let_def)
qed

theorem tag_file_read_offset_witness:
  "\<exists>s s' b. ll_tag_read demo_os 3 4 2 0 (s :: unit ll) = Some s' \<and> l_replies s' = l_replies s @ [Reply_buf b] \<and>
     b = [''y'' ! 0, newline]"
proof -
  have "demo_sat [LMknod 1 TAG_FILENAME 0x81A4 0] (\<lambda>s. length (l_files s) = 2 \<and> inode_sat 3 i_is_tagfile s \<and>
      concat (map section_text (ll_sections s)) = ''[f]'' @ [newline] @ ''y'' @ [newline, newline])" by code_simp
  from demo_satD [OF this] obtain s where s: "ll_reach demo_os demo_lib (Some demo_db) s" "length (l_files s) = 2"
    "inode_sat 3 i_is_tagfile s" "concat (map section_text (ll_sections s)) = ''[f]'' @ [newline] @ ''y'' @ [newline, newline]"
    by blast
  obtain i where i: "inode_at 3 s = Some i" "i_is_tagfile i" using inode_satD [OF s(3)] by blast
  from tag_file_read_offset [OF s(1) _ i, of 4 2 0] s(2) obtain s' b where
    b: "ll_tag_read demo_os 3 4 2 0 s = Some s'" "l_replies s' = l_replies s @ [Reply_buf b]" "length b = 2"
    "\<forall>j<2. b ! j = (if 4 + j < 7 then (''[f]'' @ [newline] @ ''y'' @ [newline, newline]) ! (4 + j) else CHR 0x00)"
    unfolding s(4) by auto
  have "b = [b ! 0, b ! 1]" using b(3) by (cases b; cases "tl b") auto
  also have "\<dots> = [''y'' ! 0, newline]" using b(4) by simp
  finally show ?thesis using b(1,2) by blast
qed

text \<open>
  Property C24. The tag request of \<^verbatim>\<open>ioctl\<close> answers with the file's tags, joined by blanks; for a file without tags
  it reads a length that nothing has set.
\<close>

theorem ioctl_answers_tags:
  assumes "ll_reach os fl db s" and "inode_at number s = Some i" "\<not> i_is_tagfile i" "\<not> i_is_directory i"
    and "i_name i = Some name" "ll_file_get name s = Some f" "l_fheap s f = Some x"
    and "flags AND FUSE_IOCTL_COMPAT = 0"
  shows "ll_tag_ioctl number TAG_IOC_READ_TAGS flags data s =
    (if lf_tags x = [] then None
     else let str = join (keys (lf_tags x))
          in Some (fuse_reply (Reply_ioctl 0 (ioctl_fill str (int (length str)) data)) s))"
proof -
  obtain R where ok: "ll_ok R s" using reach_ok [OF assms(1)] by blast
  show ?thesis using inode_atD [OF assms(2)] assms(3-8) ll_tags_string_eq [OF ok assms(7)]
    by (auto simp: ll_tag_ioctl_def ll_ioctl_read_tags_def ll_file_get_or_create_def ll_file_get_def Let_def)
qed

theorem ioctl_answers_tags_witness:
  "\<exists>s s'. (let d = \<lparr>io_size = 0, io_off = 0, io_buf = [], io_behind = None\<rparr> in
     ll_tag_ioctl 2 TAG_IOC_READ_TAGS 0 d (s :: unit ll) =
       Some (fuse_reply (Reply_ioctl 0 (ioctl_fill ''y'' 1 d)) s) \<and>
     ll_tag_ioctl 2 TAG_IOC_READ_TAGS 0 d (s' :: unit ll) = None)"
proof -
  let ?file = "\<lambda>ks s. inode_sat 2 (\<lambda>i. \<not> i_is_tagfile i \<and> \<not> i_is_directory i \<and> i_name i = Some ''f'') s \<and>
      ll_file_get ''f'' s = Some 0 \<and> map_option (\<lambda>x. keys (lf_tags x)) (l_fheap s 0) = Some ks"
  let ?d = "\<lparr>io_size = 0, io_off = 0, io_buf = [], io_behind = None\<rparr>"
  have "demo_sat [] (?file [''y''])" by code_simp
  from demo_satD [OF this] obtain s x where s: "ll_reach demo_os demo_lib (Some demo_db) s"
    "ll_file_get ''f'' s = Some 0" "l_fheap s 0 = Some x" "keys (lf_tags x) = [''y'']"
    and i: "inode_sat 2 (\<lambda>i. \<not> i_is_tagfile i \<and> \<not> i_is_directory i \<and> i_name i = Some ''f'') s" by auto
  obtain ino where "inode_at 2 s = Some ino" "\<not> i_is_tagfile ino" "\<not> i_is_directory ino" "i_name ino = Some ''f''"
    using inode_satD [OF i] by blast
  from ioctl_answers_tags [OF s(1) this s(2,3), of 0 ?d] s(4)
  have y: "ll_tag_ioctl 2 TAG_IOC_READ_TAGS 0 ?d s = Some (fuse_reply (Reply_ioctl 0 (ioctl_fill ''y'' 1 ?d)) s)"
    by (auto simp: Let_def)
  have "demo_sat [LRmdir 1 ''y''] (?file [])" by code_simp
  from demo_satD [OF this] obtain s' x' where s': "ll_reach demo_os demo_lib (Some demo_db) s'"
    "ll_file_get ''f'' s' = Some 0" "l_fheap s' 0 = Some x'" "lf_tags x' = []"
    and i': "inode_sat 2 (\<lambda>i. \<not> i_is_tagfile i \<and> \<not> i_is_directory i \<and> i_name i = Some ''f'') s'" by auto
  obtain ino' where "inode_at 2 s' = Some ino'" "\<not> i_is_tagfile ino'" "\<not> i_is_directory ino'" "i_name ino' = Some ''f''"
    using inode_satD [OF i'] by blast
  from ioctl_answers_tags [OF s'(1) this s'(2,3), of 0 ?d] s'(4) y show ?thesis unfolding Let_def by auto
qed

subsection \<open>Buffers\<close>

text \<open>
  Property A reader that asks for a buffer piece by piece, each time at the place where the last
  piece ended, gets the whole buffer, whatever the sizes it asks for, and then empty answers.
\<close>

fun read_pieces :: "char list \<Rightarrow> nat \<Rightarrow> nat list \<Rightarrow> 'w ll \<Rightarrow> 'w ll" where
  "read_pieces bytes off [] s = s"
| "read_pieces bytes off (n # ns) s =
     read_pieces bytes (off + n) ns (reply_buf_limited bytes (length bytes) (int off) n s)"

lemma read_pieces_from:
  "\<exists>ps. l_replies (read_pieces bytes off ns s) = l_replies s @ map Reply_buf ps \<and>
     concat ps = take (sum_list ns) (drop off bytes) \<and> list_all2 (\<lambda>p n. length p \<le> n) ps ns"
proof (induction ns arbitrary: off s)
  case Nil
  then show ?case by (intro exI [of _ "[]"]) simp
next
  case (Cons n ns)
  let ?p = "take n (drop off bytes)"
  have p: "buf_part bytes (length bytes) (int off) n = ?p" by (auto simp: buf_part_def min_def)
  from Cons.IH [of "off + n" "reply_buf_limited bytes (length bytes) (int off) n s"] obtain ps where
    ps: "l_replies (read_pieces bytes off (n # ns) s) = l_replies s @ map Reply_buf (?p # ps)"
    "concat ps = take (sum_list ns) (drop (off + n) bytes)" "list_all2 (\<lambda>p n. length p \<le> n) ps ns"
    using p by auto
  have "concat (?p # ps) = take (sum_list (n # ns)) (drop off bytes)"
    using ps(2) by (simp add: take_add drop_drop add.commute)
  with ps(1,3) show ?case by (intro exI [of _ "?p # ps"]) simp
qed

theorem pieces_reassemble:
  "\<exists>ps. l_replies (read_pieces bytes 0 ns s) = l_replies s @ map Reply_buf ps \<and>
     concat ps = take (sum_list ns) bytes \<and> list_all2 (\<lambda>p n. length p \<le> n) ps ns"
  using read_pieces_from [of bytes 0 ns s] by simp

end
