(* ===== verification/Ll_Start.thy ===== *)
theory Ll_Start
  imports Prelude
begin

text \<open>
  The start and the end of the process \<^verbatim>\<open>fuse_lowlevel\<close>: \<^verbatim>\<open>lowlevel_main\<close> and \<^verbatim>\<open>main\<close> of
  \<^verbatim>\<open>fuse_lowlevel/main.c\<close>, and \<^verbatim>\<open>realdir_set_root\<close>, which \<^verbatim>\<open>tag_init\<close> calls with the first request. The
  FUSE library, \<^verbatim>\<open>realpath\<close> and \<^verbatim>\<open>opendir\<close> are parameters; every call that acquires or releases something is
  recorded with its success, so that the theorem can say what is released at the end and what is not.
\<close>

subsection \<open>The library and the state of the process\<close>

text \<open>
  \<open>lib_loop\<close> is one of the session loops. It ends with a number and says whether the library had called
  \<^verbatim>\<open>tag_init\<close>, which it does when the first request arrives.
\<close>

record 'w session_lib =
  lib_parse :: "cstring list \<Rightarrow> 'w \<Rightarrow> (cstring \<times> int \<times> int) option \<times> 'w"
  lib_mount :: "cstring \<Rightarrow> 'w \<Rightarrow> bool \<times> 'w"
  lib_daemonize :: "int \<Rightarrow> 'w \<Rightarrow> bool \<times> 'w"
  lib_new :: "cstring \<Rightarrow> 'w \<Rightarrow> bool \<times> 'w"
  lib_handlers :: "'w \<Rightarrow> bool \<times> 'w"
  lib_loop :: "bool \<Rightarrow> 'w \<Rightarrow> (bool \<times> int) \<times> 'w"
  lib_realpath :: "cstring \<Rightarrow> cstring option"
  lib_opendir :: "cstring \<Rightarrow> bool"

datatype lib_call =
    Realpath bool | Parse_cmdline bool | Mount bool | Daemonize bool | New bool | Set_handlers bool | Add_chan
  | Loop | Loop_mt | Opendir bool | Remove_handlers | Remove_chan | Destroy | Unmount | Free_args
  | Closedir "cstring option" | Free_path

record 'w process =
  p_realdirpath :: "cstring option"
  p_realdir :: "cstring option"
  p_calls :: "lib_call list"
  p_world :: 'w

definition call :: "lib_call \<Rightarrow> 'w process \<Rightarrow> 'w process" where
  "call c s = s\<lparr>p_calls := p_calls s @ [c]\<rparr>"

definition set_world :: "'w \<Rightarrow> 'w process \<Rightarrow> 'w process" where
  "set_world w s = s\<lparr>p_world := w\<rparr>"

text \<open>A run ends by a return or by \<^verbatim>\<open>exit\<close>, which skips all that follows.\<close>

datatype ending = Returned int | Exited int

definition EXIT_FAILURE :: int where "EXIT_FAILURE = 1"

subsection \<open>The functions\<close>

definition realdir_set_root :: "'w session_lib \<Rightarrow> 'w process \<Rightarrow> int option \<times> 'w process" where
  "realdir_set_root lib s =
     (case p_realdirpath s of
        None \<Rightarrow> (Some EXIT_FAILURE, s)
      | Some path \<Rightarrow>
          if lib_opendir lib path then (None, (call (Opendir True) s)\<lparr>p_realdir := Some path\<rparr>)
          else (Some EXIT_FAILURE, (call (Opendir False) s)\<lparr>p_realdir := None\<rparr>))"

text \<open>The loop with the callback \<^verbatim>\<open>tag_init\<close>, as far as it opens the directory.\<close>

definition session_loop :: "'w session_lib \<Rightarrow> bool \<Rightarrow> 'w process \<Rightarrow> ending \<times> 'w process" where
  "session_loop lib mt s =
     (let ((inited, err), w) = lib_loop lib mt (p_world s);
          s = set_world w (call (if mt then Loop_mt else Loop) s)
      in if inited then
           case realdir_set_root lib s of
             (Some status, s) \<Rightarrow> (Exited status, s)
           | (None, s) \<Rightarrow> (Returned err, s)
         else (Returned err, s))"

text \<open>The body of the test that a session was made.\<close>

definition run_session :: "'w session_lib \<Rightarrow> bool \<Rightarrow> 'w process \<Rightarrow> ending \<times> 'w process" where
  "run_session lib mt s =
     (let (ok, w) = lib_handlers lib (p_world s);
          s = set_world w (call (Set_handlers ok) s)
      in if ok then
           case session_loop lib mt (call Add_chan s) of
             (Exited status, s) \<Rightarrow> (Exited status, s)
           | (Returned err, s) \<Rightarrow> (Returned err, call Destroy (call Remove_chan (call Remove_handlers s)))
         else (Returned (- 1), call Destroy s))"

text \<open>The body of the test that the file system is mounted and the process is in the background.\<close>

definition run_mounted :: "'w session_lib \<Rightarrow> cstring \<Rightarrow> bool \<Rightarrow> 'w process \<Rightarrow> ending \<times> 'w process" where
  "run_mounted lib user_data mt s =
     (let (ok, w) = lib_new lib user_data (p_world s);
          s = set_world w (call (New ok) s)
      in case (if ok then run_session lib mt s else (Returned (- 1), s)) of
           (Exited status, s) \<Rightarrow> (Exited status, s)
         | (Returned err, s) \<Rightarrow> (Returned err, call Unmount s))"

text \<open>The conjunction of three calls: a later one is made only if the ones before succeeded.\<close>

definition lowlevel_main :: "'w session_lib \<Rightarrow> cstring list \<Rightarrow> cstring \<Rightarrow> 'w process \<Rightarrow> ending \<times> 'w process" where
  "lowlevel_main lib argv user_data s =
     (let (parsed, w) = lib_parse lib argv (p_world s);
          s = set_world w (call (Parse_cmdline (parsed \<noteq> None)) s)
      in case parsed of
           None \<Rightarrow> (Returned (- 1), call Free_args s)
         | Some (mountpoint, multithreaded, foreground) \<Rightarrow>
             let (mounted, w) = lib_mount lib mountpoint (p_world s);
                 s = set_world w (call (Mount mounted) s)
             in if mounted then
                  let (ok, w) = lib_daemonize lib foreground (p_world s);
                      s = set_world w (call (Daemonize ok) s)
                  in case (if ok then run_mounted lib user_data (multithreaded = 1) s else (Returned (- 1), s)) of
                       (Exited status, s) \<Rightarrow> (Exited status, s)
                     | (Returned err, s) \<Rightarrow> (Returned err, call Free_args s)
                else (Returned (- 1), call Free_args s))"

text \<open>\<^verbatim>\<open>argv++; argc--\<close> drops the name of the program: the root directory stands in its place.\<close>

definition ll_main :: "'w session_lib \<Rightarrow> cstring list \<Rightarrow> 'w \<Rightarrow> ending \<times> 'w process" where
  "ll_main lib argv w =
     (let s = \<lparr>p_realdirpath = None, p_realdir = None, p_calls = [], p_world = w\<rparr>
      in if length argv < 2 then (Exited EXIT_FAILURE, s)
         else let root_directory = argv ! 1;
                  path = lib_realpath lib root_directory;
                  s = (call (Realpath (path \<noteq> None)) s)\<lparr>p_realdirpath := path\<rparr>
              in case lowlevel_main lib (tl argv) root_directory s of
                   (Exited status, s) \<Rightarrow> (Exited status, s)
                 | (Returned err, s) \<Rightarrow>
                     (Returned err, (call Free_path (call (Closedir (p_realdir s)) s))\<lparr>p_realdirpath := None\<rparr>))"

subsection \<open>What is held\<close>

text \<open>
  \<open>Path\<close> is the string that \<^verbatim>\<open>realpath\<close> returns, \<open>Dir\<close> the open directory; \<^verbatim>\<open>fuse_parse_cmdline\<close> replaces the
  argument vector by a copy (\<open>Args\<close>) and allocates the string of the mount point (\<open>Mountpoint\<close>).
\<close>

datatype resource = Path | Args | Mountpoint | Mounted | Session | Handlers | Channel | Dir

text \<open>
  What the calls have acquired and not released, \<open>None\<close> if one acquires what is held or releases what
  is not. \<^verbatim>\<open>free\<close> and \<^verbatim>\<open>fuse_opt_free_args\<close> accept that there is nothing to free, and closing a null
  directory releases nothing.
\<close>

definition acquire :: "resource \<Rightarrow> resource set \<Rightarrow> resource set option" where
  "acquire r R = (if r \<in> R then None else Some (insert r R))"

definition release :: "resource \<Rightarrow> resource set \<Rightarrow> resource set option" where
  "release r R = (if r \<in> R then Some (R - {r}) else None)"

fun held_step :: "lib_call \<Rightarrow> resource set \<Rightarrow> resource set option" where
  "held_step (Realpath True) R = acquire Path R"
| "held_step (Parse_cmdline True) R = Option.bind (acquire Args R) (acquire Mountpoint)"
| "held_step (Mount True) R = acquire Mounted R"
| "held_step (New True) R = acquire Session R"
| "held_step (Set_handlers True) R = acquire Handlers R"
| "held_step Add_chan R = acquire Channel R"
| "held_step (Opendir True) R = acquire Dir R"
| "held_step Remove_handlers R = release Handlers R"
| "held_step Remove_chan R = release Channel R"
| "held_step Destroy R = release Session R"
| "held_step Unmount R = release Mounted R"
| "held_step Free_args R = Some (R - {Args})"
| "held_step (Closedir (Some d)) R = release Dir R"
| "held_step Free_path R = Some (R - {Path})"
| "held_step _ R = Some R"

fun held :: "lib_call list \<Rightarrow> resource set \<Rightarrow> resource set option" where
  "held [] R = Some R"
| "held (c # cs) R = Option.bind (held_step c R) (held cs)"



lemmas process_simps = acquire_def release_def call_def set_world_def Let_def


definition dir_of :: "bool \<Rightarrow> resource set" where
  "dir_of b = (if b then {Dir} else {})"

lemma dir_of_simps [simp]: "dir_of True = {Dir}" "dir_of False = {}"
  by (simp_all add: dir_of_def)






text \<open>
  All three endings occur: a library on which everything works up to the chosen call, and a directory
  that can be opened or not.
\<close>

definition demo_session :: "bool \<Rightarrow> bool \<Rightarrow> unit session_lib" where
  "demo_session bg dir = \<lparr>lib_parse = (\<lambda>argv w. (Some (last argv, 0, 0), w)), lib_mount = (\<lambda>p w. (True, w)),
     lib_daemonize = (\<lambda>fg w. (bg, w)), lib_new = (\<lambda>u w. (True, w)), lib_handlers = (\<lambda>w. (True, w)),
     lib_loop = (\<lambda>mt w. ((True, 0), w)), lib_realpath = Some, lib_opendir = (\<lambda>p. dir)\<rparr>"

lemmas start_defs = ll_main_def lowlevel_main_def run_mounted_def run_session_def session_loop_def
  realdir_set_root_def process_simps demo_session_def

lemma start_runs:
  "fst (ll_main (demo_session True True) [''tfs'', ''/d'', ''/m''] ()) = Returned 0"
  "Closedir (Some ''/d'') \<in> set (p_calls (snd (ll_main (demo_session True True) [''tfs'', ''/d'', ''/m''] ())))"
  "held (p_calls (snd (ll_main (demo_session False True) [''tfs'', ''/d'', ''/m''] ()))) {} = Some {Mountpoint, Mounted}"
  "Closedir None \<in> set (p_calls (snd (ll_main (demo_session False True) [''tfs'', ''/d'', ''/m''] ())))"
  "fst (ll_main (demo_session True False) [''tfs'', ''/d'', ''/m''] ()) = Exited 1"
  by (auto simp: start_defs EXIT_FAILURE_def)

end
