(* ===== verification/Sq_State.thy ===== *)
theory Sq_State
  imports Fuse_Tagfs
begin

text \<open>
  The state of \<^verbatim>\<open>fuse_sqlite3\<close>, the variant that keeps files, tags and their relation in an
  in-memory SQL database, and its parts below the operations: \<^verbatim>\<open>db.c\<close>, \<^verbatim>\<open>tag.c\<close> and \<^verbatim>\<open>file.c\<close>. The
  three tables of \<^verbatim>\<open>schema.sql\<close> are lists of rows, and each SQL statement of \<^verbatim>\<open>db.c\<close> is the function
  on the tables that its text says. SQLite checks primary keys and the uniqueness of names (an
  \<^verbatim>\<open>INSERT\<close> that violates them fails and changes nothing) and, unless told otherwise, no foreign
  keys. The order of the rows a \<^verbatim>\<open>SELECT\<close> gives is not specified; the model takes the order of
  insertion. The counters of ids are taken not to reach \<open>2 ^ 31\<close>.
\<close>

subsection \<open>Data\<close>

record sqtag =
  q_id :: int
  q_value :: cstring

record sqfile =
  qf_id :: int
  qf_name :: cstring
  qf_realpath :: cstring

record sqdb =
  tag_rows :: "(int \<times> cstring) list"
  file_rows :: "(int \<times> cstring) list"
  link_rows :: "(int \<times> int) list"

record sqfd =
  qd_path :: path
  qd_is_tag :: bool
  qd_is_tag_file :: bool
  qd_object :: fd_object
  qd_fh :: int

record 'w sq =
  q_tags :: "tptr ht"
  q_files :: "fptr ht"
  q_theap :: "tptr \<Rightarrow> sqtag option"
  q_tnext :: nat
  q_fheap :: "fptr \<Rightarrow> sqfile option"
  q_fnext :: nat
  q_dheap :: "dptr \<Rightarrow> sqfd option"
  q_dnext :: nat
  tag_id :: int
  file_id :: int
  q_db :: sqdb
  q_realdirpath :: cstring
  q_tagdbpath :: cstring
  q_world :: 'w

text \<open>The state after the initialisers \<^verbatim>\<open>tag_init\<close>, \<^verbatim>\<open>file_init\<close> and \<^verbatim>\<open>init_db\<close>.\<close>

definition init_db :: sqdb where
  "init_db = \<lparr>tag_rows = [], file_rows = [], link_rows = []\<rparr>"

definition sq_init :: "cstring \<Rightarrow> cstring \<Rightarrow> 'w \<Rightarrow> 'w sq" where
  "sq_init root db w =
     \<lparr>q_tags = ht_create, q_files = ht_create, q_theap = Map.empty, q_tnext = 0, q_fheap = Map.empty,
      q_fnext = 0, q_dheap = Map.empty, q_dnext = 0, tag_id = 0, file_id = 0, q_db = init_db,
      q_realdirpath = root, q_tagdbpath = db, q_world = w\<rparr>"

subsection \<open>db.c\<close>

text \<open>\<^verbatim>\<open>INSERT INTO tag(t_id, t_name) VALUES(:id, :name)\<close>, and the same for \<^verbatim>\<open>file\<close>.\<close>

definition db_add_row :: "cstring \<Rightarrow> int \<Rightarrow> (int \<times> cstring) list \<Rightarrow> int \<times> (int \<times> cstring) list" where
  "db_add_row name number rows =
     (if number \<in> set (map fst rows) \<or> name \<in> set (map snd rows) then (-1, rows) else (0, rows @ [(number, name)]))"

definition db_add_file :: "cstring \<Rightarrow> int \<Rightarrow> sqdb \<Rightarrow> int \<times> sqdb" where
  "db_add_file name number db =
     (let (ret, rows) = db_add_row name number (file_rows db) in (ret, db\<lparr>file_rows := rows\<rparr>))"

definition db_add_tag :: "cstring \<Rightarrow> int \<Rightarrow> sqdb \<Rightarrow> int \<times> sqdb" where
  "db_add_tag name number db =
     (let (ret, rows) = db_add_row name number (tag_rows db) in (ret, db\<lparr>tag_rows := rows\<rparr>))"

text \<open>\<^verbatim>\<open>filler\<close> appends a name to the buffer.\<close>

definition db_list_all_tags :: "cstring list \<Rightarrow> sqdb \<Rightarrow> int \<times> cstring list" where
  "db_list_all_tags buf db = (0, buf @ map snd (tag_rows db))"

text \<open>
  The lists of names and ids that are pasted into the statements. The names stand there between
  quotes; a name with a quote makes another statement of it, which the model does not follow.
\<close>

definition quote :: char where "quote = CHR 0x27"

definition tag_list_string :: "tptr ht \<Rightarrow> cstring list option" where
  "tag_list_string selected_tags =
     ht_for_each selected_tags (\<lambda>n t str. if quote \<in> set n then None else Some (str @ [n])) []"

definition tag_id_list_string :: "tptr ht \<Rightarrow> 'w sq \<Rightarrow> int list option" where
  "tag_id_list_string selected_tags s =
     ht_for_each selected_tags (\<lambda>n t str. do { r \<leftarrow> q_theap s t; Some (str @ [q_id r]) }) []"

text \<open>
  \<^verbatim>\<open>SELECT distinct f_id FROM tag_file WHERE t_id IN (SELECT t_id FROM tag WHERE t_name in (...))\<close>
\<close>

definition selected_file_query :: "cstring list \<Rightarrow> sqdb \<Rightarrow> int list" where
  "selected_file_query tlist db =
     (let ids = map fst (filter (\<lambda>(i, n). n \<in> set tlist) (tag_rows db))
      in remdups (map snd (filter (\<lambda>(t, f). t \<in> set ids) (link_rows db))))"

text \<open>
  \<^verbatim>\<open>SELECT t_name FROM (SELECT t_name FROM tag WHERE t_id IN (SELECT DISTINCT t_id FROM tag_file\<close>
  \<^verbatim>\<open>WHERE f_id IN (...))) WHERE t_name NOT IN (...)\<close>
\<close>

definition remaining_tags_query :: "cstring list \<Rightarrow> int list \<Rightarrow> sqdb \<Rightarrow> cstring list" where
  "remaining_tags_query tlist selected_files db =
     (let ids = remdups (map fst (filter (\<lambda>(t, f). f \<in> set selected_files) (link_rows db)))
      in filter (\<lambda>n. n \<notin> set tlist) (map snd (filter (\<lambda>(i, n). i \<in> set ids) (tag_rows db))))"

text \<open>\<^verbatim>\<open>SELECT COUNT(t_id) FROM tag_file WHERE f_id = ... AND t_id IN (...)\<close>\<close>

definition db_file_match_tags :: "int \<Rightarrow> tptr ht \<Rightarrow> 'w sq \<Rightarrow> bool option" where
  "db_file_match_tags fid selected_tags s = do {
     tlist \<leftarrow> tag_id_list_string selected_tags s;
     let n = length (filter (\<lambda>(t, f). f = fid \<and> t \<in> set tlist) (link_rows (q_db s)));
     Some (int n = ht_entry_count selected_tags)
   }"

definition db_list_remaining_tags :: "tptr ht \<Rightarrow> cstring list \<Rightarrow> sqdb \<Rightarrow> (int \<times> cstring list) option" where
  "db_list_remaining_tags selected_tags buf db = do {
     tlist \<leftarrow> tag_list_string selected_tags;
     Some (0, buf @ remaining_tags_query tlist (selected_file_query tlist db) db)
   }"

definition db_tag_file :: "int \<Rightarrow> int \<Rightarrow> sqdb \<Rightarrow> int \<times> sqdb" where
  "db_tag_file tid fid db =
     (if (tid, fid) \<in> set (link_rows db) then (-1, db)
      else (0, db\<lparr>link_rows := link_rows db @ [(tid, fid)]\<rparr>))"

definition db_untag_file :: "int \<Rightarrow> int \<Rightarrow> sqdb \<Rightarrow> int \<times> sqdb" where
  "db_untag_file tid fid db =
     (0, db\<lparr>link_rows := filter (\<lambda>(t, f). \<not> (t = tid \<and> f = fid)) (link_rows db)\<rparr>)"

subsection \<open>tag.c\<close>

definition next_tag_id :: "'w sq \<Rightarrow> int \<times> 'w sq" where
  "next_tag_id s = (tag_id s, s\<lparr>tag_id := tag_id s + 1\<rparr>)"

definition sq_tag_new :: "cstring \<Rightarrow> 'w sq \<Rightarrow> tptr \<times> 'w sq" where
  "sq_tag_new value s =
     (let t = TagAt (q_tnext s);
          (number, s) = next_tag_id s;
          (ret, db) = db_add_tag value number (q_db s)
      in (t, s\<lparr>q_theap := (q_theap s)(t \<mapsto> \<lparr>q_id = number, q_value = value\<rparr>), q_tnext := Suc (q_tnext s),
               q_db := db\<rparr>))"

definition sq_tag_get_or_create :: "cstring \<Rightarrow> 'w sq \<Rightarrow> tptr \<times> 'w sq" where
  "sq_tag_get_or_create value s =
     (case ht_get_entry (q_tags s) value of
        Some t \<Rightarrow> (t, s)
      | None \<Rightarrow>
          let (t, s) = sq_tag_new value s
          in (t, s\<lparr>q_tags := snd (ht_add_entry (q_tags s) value t)\<rparr>))"

definition sq_tag_get :: "cstring \<Rightarrow> 'w sq \<Rightarrow> tptr" where
  "sq_tag_get value s = (case ht_get_entry (q_tags s) value of Some t \<Rightarrow> t | None \<Rightarrow> INVALID_TAG)"

definition sq_tag_exist :: "cstring \<Rightarrow> 'w sq \<Rightarrow> bool" where
  "sq_tag_exist value s \<longleftrightarrow> INVALID_TAG \<noteq> sq_tag_get value s"

definition sq_tag_remove :: "tptr \<Rightarrow> 'w sq \<Rightarrow> 'w sq option" where
  "sq_tag_remove t s = do {
     r \<leftarrow> q_theap s t;
     Some (s\<lparr>q_tags := snd (ht_remove_entry (q_tags s) (q_value r)), q_theap := (q_theap s)(t := None)\<rparr>)
   }"

fun sq_select_tags :: "cstring list \<Rightarrow> tptr ht \<Rightarrow> 'w sq \<Rightarrow> tptr ht" where
  "sq_select_tags [] selected_tags s = selected_tags"
| "sq_select_tags (k # ks) selected_tags s =
     sq_select_tags ks (snd (ht_add_entry selected_tags k (sq_tag_get k s))) s"

definition sq_compute_selected_tags :: "cstring \<Rightarrow> 'w sq \<Rightarrow> tptr ht option" where
  "sq_compute_selected_tags dirpath s =
     (if dirpath = ''.'' then Some ht_create
      else do {
        (tag_count, ks) \<leftarrow> string_split dirpath ''/'';
        Some (sq_select_tags (map the ks) ht_create s)
      })"

definition sq_tag_list :: "'w sq \<Rightarrow> tptr clist option" where
  "sq_tag_list s = ht_to_list (q_tags s)"

definition sq_tag_file :: "tptr \<Rightarrow> fptr \<Rightarrow> 'w sq \<Rightarrow> 'w sq option" where
  "sq_tag_file t f s = do {
     r \<leftarrow> q_theap s t;
     x \<leftarrow> q_fheap s f;
     let (ret, db) = db_tag_file (q_id r) (qf_id x) (q_db s);
     Some (s\<lparr>q_db := db\<rparr>)
   }"

definition sq_untag_file :: "tptr \<Rightarrow> fptr \<Rightarrow> 'w sq \<Rightarrow> 'w sq option" where
  "sq_untag_file t f s = do {
     r \<leftarrow> q_theap s t;
     x \<leftarrow> q_fheap s f;
     let (ret, db) = db_untag_file (q_id r) (qf_id x) (q_db s);
     Some (s\<lparr>q_db := db\<rparr>)
   }"

text \<open>\<^verbatim>\<open>tag_db_dump\<close> has an empty body.\<close>

definition sq_tag_db_dump :: "'w sq \<Rightarrow> cstring" where
  "sq_tag_db_dump s = []"

subsection \<open>file.c\<close>

definition sq_path_realpath :: "'w sq \<Rightarrow> cstring \<Rightarrow> cstring" where
  "sq_path_realpath s user_path = append_dir (q_realdirpath s) (basenamedup user_path)"

definition next_file_id :: "'w sq \<Rightarrow> int \<times> 'w sq" where
  "next_file_id s = (file_id s, s\<lparr>file_id := file_id s + 1\<rparr>)"

definition sq_file_list :: "'w sq \<Rightarrow> fptr clist option" where
  "sq_file_list s = ht_to_list (q_files s)"

definition sq_file_new :: "cstring \<Rightarrow> 'w sq \<Rightarrow> fptr \<times> 'w sq" where
  "sq_file_new name s =
     (let f = q_fnext s;
          realpath = sq_path_realpath s name;
          (number, s) = next_file_id s;
          (ret, db) = db_add_file name number (q_db s)
      in (f, s\<lparr>q_fheap := (q_fheap s)(f \<mapsto> \<lparr>qf_id = number, qf_name = name, qf_realpath = realpath\<rparr>),
               q_fnext := Suc f, q_db := db\<rparr>))"

definition sq_file_get_or_create :: "cstring \<Rightarrow> 'w sq \<Rightarrow> fptr \<times> 'w sq" where
  "sq_file_get_or_create value s =
     (case ht_get_entry (q_files s) value of
        Some f \<Rightarrow> (f, s)
      | None \<Rightarrow>
          let (f, s) = sq_file_new value s
          in (f, s\<lparr>q_files := snd (ht_add_entry (q_files s) value f)\<rparr>))"

definition sq_file_get :: "cstring \<Rightarrow> 'w sq \<Rightarrow> fptr option" where
  "sq_file_get value s = ht_get_entry (q_files s) value"

text \<open>The string is empty and \<^verbatim>\<open>*size\<close> is not written: \<open>None\<close> is the caller's uninitialised variable.\<close>

definition sq_file_get_tags_string :: "fptr \<Rightarrow> 'w sq \<Rightarrow> cstring \<times> int option" where
  "sq_file_get_tags_string f s = ([], None)"

end
