(* ===== verification/Sq_Ops.thy ===== *)
theory Sq_Ops
  imports Sq_State
begin

text \<open>
  The operations of \<^verbatim>\<open>fuse_sqlite3/tagfs.c\<close>, with \<^verbatim>\<open>path.c\<close>, \<^verbatim>\<open>file_descriptor.c\<close> and the reader of
  the database of \<^verbatim>\<open>tag.c\<close>. \<open>None\<close> is undefined behaviour. Releasing a path object frees its strings
  and its table of selected tags, which no other part of the state refers to, and is left out.
\<close>

subsection \<open>path.c\<close>

definition sq_path_create :: "cstring \<Rightarrow> bool \<Rightarrow> 'w sq \<Rightarrow> path option" where
  "sq_path_create user_path is_tag s = do {
     let virtdirpath = dirnamedup user_path;
     selected_tags \<leftarrow> sq_compute_selected_tags (if is_tag then user_path else virtdirpath) s;
     Some \<lparr>p_realpath = sq_path_realpath s user_path, p_virtpath = user_path,
           p_virtdirpath = virtdirpath, p_filename = basenamedup user_path,
           p_selected_tags = selected_tags\<rparr>
   }"

definition sq_path_set :: "'w sq \<Rightarrow> cstring \<Rightarrow> cstring \<Rightarrow> tptr ht \<Rightarrow> path" where
  "sq_path_set s virtdirpath filename selected_tags =
     \<lparr>p_realpath = append_dir (q_realdirpath s) filename, p_virtpath = append_dir virtdirpath filename,
      p_virtdirpath = virtdirpath, p_filename = filename, p_selected_tags = selected_tags\<rparr>"

subsection \<open>file\_descriptor.c\<close>

text \<open>
  The macros of \<^verbatim>\<open>file_descriptor.h\<close> that put an error number into a pointer, on 64-bit words.
\<close>

definition ERR_MASK :: "64 word" where "ERR_MASK = 0xdeadbeef00000000"

definition SQ_ERR_PTR :: "int \<Rightarrow> 64 word" where
  "SQ_ERR_PTR i = word_of_int i OR ERR_MASK"

definition SQ_IS_ERR :: "64 word \<Rightarrow> bool" where
  "SQ_IS_ERR p \<longleftrightarrow> p AND ERR_MASK = ERR_MASK"

definition SQ_PTR_ERR :: "64 word \<Rightarrow> int" where
  "SQ_PTR_ERR p = - sint (ucast (p AND NOT ERR_MASK) :: 32 word)"

text \<open>The result of \<^verbatim>\<open>fd_open\<close>: an error word or a new descriptor, whose address is no error word.\<close>

definition sq_fd_open :: "'w os \<Rightarrow> path \<Rightarrow> 32 word \<Rightarrow> bool \<Rightarrow> 'w sq \<Rightarrow> (64 word + dptr) \<times> 'w sq" where
  "sq_fd_open os path flags is_tag s =
     (let (fh, s) =
            (if is_tag then (Inr (-1), s)
             else let (res, w) = os_open os (p_realpath path) flags (q_world s) in (res, s\<lparr>q_world := w\<rparr>))
      in case fh of
           Inl errno \<Rightarrow> (Inl (SQ_ERR_PTR (- errno)), s)
         | Inr fh \<Rightarrow>
             let d = q_dnext s;
                 fd = \<lparr>qd_path = path, qd_is_tag = is_tag, qd_is_tag_file = (p_filename path = TAG_FILENAME),
                       qd_object = (if is_tag then TagObj (sq_tag_get (p_filename path) s)
                                    else FileObj (sq_file_get (p_filename path) s)), qd_fh = fh\<rparr>
             in (Inr d, s\<lparr>q_dheap := (q_dheap s)(d \<mapsto> fd), q_dnext := Suc d\<rparr>))"

definition sq_fd_close :: "'w os \<Rightarrow> dptr \<Rightarrow> 'w sq \<Rightarrow> (int \<times> 'w sq) option" where
  "sq_fd_close os d s = do {
     fd \<leftarrow> q_dheap s d;
     let (res, w) = os_close os (qd_fh fd) (q_world s);
     let err = (case res of Inl errno \<Rightarrow> - errno | Inr u \<Rightarrow> 0);
     Some (err, s\<lparr>q_world := w, q_dheap := (q_dheap s)(d := None)\<rparr>)
   }"

definition sq_fd_read :: "'w os \<Rightarrow> dptr \<Rightarrow> char list \<Rightarrow> nat \<Rightarrow> int \<Rightarrow> 'w sq \<Rightarrow> ((int \<times> char list) \<times> 'w sq) option" where
  "sq_fd_read os d buffer len off s = do {
     fd \<leftarrow> q_dheap s d;
     let (res, w) = os_lseek os (qd_fh fd) off (q_world s);
     case res of
       Inl errno \<Rightarrow> Some ((- errno, buffer), s\<lparr>q_world := w\<rparr>)
     | Inr u \<Rightarrow>
         let (res, w) = os_read os (qd_fh fd) len w
         in case res of
              Inl errno \<Rightarrow> Some ((- errno, buffer), s\<lparr>q_world := w\<rparr>)
            | Inr bytes \<Rightarrow>
                Some ((int (length bytes), bytes @ replicate (len - length bytes) (CHR 0x00)
                       @ drop (max len (length bytes)) buffer), s\<lparr>q_world := w\<rparr>)
   }"

definition sq_fd_write :: "'w os \<Rightarrow> dptr \<Rightarrow> char list \<Rightarrow> nat \<Rightarrow> int \<Rightarrow> 'w sq \<Rightarrow> (int \<times> 'w sq) option" where
  "sq_fd_write os d buffer len off s = do {
     fd \<leftarrow> q_dheap s d;
     let (res, w) = os_lseek os (qd_fh fd) off (q_world s);
     case res of
       Inl errno \<Rightarrow> Some (- errno, s\<lparr>q_world := w\<rparr>)
     | Inr u \<Rightarrow>
         let (res, w) = os_write os (qd_fh fd) (take len buffer) w
         in case res of
              Inl errno \<Rightarrow> Some (- errno, s\<lparr>q_world := w\<rparr>)
            | Inr n \<Rightarrow> Some (int n, s\<lparr>q_world := w\<rparr>)
   }"

subsection \<open>Opening, closing and attributes\<close>

definition sq_file_matches_tags :: "fptr \<Rightarrow> tptr ht \<Rightarrow> 'w sq \<Rightarrow> bool option" where
  "sq_file_matches_tags f selected_tags s = do {
     x \<leftarrow> q_fheap s f;
     db_file_match_tags (qf_id x) selected_tags s
   }"

definition sq_tag_open ::
  "'w os \<Rightarrow> cstring \<Rightarrow> 32 word \<Rightarrow> bool \<Rightarrow> 'w sq \<Rightarrow> ((int \<times> dptr option) \<times> 'w sq) option" where
  "sq_tag_open os user_path flags is_tag s = do {
     path \<leftarrow> sq_path_create user_path is_tag s;
     let (fd, s) = sq_fd_open os path flags is_tag s;
     Some (case fd of Inl p \<Rightarrow> ((SQ_PTR_ERR p, None), s) | Inr d \<Rightarrow> ((0, Some d), s))
   }"

definition sq_tag_open_file where
  "sq_tag_open_file os user_path flags s = sq_tag_open os user_path flags False s"

definition sq_tag_open_dir where
  "sq_tag_open_dir os user_path flags s = sq_tag_open os user_path flags True s"

definition sq_tag_release_generic :: "'w os \<Rightarrow> dptr \<Rightarrow> 'w sq \<Rightarrow> (int \<times> 'w sq) option" where
  "sq_tag_release_generic os d s = sq_fd_close os d s"

definition sq_getattr_intra :: "'w os \<Rightarrow> path \<Rightarrow> stat \<Rightarrow> 'w sq \<Rightarrow> ((int \<times> stat) \<times> 'w sq) option" where
  "sq_getattr_intra os p stbuf s =
     (let (res, stbuf) = c_stat os (p_realpath p) stbuf (q_world s)
      in if res < 0 \<or> S_ISDIR (st_mode stbuf)
         then Some (if p_virtpath p = ''/'' \<or>
                       sq_tag_exist (p_filename p) s \<and> \<not> ht_has_entry (p_selected_tags p) (p_filename p)
                    then c_stat os (q_realdirpath s) stbuf (q_world s)
                    else (- ENOENT, stbuf), s)
         else do {
           let (f, s) = sq_file_get_or_create (p_filename p) s;
           if ht_entry_count (p_selected_tags p) > 0 then do {
             m \<leftarrow> sq_file_matches_tags f (p_selected_tags p) s;
             Some ((if \<not> m then - ENOENT else res, stbuf), s)
           }
           else if p_filename p = TAG_FILENAME
           then Some ((res, stbuf\<lparr>st_size := LONG_MAX\<rparr>), s)
           else Some ((res, stbuf), s)
         })"

definition sq_tag_getattr :: "'w os \<Rightarrow> cstring \<Rightarrow> stat \<Rightarrow> 'w sq \<Rightarrow> ((int \<times> stat) \<times> 'w sq) option" where
  "sq_tag_getattr os user_path stbuf s = do {
     path \<leftarrow> sq_path_create user_path False s;
     sq_getattr_intra os path stbuf s
   }"

definition sq_tag_fgetattr :: "'w os \<Rightarrow> dptr \<Rightarrow> stat \<Rightarrow> 'w sq \<Rightarrow> ((int \<times> stat) \<times> 'w sq) option" where
  "sq_tag_fgetattr os d stbuf s = do {
     fd \<leftarrow> q_dheap s d;
     sq_getattr_intra os (qd_path fd) stbuf s
   }"

subsection \<open>Removing and making\<close>

definition sq_path_unlink :: "path \<Rightarrow> 'w sq \<Rightarrow> (int \<times> 'w sq) option" where
  "sq_path_unlink fd s =
     (case sq_file_get (p_filename fd) s of
        None \<Rightarrow> Some (- ENOENT, s)
      | Some f \<Rightarrow> do {
          s \<leftarrow> ht_for_each (p_selected_tags fd) (\<lambda>filename tag s. sq_untag_file tag f s) s;
          Some (0, s)
        })"

definition sq_tag_unlink :: "cstring \<Rightarrow> 'w sq \<Rightarrow> (int \<times> 'w sq) option" where
  "sq_tag_unlink user_path s =
     (if get_character_count user_path slash \<le> 1 then Some (- EPERM, s)
      else do {
        fd \<leftarrow> sq_path_create user_path False s;
        sq_path_unlink fd s
      })"

text \<open>The test \<^verbatim>\<open>NULL == t\<close> never holds: \<^verbatim>\<open>tag_get\<close> returns the invalid pointer for an unknown tag.\<close>

definition sq_tag_rmdir :: "cstring \<Rightarrow> 'w sq \<Rightarrow> (int \<times> 'w sq) option" where
  "sq_tag_rmdir user_path s =
     (if get_character_count user_path slash > 1 then Some (- EPERM, s)
      else do {
        let t = sq_tag_get (basenamedup user_path) s;
        s \<leftarrow> sq_tag_remove t s;
        Some (0, s)
      })"

definition sq_tag_mkdir :: "cstring \<Rightarrow> 'w sq \<Rightarrow> int \<times> 'w sq" where
  "sq_tag_mkdir user_path s =
     (if get_character_count user_path slash > 1 then (- EPERM, s)
      else
        let filename = basenamedup user_path
        in if INVALID_TAG \<noteq> sq_tag_get filename s then (- EEXIST, s)
           else let (t, s) = sq_tag_get_or_create filename s in (0, s))"

subsection \<open>Listing a directory\<close>

fun sq_readdir_entries ::
  "'w os \<Rightarrow> path \<Rightarrow> (cstring \<times> bool) list \<Rightarrow> cstring list \<Rightarrow> 'w sq \<Rightarrow> (cstring list \<times> 'w sq) option" where
  "sq_readdir_entries os dirpath [] buf s = Some (buf, s)"
| "sq_readdir_entries os dirpath ((d_name, dt_dir) # dirents) buf s =
     (if dt_dir then sq_readdir_entries os dirpath dirents buf s
      else do {
        let p = sq_path_set s (p_virtpath dirpath) d_name (p_selected_tags dirpath);
        ((res, stbuf), s) \<leftarrow> sq_getattr_intra os p stat0 s;
        sq_readdir_entries os dirpath dirents (if res < 0 then buf else buf @ [d_name]) s
      })"

definition sq_readdir_list_files ::
  "'w os \<Rightarrow> path \<Rightarrow> cstring list \<Rightarrow> 'w sq \<Rightarrow> (cstring list \<times> 'w sq) option" where
  "sq_readdir_list_files os dirpath buf s =
     sq_readdir_entries os dirpath (os_readdir os (q_world s)) buf s"

definition sq_tag_readdir :: "'w os \<Rightarrow> dptr \<Rightarrow> 'w sq \<Rightarrow> ((int \<times> cstring list) \<times> 'w sq) option" where
  "sq_tag_readdir os d s = do {
     fd \<leftarrow> q_dheap s d;
     let path = qd_path fd;
     let buf = [''.'', ''..''];
     (r, buf) \<leftarrow> (if ht_entry_count (p_selected_tags path) > 0
                  then db_list_remaining_tags (p_selected_tags path) buf (q_db s)
                  else Some (db_list_all_tags buf (q_db s)));
     (buf, s) \<leftarrow> sq_readdir_list_files os path buf s;
     Some ((0, buf), s)
   }"

subsection \<open>Reading and writing\<close>

definition sq_read_tag_file :: "char list \<Rightarrow> nat \<Rightarrow> int \<Rightarrow> 'w sq \<Rightarrow> int \<times> char list" where
  "sq_read_tag_file buffer len off s =
     (let tagfile = sq_tag_db_dump s
      in if off < 0 then (- EINVAL, buffer)
         else let bytes = take len (drop (nat off) tagfile)
              in (int (length bytes), bytes @ replicate (len - length bytes) (CHR 0x00) @ drop len buffer))"

definition sq_tag_read ::
  "'w os \<Rightarrow> dptr \<Rightarrow> char list \<Rightarrow> nat \<Rightarrow> int \<Rightarrow> 'w sq \<Rightarrow> ((int \<times> char list) \<times> 'w sq) option" where
  "sq_tag_read os d buffer len off s = do {
     fd \<leftarrow> q_dheap s d;
     if qd_is_tag_file fd then Some (sq_read_tag_file buffer len off s, s)
     else sq_fd_read os d buffer len off s
   }"

definition sq_tag_write :: "'w os \<Rightarrow> dptr \<Rightarrow> char list \<Rightarrow> nat \<Rightarrow> int \<Rightarrow> 'w sq \<Rightarrow> (int \<times> 'w sq) option" where
  "sq_tag_write os d buffer len off s = do {
     fd \<leftarrow> q_dheap s d;
     if qd_is_tag_file fd then Some (- EPERM, s) else sq_fd_write os d buffer len off s
   }"

subsection \<open>Operations on the real file\<close>

definition sq_tag_mknod :: "'w os \<Rightarrow> cstring \<Rightarrow> 32 word \<Rightarrow> 64 word \<Rightarrow> 'w sq \<Rightarrow> int \<times> 'w sq" where
  "sq_tag_mknod os user_path mode device s =
     (let realpath = sq_path_realpath s user_path
      in case os_access os realpath (q_world s) of
           Inr u \<Rightarrow> (- EREMOTE, s)
         | Inl errno \<Rightarrow>
             let (res, w) = os_mknod os realpath mode device (q_world s)
             in (c_result res, s\<lparr>q_world := w\<rparr>))"

definition sq_tag_truncate :: "'w os \<Rightarrow> cstring \<Rightarrow> int \<Rightarrow> 'w sq \<Rightarrow> int \<times> 'w sq" where
  "sq_tag_truncate os user_path len s =
     (if user_path = ''/.tags'' \<or> user_path = ''.tags'' then (- EPERM, s)
      else let (res, w) = os_truncate os (sq_path_realpath s user_path) len (q_world s)
           in (c_result res, s\<lparr>q_world := w\<rparr>))"

definition sq_tag_chmod :: "'w os \<Rightarrow> cstring \<Rightarrow> 32 word \<Rightarrow> 'w sq \<Rightarrow> int \<times> 'w sq" where
  "sq_tag_chmod os user_path mode s =
     (let (res, w) = os_chmod os (sq_path_realpath s user_path) mode (q_world s)
      in (c_result res, s\<lparr>q_world := w\<rparr>))"

definition sq_tag_chown :: "'w os \<Rightarrow> cstring \<Rightarrow> 32 word \<Rightarrow> 32 word \<Rightarrow> 'w sq \<Rightarrow> int \<times> 'w sq" where
  "sq_tag_chown os user_path uid gid s =
     (let (res, w) = os_chown os (sq_path_realpath s user_path) uid gid (q_world s)
      in (c_result res, s\<lparr>q_world := w\<rparr>))"

text \<open>\<^verbatim>\<open>utime\<close> is the same request to the operating system with times in whole seconds.\<close>

definition sq_tag_utime :: "'w os \<Rightarrow> cstring \<Rightarrow> (int \<times> int) \<times> (int \<times> int) \<Rightarrow> 'w sq \<Rightarrow> int \<times> 'w sq" where
  "sq_tag_utime os user_path tb s =
     (let (res, w) = os_utimens os (sq_path_realpath s user_path) tb (q_world s)
      in (c_result res, s\<lparr>q_world := w\<rparr>))"

subsection \<open>Linking and renaming\<close>

definition sq_path_link :: "'w os \<Rightarrow> path \<Rightarrow> path \<Rightarrow> 'w sq \<Rightarrow> (int \<times> 'w sq) option" where
  "sq_path_link os ffrom fto s = do {
     ((res, stbuf), s) \<leftarrow> sq_getattr_intra os ffrom stat0 s;
     if res < 0 then Some (res, s)
     else do {
       let (f, s) = sq_file_get_or_create (p_filename ffrom) s;
       s \<leftarrow> ht_for_each (p_selected_tags fto) (\<lambda>tagname tag s. sq_tag_file tag f s) s;
       Some (res, s)
     }
   }"

definition sq_tag_link :: "'w os \<Rightarrow> cstring \<Rightarrow> cstring \<Rightarrow> 'w sq \<Rightarrow> (int \<times> 'w sq) option" where
  "sq_tag_link os from to s = do {
     ffrom \<leftarrow> sq_path_create from False s;
     fto \<leftarrow> sq_path_create to False s;
     sq_path_link os ffrom fto s
   }"

text \<open>The results of \<^verbatim>\<open>path_unlink\<close> and \<^verbatim>\<open>path_link\<close> are not looked at.\<close>

definition sq_tag_rename :: "'w os \<Rightarrow> cstring \<Rightarrow> cstring \<Rightarrow> 'w sq \<Rightarrow> (int \<times> 'w sq) option" where
  "sq_tag_rename os from to s = do {
     ffrom \<leftarrow> sq_path_create from False s;
     fto \<leftarrow> sq_path_create to False s;
     if ht_entry_count (p_selected_tags ffrom) \<noteq> 1 \<or> ht_entry_count (p_selected_tags fto) \<noteq> 1
     then Some (- EPERM, s)
     else do {
       (r1, s) \<leftarrow> sq_path_unlink ffrom s;
       (r2, s) \<leftarrow> sq_path_link os ffrom fto s;
       Some (0, s)
     }
   }"

subsection \<open>ioctl\<close>

definition sq_ioctl_read_tags :: "dptr \<Rightarrow> tag_ioctl \<Rightarrow> 'w sq \<Rightarrow> (int \<times> tag_ioctl) option" where
  "sq_ioctl_read_tags d data s = do {
     fd \<leftarrow> q_dheap s d;
     case sq_file_get (p_filename (qd_path fd)) s of
       None \<Rightarrow> Some (- ENOENT, data)
     | Some f \<Rightarrow> do {
         let (str, len) = sq_file_get_tags_string f s;
         len \<leftarrow> len;
         Some (0, ioctl_fill str len data)
       }
   }"

definition sq_tag_ioctl ::
  "dptr \<Rightarrow> 32 word \<Rightarrow> 32 word \<Rightarrow> tag_ioctl \<Rightarrow> 'w sq \<Rightarrow> ((int \<times> tag_ioctl) \<times> 'w sq) option" where
  "sq_tag_ioctl d cmd flags data s = do {
     fd \<leftarrow> q_dheap s d;
     if qd_is_tag fd \<or> qd_is_tag_file fd then Some ((- EINVAL, data), s)
     else if flags AND FUSE_IOCTL_COMPAT \<noteq> 0 then Some ((- ENOSYS, data), s)
     else if cmd = TAG_IOC_READ_TAGS
     then do { r \<leftarrow> sq_ioctl_read_tags d data s; Some (r, s) }
     else Some ((- EINVAL, data), s)
   }"

subsection \<open>Reading the database, start and end\<close>

definition sq_parse_file :: "cstring \<Rightarrow> 'w os \<Rightarrow> 'w sq \<Rightarrow> (fptr option \<times> 'w sq) option" where
  "sq_parse_file word os s = do {
     let data = copy_word_until word (CHR '']'');
     ((res, st), s) \<leftarrow> sq_tag_getattr os data stat0 s;
     if res \<ge> 0
     then let (f, s) = sq_file_get_or_create data s in Some (Some f, s)
     else Some (None, s)
   }"

definition sq_parse_tag :: "fptr option \<Rightarrow> cstring \<Rightarrow> 'w sq \<Rightarrow> 'w sq option" where
  "sq_parse_tag f word s =
     (let data = copy_word_until word newline
      in if length data \<noteq> 0 then
           let (t, s) = sq_tag_get_or_create data s
           in case f of None \<Rightarrow> Some s | Some f \<Rightarrow> sq_tag_file t f s
         else Some s)"

definition sq_parse_line :: "'w os \<Rightarrow> cstring \<Rightarrow> fptr option \<Rightarrow> 'w sq \<Rightarrow> (fptr option \<times> 'w sq) option" where
  "sq_parse_line os word f s =
     (if word \<noteq> [] \<and> hd word = CHR ''#'' then Some (f, s)
      else let word = dropWhile isspace word
           in if word \<noteq> [] \<and> hd word = CHR ''['' then sq_parse_file (tl word) os s
              else do { s \<leftarrow> sq_parse_tag f word s; Some (f, s) })"

function sq_parse_lines :: "'w os \<Rightarrow> cstring \<Rightarrow> fptr option \<Rightarrow> 'w sq \<Rightarrow> (fptr option \<times> 'w sq) option" where
  "sq_parse_lines os fi f s =
     (if fi = [] then Some (f, s)
      else let (word, rest) = fgets MAX_LENGTH fi
           in do { (f, s) \<leftarrow> sq_parse_line os word f s; sq_parse_lines os rest f s })"
  by pat_completeness auto
termination
  by (relation "measure (\<lambda>(os, fi, f, s). length fi)") (auto simp: fgets_shorter)

declare sq_parse_lines.simps [simp del]

definition sq_parse_tags_db2 :: "cstring \<Rightarrow> 'w os \<Rightarrow> 'w sq \<Rightarrow> 'w sq option" where
  "sq_parse_tags_db2 fi os s = do { (f, s) \<leftarrow> sq_parse_lines os fi None s; Some s }"

text \<open>\<^verbatim>\<open>fclose\<close> is called also when the database could not be opened.\<close>

definition sq_parse_tags_db :: "cstring option \<Rightarrow> 'w os \<Rightarrow> 'w sq \<Rightarrow> 'w sq option" where
  "sq_parse_tags_db fi os s = (case fi of None \<Rightarrow> None | Some fi \<Rightarrow> sq_parse_tags_db2 fi os s)"

definition sq_set_root_directory :: "'w os \<Rightarrow> cstring \<Rightarrow> cstring \<Rightarrow> cstring option \<Rightarrow> 'w \<Rightarrow> 'w sq option" where
  "sq_set_root_directory os path real db w =
     sq_parse_tags_db db os (sq_init real (append_dir path TAG_FILENAME) w)"

definition sq_save_tag_db :: "'w sq \<Rightarrow> cstring \<times> cstring" where
  "sq_save_tag_db s = (q_tagdbpath s @ ''.new'', sq_tag_db_dump s)"

subsection \<open>The table of operations\<close>

datatype sq_request =
    QOpen cstring "32 word"
  | QOpendir cstring "32 word"
  | QRelease dptr
  | QGetattr cstring
  | QFgetattr dptr
  | QRead dptr "char list" nat int
  | QReaddir dptr
  | QWrite dptr "char list" nat int
  | QLink cstring cstring
  | QUnlink cstring
  | QRmdir cstring
  | QMknod cstring "32 word" "64 word"
  | QMkdir cstring
  | QTruncate cstring int
  | QChmod cstring "32 word"
  | QChown cstring "32 word" "32 word"
  | QUtime cstring "(int \<times> int) \<times> (int \<times> int)"
  | QRename cstring cstring
  | QIoctl dptr "32 word" "32 word" tag_ioctl

datatype sq_reply =
    QRet int
  | QFd int "dptr option"
  | QStat int stat
  | QBuf int "char list"
  | QNames int "cstring list"
  | QTags int tag_ioctl

fun sq_run :: "'w os \<Rightarrow> sq_request \<Rightarrow> 'w sq \<Rightarrow> (sq_reply \<times> 'w sq) option" where
  "sq_run os (QOpen p flags) s = do { ((r, d), s) \<leftarrow> sq_tag_open_file os p flags s; Some (QFd r d, s) }"
| "sq_run os (QOpendir p flags) s = do { ((r, d), s) \<leftarrow> sq_tag_open_dir os p flags s; Some (QFd r d, s) }"
| "sq_run os (QRelease d) s = do { (r, s) \<leftarrow> sq_tag_release_generic os d s; Some (QRet r, s) }"
| "sq_run os (QGetattr p) s = do { ((r, st), s) \<leftarrow> sq_tag_getattr os p stat0 s; Some (QStat r st, s) }"
| "sq_run os (QFgetattr d) s = do { ((r, st), s) \<leftarrow> sq_tag_fgetattr os d stat0 s; Some (QStat r st, s) }"
| "sq_run os (QRead d buf len off) s = do { ((r, buf), s) \<leftarrow> sq_tag_read os d buf len off s; Some (QBuf r buf, s) }"
| "sq_run os (QReaddir d) s = do { ((r, ns), s) \<leftarrow> sq_tag_readdir os d s; Some (QNames r ns, s) }"
| "sq_run os (QWrite d buf len off) s = do { (r, s) \<leftarrow> sq_tag_write os d buf len off s; Some (QRet r, s) }"
| "sq_run os (QLink p q) s = do { (r, s) \<leftarrow> sq_tag_link os p q s; Some (QRet r, s) }"
| "sq_run os (QUnlink p) s = do { (r, s) \<leftarrow> sq_tag_unlink p s; Some (QRet r, s) }"
| "sq_run os (QRmdir p) s = do { (r, s) \<leftarrow> sq_tag_rmdir p s; Some (QRet r, s) }"
| "sq_run os (QMknod p mode dev) s = (let (r, s) = sq_tag_mknod os p mode dev s in Some (QRet r, s))"
| "sq_run os (QMkdir p) s = (let (r, s) = sq_tag_mkdir p s in Some (QRet r, s))"
| "sq_run os (QTruncate p len) s = (let (r, s) = sq_tag_truncate os p len s in Some (QRet r, s))"
| "sq_run os (QChmod p mode) s = (let (r, s) = sq_tag_chmod os p mode s in Some (QRet r, s))"
| "sq_run os (QChown p uid gid) s = (let (r, s) = sq_tag_chown os p uid gid s in Some (QRet r, s))"
| "sq_run os (QUtime p tb) s = (let (r, s) = sq_tag_utime os p tb s in Some (QRet r, s))"
| "sq_run os (QRename p q) s = do { (r, s) \<leftarrow> sq_tag_rename os p q s; Some (QRet r, s) }"
| "sq_run os (QIoctl d cmd flags data) s = do { ((r, data), s) \<leftarrow> sq_tag_ioctl d cmd flags data s; Some (QTags r data, s) }"

end
