(* ===== verification/Sq_Inv.thy ===== *)
theory Sq_Inv
  imports Sq_Ops Ll_Reply
begin

text \<open>
  The invariant of the \<^verbatim>\<open>fuse_sqlite3\<close> state, the relation of files and tags that the rows of
  \<^verbatim>\<open>tag_file\<close> express, and what the parts of an operation do to them.
\<close>

definition sq_structs :: "'w sq \<Rightarrow> bool" where
  "sq_structs s \<longleftrightarrow>
     distinct (keys (q_tags s)) \<and> distinct (keys (q_files s)) \<and>
     (\<forall>k t. (k, t) \<in> set (q_tags s) \<longleftrightarrow> (\<exists>r. q_theap s t = Some r \<and> q_value r = k)) \<and>
     (\<forall>n f. (n, f) \<in> set (q_files s) \<longleftrightarrow> (\<exists>x. q_fheap s f = Some x \<and> qf_name x = n)) \<and>
     (\<forall>t r. q_theap s t = Some r \<longrightarrow> t < TagAt (q_tnext s)) \<and>
     (\<forall>f x. q_fheap s f = Some x \<longrightarrow> f < q_fnext s)"

text \<open>
  Ids are not used twice, in the heap or in the tables. A name in use has a row in \<^verbatim>\<open>tag\<close>, though
  perhaps that of an older tag with another id.
\<close>

definition sq_rows :: "'w sq \<Rightarrow> bool" where
  "sq_rows s \<longleftrightarrow>
     (\<forall>t r. q_theap s t = Some r \<longrightarrow> q_id r < tag_id s \<and> q_value r \<in> snd ` set (tag_rows (q_db s))) \<and>
     (\<forall>t r u q. q_theap s t = Some r \<longrightarrow> q_theap s u = Some q \<longrightarrow> q_id r = q_id q \<longrightarrow> t = u) \<and>
     (\<forall>f x. q_fheap s f = Some x \<longrightarrow> (qf_id x, qf_name x) \<in> set (file_rows (q_db s))) \<and>
     (\<forall>f x g y. q_fheap s f = Some x \<longrightarrow> q_fheap s g = Some y \<longrightarrow> qf_id x = qf_id y \<longrightarrow> f = g) \<and>
     (\<forall>(i, n)\<in>set (tag_rows (q_db s)). i < tag_id s) \<and>
     (\<forall>(i, n)\<in>set (file_rows (q_db s)). i < file_id s \<and> n \<in> fst ` set (q_files s)) \<and>
     distinct (map fst (tag_rows (q_db s))) \<and> distinct (map snd (tag_rows (q_db s))) \<and>
     distinct (link_rows (q_db s)) \<and>
     (\<forall>(i, j)\<in>set (link_rows (q_db s)). i < tag_id s \<and> j < file_id s)"

definition sq_inv :: "'w sq \<Rightarrow> bool" where
  "sq_inv s \<longleftrightarrow> sq_structs s \<and> sq_rows s"

text \<open>The relation: a row of \<^verbatim>\<open>tag_file\<close> with the ids of a live tag and a live file.\<close>

definition sq_tagged :: "'w sq \<Rightarrow> cstring \<Rightarrow> cstring \<Rightarrow> bool" where
  "sq_tagged s n k \<longleftrightarrow>
     (\<exists>f x t r. q_fheap s f = Some x \<and> qf_name x = n \<and> q_theap s t = Some r \<and> q_value r = k \<and>
        (q_id r, qf_id x) \<in> set (link_rows (q_db s)))"

lemma sq_invD: "sq_inv s \<Longrightarrow> sq_structs s" "sq_inv s \<Longrightarrow> sq_rows s"
  by (simp_all add: sq_inv_def)

lemma sq_structsD:
  assumes "sq_structs s"
  shows "distinct (keys (q_tags s))" "distinct (keys (q_files s))"
    "(k, t) \<in> set (q_tags s) \<longleftrightarrow> (\<exists>r. q_theap s t = Some r \<and> q_value r = k)"
    "(n, f) \<in> set (q_files s) \<longleftrightarrow> (\<exists>x. q_fheap s f = Some x \<and> qf_name x = n)"
    "q_theap s t = Some r \<Longrightarrow> t < TagAt (q_tnext s)" "q_fheap s f = Some x \<Longrightarrow> f < q_fnext s"
  using assms unfolding sq_structs_def by blast+

lemma sq_rowsD:
  assumes "sq_rows s"
  shows "q_theap s t = Some r \<Longrightarrow> q_id r < tag_id s" "q_theap s t = Some r \<Longrightarrow> q_value r \<in> snd ` set (tag_rows (q_db s))"
    "q_theap s t = Some r \<Longrightarrow> q_theap s u = Some q \<Longrightarrow> q_id r = q_id q \<Longrightarrow> t = u"
    "q_fheap s f = Some x \<Longrightarrow> (qf_id x, qf_name x) \<in> set (file_rows (q_db s))"
    "q_fheap s f = Some x \<Longrightarrow> q_fheap s g = Some y \<Longrightarrow> qf_id x = qf_id y \<Longrightarrow> f = g"
    "(i, n) \<in> set (tag_rows (q_db s)) \<Longrightarrow> i < tag_id s"
    "(i, n) \<in> set (file_rows (q_db s)) \<Longrightarrow> i < file_id s" "(i, n) \<in> set (file_rows (q_db s)) \<Longrightarrow> n \<in> fst ` set (q_files s)"
    "distinct (map fst (tag_rows (q_db s)))" "distinct (map snd (tag_rows (q_db s)))" "distinct (link_rows (q_db s))"
    "(i, j) \<in> set (link_rows (q_db s)) \<Longrightarrow> i < tag_id s" "(i, j) \<in> set (link_rows (q_db s)) \<Longrightarrow> j < file_id s"
  using assms unfolding sq_rows_def by blast+

lemma sq_rowsI:
  assumes "\<And>t r. q_theap s t = Some r \<Longrightarrow> q_id r < tag_id s \<and> q_value r \<in> snd ` set (tag_rows (q_db s))"
    and "\<And>t r u q. q_theap s t = Some r \<Longrightarrow> q_theap s u = Some q \<Longrightarrow> q_id r = q_id q \<Longrightarrow> t = u"
    and "\<And>f x. q_fheap s f = Some x \<Longrightarrow> (qf_id x, qf_name x) \<in> set (file_rows (q_db s))"
    and "\<And>f x g y. q_fheap s f = Some x \<Longrightarrow> q_fheap s g = Some y \<Longrightarrow> qf_id x = qf_id y \<Longrightarrow> f = g"
    and "\<And>i n. (i, n) \<in> set (tag_rows (q_db s)) \<Longrightarrow> i < tag_id s"
    and "\<And>i n. (i, n) \<in> set (file_rows (q_db s)) \<Longrightarrow> i < file_id s \<and> n \<in> fst ` set (q_files s)"
    and "distinct (map fst (tag_rows (q_db s)))" and "distinct (map snd (tag_rows (q_db s)))"
    and "distinct (link_rows (q_db s))"
    and "\<And>i j. (i, j) \<in> set (link_rows (q_db s)) \<Longrightarrow> i < tag_id s \<and> j < file_id s"
  shows "sq_rows s"
  unfolding sq_rows_def
  by (intro conjI allI ballI impI; (elim case_prodE)?; use assms in blast)

lemma sq_init_inv: "sq_inv (sq_init root db w)"
  by (simp add: sq_inv_def sq_structs_def sq_rows_def sq_init_def init_db_def ht_create_def)

text \<open>Other files and other worlds.\<close>

lemma sq_inv_frame [simp]:
  "sq_inv (s\<lparr>q_world := w\<rparr>) = sq_inv s" "sq_inv (s\<lparr>q_dheap := h, q_dnext := d\<rparr>) = sq_inv s"
  "sq_inv (s\<lparr>q_world := w, q_dheap := h\<rparr>) = sq_inv s" "sq_tagged (s\<lparr>q_world := w\<rparr>) = sq_tagged s"
  by (simp_all add: sq_inv_def sq_structs_def sq_rows_def sq_tagged_def fun_eq_iff)

subsection \<open>Tags and files by name\<close>

lemma sq_tag_live:
  assumes "sq_inv s" and "sq_tag_exist k s"
  shows "\<exists>r. q_theap s (sq_tag_get k s) = Some r \<and> q_value r = k"
proof -
  from assms(2) obtain t where t: "ht_find (q_tags s) k = Some t" "sq_tag_get k s = t"
    by (auto simp: sq_tag_exist_def sq_tag_get_def ht_get_entry_def split: option.splits)
  then have "(k, t) \<in> set (q_tags s)" by (simp add: ht_find_SomeD)
  with sq_structsD(3) [OF sq_invD(1) [OF assms(1)]] t(2) show ?thesis by blast
qed

lemma sq_no_invalid: "sq_inv s \<Longrightarrow> q_theap s INVALID_TAG = None"
  using sq_structsD(5) [OF sq_invD(1), of s INVALID_TAG] by (cases "q_theap s INVALID_TAG") auto

lemma sq_tag_at:
  assumes "sq_inv s" and "q_theap s t = Some r"
  shows "sq_tag_get (q_value r) s = t \<and> sq_tag_exist (q_value r) s"
proof -
  have "(q_value r, t) \<in> set (q_tags s)" using sq_structsD(3) [OF sq_invD(1) [OF assms(1)]] assms(2) by blast
  then have "ht_find (q_tags s) (q_value r) = Some t"
    using ht_find_distinct [OF sq_structsD(1) [OF sq_invD(1) [OF assms(1)]]] by simp
  moreover have "t \<noteq> INVALID_TAG" using sq_no_invalid [OF assms(1)] assms(2) by auto
  ultimately show ?thesis by (simp add: sq_tag_get_def sq_tag_exist_def ht_get_entry_def)
qed

lemma sq_file_live:
  assumes "sq_inv s" and "sq_file_get n s = Some f"
  shows "\<exists>x. q_fheap s f = Some x \<and> qf_name x = n"
proof -
  have "(n, f) \<in> set (q_files s)" using assms(2) by (simp add: sq_file_get_def ht_get_entry_def ht_find_SomeD)
  with sq_structsD(4) [OF sq_invD(1) [OF assms(1)]] show ?thesis by blast
qed

lemma sq_file_at:
  assumes "sq_inv s" and "q_fheap s f = Some x"
  shows "sq_file_get (qf_name x) s = Some f"
proof -
  have "(qf_name x, f) \<in> set (q_files s)" using sq_structsD(4) [OF sq_invD(1) [OF assms(1)]] assms(2) by blast
  then show ?thesis
    using ht_find_distinct [OF sq_structsD(2) [OF sq_invD(1) [OF assms(1)]]] by (simp add: sq_file_get_def ht_get_entry_def)
qed

text \<open>The relation for given structs.\<close>

lemma sq_tagged_iff:
  assumes inv: "sq_inv s" and f: "q_fheap s f = Some x" and t: "q_theap s t = Some r"
  shows "sq_tagged s (qf_name x) (q_value r) \<longleftrightarrow> (q_id r, qf_id x) \<in> set (link_rows (q_db s))"
proof
  assume "sq_tagged s (qf_name x) (q_value r)"
  then obtain g y u q where g: "q_fheap s g = Some y" "qf_name y = qf_name x" "q_theap s u = Some q" "q_value q = q_value r"
    "(q_id q, qf_id y) \<in> set (link_rows (q_db s))" unfolding sq_tagged_def by blast
  have "g = f" using sq_file_at [OF inv g(1)] sq_file_at [OF inv f] g(2) by simp
  moreover have "u = t" using sq_tag_at [OF inv g(3)] sq_tag_at [OF inv t] g(4) by simp
  ultimately show "(q_id r, qf_id x) \<in> set (link_rows (q_db s))" using g f t by simp
next
  assume "(q_id r, qf_id x) \<in> set (link_rows (q_db s))"
  with f t show "sq_tagged s (qf_name x) (q_value r)" unfolding sq_tagged_def by blast
qed

subsection \<open>Paths\<close>

lemma sq_select_tags_eq: "sq_select_tags ks h s = h @ map (\<lambda>k. (k, sq_tag_get k s)) ks"
  by (induction ks arbitrary: h) simp_all

definition sq_selected :: "'w sq \<Rightarrow> cstring list \<Rightarrow> tptr ht" where
  "sq_selected s ks = map (\<lambda>k. (k, sq_tag_get k s)) ks"

definition sq_path_obj :: "'w sq \<Rightarrow> cstring list \<Rightarrow> bool \<Rightarrow> path" where
  "sq_path_obj s cs is_tag =
     \<lparr>p_realpath = sq_path_realpath s (path_of cs), p_virtpath = path_of cs, p_virtdirpath = path_of (butlast cs),
      p_filename = (if cs = [] then ''/'' else last cs),
      p_selected_tags = sq_selected s (if is_tag then cs else butlast cs)\<rparr>"

lemma sq_path_create_eq:
  assumes cs: "components cs"
  shows "sq_path_create (path_of cs) is_tag s = Some (sq_path_obj s cs is_tag)"
proof -
  let ?ds = "if is_tag then cs else butlast cs"
  have ds: "components ?ds" using cs components_butlast by simp
  have "sq_compute_selected_tags (path_of ?ds) s = Some (sq_selected s ?ds)"
    using path_of_neq_dot [OF ds]
    by (simp add: sq_compute_selected_tags_def string_split_path [OF ds] sq_select_tags_eq sq_selected_def
        ht_create_def comp_def)
  then show ?thesis using cs
    by (cases is_tag) (simp_all add: sq_path_create_def dirname_components basename_components sq_path_obj_def)
qed

end
