(* ===== verification/Sq_Rel.thy ===== *)
theory Sq_Rel
  imports Sq_Inv Tag_Store
begin

text \<open>
  What the operations of \<^verbatim>\<open>fuse_sqlite3\<close> do to the relation of files and tags: the routines that add and
  remove a row of \<^verbatim>\<open>tag_file\<close> fulfil the contract of theory \<open>Tag_Store\<close>, the query that counts rows is
  the conjunction of the tags, and the invariant holds after every operation.
\<close>

definition sq_ok :: "(cstring \<Rightarrow> cstring \<Rightarrow> bool) \<Rightarrow> 'w sq \<Rightarrow> bool" where
  "sq_ok R s \<longleftrightarrow> sq_inv s \<and> sq_tagged s = R"

lemma sq_okD: "sq_ok R s \<Longrightarrow> sq_inv s" "sq_ok R s \<Longrightarrow> sq_tagged s = R"
  by (simp_all add: sq_ok_def)

lemma sq_ok_frame [simp]:
  "sq_ok R (s\<lparr>q_world := w\<rparr>) = sq_ok R s" "sq_ok R (s\<lparr>q_dheap := h, q_dnext := d\<rparr>) = sq_ok R s"
  "sq_ok R (s\<lparr>q_world := w, q_dheap := h\<rparr>) = sq_ok R s" "sq_ok R (s\<lparr>q_world := w, q_dheap := h, q_dnext := d\<rparr>) = sq_ok R s"
  by (simp_all add: sq_ok_def sq_inv_def sq_structs_def sq_rows_def sq_tagged_def fun_eq_iff)

definition sq_tag_name :: "tptr \<Rightarrow> 'w sq \<Rightarrow> cstring option" where
  "sq_tag_name t s = map_option q_value (q_theap s t)"

definition sq_file_name :: "fptr \<Rightarrow> 'w sq \<Rightarrow> cstring option" where
  "sq_file_name f s = map_option qf_name (q_fheap s f)"

lemma sq_tag_name_iff: "sq_tag_name t s = Some k \<longleftrightarrow> (\<exists>r. q_theap s t = Some r \<and> q_value r = k)"
  by (simp add: sq_tag_name_def)

lemma sq_file_name_iff: "sq_file_name f s = Some n \<longleftrightarrow> (\<exists>x. q_fheap s f = Some x \<and> qf_name x = n)"
  by (simp add: sq_file_name_def)

subsection \<open>Rows of \<^verbatim>\<open>tag_file\<close>\<close>

definition set_links :: "'w sq \<Rightarrow> (int \<times> int) list \<Rightarrow> 'w sq" where
  "set_links s l = s\<lparr>q_db := (q_db s)\<lparr>link_rows := l\<rparr>\<rparr>"

lemma set_links_simps [simp]:
  "q_tags (set_links s l) = q_tags s" "q_files (set_links s l) = q_files s" "q_theap (set_links s l) = q_theap s"
  "q_fheap (set_links s l) = q_fheap s" "q_dheap (set_links s l) = q_dheap s" "q_world (set_links s l) = q_world s"
  "tag_rows (q_db (set_links s l)) = tag_rows (q_db s)" "file_rows (q_db (set_links s l)) = file_rows (q_db s)"
  "link_rows (q_db (set_links s l)) = l" "tag_id (set_links s l) = tag_id s" "file_id (set_links s l) = file_id s"
  "q_tnext (set_links s l) = q_tnext s" "q_fnext (set_links s l) = q_fnext s" "q_dnext (set_links s l) = q_dnext s"
  "q_realdirpath (set_links s l) = q_realdirpath s" "q_tagdbpath (set_links s l) = q_tagdbpath s"
  "set_links (set_links s l) m = set_links s m" "set_links s (link_rows (q_db s)) = s"
  by (simp_all add: set_links_def)

definition same_but_links :: "'w sq \<Rightarrow> 'w sq \<Rightarrow> bool" where
  "same_but_links s s' \<longleftrightarrow> s' = set_links s (link_rows (q_db s'))"

lemma same_but_linksI [simp]: "same_but_links s (set_links s l)"
  by (simp add: same_but_links_def)

lemma same_but_links_refl: "same_but_links s s"
  by (simp add: same_but_links_def)

lemma same_but_links_trans: "same_but_links s s' \<Longrightarrow> same_but_links s' s'' \<Longrightarrow> same_but_links s s''"
  unfolding same_but_links_def by (metis set_links_simps(17))

lemma same_but_linksD:
  assumes "same_but_links s s'"
  shows "q_theap s' = q_theap s" "q_fheap s' = q_fheap s" "q_tags s' = q_tags s" "q_files s' = q_files s"
    "q_world s' = q_world s" "q_realdirpath s' = q_realdirpath s" "tag_rows (q_db s') = tag_rows (q_db s)"
    "q_dheap s' = q_dheap s" "sq_tag_get k s' = sq_tag_get k s" "sq_file_get n s' = sq_file_get n s"
  using assms unfolding same_but_links_def by (metis set_links_simps sq_tag_get_def sq_file_get_def)+

lemma set_links_inv:
  assumes "sq_inv s" and "distinct l" and "\<And>i j. (i, j) \<in> set l \<Longrightarrow> i < tag_id s \<and> j < file_id s"
  shows "sq_inv (set_links s l)"
  using assms unfolding sq_inv_def sq_structs_def sq_rows_def by auto

lemma link_row_new:
  assumes inv: "sq_inv s" and "q_theap s t = Some r" and "q_fheap s f = Some x"
  shows "q_id r < tag_id s \<and> qf_id x < file_id s"
  using sq_rowsD(1,4,7) [OF sq_invD(2) [OF inv]] assms(2,3) by blast

lemma sq_tag_file_row:
  assumes "q_theap s t = Some r" and "q_fheap s f = Some x" and "distinct (link_rows (q_db s))"
  shows "\<exists>l. sq_tag_file t f s = Some (set_links s l) \<and> distinct l \<and>
    set l = insert (q_id r, qf_id x) (set (link_rows (q_db s)))"
proof (cases "(q_id r, qf_id x) \<in> set (link_rows (q_db s))")
  case True
  with assms show ?thesis
    by (intro exI [of _ "link_rows (q_db s)"]) (auto simp: sq_tag_file_def db_tag_file_def set_links_def)
next
  case False
  with assms show ?thesis
    by (intro exI [of _ "link_rows (q_db s) @ [(q_id r, qf_id x)]"]) (simp add: sq_tag_file_def db_tag_file_def set_links_def)
qed

lemma sq_untag_file_row:
  assumes "q_theap s t = Some r" and "q_fheap s f = Some x" and "distinct (link_rows (q_db s))"
  shows "\<exists>l. sq_untag_file t f s = Some (set_links s l) \<and> distinct l \<and>
    set l = set (link_rows (q_db s)) - {(q_id r, qf_id x)}"
  using assms
  by (intro exI [of _ "filter (\<lambda>(t, f). \<not> (t = q_id r \<and> f = qf_id x)) (link_rows (q_db s))"])
    (auto simp: sq_untag_file_def db_untag_file_def set_links_def)

lemma set_links_tagged:
  assumes inv: "sq_inv s" and r: "q_theap s t = Some r" and x: "q_fheap s f = Some x"
  shows "set l = insert (q_id r, qf_id x) (set (link_rows (q_db s))) \<Longrightarrow>
      sq_tagged (set_links s l) = with_tags (sq_tagged s) (qf_name x) [q_value r]"
    and "set l = set (link_rows (q_db s)) - {(q_id r, qf_id x)} \<Longrightarrow>
      sq_tagged (set_links s l) = without_tags (sq_tagged s) (qf_name x) [q_value r]"
proof -
  have same: "q_id q = q_id r \<and> qf_id y = qf_id x \<longleftrightarrow> qf_name y = qf_name x \<and> q_value q = q_value r"
    if "q_theap s u = Some q" "q_fheap s g = Some y" for u q g y
  proof -
    note rows = sq_invD(2) [OF inv]
    have "q_id q = q_id r \<longleftrightarrow> u = t" using sq_rowsD(3) [OF rows that(1) r] that(1) r by auto
    moreover have "q_value q = q_value r \<longleftrightarrow> u = t"
    proof
      assume "q_value q = q_value r"
      with sq_tag_at [OF inv that(1)] sq_tag_at [OF inv r] show "u = t" by simp
    qed (use that(1) r in simp)
    moreover have "qf_id y = qf_id x \<longleftrightarrow> g = f" using sq_rowsD(5) [OF rows that(2) x] that(2) x by auto
    moreover have "qf_name y = qf_name x \<longleftrightarrow> g = f"
    proof
      assume "qf_name y = qf_name x"
      with sq_file_at [OF inv that(2)] sq_file_at [OF inv x] show "g = f" by simp
    qed (use that(2) x in simp)
    ultimately show ?thesis by blast
  qed
  show "sq_tagged (set_links s l) = with_tags (sq_tagged s) (qf_name x) [q_value r]"
    if "set l = insert (q_id r, qf_id x) (set (link_rows (q_db s)))"
  proof (intro ext iffI)
    fix n k assume "sq_tagged (set_links s l) n k"
    then obtain g y u q where g: "q_fheap s g = Some y" "qf_name y = n" "q_theap s u = Some q" "q_value q = k"
      "(q_id q, qf_id y) \<in> set l" unfolding sq_tagged_def by auto
    with that same [OF g(3,1)] sq_tagged_iff [OF inv g(1,3)] show "(n = qf_name x \<and> k \<in> set [q_value r]) \<or> sq_tagged s n k"
      by auto
  next
    fix n k assume "(n = qf_name x \<and> k \<in> set [q_value r]) \<or> sq_tagged s n k"
    with that r x show "sq_tagged (set_links s l) n k" unfolding sq_tagged_def by auto
  qed
  show "sq_tagged (set_links s l) = without_tags (sq_tagged s) (qf_name x) [q_value r]"
    if l: "set l = set (link_rows (q_db s)) - {(q_id r, qf_id x)}"
  proof (intro ext iffI)
    fix n k assume "sq_tagged (set_links s l) n k"
    then obtain g y u q where g: "q_fheap s g = Some y" "qf_name y = n" "q_theap s u = Some q" "q_value q = k"
      "(q_id q, qf_id y) \<in> set l" unfolding sq_tagged_def by auto
    with l same [OF g(3,1)] sq_tagged_iff [OF inv g(1,3)] show "sq_tagged s n k \<and> \<not> (n = qf_name x \<and> k \<in> set [q_value r])"
      by auto
  next
    fix n k assume a: "sq_tagged s n k \<and> \<not> (n = qf_name x \<and> k \<in> set [q_value r])"
    then obtain g y u q where g: "q_fheap s g = Some y" "qf_name y = n" "q_theap s u = Some q" "q_value q = k"
      "(q_id q, qf_id y) \<in> set (link_rows (q_db s))" unfolding sq_tagged_def by blast
    with a l same [OF g(3,1)] have "(q_id q, qf_id y) \<in> set l" by auto
    with g show "sq_tagged (set_links s l) n k" unfolding sq_tagged_def by auto
  qed
qed

lemma sq_tag_file_dead:
  "sq_tag_file t f s = Some s' \<Longrightarrow> \<exists>r x. q_theap s t = Some r \<and> q_fheap s f = Some x"
  "sq_untag_file t f s = Some s' \<Longrightarrow> \<exists>r x. q_theap s t = Some r \<and> q_fheap s f = Some x"
  by (auto simp: sq_tag_file_def sq_untag_file_def elim!: bind_SomeE)

lemma sq_tag_file_links:
  "sq_tag_file t f s = Some s' \<Longrightarrow> same_but_links s s'"
  "sq_untag_file t f s = Some s' \<Longrightarrow> same_but_links s s'"
  by (auto simp: sq_tag_file_def sq_untag_file_def db_tag_file_def db_untag_file_def same_but_links_def set_links_def
      Let_def elim!: bind_SomeE split: if_splits)

interpretation sqs: tag_store sq_ok sq_tag_name sq_file_name same_but_links sq_tag_file sq_untag_file
proof unfold_locales
  fix R :: "cstring \<Rightarrow> cstring \<Rightarrow> bool" and s s' :: "'w sq" and t f k n
  assume ok: "sq_ok R s" and at: "sq_tag_name t s = Some k" "sq_file_name f s = Some n"
  note inv = sq_okD(1) [OF ok]
  from at obtain r x where r: "q_theap s t = Some r" "q_value r = k" and x: "q_fheap s f = Some x" "qf_name x = n"
    by (auto simp: sq_tag_name_iff sq_file_name_iff)
  have d: "distinct (link_rows (q_db s))" by (rule sq_rowsD(11) [OF sq_invD(2) [OF inv]])
  have low: "i < tag_id s \<and> j < file_id s" if "(i, j) \<in> insert (q_id r, qf_id x) (set (link_rows (q_db s)))" for i j
    using that sq_rowsD(12,13) [OF sq_invD(2) [OF inv]] link_row_new [OF inv r(1) x(1)] by blast
  obtain l where l: "sq_tag_file t f s = Some (set_links s l)" "distinct l"
    "set l = insert (q_id r, qf_id x) (set (link_rows (q_db s)))" using sq_tag_file_row [OF r(1) x(1) d] by blast
  obtain m where m: "sq_untag_file t f s = Some (set_links s m)" "distinct m"
    "set m = set (link_rows (q_db s)) - {(q_id r, qf_id x)}" using sq_untag_file_row [OF r(1) x(1) d] by blast
  show "\<exists>s'. sq_tag_file t f s = Some s'" "\<exists>s'. sq_untag_file t f s = Some s'" using l(1) m(1) by blast+
  have "sq_inv (set_links s l)" by (rule set_links_inv [OF inv l(2)], rule low, simp add: l(3))
  with l set_links_tagged(1) [OF inv r(1) x(1) l(3)] r x sq_okD(2) [OF ok]
  show "sq_tag_file t f s = Some s' \<Longrightarrow> sq_ok (with_tags R n [k]) s'" by (auto simp: sq_ok_def)
  have "sq_inv (set_links s m)" by (rule set_links_inv [OF inv m(2)], rule low) (auto simp: m(3))
  with m set_links_tagged(2) [OF inv r(1) x(1) m(3)] r x sq_okD(2) [OF ok]
  show "sq_untag_file t f s = Some s' \<Longrightarrow> sq_ok (without_tags R n [k]) s'" by (auto simp: sq_ok_def)
qed (auto simp: sq_tag_name_def sq_file_name_def with_tags_twice without_tags_twice same_but_links_refl fun_eq_iff
    dest: sq_tag_file_links [THEN same_but_linksD(1)] sq_tag_file_links [THEN same_but_linksD(2)] sq_tag_file_links sq_tag_file_dead intro: same_but_links_trans)

subsection \<open>New files and new tags\<close>

text \<open>What a new file leaves alone.\<close>

definition file_grows :: "'w sq \<Rightarrow> 'w sq \<Rightarrow> bool" where
  "file_grows s s' \<longleftrightarrow> q_tags s' = q_tags s \<and> q_theap s' = q_theap s \<and> tag_rows (q_db s') = tag_rows (q_db s) \<and>
     link_rows (q_db s') = link_rows (q_db s) \<and> q_world s' = q_world s \<and> q_realdirpath s' = q_realdirpath s \<and>
     q_dheap s' = q_dheap s \<and> (\<forall>n f. sq_file_get n s = Some f \<longrightarrow> sq_file_get n s' = Some f) \<and>
     (\<forall>f x. q_fheap s f = Some x \<longrightarrow> q_fheap s' f = Some x)"

lemma file_grows_refl [simp]: "file_grows s s"
  by (simp add: file_grows_def)

lemma file_grows_trans: "file_grows s s' \<Longrightarrow> file_grows s' s'' \<Longrightarrow> file_grows s s''"
  by (simp add: file_grows_def)

lemma file_growsD:
  assumes "file_grows s s'"
  shows "sq_tag_get k s' = sq_tag_get k s" "sq_tag_exist k s' = sq_tag_exist k s" "sq_selected s' ks = sq_selected s ks"
    "q_theap s' = q_theap s" "q_db s'\<lparr>file_rows := r\<rparr> = q_db s\<lparr>file_rows := r\<rparr>" "q_world s' = q_world s"
    "q_realdirpath s' = q_realdirpath s" "sq_tag_name t s' = sq_tag_name t s"
  using assms by (simp_all add: file_grows_def sq_tag_get_def sq_tag_exist_def sq_selected_def sq_tag_name_def)

definition sq_new_file :: "cstring \<Rightarrow> 'w sq \<Rightarrow> 'w sq" where
  "sq_new_file n s =
     s\<lparr>q_fheap := (q_fheap s)(q_fnext s \<mapsto> \<lparr>qf_id = file_id s, qf_name = n, qf_realpath = sq_path_realpath s n\<rparr>),
       q_fnext := Suc (q_fnext s), file_id := file_id s + 1, q_files := q_files s @ [(n, q_fnext s)],
       q_db := (q_db s)\<lparr>file_rows := file_rows (q_db s) @ [(file_id s, n)]\<rparr>\<rparr>"

lemma sq_new_file_eq:
  assumes inv: "sq_inv s" and new: "sq_file_get n s = None"
  shows "sq_file_get_or_create n s = (q_fnext s, sq_new_file n s)"
proof -
  have no: "n \<notin> fst ` set (q_files s)" using new by (simp add: sq_file_get_def ht_get_entry_def ht_find_None_iff)
  have "file_id s \<notin> fst ` set (file_rows (q_db s))"
  proof
    assume "file_id s \<in> fst ` set (file_rows (q_db s))"
    then obtain m where "(file_id s, m) \<in> set (file_rows (q_db s))" by auto
    with sq_rowsD(7) [OF sq_invD(2) [OF inv]] show False by blast
  qed
  moreover have "n \<notin> snd ` set (file_rows (q_db s))"
  proof
    assume "n \<in> snd ` set (file_rows (q_db s))"
    then obtain i where "(i, n) \<in> set (file_rows (q_db s))" by auto
    with sq_rowsD(8) [OF sq_invD(2) [OF inv]] no show False by blast
  qed
  ultimately show ?thesis using new
    by (simp add: sq_file_get_or_create_def sq_file_get_def sq_file_new_def next_file_id_def db_add_file_def
        db_add_row_def sq_new_file_def Let_def ht_add_entry_def sq_path_realpath_def)
qed

lemma new_file_simps [simp]:
  "q_fheap (sq_new_file n s) = (q_fheap s)(q_fnext s \<mapsto> \<lparr>qf_id = file_id s, qf_name = n, qf_realpath = sq_path_realpath s n\<rparr>)"
  "q_fnext (sq_new_file n s) = Suc (q_fnext s)" "file_id (sq_new_file n s) = file_id s + 1"
  "q_files (sq_new_file n s) = q_files s @ [(n, q_fnext s)]" "q_tags (sq_new_file n s) = q_tags s"
  "q_theap (sq_new_file n s) = q_theap s" "q_tnext (sq_new_file n s) = q_tnext s" "tag_id (sq_new_file n s) = tag_id s"
  "tag_rows (q_db (sq_new_file n s)) = tag_rows (q_db s)" "link_rows (q_db (sq_new_file n s)) = link_rows (q_db s)"
  "file_rows (q_db (sq_new_file n s)) = file_rows (q_db s) @ [(file_id s, n)]"
  "q_world (sq_new_file n s) = q_world s" "q_realdirpath (sq_new_file n s) = q_realdirpath s" "q_dheap (sq_new_file n s) = q_dheap s"
  by (simp_all add: sq_new_file_def)

lemma no_file: "sq_file_get n s = None \<longleftrightarrow> n \<notin> fst ` set (q_files s)"
  by (simp add: sq_file_get_def ht_get_entry_def ht_find_None_iff)

lemma new_file_structs:
  assumes st: "sq_structs s" and new: "sq_file_get n s = None"
  shows "sq_structs (sq_new_file n s)"
proof -
  have no: "n \<notin> fst ` set (q_files s)" using new by (simp add: no_file)
  have fresh: "f \<noteq> q_fnext s" if "q_fheap s f = Some x" for f x using sq_structsD(6) [OF st that] by simp
  have files: "(m, f) \<in> set (q_files (sq_new_file n s)) \<longleftrightarrow> (\<exists>x. q_fheap (sq_new_file n s) f = Some x \<and> qf_name x = m)" for m f
    using sq_structsD(4) [OF st, of m f] fresh by auto
  have "f < Suc (q_fnext s)" if "q_fheap (sq_new_file n s) f = Some x" for f x
    using sq_structsD(6) [OF st, of f] that by (auto split: if_splits simp: less_Suc_eq)
  with files sq_structsD(1-3,5) [OF st] no show ?thesis unfolding sq_structs_def by simp
qed

lemma new_file_rows:
  assumes st: "sq_structs s" and rows: "sq_rows s"
  shows "sq_rows (sq_new_file n s)"
proof -
  note r = sq_rowsD [OF rows]
  have ids: "qf_id x < file_id s" if "q_fheap s f = Some x" for f x using r(7) [OF r(4) [OF that]] .
  have "(qf_id x, qf_name x) \<in> set (file_rows (q_db (sq_new_file n s)))" if "q_fheap (sq_new_file n s) f = Some x" for f x
    using that r(4) [of f x] by (auto split: if_splits)
  moreover have "f = g" if "q_fheap (sq_new_file n s) f = Some x" "q_fheap (sq_new_file n s) g = Some y" "qf_id x = qf_id y" for f g x y
    using that r(5) [of f x g y] ids [of f x] ids [of g y] by (auto split: if_splits)
  moreover have "i < file_id s + 1 \<and> m \<in> fst ` set (q_files (sq_new_file n s))" if "(i, m) \<in> set (file_rows (q_db (sq_new_file n s)))" for i m
    using that r(7) [of i m] r(8) [of i m] by auto
  moreover have "j < file_id s + 1" if "(i, j) \<in> set (link_rows (q_db s))" for i j using r(13) [OF that] by simp
  ultimately show ?thesis using r(1-3,6,9-12) by (intro sq_rowsI) (simp_all del: new_file_simps(1,4,11))
qed

lemma new_file_ok:
  assumes ok: "sq_ok R s" and new: "sq_file_get n s = None"
  shows "sq_ok R (sq_new_file n s)"
proof -
  note inv = sq_invD [OF sq_okD(1) [OF ok]]
  have fresh: "f \<noteq> q_fnext s" if "q_fheap s f = Some x" for f x using sq_structsD(6) [OF inv(1) that] by simp
  have "(i, file_id s) \<notin> set (link_rows (q_db s))" for i using sq_rowsD(13) [OF inv(2)] by blast
  then have "sq_tagged (sq_new_file n s) m k = sq_tagged s m k" for m k
    unfolding sq_tagged_def using fresh by (auto split: if_splits)
  then have "sq_tagged (sq_new_file n s) = R" using sq_okD(2) [OF ok] by (simp add: fun_eq_iff)
  with new_file_structs [OF inv(1) new] new_file_rows [OF inv] show ?thesis by (simp add: sq_ok_def sq_inv_def)
qed

lemma sq_file_get_or_create_effect:
  assumes ok: "sq_ok R s" and run: "sq_file_get_or_create n s = (f, s')"
  shows "sq_ok R s' \<and> file_grows s s' \<and> sq_file_get n s' = Some f \<and> sq_file_name f s' = Some n"
proof (cases "sq_file_get n s")
  case None
  have s': "f = q_fnext s" "s' = sq_new_file n s" using sq_new_file_eq [OF sq_okD(1) [OF ok] None] run by simp_all
  have "file_grows s s'" unfolding file_grows_def s'
    using None sq_structsD(6) [OF sq_invD(1) [OF sq_okD(1) [OF ok]]]
    by (auto simp: sq_file_get_def ht_get_entry_def ht_find_def)
  with new_file_ok [OF ok None] show ?thesis
    by (simp add: s' sq_file_get_def ht_get_entry_def ht_find_def sq_file_name_def)
next
  case (Some g)
  with run have "f = g" "s' = s" by (simp_all add: sq_file_get_or_create_def sq_file_get_def)
  with ok Some sq_file_live [OF sq_okD(1) [OF ok] Some] show ?thesis by (simp add: sq_file_name_iff)
qed

definition sq_new_tag :: "cstring \<Rightarrow> 'w sq \<Rightarrow> 'w sq" where
  "sq_new_tag k s =
     s\<lparr>q_theap := (q_theap s)(TagAt (q_tnext s) \<mapsto> \<lparr>q_id = tag_id s, q_value = k\<rparr>),
       q_tnext := Suc (q_tnext s), tag_id := tag_id s + 1, q_tags := q_tags s @ [(k, TagAt (q_tnext s))],
       q_db := (q_db s)\<lparr>tag_rows := tag_rows (q_db s) @
         (if k \<in> snd ` set (tag_rows (q_db s)) then [] else [(tag_id s, k)])\<rparr>\<rparr>"

lemma new_tag_simps [simp]:
  "q_theap (sq_new_tag k s) = (q_theap s)(TagAt (q_tnext s) \<mapsto> \<lparr>q_id = tag_id s, q_value = k\<rparr>)"
  "q_tnext (sq_new_tag k s) = Suc (q_tnext s)" "tag_id (sq_new_tag k s) = tag_id s + 1"
  "q_tags (sq_new_tag k s) = q_tags s @ [(k, TagAt (q_tnext s))]" "q_files (sq_new_tag k s) = q_files s"
  "q_fheap (sq_new_tag k s) = q_fheap s" "q_fnext (sq_new_tag k s) = q_fnext s" "file_id (sq_new_tag k s) = file_id s"
  "tag_rows (q_db (sq_new_tag k s)) = tag_rows (q_db s) @
     (if k \<in> snd ` set (tag_rows (q_db s)) then [] else [(tag_id s, k)])"
  "file_rows (q_db (sq_new_tag k s)) = file_rows (q_db s)" "link_rows (q_db (sq_new_tag k s)) = link_rows (q_db s)"
  "q_world (sq_new_tag k s) = q_world s" "q_realdirpath (sq_new_tag k s) = q_realdirpath s" "q_dheap (sq_new_tag k s) = q_dheap s"
  by (simp_all add: sq_new_tag_def)

lemma no_tag:
  assumes "sq_inv s"
  shows "\<not> sq_tag_exist k s \<longleftrightarrow> k \<notin> fst ` set (q_tags s)" "\<not> sq_tag_exist k s \<longleftrightarrow> ht_get_entry (q_tags s) k = None"
proof -
  have "INVALID_TAG \<notin> snd ` set (q_tags s)"
    using sq_structsD(3) [OF sq_invD(1) [OF assms], of _ INVALID_TAG] sq_no_invalid [OF assms] by auto
  then show *: "\<not> sq_tag_exist k s \<longleftrightarrow> k \<notin> fst ` set (q_tags s)"
    by (auto simp: sq_tag_exist_def sq_tag_get_def ht_get_entry_def ht_find_None_iff split: option.splits
        dest: ht_find_SomeD) (metis ht_find_SomeD image_eqI fst_conv snd_conv)+
  show "\<not> sq_tag_exist k s \<longleftrightarrow> ht_get_entry (q_tags s) k = None" unfolding * by (simp add: ht_get_entry_def ht_find_None_iff)
qed

lemma sq_new_tag_eq:
  assumes inv: "sq_inv s" and new: "\<not> sq_tag_exist k s"
  shows "sq_tag_get_or_create k s = (TagAt (q_tnext s), sq_new_tag k s)"
proof -
  have "tag_id s \<notin> fst ` set (tag_rows (q_db s))" using sq_rowsD(6) [OF sq_invD(2) [OF inv]] by force
  then show ?thesis using new no_tag(2) [OF inv, of k]
    by (auto simp: sq_tag_get_or_create_def sq_tag_new_def next_tag_id_def db_add_tag_def
        db_add_row_def sq_new_tag_def Let_def ht_add_entry_def)
qed

lemma new_tag_structs:
  assumes inv: "sq_inv s" and new: "\<not> sq_tag_exist k s"
  shows "sq_structs (sq_new_tag k s)"
proof -
  note st = sq_structsD [OF sq_invD(1) [OF inv]]
  have no: "k \<notin> fst ` set (q_tags s)" using new no_tag(1) [OF inv] by simp
  have fresh: "t \<noteq> TagAt (q_tnext s)" if "q_theap s t = Some r" for t r using st(5) [OF that] by auto
  have tags: "(j, t) \<in> set (q_tags (sq_new_tag k s)) \<longleftrightarrow> (\<exists>r. q_theap (sq_new_tag k s) t = Some r \<and> q_value r = j)" for j t
    using st(3) [of j t] fresh by auto
  have "t < TagAt (Suc (q_tnext s))" if "q_theap (sq_new_tag k s) t = Some r" for t r
    using st(5) [of t] that by (auto split: if_splits simp: tptr_less_Suc)
  with tags st(1,2,4,6) no show ?thesis unfolding sq_structs_def by simp
qed

lemma new_tag_rows:
  assumes inv: "sq_inv s"
  shows "sq_rows (sq_new_tag k s)"
proof -
  note r = sq_rowsD [OF sq_invD(2) [OF inv]]
  have low: "i < tag_id s + 1" if "i < tag_id s" for i using that by simp
  have "q_id q < tag_id s + 1 \<and> q_value q \<in> snd ` set (tag_rows (q_db (sq_new_tag k s)))"
    if "q_theap (sq_new_tag k s) t = Some q" for t q
    using that r(1) [of t q] r(2) [of t q] by (auto split: if_splits intro: rev_image_eqI)
  moreover have "t = u" if "q_theap (sq_new_tag k s) t = Some q" "q_theap (sq_new_tag k s) u = Some y" "q_id q = q_id y" for t q u y
    using that r(3) [of t q u y] r(1) [of t q] r(1) [of u y] by (auto split: if_splits)
  moreover have "i < tag_id s + 1" if "(i, m) \<in> set (tag_rows (q_db (sq_new_tag k s)))" for i m
    using that r(6) [of i m] by (auto split: if_splits)
  moreover have "distinct (map fst (tag_rows (q_db (sq_new_tag k s))))" using r(9) r(6) by fastforce
  moreover have "distinct (map snd (tag_rows (q_db (sq_new_tag k s))))" using r(10) by simp
  moreover have "i < tag_id s + 1 \<and> j < file_id s" if "(i, j) \<in> set (link_rows (q_db s))" for i j
    using r(12,13) [OF that] by simp
  ultimately show ?thesis using r(4,5,7,8,11) by (intro sq_rowsI) (simp_all del: new_tag_simps(1,9))
qed

lemma new_tag_ok:
  assumes ok: "sq_ok R s" and new: "\<not> sq_tag_exist k s"
  shows "sq_ok R (sq_new_tag k s)"
proof -
  note inv = sq_okD(1) [OF ok]
  have fresh: "t \<noteq> TagAt (q_tnext s)" if "q_theap s t = Some r" for t r using sq_structsD(5) [OF sq_invD(1) [OF inv] that] by auto
  have "(tag_id s, j) \<notin> set (link_rows (q_db s))" for j using sq_rowsD(12) [OF sq_invD(2) [OF inv]] by blast
  then have "sq_tagged (sq_new_tag k s) m j = sq_tagged s m j" for m j
    unfolding sq_tagged_def using fresh by (auto split: if_splits; blast)
  then have "sq_tagged (sq_new_tag k s) = R" using sq_okD(2) [OF ok] by (simp add: fun_eq_iff)
  with new_tag_structs [OF inv new] new_tag_rows [OF inv] show ?thesis by (simp add: sq_ok_def sq_inv_def)
qed

lemma sq_tag_get_or_create_effect:
  assumes ok: "sq_ok R s" and run: "sq_tag_get_or_create k s = (t, s')"
  shows "sq_ok R s' \<and> sq_tag_get k s' = t \<and> sq_tag_name t s' = Some k \<and> q_files s' = q_files s \<and> q_fheap s' = q_fheap s"
proof (cases "sq_tag_exist k s")
  case True
  then obtain u where u: "ht_get_entry (q_tags s) k = Some u" using no_tag(2) [OF sq_okD(1) [OF ok]] by auto
  then have "t = u" "s' = s" using run by (simp_all add: sq_tag_get_or_create_def)
  with u sq_tag_live [OF sq_okD(1) [OF ok] True] ok show ?thesis by (simp add: sq_tag_get_def sq_tag_name_iff)
next
  case False
  with sq_new_tag_eq [OF sq_okD(1) [OF ok] False] new_tag_ok [OF ok False] run show ?thesis
    by (auto simp: sq_tag_get_def ht_get_entry_def ht_find_def sq_tag_name_def)
qed

subsection \<open>The query that counts rows\<close>

lemma card_all: "card {t \<in> set ts. P t} = length ts \<longleftrightarrow> distinct ts \<and> (\<forall>t\<in>set ts. P t)"
proof
  assume card: "card {t \<in> set ts. P t} = length ts"
  have "card {t \<in> set ts. P t} \<le> card (set ts)" by (rule card_mono) auto
  with card card_length [of ts] have *: "card (set ts) = length ts" "card {t \<in> set ts. P t} = card (set ts)" by simp_all
  have "{t \<in> set ts. P t} = set ts" by (rule card_subset_eq) (use * in auto)
  with *(1) show "distinct ts \<and> (\<forall>t\<in>set ts. P t)" by (auto intro: card_distinct)
next
  assume "distinct ts \<and> (\<forall>t\<in>set ts. P t)"
  moreover from this have "{t \<in> set ts. P t} = set ts" by auto
  ultimately show "card {t \<in> set ts. P t} = length ts" by (simp add: distinct_card)
qed

lemma count_rows:
  assumes "distinct rows"
  shows "length (filter (\<lambda>(t, f). f = j \<and> t \<in> set ts) rows) = card {t \<in> set ts. (t, j) \<in> set rows}"
proof -
  have "length (filter (\<lambda>(t, f). f = j \<and> t \<in> set ts) rows) = card (set (filter (\<lambda>(t, f). f = j \<and> t \<in> set ts) rows))"
    by (rule distinct_card [symmetric]) (simp add: assms)
  also have "set (filter (\<lambda>(t, f). f = j \<and> t \<in> set ts) rows) = (\<lambda>t. (t, j)) ` {t \<in> set ts. (t, j) \<in> set rows}" by auto
  finally show ?thesis by (simp add: card_image inj_on_def)
qed

definition id_of :: "'w sq \<Rightarrow> cstring \<Rightarrow> int" where
  "id_of s k = q_id (the (q_theap s (sq_tag_get k s)))"

lemma id_list:
  assumes "sq_inv s"
  shows "tag_id_list_string (sq_selected s ks) s =
    (if \<forall>k\<in>set ks. sq_tag_exist k s then Some (map (id_of s) ks) else None)"
proof -
  have "ht_for_each (sq_selected s ks) (\<lambda>n t str. do { r \<leftarrow> q_theap s t; Some (str @ [q_id r]) }) acc =
    (if \<forall>k\<in>set ks. sq_tag_exist k s then Some (acc @ map (id_of s) ks) else None)" for acc
  proof (induction ks arbitrary: acc)
    case Nil
    then show ?case by (simp add: sq_selected_def)
  next
    case (Cons k ks)
    show ?case
    proof (cases "sq_tag_exist k s")
      case True
      from sq_tag_live [OF assms True] obtain r where "q_theap s (sq_tag_get k s) = Some r" by blast
      with Cons.IH True show ?thesis by (simp add: sq_selected_def id_of_def)
    next
      case False
      then have "sq_tag_get k s = INVALID_TAG" by (simp add: sq_tag_exist_def)
      with False sq_no_invalid [OF assms] show ?thesis by (simp add: sq_selected_def)
    qed
  qed
  from this [of "[]"] show ?thesis by (simp add: tag_id_list_string_def)
qed

lemma id_of_inj:
  assumes inv: "sq_inv s" and "sq_tag_exist k s" "sq_tag_exist j s" "id_of s k = id_of s j"
  shows "k = j"
proof -
  obtain r q where r: "q_theap s (sq_tag_get k s) = Some r" "q_value r = k"
    and q: "q_theap s (sq_tag_get j s) = Some q" "q_value q = j"
    using sq_tag_live [OF inv assms(2)] sq_tag_live [OF inv assms(3)] by blast
  have "q_id r = q_id q" using assms(4) unfolding id_of_def r(1) q(1) by simp
  then have "sq_tag_get k s = sq_tag_get j s" by (rule sq_rowsD(3) [OF sq_invD(2) [OF inv] r(1) q(1)])
  then have "r = q" using r(1) q(1) by simp
  with r(2) q(2) show ?thesis by simp
qed

lemma match_tags:
  assumes ok: "sq_ok R s" and x: "q_fheap s f = Some x"
  shows "db_file_match_tags (qf_id x) (sq_selected s ks) s =
    (if \<forall>k\<in>set ks. sq_tag_exist k s then Some (distinct ks \<and> (\<forall>k\<in>set ks. R (qf_name x) k)) else None)"
proof (cases "\<forall>k\<in>set ks. sq_tag_exist k s")
  case True
  note inv = sq_okD(1) [OF ok]
  have row: "(id_of s k, qf_id x) \<in> set (link_rows (q_db s)) \<longleftrightarrow> R (qf_name x) k" if "k \<in> set ks" for k
  proof -
    from sq_tag_live [OF inv, of k] True that obtain r where "q_theap s (sq_tag_get k s) = Some r" "q_value r = k" by blast
    with sq_tagged_iff [OF inv x, of _ r] sq_okD(2) [OF ok] show ?thesis by (auto simp: id_of_def)
  qed
  define ids where "ids = map (id_of s) ks"
  have "inj_on (id_of s) (set ks)" using id_of_inj [OF inv] True unfolding inj_on_def by blast
  then have "distinct ids \<longleftrightarrow> distinct ks" by (simp add: ids_def distinct_map)
  moreover have "(\<forall>t\<in>set ids. (t, qf_id x) \<in> set (link_rows (q_db s))) \<longleftrightarrow> (\<forall>k\<in>set ks. R (qf_name x) k)"
    using row by (simp add: ids_def)
  moreover have "length ids = length (sq_selected s ks)" by (simp add: ids_def sq_selected_def)
  ultimately have "int (length (filter (\<lambda>(t, f). f = qf_id x \<and> t \<in> set ids) (link_rows (q_db s)))) =
      ht_entry_count (sq_selected s ks) \<longleftrightarrow> distinct ks \<and> (\<forall>k\<in>set ks. R (qf_name x) k)"
    using card_all [of ids "\<lambda>t. (t, qf_id x) \<in> set (link_rows (q_db s))"]
    unfolding count_rows [OF sq_rowsD(11) [OF sq_invD(2) [OF inv]]] ht_entry_count_def by simp
  moreover have "tag_id_list_string (sq_selected s ks) s = Some ids" using True id_list [OF inv, of ks] by (simp add: ids_def)
  ultimately have "db_file_match_tags (qf_id x) (sq_selected s ks) s = Some (distinct ks \<and> (\<forall>k\<in>set ks. R (qf_name x) k))"
    by (simp only: db_file_match_tags_def Let_def bind.simps)
  then show ?thesis unfolding if_P [OF True] .
next
  case False
  have "tag_id_list_string (sq_selected s ks) s = None" unfolding id_list [OF sq_okD(1) [OF ok]] if_not_P [OF False] ..
  then show ?thesis unfolding if_not_P [OF False] by (simp add: db_file_match_tags_def)
qed

subsection \<open>Attributes\<close>

text \<open>
  The answer of \<^verbatim>\<open>getattr\<close>. \<open>None\<close> is the undefined behaviour of a directory with an unknown tag.
  A tag that stands twice in the path matches no file, for each row counts once.
\<close>

definition attr_spec :: "'w os \<Rightarrow> cstring \<Rightarrow> cstring \<Rightarrow> cstring \<Rightarrow> cstring list \<Rightarrow> stat \<Rightarrow> 'w sq \<Rightarrow> (int \<times> stat) option" where
  "attr_spec os real virtual name ks stbuf s =
     (let (res, st) = c_stat os real stbuf (q_world s)
      in if res < 0 \<or> S_ISDIR (st_mode st)
         then Some (if virtual = ''/'' \<or> sq_tag_exist name s \<and> name \<notin> set ks
                    then c_stat os (q_realdirpath s) st (q_world s) else (- ENOENT, st))
         else if \<not> (\<forall>k\<in>set ks. sq_tag_exist k s) then None
         else Some (if ks = [] then (res, if name = TAG_FILENAME then st\<lparr>st_size := LONG_MAX\<rparr> else st)
                    else (if distinct ks \<and> (\<forall>k\<in>set ks. sq_tagged s name k) then res else - ENOENT, st)))"

lemma getattr_intra_eq:
  assumes ok: "sq_ok R s" and sel: "p_selected_tags p = sq_selected s ks"
  shows "(case attr_spec os (p_realpath p) (p_virtpath p) (p_filename p) ks stbuf s of
      None \<Rightarrow> sq_getattr_intra os p stbuf s = None
    | Some a \<Rightarrow> \<exists>s'. sq_getattr_intra os p stbuf s = Some (a, s') \<and> sq_ok R s' \<and> file_grows s s')"
proof -
  obtain res st where c: "c_stat os (p_realpath p) stbuf (q_world s) = (res, st)" by fastforce
  have has: "ht_has_entry (p_selected_tags p) n \<longleftrightarrow> n \<in> set ks" for n
    by (simp add: sel ht_has_entry_iff sq_selected_def comp_def)
  have count: "ht_entry_count (p_selected_tags p) > 0 \<longleftrightarrow> ks \<noteq> []" by (simp add: sel ht_entry_count_def sq_selected_def)
  show ?thesis
  proof (cases "res < 0 \<or> S_ISDIR (st_mode st)")
    case True
    with ok show ?thesis by (simp add: sq_getattr_intra_def attr_spec_def c has)
  next
    case False
    obtain f s1 where f: "sq_file_get_or_create (p_filename p) s = (f, s1)" by fastforce
    from sq_file_get_or_create_effect [OF ok f] obtain x where s1: "sq_ok R s1" "file_grows s s1"
      and x: "q_fheap s1 f = Some x" "qf_name x = p_filename p" by (auto simp: sq_file_name_iff)
    have "sq_file_matches_tags f (p_selected_tags p) s1 = (if \<forall>k\<in>set ks. sq_tag_exist k s
      then Some (distinct ks \<and> (\<forall>k\<in>set ks. sq_tagged s (p_filename p) k)) else None)"
      using match_tags [OF s1(1) x(1), of ks] file_growsD(2,3) [OF s1(2)] x sq_okD(2) [OF ok]
      by (simp add: sq_file_matches_tags_def sel)
    with False s1 f count show ?thesis by (cases "ks = []") (simp_all add: sq_getattr_intra_def attr_spec_def c)
  qed
qed

end
