(* ===== verification/Sq_Step.thy ===== *)
theory Sq_Step
  imports Sq_Rel
begin

text \<open>
  The operations of \<^verbatim>\<open>fuse_sqlite3\<close> and the invariant: what each request does to the relation, and the
  states that can be reached from the start of the program.
\<close>

named_theorems sq_keeps \<open>parts of operations that keep the relation of files and tags\<close>

subsection \<open>Selected tags\<close>

lemma compute_selected: "sq_compute_selected_tags d s = Some h \<Longrightarrow> \<exists>ks. h = sq_selected s ks"
  by (auto simp: sq_compute_selected_tags_def sq_select_tags_eq sq_selected_def ht_create_def
      simp del: map_map elim!: bind_SomeE split: run_splits intro: exI [of _ "[]"])

lemma path_selected: "sq_path_create u b s = Some p \<Longrightarrow> \<exists>ks. p_selected_tags p = sq_selected s ks"
  by (auto simp: sq_path_create_def Let_def simp del: if_split elim!: bind_SomeE dest: compute_selected)

lemma selected_at:
  assumes "sq_inv s" and "(k, t) \<in> set (sq_selected s ks)"
  shows "sq_tag_name t s = None \<or> sq_tag_name t s = Some k"
proof (cases "sq_tag_exist k s")
  case True
  from sq_tag_live [OF assms(1) True] assms(2) show ?thesis by (auto simp: sq_selected_def sq_tag_name_def)
next
  case False
  with assms sq_no_invalid [OF assms(1)] show ?thesis
    by (auto simp: sq_selected_def sq_tag_name_def sq_tag_exist_def)
qed

lemma selected_live:
  "sq_inv s \<Longrightarrow> \<forall>k\<in>set ks. sq_tag_exist k s \<Longrightarrow> \<forall>(k, t)\<in>set (sq_selected s ks). sq_tag_name t s = Some k"
  using sq_tag_live by (fastforce simp: sq_selected_def sq_tag_name_def)

lemma selected_dead:
  assumes "sq_inv s" and "\<exists>k\<in>set ks. \<not> sq_tag_exist k s"
  shows "\<exists>(k, t)\<in>set (sq_selected s ks). sq_tag_name t s = None"
proof -
  obtain k where k: "k \<in> set ks" "sq_tag_get k s = INVALID_TAG" using assms(2) by (auto simp: sq_tag_exist_def)
  then have "(k, INVALID_TAG) \<in> set (sq_selected s ks)" by (force simp: sq_selected_def)
  moreover have "sq_tag_name INVALID_TAG s = None" using sq_no_invalid [OF assms(1)] by (simp add: sq_tag_name_def)
  ultimately show ?thesis by blast
qed

lemma selected_keys [simp]: "keys (sq_selected s ks) = ks"
  by (simp add: sq_selected_def comp_def)

lemma selected_same: "same_but_links s s' \<Longrightarrow> sq_selected s' ks = sq_selected s ks"
  by (simp add: sq_selected_def same_but_linksD)

subsection \<open>Files and attributes\<close>

lemma keep_file [sq_keeps]: "sq_file_get_or_create n s = (f, s') \<Longrightarrow> sq_ok R s \<Longrightarrow> sq_ok R s'"
  using sq_file_get_or_create_effect by blast

lemma keep_tag [sq_keeps]: "sq_tag_get_or_create k s = (t, s') \<Longrightarrow> sq_ok R s \<Longrightarrow> sq_ok R s'"
  using sq_tag_get_or_create_effect by blast

lemma keep_intra:
  assumes run: "sq_getattr_intra os p b s = Some (a, s')" and ok: "sq_ok R s"
  shows "sq_ok R s' \<and> file_grows s s'"
proof -
  obtain f s1 where f: "sq_file_get_or_create (p_filename p) s = (f, s1)" by fastforce
  from run consider "s' = s" | "s' = s1"
    by (auto simp: sq_getattr_intra_def f Let_def elim!: bind_SomeE split: run_splits)
  then show ?thesis using sq_file_get_or_create_effect [OF ok f] ok by cases auto
qed

lemma keep_getattr [sq_keeps]:
  "sq_getattr_intra os p b s = Some (a, s') \<Longrightarrow> sq_ok R s \<Longrightarrow> sq_ok R s'"
  "sq_tag_getattr os u b s = Some (a, s') \<Longrightarrow> sq_ok R s \<Longrightarrow> sq_ok R s'"
  "sq_tag_fgetattr os d b s = Some (a, s') \<Longrightarrow> sq_ok R s \<Longrightarrow> sq_ok R s'"
  by (auto simp: sq_tag_getattr_def sq_tag_fgetattr_def elim!: bind_SomeE dest: keep_intra)

lemma keep_entries [sq_keeps]:
  "sq_readdir_entries os p ds buf s = Some (b, s') \<Longrightarrow> sq_ok R s \<Longrightarrow> sq_ok R s'"
proof (induction os p ds buf s arbitrary: b s' rule: sq_readdir_entries.induct)
  case (1 os dirpath buf s)
  then show ?case by simp
next
  case (2 os dirpath d_name dt_dir dirents buf s)
  show ?case
  proof (cases dt_dir)
    case True
    with 2(1,3,4) show ?thesis by simp
  next
    case False
    with 2(3) obtain res st s1 where s1:
      "sq_getattr_intra os (sq_path_set s (p_virtpath dirpath) d_name (p_selected_tags dirpath)) stat0 s = Some ((res, st), s1)"
      "sq_readdir_entries os dirpath dirents (if res < 0 then buf else buf @ [d_name]) s1 = Some (b, s')"
      by (auto simp: Let_def elim!: bind_SomeE)
    from 2(2) [OF False refl s1(1) refl refl s1(2) keep_getattr(1) [OF s1(1) 2(4)]] show ?thesis .
  qed
qed

lemma keep_fd [sq_keeps]:
  "sq_fd_open os p flags b s = (r, s') \<Longrightarrow> sq_ok R s \<Longrightarrow> sq_ok R s'"
  "sq_fd_close os d s = Some (e, s') \<Longrightarrow> sq_ok R s \<Longrightarrow> sq_ok R s'"
  "sq_fd_read os d buf len off s = Some (rb, s') \<Longrightarrow> sq_ok R s \<Longrightarrow> sq_ok R s'"
  "sq_fd_write os d buf len off s = Some (n, s') \<Longrightarrow> sq_ok R s \<Longrightarrow> sq_ok R s'"
  by (auto simp: sq_fd_open_def sq_fd_close_def sq_fd_read_def sq_fd_write_def Let_def
      elim!: bind_SomeE split: run_splits)

lemma keep_real:
  "sq_tag_mknod os u mode dev s = (r, s') \<Longrightarrow> sq_ok R s \<Longrightarrow> sq_ok R s'"
  "sq_tag_truncate os u len s = (r, s') \<Longrightarrow> sq_ok R s \<Longrightarrow> sq_ok R s'"
  "sq_tag_chmod os u mode s = (r, s') \<Longrightarrow> sq_ok R s \<Longrightarrow> sq_ok R s'"
  "sq_tag_chown os u uid gid s = (r, s') \<Longrightarrow> sq_ok R s \<Longrightarrow> sq_ok R s'"
  "sq_tag_utime os u tb s = (r, s') \<Longrightarrow> sq_ok R s \<Longrightarrow> sq_ok R s'"
  by (auto simp: sq_tag_mknod_def sq_tag_truncate_def sq_tag_chmod_def sq_tag_chown_def sq_tag_utime_def Let_def
      split: run_splits)

lemma keep_mkdir: "sq_tag_mkdir u s = (r, s') \<Longrightarrow> sq_ok R s \<Longrightarrow> sq_ok R s'"
  by (auto simp: sq_tag_mkdir_def Let_def split: run_splits dest: keep_tag)

subsection \<open>Operations that change the relation\<close>

lemma path_unlink_effect:
  assumes run: "sq_path_unlink p s = Some (r, s')" and ok: "sq_ok R s" and sel: "p_selected_tags p = sq_selected s ks"
  shows "(r = - ENOENT \<and> s' = s \<and> sq_file_get (p_filename p) s = None) \<or>
    (r = 0 \<and> sq_ok (without_tags R (p_filename p) ks) s' \<and> same_but_links s s' \<and> sq_file_get (p_filename p) s \<noteq> None)"
proof (cases "sq_file_get (p_filename p) s")
  case None
  with run show ?thesis by (simp add: sq_path_unlink_def)
next
  case (Some f)
  with run obtain s1 where s1: "ht_for_each (sq_selected s ks) (\<lambda>filename tag s. sq_untag_file tag f s) s = Some s1"
    "s' = s1" "r = 0" by (auto simp: sq_path_unlink_def sel elim!: bind_SomeE)
  have "sq_file_name f s = Some (p_filename p)" using sq_file_live [OF sq_okD(1) [OF ok] Some] by (simp add: sq_file_name_iff)
  from sqs.unlink.loop_ran [OF s1(1) ok this selected_at [OF sq_okD(1) [OF ok]]] s1(2,3) Some show ?thesis by simp
qed

lemma path_link_effect:
  assumes run: "sq_path_link os p q s = Some (r, s')" and ok: "sq_ok R s" and sel: "p_selected_tags q = sq_selected s ks"
  shows "(r < 0 \<and> sq_ok R s' \<or> r \<ge> 0 \<and> sq_ok (with_tags R (p_filename p) ks) s')"
proof -
  obtain st s1 where s1: "sq_getattr_intra os p stat0 s = Some ((r, st), s1)"
    using run by (auto simp: sq_path_link_def elim!: bind_SomeE split: run_splits)
  from keep_intra [OF s1 ok] have ok1: "sq_ok R s1" "file_grows s s1" by auto
  obtain f s2 where f: "sq_file_get_or_create (p_filename p) s1 = (f, s2)" by fastforce
  from sq_file_get_or_create_effect [OF ok1(1) f] have s2: "sq_ok R s2" "file_grows s1 s2" "sq_file_name f s2 = Some (p_filename p)"
    by auto
  show ?thesis
  proof (cases "r < 0")
    case True
    with run s1 ok1 show ?thesis by (auto simp: sq_path_link_def)
  next
    case False
    with run s1 f have "ht_for_each (sq_selected s ks) (\<lambda>tagname tag s. sq_tag_file tag f s) s2 = Some s'"
      by (auto simp: sq_path_link_def sel elim!: bind_SomeE)
    then have "ht_for_each (sq_selected s2 ks) (\<lambda>tagname tag s. sq_tag_file tag f s) s2 = Some s'"
      using file_growsD(3) [OF file_grows_trans [OF ok1(2) s2(2)]] by simp
    from sqs.link.loop_ran [OF this s2(1,3) selected_at [OF sq_okD(1) [OF s2(1)]]] False show ?thesis by simp
  qed
qed

lemma tag_remove_ok:
  assumes run: "sq_tag_remove t s = Some s'" and ok: "sq_ok R s" and r: "q_theap s t = Some r"
  shows "sq_ok (\<lambda>n k. R n k \<and> k \<noteq> q_value r) s'"
proof -
  note inv = sq_okD(1) [OF ok]
  note st = sq_structsD [OF sq_invD(1) [OF inv]] and rows = sq_rowsD [OF sq_invD(2) [OF inv]]
  have s': "s' = s\<lparr>q_tags := filter (\<lambda>e. fst e \<noteq> q_value r) (q_tags s), q_theap := (q_theap s)(t := None)\<rparr>"
    using run r st(1) by (simp add: sq_tag_remove_def ht_remove_distinct)
  have other: "q_value q \<noteq> q_value r \<longleftrightarrow> u \<noteq> t" if "q_theap s u = Some q" for u q
    using sq_tag_at [OF inv that] sq_tag_at [OF inv r] that r by (cases "u = t") (simp, metis)
  have "(k, u) \<in> set (q_tags s') \<longleftrightarrow> (\<exists>q. q_theap s' u = Some q \<and> q_value q = k)" for k u
    unfolding s' using st(3) [of k u] other [of u] by auto
  moreover have "distinct (keys (q_tags s'))" using st(1) by (simp add: s' distinct_keys_filter)
  moreover have "u < TagAt (q_tnext s')" if "q_theap s' u = Some q" for u q
    using that st(5) [of u q] by (auto simp: s' split: if_splits)
  ultimately have "sq_structs s'" using st(2,4,6) unfolding sq_structs_def by (simp add: s')
  moreover have "sq_rows s'"
    by (rule sq_rowsI; use rows in \<open>simp add: s' split: if_splits\<close>)
  moreover have "sq_tagged s' n k \<longleftrightarrow> R n k \<and> k \<noteq> q_value r" for n k
  proof -
    have "sq_tagged s' n k \<longleftrightarrow> sq_tagged s n k \<and> k \<noteq> q_value r"
      unfolding sq_tagged_def s' using other by (auto split: if_splits; blast)
    with sq_okD(2) [OF ok] show ?thesis by simp
  qed
  ultimately show ?thesis by (simp add: sq_ok_def sq_inv_def fun_eq_iff)
qed

lemma selected_grows: "file_grows s s' \<Longrightarrow> sq_selected s' ks = sq_selected s ks"
  by (rule file_growsD(3))

lemma link_keeps:
  assumes "sq_tag_link os u v s = Some (r, s')" and "sq_ok R s"
  shows "\<exists>R'. sq_ok R' s'"
proof -
  obtain p q where p: "sq_path_create u False s = Some p" "sq_path_create v False s = Some q"
    "sq_path_link os p q s = Some (r, s')" using assms(1) by (auto simp: sq_tag_link_def elim!: bind_SomeE)
  from path_selected [OF p(2)] path_link_effect [OF p(3) assms(2)] show ?thesis by blast
qed

lemma unlink_keeps:
  assumes "sq_tag_unlink u s = Some (r, s')" and "sq_ok R s"
  shows "\<exists>R'. sq_ok R' s'"
proof (cases "get_character_count u slash \<le> 1")
  case True
  with assms show ?thesis by (auto simp: sq_tag_unlink_def)
next
  case False
  then obtain p where p: "sq_path_create u False s = Some p" "sq_path_unlink p s = Some (r, s')"
    using assms(1) by (auto simp: sq_tag_unlink_def elim!: bind_SomeE)
  from path_selected [OF p(1)] path_unlink_effect [OF p(2) assms(2)] assms(2) show ?thesis by blast
qed

lemma rename_keeps:
  assumes "sq_tag_rename os u v s = Some (r, s')" and ok: "sq_ok R s"
  shows "\<exists>R'. sq_ok R' s'"
proof -
  from assms(1) consider "s' = s" | p q r1 r2 s1 where "sq_path_create u False s = Some p" "sq_path_create v False s = Some q"
    "sq_path_unlink p s = Some (r1, s1)" "sq_path_link os p q s1 = Some (r2, s')"
    by (auto simp: sq_tag_rename_def elim!: bind_SomeE split: if_split_asm)
  then show ?thesis
  proof cases
    case 1
    with ok show ?thesis by blast
  next
    case 2
    from path_selected [OF 2(1)] path_selected [OF 2(2)] obtain ks js where
      sel: "p_selected_tags p = sq_selected s ks" "p_selected_tags q = sq_selected s js" by blast
    from path_unlink_effect [OF 2(3) ok sel(1)] ok same_but_links_refl obtain R1 where
      s1: "sq_ok R1 s1" "same_but_links s s1" by blast
    have "p_selected_tags q = sq_selected s1 js" using sel(2) selected_same [OF s1(2)] by simp
    from path_link_effect [OF 2(4) s1(1) this] show ?thesis by blast
  qed
qed

lemma rmdir_keeps:
  assumes "sq_tag_rmdir u s = Some (r, s')" and ok: "sq_ok R s"
  shows "\<exists>R'. sq_ok R' s'"
proof (cases "get_character_count u slash > 1")
  case True
  with assms show ?thesis by (auto simp: sq_tag_rmdir_def)
next
  case False
  with assms(1) have rm: "sq_tag_remove (sq_tag_get (basenamedup u) s) s = Some s'"
    by (auto simp: sq_tag_rmdir_def Let_def elim!: bind_SomeE)
  then obtain q where "q_theap s (sq_tag_get (basenamedup u) s) = Some q" by (auto simp: sq_tag_remove_def elim!: bind_SomeE)
  from tag_remove_ok [OF rm ok this] show ?thesis by blast
qed

lemma open_keeps:
  "sq_tag_open_file os u flags s = Some (r, s') \<Longrightarrow> sq_ok R s \<Longrightarrow> sq_ok R s'"
  "sq_tag_open_dir os u flags s = Some (r, s') \<Longrightarrow> sq_ok R s \<Longrightarrow> sq_ok R s'"
  by (auto simp: sq_tag_open_file_def sq_tag_open_dir_def sq_tag_open_def elim!: bind_SomeE
      split: prod.splits sum.split_asm dest: keep_fd)

lemma io_keeps:
  "sq_tag_read os d buf len off s = Some (rb, s') \<Longrightarrow> sq_ok R s \<Longrightarrow> sq_ok R s'"
  "sq_tag_write os d buf len off s = Some (n, s') \<Longrightarrow> sq_ok R s \<Longrightarrow> sq_ok R s'"
  "sq_tag_readdir os d s = Some (ns, s') \<Longrightarrow> sq_ok R s \<Longrightarrow> sq_ok R s'"
  "sq_tag_ioctl d cmd fl data s = Some (rt, s') \<Longrightarrow> sq_ok R s \<Longrightarrow> sq_ok R s'"
  by (auto simp: sq_tag_read_def sq_tag_write_def sq_tag_readdir_def sq_readdir_list_files_def sq_tag_ioctl_def Let_def
      elim!: bind_SomeE split: if_split_asm dest: sq_keeps)

lemma sq_run_keeps:
  assumes "sq_run os req s = Some (rep, s')" and "sq_ok R s"
  shows "\<exists>R'. sq_ok R' s'"
  using assms
  by (cases req)
    (auto simp: sq_tag_release_generic_def elim!: bind_SomeE split: prod.split_asm
      dest: sq_keeps keep_real keep_mkdir open_keeps io_keeps link_keeps unlink_keeps rename_keeps rmdir_keeps)

subsection \<open>Start and reachable states\<close>

lemma parse_line_keeps:
  assumes run: "sq_parse_line os word f s = Some (f', s')" and ok: "sq_ok R s"
  shows "\<exists>R'. sq_ok R' s'"
proof -
  have tag: "\<exists>R'. sq_ok R' s2" if t: "sq_tag_get_or_create k s = (t, s1)" and s2: "sq_tag_file t g s1 = Some s2" for k t g s1 s2
  proof -
    have ok1: "sq_ok R s1" using keep_tag [OF t ok] .
    from sqs.link.dead [OF s2] obtain j n where "sq_tag_name t s1 = Some j" "sq_file_name g s1 = Some n" by blast
    from sqs.link.one [OF s2 ok1 this] show ?thesis by blast
  qed
  have "\<exists>R'. sq_ok R' s'" if "sq_parse_tag f w s = Some s'" for w
    using that ok tag by (auto simp: sq_parse_tag_def Let_def split: run_splits dest: keep_tag)
  with run ok show ?thesis
    by (auto simp: sq_parse_line_def sq_parse_file_def Let_def elim!: bind_SomeE split: run_splits dest!: sq_keeps)
qed

lemma parse_lines_keeps:
  "sq_parse_lines os fi f s = Some (f', s') \<Longrightarrow> sq_ok R s \<Longrightarrow> \<exists>R'. sq_ok R' s'"
proof (induction os fi f s arbitrary: R rule: sq_parse_lines.induct)
  case (1 os fi f s)
  show ?case
  proof (cases "fi = []")
    case True
    with "1.prems" show ?thesis by (auto simp: sq_parse_lines.simps [of os "[]"])
  next
    case False
    obtain word rest where w: "fgets MAX_LENGTH fi = (word, rest)" by fastforce
    with False "1.prems"(1) obtain f1 s1 where s1: "sq_parse_line os word f s = Some (f1, s1)"
      "sq_parse_lines os rest f1 s1 = Some (f', s')"
      by (auto simp: sq_parse_lines.simps [of os fi] elim!: bind_SomeE)
    from parse_line_keeps [OF s1(1) "1.prems"(2)] obtain R1 where "sq_ok R1 s1" by blast
    from "1.IH" [OF False w [symmetric] refl _ refl s1(2) this] s1(1) show ?thesis by simp
  qed
qed

lemma start_ok:
  assumes "sq_set_root_directory os path real db w = Some s"
  shows "\<exists>R. sq_ok R s"
proof -
  have "sq_ok (\<lambda>n k. False) (sq_init real (append_dir path TAG_FILENAME) w)"
    using sq_init_inv by (simp add: sq_ok_def sq_tagged_def sq_init_def fun_eq_iff)
  with assms show ?thesis
    by (auto simp: sq_set_root_directory_def sq_parse_tags_db_def sq_parse_tags_db2_def elim!: bind_SomeE
        split: option.split_asm dest: parse_lines_keeps)
qed

text \<open>
  The states after the start and a sequence of requests; between two requests others may change the
  file system.
\<close>

inductive sq_reach :: "'w os \<Rightarrow> 'w sq \<Rightarrow> bool" for os where
  start: "sq_set_root_directory os path real db w = Some s \<Longrightarrow> sq_reach os s"
| request: "sq_reach os s \<Longrightarrow> sq_run os req s = Some (rep, s') \<Longrightarrow> sq_reach os s'"
| others: "sq_reach os s \<Longrightarrow> sq_reach os (s\<lparr>q_world := w\<rparr>)"

lemma sq_reach_ok: "sq_reach os s \<Longrightarrow> \<exists>R. sq_ok R s"
  by (induction rule: sq_reach.induct) (auto dest: start_ok sq_run_keeps)

lemma sq_reach_inv: "sq_reach os s \<Longrightarrow> sq_ok (sq_tagged s) s"
  using sq_reach_ok by (fastforce simp: sq_ok_def)

end
