(* ===== verification/Sq_Props.thy ===== *)
theory Sq_Props
  imports Sq_Step Fuse_Props
begin

text \<open>
  The properties of \<^verbatim>\<open>fuse_sqlite3\<close> over its reachable states, each with a run on the concrete
  system of theory \<open>Fuse_Props\<close>; the last ones compare this variant with \<^verbatim>\<open>fuse\<close>.
\<close>

subsection \<open>Total operations\<close>

text \<open>The answer of \<^verbatim>\<open>getattr\<close> for a path, and that of \<^verbatim>\<open>link\<close>, in terms of names.\<close>

definition sq_lookup :: "'w os \<Rightarrow> cstring list \<Rightarrow> 'w sq \<Rightarrow> (int \<times> stat) option" where
  "sq_lookup os cs s =
     attr_spec os (sq_path_realpath s (path_of cs)) (path_of cs) (lookup_name cs) (butlast cs) stat0 s"

lemma lookup_path_obj:
  "attr_spec os (p_realpath (sq_path_obj s cs b)) (p_virtpath (sq_path_obj s cs b)) (p_filename (sq_path_obj s cs b))
     (butlast cs) stat0 s = sq_lookup os cs s"
  by (simp add: sq_lookup_def sq_path_obj_def lookup_name_def)

lemma intra_path:
  assumes ok: "sq_ok R s" and look: "sq_lookup os cs s = Some (r, st)"
  shows "\<exists>s'. sq_getattr_intra os (sq_path_obj s cs False) stat0 s = Some ((r, st), s') \<and> sq_ok R s' \<and> file_grows s s'"
proof -
  have "p_selected_tags (sq_path_obj s cs False) = sq_selected s (butlast cs)" by (simp add: sq_path_obj_def)
  from getattr_intra_eq [OF ok this, of os stat0] look show ?thesis unfolding lookup_path_obj by simp
qed

lemma intra_path_dead:
  assumes ok: "sq_ok R s" and look: "sq_lookup os cs s = None"
  shows "sq_getattr_intra os (sq_path_obj s cs False) stat0 s = None"
proof -
  have "p_selected_tags (sq_path_obj s cs False) = sq_selected s (butlast cs)" by (simp add: sq_path_obj_def)
  from getattr_intra_eq [OF ok this, of os stat0] look show ?thesis unfolding lookup_path_obj by simp
qed

lemma path_link_total:
  assumes ok: "sq_ok R s" and look: "sq_lookup os cs s = Some (r, st)"
    and sel: "p_selected_tags q = sq_selected s ks" and tags: "\<forall>k\<in>set ks. sq_tag_exist k s"
  shows "\<exists>s'. sq_path_link os (sq_path_obj s cs False) q s = Some (r, s') \<and>
    sq_ok (if r < 0 then R else with_tags R (lookup_name cs) ks) s'"
proof -
  obtain s1 where s1: "sq_getattr_intra os (sq_path_obj s cs False) stat0 s = Some ((r, st), s1)" "sq_ok R s1" "file_grows s s1"
    using intra_path [OF ok look] by blast
  have name: "p_filename (sq_path_obj s cs False) = lookup_name cs" by (simp add: sq_path_obj_def lookup_name_def)
  obtain f s2 where f: "sq_file_get_or_create (lookup_name cs) s1 = (f, s2)" by fastforce
  from sq_file_get_or_create_effect [OF s1(2) f] have s2: "sq_ok R s2" "file_grows s1 s2" "sq_file_name f s2 = Some (lookup_name cs)"
    by auto
  note grows = file_grows_trans [OF s1(3) s2(2)]
  have "\<forall>k\<in>set ks. sq_tag_exist k s2" using tags by (simp add: file_growsD(2) [OF grows])
  from sqs.link.loop [OF s2(1,3) selected_live [OF sq_okD(1) [OF s2(1)] this]] obtain s3 where
    "ht_for_each (sq_selected s2 ks) (\<lambda>k t s. sq_tag_file t f s) s2 = Some s3" "sq_ok (with_tags R (lookup_name cs) ks) s3"
    by auto
  then have "ht_for_each (p_selected_tags q) (\<lambda>k t s. sq_tag_file t f s) s2 = Some s3"
    "sq_ok (with_tags R (lookup_name cs) ks) s3" by (simp_all add: sel selected_grows [OF grows])
  with s1(1,2) f show ?thesis by (simp add: sq_path_link_def name)
qed

lemma path_unlink_total:
  assumes ok: "sq_ok R s" and f: "sq_file_get (p_filename p) s = Some f"
    and sel: "p_selected_tags p = sq_selected s ks" and tags: "\<forall>k\<in>set ks. sq_tag_exist k s"
  shows "\<exists>s'. sq_path_unlink p s = Some (0, s') \<and> sq_ok (without_tags R (p_filename p) ks) s' \<and> same_but_links s s'"
proof -
  have "sq_file_name f s = Some (p_filename p)" using sq_file_live [OF sq_okD(1) [OF ok] f] by (simp add: sq_file_name_iff)
  from sqs.unlink.loop [OF ok this selected_live [OF sq_okD(1) [OF ok] tags]] f show ?thesis
    by (auto simp: sq_path_unlink_def sel)
qed

subsection \<open>A concrete system\<close>

definition sq_demo :: "unit sq" where
  "sq_demo = (case sq_set_root_directory demo_os ''/r'' ''/r''
       (Some (''[f]'' @ newline # ''y'' @ newline # ''[g]'' @ newline # ''z'' @ [newline])) () of
     None \<Rightarrow> sq_init ''/r'' ''/r/.tags'' () | Some s \<Rightarrow> s)"

lemma sq_demo_reach: "sq_reach demo_os sq_demo"
proof -
  have "(case sq_set_root_directory demo_os ''/r'' ''/r''
       (Some (''[f]'' @ newline # ''y'' @ newline # ''[g]'' @ newline # ''z'' @ [newline])) () of
     None \<Rightarrow> False | Some s \<Rightarrow> True)" by code_simp
  then show ?thesis unfolding sq_demo_def by (auto intro: sq_reach.start split: option.splits)
qed

lemma sq_demo_facts: "sq_file_get ''f'' sq_demo = Some 0" "sq_tag_exist ''y'' sq_demo" "sq_tag_exist ''z'' sq_demo"
  "\<not> sq_tag_exist ''x'' sq_demo" "q_realdirpath sq_demo = ''/r''"
  "q_theap sq_demo (TagAt 0) = Some \<lparr>q_id = 0, q_value = ''y''\<rparr>" "q_theap sq_demo (TagAt 1) = Some \<lparr>q_id = 1, q_value = ''z''\<rparr>"
  "q_fheap sq_demo 0 = Some \<lparr>qf_id = 0, qf_name = ''f'', qf_realpath = ''/r/f''\<rparr>" "link_rows (q_db sq_demo) = [(0, 0)]"
  "tag_rows (q_db sq_demo) = [(0, ''y''), (1, ''z'')]"
  by code_simp+

lemma sq_demo_tagged: "sq_tagged sq_demo ''f'' ''y''" "\<not> sq_tagged sq_demo ''f'' ''z''"
  using sq_tagged_iff [OF sq_okD(1) [OF sq_reach_inv [OF sq_demo_reach]] sq_demo_facts(8) sq_demo_facts(6)]
    sq_tagged_iff [OF sq_okD(1) [OF sq_reach_inv [OF sq_demo_reach]] sq_demo_facts(8) sq_demo_facts(7)]
  by (simp_all add: sq_demo_facts)

subsection \<open>Properties\<close>

text \<open>
  C26. In every state that the program reaches, tables, structs and rows agree: the tables of tags and
  files hold exactly the live structs under their names, no two live structs share an id, every file
  has its row, every tag name in use has a row, the rows of \<^verbatim>\<open>tag\<close> have distinct ids and distinct
  names, and no pair stands twice in \<^verbatim>\<open>tag_file\<close>.
\<close>
theorem sq_tables_consistent:
  assumes "sq_reach os s"
  shows "sq_structs s \<and> sq_rows s"
  using sq_reach_inv [OF assms] by (simp add: sq_ok_def sq_inv_def)

theorem sq_tables_consistent_witness: "sq_structs sq_demo \<and> sq_rows sq_demo"
  by (rule sq_tables_consistent [OF sq_demo_reach])

text \<open>
  C27. \<^verbatim>\<open>getattr\<close> answers from the rows: a regular file of the root directory is found below a tag
  directory exactly if a row pairs it with each tag of the path and no tag stands twice, with the
  attributes of the real file; any other name is found only if it is a tag not yet in the path, and
  has the attributes of the root directory; and a path of a real file through an unknown tag
  dereferences the invalid tag pointer.
\<close>
theorem sq_getattr_answer:
  assumes "sq_reach os s" and cs: "components cs"
  shows "case sq_lookup os cs s of
      None \<Rightarrow> sq_run os (QGetattr (path_of cs)) s = None
    | Some (r, st) \<Rightarrow> \<exists>s'. sq_run os (QGetattr (path_of cs)) s = Some (QStat r st, s') \<and> sq_tagged s' = sq_tagged s"
proof (cases "sq_lookup os cs s")
  case None
  from intra_path_dead [OF sq_reach_inv [OF assms(1)] None] show ?thesis
    by (simp add: None sq_tag_getattr_def sq_path_create_eq [OF cs])
next
  case (Some a)
  obtain r st where a: "a = (r, st)" by fastforce
  with intra_path [OF sq_reach_inv [OF assms(1)], of os cs r st] Some show ?thesis
    by (auto simp: sq_tag_getattr_def sq_path_create_eq [OF cs] sq_ok_def)
qed

lemma sq_demo_lookup: "sq_lookup demo_os [''y'', ''f''] sq_demo = Some (0, stat0\<lparr>st_mode := 0x81A4\<rparr>)"
  "sq_lookup demo_os [''z'', ''f''] sq_demo = Some (- ENOENT, stat0\<lparr>st_mode := 0x81A4\<rparr>)"
  "sq_lookup demo_os [''f''] sq_demo = Some (0, stat0\<lparr>st_mode := 0x81A4\<rparr>)"
proof -
  have st: "c_stat demo_os (sq_path_realpath sq_demo (path_of cs)) stat0 w = (0, stat0\<lparr>st_mode := 0x81A4\<rparr>)"
    if "components cs" "cs \<noteq> []" "last cs = ''f''" for cs w
    using that by (simp add: sq_path_realpath_def basename_components sq_demo_facts c_stat_def append_dir_def demo_os_def)
  show "sq_lookup demo_os [''y'', ''f''] sq_demo = Some (0, stat0\<lparr>st_mode := 0x81A4\<rparr>)"
    "sq_lookup demo_os [''z'', ''f''] sq_demo = Some (- ENOENT, stat0\<lparr>st_mode := 0x81A4\<rparr>)"
    "sq_lookup demo_os [''f''] sq_demo = Some (0, stat0\<lparr>st_mode := 0x81A4\<rparr>)"
    by (simp_all add: sq_lookup_def attr_spec_def st demo_not_dir sq_demo_facts sq_demo_tagged lookup_name_def TAG_FILENAME_def)
qed

theorem sq_getattr_answer_witness:
  "(\<exists>s'. sq_run demo_os (QGetattr ''/y/f'') sq_demo = Some (QStat 0 (stat0\<lparr>st_mode := 0x81A4\<rparr>), s')) \<and>
   (\<exists>s'. sq_run demo_os (QGetattr ''/z/f'') sq_demo = Some (QStat (- ENOENT) (stat0\<lparr>st_mode := 0x81A4\<rparr>), s'))"
  using sq_getattr_answer [OF sq_demo_reach demo_components(2)] sq_getattr_answer [OF sq_demo_reach demo_components(3)]
  by (auto simp: sq_demo_lookup demo_paths path_of_def)

text \<open>
  C28. A link of a path that \<^verbatim>\<open>getattr\<close> finds, to a directory of existing tags, returns 0 and pairs the file
  with exactly these tags; if \<^verbatim>\<open>getattr\<close> does not find it, its error is returned and nothing changes in
  the relation. The new name is not looked at.
\<close>
theorem sq_link_adds_tags:
  assumes "sq_reach os s" and "components cs" and "components ds"
    and "sq_lookup os cs s = Some (r, st)" and "\<forall>k\<in>set (butlast ds). sq_tag_exist k s"
  shows "\<exists>s'. sq_run os (QLink (path_of cs) (path_of ds)) s = Some (QRet r, s') \<and>
    sq_tagged s' = (if r < 0 then sq_tagged s else with_tags (sq_tagged s) (lookup_name cs) (butlast ds))"
proof -
  have "p_selected_tags (sq_path_obj s ds False) = sq_selected s (butlast ds)" by (simp add: sq_path_obj_def)
  from path_link_total [OF sq_reach_inv [OF assms(1)] assms(4) this assms(5)] obtain s' where
    "sq_path_link os (sq_path_obj s cs False) (sq_path_obj s ds False) s = Some (r, s')"
    "sq_ok (if r < 0 then sq_tagged s else with_tags (sq_tagged s) (lookup_name cs) (butlast ds)) s'" by blast
  then show ?thesis
    by (simp add: sq_tag_link_def sq_path_create_eq [OF assms(2)] sq_path_create_eq [OF assms(3)] sq_ok_def split: if_splits)
qed

theorem sq_link_adds_tags_witness:
  "\<exists>s'. sq_run demo_os (QLink ''/f'' ''/z/f'') sq_demo = Some (QRet 0, s') \<and> sq_tagged s' ''f'' ''z'' \<and> sq_tagged s' ''f'' ''y''"
proof -
  have "\<forall>k\<in>set (butlast [''z'', ''f'']). sq_tag_exist k sq_demo" by (simp add: sq_demo_facts)
  from sq_link_adds_tags [OF sq_demo_reach demo_components(1,3) sq_demo_lookup(3) this] sq_demo_tagged(1)
  show ?thesis by (auto simp: path_of_def lookup_name_def)
qed

text \<open>
  C29. A rename of a regular file from a tag to another returns 0, but the file only loses the old tag: the row
  is removed first, so that the lookup of the old path, which comes before the new row, fails, and its
  result is dropped.
\<close>
theorem sq_rename_loses_tag:
  assumes "sq_reach os s" and cs: "components [k, n]" and ds: "components [j, m]"
    and real: "c_stat os (append_dir (q_realdirpath s) n) stat0 (q_world s) = (0, st)" "\<not> S_ISDIR (st_mode st)"
    and known: "sq_file_get n s = Some f" "sq_tag_exist k s"
  shows "\<exists>s'. sq_run os (QRename (path_of [k, n]) (path_of [j, m])) s = Some (QRet 0, s') \<and>
    sq_tagged s' = without_tags (sq_tagged s) n [k]"
proof -
  let ?p = "sq_path_obj s [k, n] False" and ?q = "sq_path_obj s [j, m] False"
  have sel: "p_selected_tags ?p = sq_selected s [k]" "p_filename ?p = n" by (simp_all add: sq_path_obj_def)
  from path_unlink_total [OF sq_reach_inv [OF assms(1)], of ?p f "[k]"] known obtain s1 where
    s1: "sq_path_unlink ?p s = Some (0, s1)" "sq_ok (without_tags (sq_tagged s) n [k]) s1" "same_but_links s s1"
    by (auto simp: sel)
  note same = same_but_linksD [OF s1(3)]
  have base: "basenamedup (path_of [k, n]) = n" using basename_components [OF cs] by simp
  have obj: "sq_path_obj s1 [k, n] False = ?p"
    by (simp add: sq_path_obj_def sq_path_realpath_def selected_same [OF s1(3)] same)
  have "sq_lookup os [k, n] s1 = Some (- ENOENT, st)"
    using real known(2) sq_okD(2) [OF s1(2)]
    by (simp add: sq_lookup_def attr_spec_def sq_path_realpath_def base same lookup_name_def sq_tag_exist_def)
  from intra_path [OF s1(2) this] obtain s2 where
    s2: "sq_getattr_intra os ?p stat0 s1 = Some ((- ENOENT, st), s2)" "sq_ok (without_tags (sq_tagged s) n [k]) s2"
    unfolding obj by blast
  from s2(1) have "sq_path_link os ?p ?q s1 = Some (- ENOENT, s2)" by (simp add: sq_path_link_def ENOENT_def)
  moreover have "ht_entry_count (p_selected_tags ?p) = 1" "ht_entry_count (p_selected_tags ?q) = 1"
    by (simp_all add: sq_path_obj_def sq_selected_def ht_entry_count_def)
  ultimately have "sq_tag_rename os (path_of [k, n]) (path_of [j, m]) s = Some (0, s2)"
    using s1(1) by (simp add: sq_tag_rename_def sq_path_create_eq [OF cs] sq_path_create_eq [OF ds])
  with s2(2) show ?thesis by (simp add: sq_ok_def)
qed

theorem sq_rename_loses_tag_witness:
  "\<exists>s'. sq_run demo_os (QRename ''/y/f'' ''/z/f'') sq_demo = Some (QRet 0, s') \<and>
    \<not> sq_tagged s' ''f'' ''y'' \<and> \<not> sq_tagged s' ''f'' ''z''"
proof -
  have "c_stat demo_os (append_dir (q_realdirpath sq_demo) ''f'') stat0 (q_world sq_demo) = (0, stat0\<lparr>st_mode := 0x81A4\<rparr>)"
    "\<not> S_ISDIR (st_mode (stat0\<lparr>st_mode := 0x81A4\<rparr>))"
    by (simp_all add: sq_demo_facts c_stat_def append_dir_def demo_os_def demo_not_dir)
  from sq_rename_loses_tag [OF sq_demo_reach demo_components(2,3) this sq_demo_facts(1,2)] sq_demo_tagged(2)
  show ?thesis by (auto simp: path_of_def)
qed

text \<open>
  C31. Removing a tag takes it from all files, but its row stays: the root directory still lists it. When it is
  made again, the row keeps the id of the old tag, and the new tag has an id that no row has; what is
  linked to it is found by \<^verbatim>\<open>getattr\<close> and listed by no query.
\<close>
theorem sq_remade_tag_has_no_row:
  assumes "sq_reach os s" and k: "component k" and "sq_tag_exist k s"
  shows "\<exists>s1 s2. sq_run os (QRmdir (path_of [k])) s = Some (QRet 0, s1) \<and>
    sq_tagged s1 = (\<lambda>n j. sq_tagged s n j \<and> j \<noteq> k) \<and> \<not> sq_tag_exist k s1 \<and>
    k \<in> set (snd (db_list_all_tags [] (q_db s1))) \<and>
    sq_run os (QMkdir (path_of [k])) s1 = Some (QRet 0, s2) \<and> sq_tagged s2 = sq_tagged s1 \<and> sq_tag_exist k s2 \<and>
    tag_rows (q_db s2) = tag_rows (q_db s) \<and> id_of s2 k \<notin> fst ` set (tag_rows (q_db s2))"
proof -
  have ok: "sq_ok (sq_tagged s) s" by (rule sq_reach_inv [OF assms(1)])
  note inv = sq_okD(1) [OF ok]
  have c: "components [k]" using k by simp
  have path: "basenamedup (path_of [k]) = k" "get_character_count (path_of [k]) slash = 1"
    using basename_components [OF c] count_slashes_path [OF c] by simp_all
  obtain r where r: "q_theap s (sq_tag_get k s) = Some r" "q_value r = k" using sq_tag_live [OF inv assms(3)] by blast
  then obtain s1 where s1: "sq_tag_remove (sq_tag_get k s) s = Some s1" by (simp add: sq_tag_remove_def)
  have ok1: "sq_ok (\<lambda>n j. sq_tagged s n j \<and> j \<noteq> k) s1" using tag_remove_ok [OF s1 ok r(1)] r(2) by simp
  note inv1 = sq_okD(1) [OF ok1]
  have rows: "tag_rows (q_db s1) = tag_rows (q_db s)" "k \<in> snd ` set (tag_rows (q_db s1))"
    using s1 r sq_rowsD(2) [OF sq_invD(2) [OF inv] r(1)] by (auto simp: sq_tag_remove_def)
  have "k \<notin> fst ` set (q_tags s1)"
    using s1 r sq_structsD(1) [OF sq_invD(1) [OF inv]] by (auto simp: sq_tag_remove_def ht_remove_distinct)
  with no_tag(1) [OF inv1] have gone: "\<not> sq_tag_exist k s1" by simp
  let ?s2 = "sq_new_tag k s1"
  have ok2: "sq_ok (\<lambda>n j. sq_tagged s n j \<and> j \<noteq> k) ?s2" by (rule new_tag_ok [OF ok1 gone])
  have get: "sq_tag_get k ?s2 = TagAt (q_tnext s1)" by (simp add: sq_tag_get_def ht_get_entry_def ht_find_def)
  then have "id_of ?s2 k = tag_id s1" by (simp add: id_of_def)
  moreover have "tag_id s1 \<notin> fst ` set (tag_rows (q_db s1))" using sq_rowsD(6) [OF sq_invD(2) [OF inv1]] by force
  moreover have "sq_run os (QMkdir (path_of [k])) s1 = Some (QRet 0, ?s2)"
    using gone sq_new_tag_eq [OF inv1 gone] by (simp add: sq_tag_mkdir_def path sq_tag_exist_def)
  moreover have "sq_run os (QRmdir (path_of [k])) s = Some (QRet 0, s1)" by (simp add: sq_tag_rmdir_def path s1)
  moreover have "sq_tag_exist k ?s2" by (simp add: sq_tag_exist_def get)
  ultimately show ?thesis using rows gone sq_okD(2) [OF ok1] sq_okD(2) [OF ok2]
    by (intro exI [of _ s1] exI [of _ ?s2]) (simp add: db_list_all_tags_def)
qed

theorem sq_remade_tag_has_no_row_witness:
  "\<exists>s1 s2. sq_run demo_os (QRmdir ''/y'') sq_demo = Some (QRet 0, s1) \<and>
    sq_run demo_os (QMkdir ''/y'') s1 = Some (QRet 0, s2) \<and> id_of s2 ''y'' \<notin> {0, 1}"
  using sq_remade_tag_has_no_row [OF sq_demo_reach demo_component(2) sq_demo_facts(2)]
  by (auto simp: path_of_def sq_demo_facts)

text \<open>
  An error number in a pointer: the macros give it back with the sign turned, so a failed open
  answers the positive number, which the FUSE library does not take for an error.
\<close>

lemma err_mask_bit: "n < 32 \<Longrightarrow> \<not> bit ERR_MASK n"
proof -
  assume n: "n < 32"
  have eq: "ERR_MASK = push_bit 32 0xdeadbeef" by (simp add: ERR_MASK_def push_bit_eq_mult)
  show "\<not> bit ERR_MASK n" using n unfolding eq bit_push_bit_iff by simp
qed

lemma err_ptr_low: "ucast (SQ_ERR_PTR i AND NOT ERR_MASK) = (word_of_int i :: 32 word)"
  by (rule bit_word_eqI) (simp add: SQ_ERR_PTR_def bit_simps err_mask_bit)

lemma sq_ptr_err:
  assumes "1 \<le> e" and "e < 2 ^ 31"
  shows "SQ_PTR_ERR (SQ_ERR_PTR (- e)) = e" and "SQ_IS_ERR (SQ_ERR_PTR (- e))"
proof -
  have "signed_take_bit 31 (- e) = - e" using assms by (intro signed_take_bit_int_eq_self) auto
  then have "sint (word_of_int (- e) :: 32 word) = - e" by (simp only: sint_sbintrunc') simp
  then show "SQ_PTR_ERR (SQ_ERR_PTR (- e)) = e" by (simp only: SQ_PTR_ERR_def err_ptr_low)
  show "SQ_IS_ERR (SQ_ERR_PTR (- e))" by (simp add: SQ_IS_ERR_def SQ_ERR_PTR_def bit.conj_disj_distrib2 word_bw_comms)
qed

text \<open>
  An open that the operating system refuses answers the error number itself, which is positive, and
  gives no descriptor.
\<close>
theorem sq_failed_open_positive:
  assumes cs: "components cs" and e: "1 \<le> e" "e < 2 ^ 31"
    and refused: "os_open os (sq_path_realpath s (path_of cs)) flags (q_world s) = (Inl e, w)"
  shows "sq_run os (QOpen (path_of cs) flags) s = Some (QFd e None, s\<lparr>q_world := w\<rparr>)"
  using refused sq_ptr_err(1) [OF e]
  by (simp add: sq_tag_open_file_def sq_tag_open_def sq_path_create_eq [OF cs] sq_fd_open_def sq_path_obj_def)

theorem sq_failed_open_positive_witness:
  "sq_run demo_os (QOpen ''/y'' 0) sq_demo = Some (QFd ENOENT None, sq_demo\<lparr>q_world := ()\<rparr>)"
proof -
  have "os_open demo_os (sq_path_realpath sq_demo (path_of [''y''])) 0 (q_world sq_demo) = (Inl ENOENT, ())"
    by (simp add: sq_path_realpath_def basename_components sq_demo_facts append_dir_def demo_os_def ENOENT_def)
  from sq_failed_open_positive [OF demo_components(4) _ _ this] show ?thesis by (simp add: ENOENT_def path_of_def)
qed

subsection \<open>Listings\<close>

text \<open>What \<^verbatim>\<open>getattr\<close> says of a directory entry \<open>n\<close>, in the directory of the tags \<open>ks\<close>.\<close>

definition entry_answer :: "'w os \<Rightarrow> cstring \<Rightarrow> cstring list \<Rightarrow> 'w sq \<Rightarrow> cstring \<Rightarrow> (int \<times> stat) option" where
  "entry_answer os virtdir ks s n =
     attr_spec os (append_dir (q_realdirpath s) n) (append_dir virtdir n) n ks stat0 s"

lemma entry_answer_cong:
  assumes "sq_ok R s" and "sq_ok R s'" and "file_grows s s'"
  shows "entry_answer os v ks s' = entry_answer os v ks s"
  using assms file_growsD [OF assms(3)] by (simp add: entry_answer_def attr_spec_def sq_ok_def fun_eq_iff split_beta)

lemma entry_answer_Some: "\<forall>k\<in>set ks. sq_tag_exist k s \<Longrightarrow> \<exists>r st. entry_answer os v ks s n = Some (r, st)"
  by (simp add: entry_answer_def attr_spec_def split_beta)

lemma entries_eq:
  assumes "sq_ok R s" and "\<forall>k\<in>set ks. sq_tag_exist k s" and "p_selected_tags p = sq_selected s ks"
  shows "\<exists>s'. sq_readdir_entries os p ds buf s =
      Some (buf @ [n. (n, dir) \<leftarrow> ds, \<not> dir \<and> fst (the (entry_answer os (p_virtpath p) ks s n)) \<ge> 0], s') \<and> sq_ok R s'"
  using assms
proof (induction ds arbitrary: buf s)
  case Nil
  then show ?case by simp
next
  case (Cons d ds)
  obtain n dir where d: "d = (n, dir)" by fastforce
  show ?case
  proof (cases dir)
    case True
    from Cons.IH [OF Cons.prems, of buf] show ?thesis by (simp add: d True)
  next
    case False
    let ?q = "sq_path_set s (p_virtpath p) n (p_selected_tags p)"
    obtain r st where a: "entry_answer os (p_virtpath p) ks s n = Some (r, st)"
      using entry_answer_Some [OF Cons.prems(2)] by blast
    have "p_selected_tags ?q = sq_selected s ks" by (simp add: sq_path_set_def Cons.prems(3))
    from getattr_intra_eq [OF Cons.prems(1) this, of os stat0] a obtain s1 where
      s1: "sq_getattr_intra os ?q stat0 s = Some ((r, st), s1)" "sq_ok R s1" "file_grows s s1"
      by (auto simp: entry_answer_def sq_path_set_def)
    have "\<forall>k\<in>set ks. sq_tag_exist k s1" "p_selected_tags p = sq_selected s1 ks"
      using Cons.prems(2,3) by (simp_all add: file_growsD [OF s1(3)])
    from Cons.IH [OF s1(2) this, of "if r < 0 then buf else buf @ [n]"] s1(1) a
    show ?thesis
      by (cases "r < 0") (simp_all add: d False entry_answer_cong [OF Cons.prems(1) s1(2,3)])
  qed
qed

text \<open>A row pairs the file id \<open>f\<close> with the row of the tag \<open>k\<close>.\<close>

definition row_pair :: "sqdb \<Rightarrow> int \<Rightarrow> cstring \<Rightarrow> bool" where
  "row_pair db f k \<longleftrightarrow> (\<exists>i. (i, k) \<in> set (tag_rows db) \<and> (i, f) \<in> set (link_rows db))"

lemma remaining_set:
  "set (remaining_tags_query ks (selected_file_query ks db) db) =
    {j. j \<notin> set ks \<and> (\<exists>f. row_pair db f j \<and> (\<exists>k\<in>set ks. row_pair db f k))}"
  by (force simp: remaining_tags_query_def selected_file_query_def row_pair_def)

lemma selected_names:
  "\<forall>k\<in>set ks. quote \<notin> set k \<Longrightarrow> tag_list_string (sq_selected s ks) = Some ks"
proof -
  assume ks: "\<forall>k\<in>set ks. quote \<notin> set k"
  have "ht_for_each (sq_selected s ks) (\<lambda>n t str. if quote \<in> set n then None else Some (str @ [n])) acc = Some (acc @ ks)" for acc
    using ks by (induction ks arbitrary: acc) (simp_all add: sq_selected_def)
  from this [of "[]"] show ?thesis by (simp add: tag_list_string_def)
qed

text \<open>
  C30. A listing of an open directory of existing tags shows, after the two dots, tags and then files.
  The root directory shows every tag row. Below tags stand the tags that some file carries together
  with at least one tag of the path: a file need not carry all of them, so a listed tag may lead to an
  empty directory. The files are the entries of the root directory for which \<^verbatim>\<open>getattr\<close> succeeds.
\<close>
theorem sq_readdir_lists:
  assumes "sq_reach os s" and d: "q_dheap s d = Some fd" "qd_path fd = sq_path_obj s ks True"
    and tags: "\<forall>k\<in>set ks. sq_tag_exist k s \<and> quote \<notin> set k"
  shows "\<exists>js s'. sq_run os (QReaddir d) s = Some (QNames 0 ([''.'', ''..''] @ js @
        [n. (n, dir) \<leftarrow> os_readdir os (q_world s), \<not> dir \<and> fst (the (entry_answer os (path_of ks) ks s n)) \<ge> 0]), s') \<and>
    sq_tagged s' = sq_tagged s \<and>
    set js = (if ks = [] then snd ` set (tag_rows (q_db s))
      else {j. j \<notin> set ks \<and> (\<exists>f. row_pair (q_db s) f j \<and> (\<exists>k\<in>set ks. row_pair (q_db s) f k))})"
proof -
  let ?p = "sq_path_obj s ks True"
  define js where "js = (if ks = [] then map snd (tag_rows (q_db s))
    else remaining_tags_query ks (selected_file_query ks (q_db s)) (q_db s))"
  have sel: "p_selected_tags ?p = sq_selected s ks" and v: "p_virtpath ?p = path_of ks" by (simp_all add: sq_path_obj_def)
  have count: "ht_entry_count (sq_selected s ks) > 0 \<longleftrightarrow> ks \<noteq> []" by (simp add: sq_selected_def ht_entry_count_def)
  have "tag_list_string (sq_selected s ks) = Some ks" by (rule selected_names) (use tags in blast)
  then have shown: "(if ht_entry_count (p_selected_tags ?p) > 0
      then db_list_remaining_tags (p_selected_tags ?p) [''.'', ''..''] (q_db s)
      else Some (db_list_all_tags [''.'', ''..''] (q_db s))) = Some (0, [''.'', ''..''] @ js)"
    unfolding sel count by (auto simp: db_list_remaining_tags_def db_list_all_tags_def js_def)
  have live: "\<forall>k\<in>set ks. sq_tag_exist k s" using tags by blast
  obtain s' where "sq_readdir_entries os ?p (os_readdir os (q_world s)) ([''.'', ''..''] @ js) s =
      Some (([''.'', ''..''] @ js) @
        [n. (n, dir) \<leftarrow> os_readdir os (q_world s), \<not> dir \<and> fst (the (entry_answer os (path_of ks) ks s n)) \<ge> 0], s')"
    "sq_ok (sq_tagged s) s'"
    using entries_eq [OF sq_reach_inv [OF assms(1)] live sel] unfolding v by blast
  moreover from this(1) shown d have "sq_tag_readdir os d s = Some ((0, ([''.'', ''..''] @ js) @
        [n. (n, dir) \<leftarrow> os_readdir os (q_world s), \<not> dir \<and> fst (the (entry_answer os (path_of ks) ks s n)) \<ge> 0]), s')"
    by (simp only: sq_tag_readdir_def sq_readdir_list_files_def Let_def bind.simps prod.case)
  moreover have "set js = (if ks = [] then snd ` set (tag_rows (q_db s))
      else {j. j \<notin> set ks \<and> (\<exists>f. row_pair (q_db s) f j \<and> (\<exists>k\<in>set ks. row_pair (q_db s) f k))})"
    by (simp add: js_def remaining_set)
  ultimately show ?thesis by (intro exI [of _ js] exI [of _ s']) (simp add: sq_ok_def)
qed

text \<open>Opening a tag directory succeeds, whether the tag exists or not.\<close>

lemma opendir_eq:
  assumes "components ks"
  shows "\<exists>fd. qd_path fd = sq_path_obj s ks True \<and> sq_run os (QOpendir (path_of ks) flags) s = Some (QFd 0 (Some (q_dnext s)),
    s\<lparr>q_dheap := (q_dheap s)(q_dnext s \<mapsto> fd), q_dnext := Suc (q_dnext s)\<rparr>)"
proof -
  let ?p = "sq_path_obj s ks True"
  let ?fd = "\<lparr>qd_path = ?p, qd_is_tag = True, qd_is_tag_file = (p_filename ?p = TAG_FILENAME),
    qd_object = TagObj (sq_tag_get (p_filename ?p) s), qd_fh = -1\<rparr>"
  show ?thesis
    by (intro exI [of _ ?fd])
      (simp add: sq_tag_open_dir_def sq_tag_open_def sq_path_create_eq [OF assms] sq_fd_open_def Let_def)
qed

theorem sq_readdir_lists_witness:
  "\<exists>s js s'. sq_run demo_os (QReaddir 0) s = Some (QNames 0 ([''.'', ''..''] @ js @ [''f'']), s') \<and> set js = {}"
proof -
  obtain fd where fd: "qd_path fd = sq_path_obj sq_demo [''y''] True" "sq_run demo_os (QOpendir (path_of [''y'']) 0) sq_demo =
      Some (QFd 0 (Some (q_dnext sq_demo)), sq_demo\<lparr>q_dheap := (q_dheap sq_demo)(q_dnext sq_demo \<mapsto> fd), q_dnext := Suc (q_dnext sq_demo)\<rparr>)"
    using opendir_eq [OF demo_components(4)] by blast
  let ?s = "sq_demo\<lparr>q_dheap := (q_dheap sq_demo)(q_dnext sq_demo \<mapsto> fd), q_dnext := Suc (q_dnext sq_demo)\<rparr>"
  have s: "sq_reach demo_os ?s" by (rule sq_reach.request [OF sq_demo_reach fd(2)])
  have "q_dnext sq_demo = 0" by code_simp
  then have d: "q_dheap ?s 0 = Some fd" by simp
  have path: "qd_path fd = sq_path_obj ?s [''y''] True"
    by (simp add: fd(1) sq_path_obj_def sq_path_realpath_def sq_selected_def sq_tag_get_def)
  have same: "sq_tag_exist k ?s = sq_tag_exist k sq_demo" "sq_tagged ?s = sq_tagged sq_demo" for k
    by (simp_all add: sq_tag_exist_def sq_tag_get_def sq_tagged_def fun_eq_iff)
  have tags: "\<forall>k\<in>set [''y'']. sq_tag_exist k ?s \<and> quote \<notin> set k" unfolding same by (simp add: sq_demo_facts quote_def)
  have f: "fst (the (entry_answer demo_os (path_of [''y'']) [''y''] ?s ''f'')) = 0"
    unfolding entry_answer_def attr_spec_def same
    by (simp add: sq_demo_facts sq_demo_tagged c_stat_def append_dir_def demo_os_def demo_not_dir)
  have entries: "os_readdir demo_os w = [(''f'', False), (''sub'', True)]" for w by (simp add: demo_os_def)
  have rows: "row_pair (q_db ?s) i j \<longleftrightarrow> i = 0 \<and> j = ''y''" for i j
    by (auto simp: row_pair_def sq_demo_facts)
  show ?thesis
    using sq_readdir_lists [OF s d path tags] unfolding entries rows by (simp add: f) blast
qed

subsection \<open>Two variants of one file system\<close>

text \<open>
  C32. \<^verbatim>\<open>fuse\<close> and \<^verbatim>\<open>fuse_sqlite3\<close> answer a lookup of a real regular file alike: in two reachable states over the
  same directory in which the file carries the same tags, with existing tags that do not repeat in the
  path, the results and the attributes are equal.
\<close>
theorem variants_agree:
  assumes "reachable os s" and "sq_reach os q" and cs: "components cs"
    and world: "q_world q = world s" "q_realdirpath q = realdirpath s"
    and real: "c_stat os (path_realpath s (path_of cs)) stat0 (world s) = (0, st)" "\<not> S_ISDIR (st_mode st)"
    and tags: "distinct (butlast cs)" "\<forall>k\<in>set (butlast cs). sq_tag_exist k q"
      "\<forall>k. sq_tagged q (lookup_name cs) k = tagged s (lookup_name cs) k"
  shows "\<exists>r a s' q'. run os (Getattr cs) s = Some (RetStat r a, s') \<and>
    sq_run os (QGetattr (path_of cs)) q = Some (QStat r a, q')"
proof -
  obtain r a where ra: "lookup_spec os cs stat0 s = (r, a)" by fastforce
  have "sq_path_realpath q (path_of cs) = path_realpath s (path_of cs)"
    by (simp add: sq_path_realpath_def path_realpath_def world)
  then have "sq_lookup os cs q = Some (lookup_spec os cs stat0 s)"
    using real tags by (auto simp: sq_lookup_def attr_spec_def lookup_spec_def world)
  with ra intra_path [OF sq_reach_inv [OF assms(2)], of os cs r a] obtain q' where
    "sq_getattr_intra os (sq_path_obj q cs False) stat0 q = Some ((r, a), q')" by auto
  then have "sq_run os (QGetattr (path_of cs)) q = Some (QStat r a, q')"
    by (simp add: sq_tag_getattr_def sq_path_create_eq [OF cs])
  moreover obtain s' where "tag_getattr os (path_of cs) stat0 s = Some ((r, a), s')"
    using tag_getattr_inv [OF cs reachable_inv [OF assms(1)], of os stat0] ra by auto
  ultimately show ?thesis by simp
qed

theorem variants_agree_witness:
  "\<exists>r a s s' q'. tagged s ''f'' ''y'' \<and> run demo_os (Getattr [''y'', ''f'']) s = Some (RetStat r a, s') \<and>
    sq_run demo_os (QGetattr ''/y/f'') sq_demo = Some (QStat r a, q')"
proof -
  obtain s where s: "reachable demo_os s" "\<forall>n k. tagged s n k \<longleftrightarrow> n = ''f'' \<and> k = ''y''" "live_name s ''y''"
    "file_get ''f'' s \<noteq> None" "realdirpath s = ''/r''" "world s = ()"
    using demo_linked by (elim exE conjE) (rule that)
  have st: "c_stat demo_os (path_realpath s (path_of [''y'', ''f''])) stat0 (world s) = (0, stat0\<lparr>st_mode := 0x81A4\<rparr>)"
    by (rule demo_stat [OF s(5) demo_paths(2,4)])
  have inv: "sq_inv sq_demo" by (rule sq_okD(1) [OF sq_reach_inv [OF sq_demo_reach]])
  have only: "sq_tagged sq_demo ''f'' k \<longleftrightarrow> k = ''y''" for k
  proof
    assume "sq_tagged sq_demo ''f'' k"
    then obtain f x t r where "q_fheap sq_demo f = Some x" "q_theap sq_demo t = Some r" "q_value r = k"
      "(q_id r, qf_id x) \<in> set (link_rows (q_db sq_demo))" unfolding sq_tagged_def by blast
    moreover from this have "t = TagAt 0"
      using sq_rowsD(3) [OF sq_invD(2) [OF inv] _ sq_demo_facts(6)] by (simp add: sq_demo_facts)
    ultimately show "k = ''y''" by (auto simp: sq_demo_facts)
  qed (use sq_demo_tagged in simp)
  have agree: "\<forall>k. sq_tagged sq_demo (lookup_name [''y'', ''f'']) k = tagged s (lookup_name [''y'', ''f'']) k"
    using s(2) only by (simp add: lookup_name_def)
  have "distinct (butlast [''y'', ''f''])" "\<forall>k\<in>set (butlast [''y'', ''f'']). sq_tag_exist k sq_demo"
    "q_world sq_demo = world s" "q_realdirpath sq_demo = realdirpath s" "\<not> S_ISDIR (st_mode (stat0\<lparr>st_mode := 0x81A4\<rparr>))"
    using s(5) by (simp_all add: sq_demo_facts demo_not_dir)
  from variants_agree [OF s(1) sq_demo_reach demo_components(2) this(3,4) st this(5) this(1,2) agree] s(2)
  show ?thesis by (simp add: path_of_def) blast
qed

end
