(* ===== verification/Clients.thy ===== *)
theory Clients
  imports Fuse_Report
begin

text \<open>
  The small programs beside the file systems: \<^verbatim>\<open>ls_tags\<close> asks for the attribute \<^verbatim>\<open>tags\<close> of its arguments,
  \<^verbatim>\<open>print_tags\<close> uses the \<^verbatim>\<open>ioctl\<close>, and \<^verbatim>\<open>poll_files\<close> waits for events. The system calls are parameters. A
  byte of a buffer that nobody has written is \<open>None\<close>; to print a string that runs into such a byte or past
  the end of its buffer is undefined behaviour, the result \<open>None\<close>.
\<close>

datatype printout = Printed cstring | Failed int

subsection \<open>ls\_tags\<close>

definition HEUR_SIZE :: nat where "HEUR_SIZE = 1024"

text \<open>The string that \<^verbatim>\<open>printf\<close> reads from a buffer.\<close>

fun read_string :: "char option list \<Rightarrow> cstring option" where
  "read_string [] = None"
| "read_string (None # buf) = None"
| "read_string (Some c # buf) = (if c = CHR 0x00 then Some [] else map_option ((#) c) (read_string buf))"

text \<open>
  A call \<^verbatim>\<open>getxattr(filename, name, buf, n)\<close>: an error number, or the value it returns and the bytes it
  has written.
\<close>

type_synonym 'w getxattr_fn = "cstring \<Rightarrow> cstring \<Rightarrow> nat \<Rightarrow> 'w \<Rightarrow> (int + nat \<times> char list) \<times> 'w"

definition fill_buffer :: "char list \<Rightarrow> char option list \<Rightarrow> char option list" where
  "fill_buffer bytes buf = map Some bytes @ drop (length bytes) buf"

text \<open>\<^verbatim>\<open>buf[r] = 0\<close> and the line that is printed.\<close>

definition print_buffer :: "cstring \<Rightarrow> nat \<Rightarrow> char option list \<Rightarrow> printout option" where
  "print_buffer filename r buf =
     (if r < length buf
      then do {
        str \<leftarrow> read_string (buf[r := Some (CHR 0x00)]);
        Some (Printed (filename @ '': '' @ str @ [newline]))
      }
      else None)"

definition ls_tags :: "'w getxattr_fn \<Rightarrow> cstring \<Rightarrow> 'w \<Rightarrow> (printout \<times> 'w) option" where
  "ls_tags getxattr filename w =
     (let buf = replicate HEUR_SIZE None
      in case getxattr filename ''tags'' HEUR_SIZE w of
           (Inl errno, w) \<Rightarrow> Some (Failed errno, w)
         | (Inr (r, bytes), w) \<Rightarrow>
             let buf = fill_buffer bytes buf
             in if r > HEUR_SIZE then
                  let buf = buf @ replicate (r + 1 - HEUR_SIZE) None
                  in case getxattr filename ''tags'' (r + 1) w of
                       (Inl errno, w) \<Rightarrow> Some (Failed errno, w)
                     | (Inr (s, bytes), w) \<Rightarrow> do { out \<leftarrow> print_buffer filename r (fill_buffer bytes buf); Some (out, w) }
                else do { out \<leftarrow> print_buffer filename r buf; Some (out, w) })"

fun ls_tags_args :: "'w getxattr_fn \<Rightarrow> cstring list \<Rightarrow> 'w \<Rightarrow> (printout list \<times> 'w) option" where
  "ls_tags_args getxattr [] w = Some ([], w)"
| "ls_tags_args getxattr (arg # args) w = do {
     (out, w) \<leftarrow> ls_tags getxattr arg w;
     (outs, w) \<leftarrow> ls_tags_args getxattr args w;
     Some (out # outs, w)
   }"

text \<open>\<^verbatim>\<open>main\<close>: without an argument it prints the usage and exits with a failure.\<close>

definition ls_tags_main :: "'w getxattr_fn \<Rightarrow> cstring list \<Rightarrow> 'w \<Rightarrow> ((int \<times> printout list) \<times> 'w) option" where
  "ls_tags_main getxattr argv w =
     (if length argv < 2 then Some ((1, [Printed (''usage: '' @ hd argv @ '' filename'' @ [newline])]), w)
      else do { (outs, w) \<leftarrow> ls_tags_args getxattr (tl argv) w; Some ((0, outs), w) })"

subsection \<open>print\_tags\<close>

record 'w ioctl_calls =
  sys_open :: "cstring \<Rightarrow> 'w \<Rightarrow> (int + int) \<times> 'w"
  sys_ioctl :: "int \<Rightarrow> 32 word \<Rightarrow> tag_ioctl \<Rightarrow> 'w \<Rightarrow> (int + tag_ioctl) \<times> 'w"
  sys_close :: "int \<Rightarrow> 'w \<Rightarrow> 'w"

text \<open>\<open>io\<close> is the variable on the stack, with what happens to be in it.\<close>

definition print_tag_list :: "'w ioctl_calls \<Rightarrow> tag_ioctl \<Rightarrow> cstring \<Rightarrow> 'w \<Rightarrow> (printout \<times> 'w) option" where
  "print_tag_list sys io filename w =
     (case sys_open sys filename w of
        (Inl errno, w) \<Rightarrow> Some (Failed errno, w)
      | (Inr fd, w) \<Rightarrow>
          (case sys_ioctl sys fd TAG_IOC_READ_TAGS io w of
             (Inl errno, w) \<Rightarrow> Some (Failed errno, sys_close sys fd w)
           | (Inr io, w) \<Rightarrow> do {
               str \<leftarrow> read_string (map Some (io_buf io));
               Some (Printed (filename @ '': '' @ str @ [newline]), sys_close sys fd w)
             }))"

fun print_tags_args :: "'w ioctl_calls \<Rightarrow> tag_ioctl \<Rightarrow> cstring list \<Rightarrow> 'w \<Rightarrow> (printout list \<times> 'w) option" where
  "print_tags_args sys io [] w = Some ([], w)"
| "print_tags_args sys io (arg # args) w = do {
     (out, w) \<leftarrow> print_tag_list sys io arg w;
     (outs, w) \<leftarrow> print_tags_args sys io args w;
     Some (out # outs, w)
   }"

definition print_tags_main :: "'w ioctl_calls \<Rightarrow> tag_ioctl \<Rightarrow> cstring list \<Rightarrow> 'w \<Rightarrow> ((int \<times> printout list) \<times> 'w) option" where
  "print_tags_main sys io argv w =
     (if length argv < 2 then Some ((1, [Printed (''usage: '' @ hd argv @ '' filename1 [ filename2 ... ]'' @ [newline])]), w)
      else do { (outs, w) \<leftarrow> print_tags_args sys io (tl argv) w; Some ((0, outs), w) })"

subsection \<open>poll\_files\<close>

record pollfd =
  pf_fd :: int
  pf_events :: "32 word"
  pf_revents :: "32 word"

text \<open>The set-up of a descriptor, and the messages of one round of the loop.\<close>

definition poll_setup :: "int + int \<Rightarrow> pollfd" where
  "poll_setup opened =
     \<lparr>pf_fd = (case opened of Inl errno \<Rightarrow> -1 | Inr fd \<Rightarrow> fd), pf_events = POLLIN OR POLLOUT, pf_revents = 0\<rparr>"

definition check_event :: "pollfd \<Rightarrow> cstring \<Rightarrow> cstring list \<times> pollfd" where
  "check_event pf filename =
     ((if pf_revents pf AND POLLIN \<noteq> 0 then [''ajout d'' @ [CHR 0x27] @ ''un tag sur '' @ filename @ [newline]] else []) @
      (if pf_revents pf AND POLLOUT \<noteq> 0 then [''suppression d'' @ [CHR 0x27] @ ''un tag sur '' @ filename @ [newline]] else []),
      pf\<lparr>pf_revents := 0\<rparr>)"

fun check_events :: "(pollfd \<times> cstring) list \<Rightarrow> cstring list \<times> pollfd list" where
  "check_events [] = ([], [])"
| "check_events ((pf, filename) # fds) =
     (let (out, pf) = check_event pf filename; (outs, pfs) = check_events fds in (out @ outs, pf # pfs))"

text \<open>
  One round of the endless loop: the call \<^verbatim>\<open>poll\<close> fills in the events, and an error of it ends the
  program. \<open>poll_rounds\<close> is the first \<open>n\<close> rounds with all they print.
\<close>

definition poll_round ::
  "(pollfd list \<Rightarrow> 'w \<Rightarrow> (int + pollfd list) \<times> 'w) \<Rightarrow> (pollfd \<times> cstring) list \<Rightarrow> 'w \<Rightarrow>
   (int + cstring list \<times> pollfd list) \<times> 'w" where
  "poll_round poll fds w =
     (case poll (map fst fds) w of
        (Inl errno, w) \<Rightarrow> (Inl errno, w)
      | (Inr pfs, w) \<Rightarrow> (Inr (check_events (zip pfs (map snd fds))), w))"

fun poll_rounds ::
  "nat \<Rightarrow> (pollfd list \<Rightarrow> 'w \<Rightarrow> (int + pollfd list) \<times> 'w) \<Rightarrow> (pollfd \<times> cstring) list \<Rightarrow> 'w \<Rightarrow>
   (cstring list \<times> int option) \<times> 'w" where
  "poll_rounds 0 poll fds w = (([], None), w)"
| "poll_rounds (Suc n) poll fds w =
     (case poll_round poll fds w of
        (Inl errno, w) \<Rightarrow> (([], Some errno), w)
      | (Inr (out, pfs), w) \<Rightarrow>
          let ((outs, err), w) = poll_rounds n poll (zip pfs (map snd fds)) w in ((out @ outs, err), w))"

subsection \<open>Buffers\<close>

lemma read_string_text: "CHR 0x00 \<notin> set str \<Longrightarrow> read_string (map Some str @ Some (CHR 0x00) # rest) = Some str"
  by (induction str) auto

lemma print_short:
  assumes "length str < HEUR_SIZE" and "CHR 0x00 \<notin> set str"
  shows "print_buffer filename (length str) (fill_buffer str (replicate HEUR_SIZE None)) =
    Some (Printed (filename @ '': '' @ str @ [newline]))"
proof -
  obtain m where m: "HEUR_SIZE - length str = Suc m" using assms(1) by (cases "HEUR_SIZE - length str") auto
  then have "fill_buffer str (replicate HEUR_SIZE None) = map Some str @ None # replicate m None"
    by (simp add: fill_buffer_def)
  moreover from this have "(map Some str @ None # replicate m None)[length str := Some (CHR 0x00)] =
      map Some str @ Some (CHR 0x00) # replicate m None" by (simp add: list_update_append)
  ultimately show ?thesis by (simp add: print_buffer_def read_string_text [OF assms(2)])
qed

lemma join_chars: "set (join ks) \<subseteq> insert (CHR 0x20) (\<Union>k\<in>set ks. set k)"
  by (induction ks rule: join.induct) auto

text \<open>
  C37. \<^verbatim>\<open>ls_tags\<close> on a file of the \<^verbatim>\<open>fuse\<close> file system, where the kernel hands the answer of the file system
  on: if the names of its tags, separated by spaces, have fewer than 1024 characters, it prints exactly
  these names; if they have just 1024, it writes the null character behind its buffer.
\<close>
theorem ls_tags_prints_tags:
  assumes "reachable os s" and "components cs"
    and "fst (lookup_spec os cs stat0 s) = 0" and "\<not> S_ISDIR (st_mode (snd (lookup_spec os cs stat0 s)))"
    and names: "\<forall>k. tagged s (lookup_name cs) k \<longrightarrow> CHR 0x00 \<notin> set k"
    and kernel: "\<forall>r v s'. run os (Getxattr cs ''tags'' v0 HEUR_SIZE) s = Some (RetBuf (int r) v, s') \<longrightarrow>
      getxattr filename ''tags'' HEUR_SIZE s = (Inr (r, take (min r HEUR_SIZE) v), s')"
  shows "\<exists>ks s'. set ks = {k. tagged s (lookup_name cs) k} \<and> distinct ks \<and>
    (length (join ks) < HEUR_SIZE \<longrightarrow>
      ls_tags getxattr filename s = Some (Printed (filename @ '': '' @ join ks @ [newline]), s')) \<and>
    (length (join ks) = HEUR_SIZE \<longrightarrow> ls_tags getxattr filename s = None)"
proof -
  obtain r v s' where "run os (Getxattr cs ''tags'' v0 HEUR_SIZE) s = Some (RetBuf r v, s')"
    and "\<exists>ks. (\<forall>k. k \<in> set ks \<longleftrightarrow> tagged s (lookup_name cs) k) \<and> distinct ks \<and>
      (r, v) = (int (length (join ks)), strncpy v0 (join ks) HEUR_SIZE)"
    using getxattr_inv [OF assms(2) reachable_inv [OF assms(1)], of os "''tags''" v0 HEUR_SIZE] assms(3,4)
    by (auto; blast)
  then obtain ks where run: "run os (Getxattr cs ''tags'' v0 HEUR_SIZE) s =
      Some (RetBuf (int (length (join ks))) (strncpy v0 (join ks) HEUR_SIZE), s')"
    and ks: "\<forall>k. k \<in> set ks \<longleftrightarrow> tagged s (lookup_name cs) k" "distinct ks" by blast
  note get = kernel [rule_format, OF run]
  have nul: "CHR 0x00 \<notin> set (join ks)" using join_chars [of ks] ks(1) names by force
  have "ls_tags getxattr filename s = Some (Printed (filename @ '': '' @ join ks @ [newline]), s')"
    if "length (join ks) < HEUR_SIZE"
  proof -
    have "take (min (length (join ks)) HEUR_SIZE) (strncpy v0 (join ks) HEUR_SIZE) = join ks"
      using that by (simp add: strncpy_def)
    with get print_short [OF that nul] that show ?thesis by (simp add: ls_tags_def)
  qed
  moreover have "ls_tags getxattr filename s = None" if "length (join ks) = HEUR_SIZE"
  proof -
    have "take (min (length (join ks)) HEUR_SIZE) (strncpy v0 (join ks) HEUR_SIZE) = join ks"
      using that by (simp add: strncpy_def)
    with get that show ?thesis by (simp add: ls_tags_def print_buffer_def fill_buffer_def)
  qed
  moreover have "set ks = {k. tagged s (lookup_name cs) k}" using ks(1) by blast
  ultimately show ?thesis using ks(2) by (intro exI [of _ ks] exI [of _ s']) simp
qed

text \<open>The kernel and the library in front of \<^verbatim>\<open>fuse\<close>, for the concrete run.\<close>

definition demo_kernel :: "unit fs getxattr_fn" where
  "demo_kernel filename name n s =
     (case run demo_os (Getxattr [''f''] name (replicate n (CHR 0x00)) n) s of
        Some (RetBuf r v, s') \<Rightarrow> if r < 0 then (Inl (- r), s') else (Inr (nat r, take (min (nat r) n) v), s')
      | _ \<Rightarrow> (Inl EIO, s))"

theorem ls_tags_prints_tags_witness:
  "\<exists>s'. ls_tags demo_kernel ''m/f'' (demo_after [Link [''f''] [''y'', ''f'']]) =
     Some (Printed (''m/f: y'' @ [newline]), s')"
proof -
  let ?reqs = "[Link [''f''] [''y'', ''f'']]"
  let ?s = "demo_after ?reqs"
  have g: "guards demo_os ?reqs demo_init" by code_simp
  have r: "realdirpath ?s = ''/r''" by code_simp
  have l: "lookup_spec demo_os [''f''] stat0 ?s = (0, stat0\<lparr>st_mode := 0x81A4\<rparr>)"
    using demo_stat [OF r demo_paths(1,3)] by (simp add: lookup_spec_def demo_not_dir lookup_name_def TAG_FILENAME_def)
  have ok: "fst (lookup_spec demo_os [''f''] stat0 ?s) = 0" "\<not> S_ISDIR (st_mode (snd (lookup_spec demo_os [''f''] stat0 ?s)))"
    unfolding l by (simp_all add: demo_not_dir)
  have only: "tagged ?s (lookup_name [''f'']) k \<longleftrightarrow> k = ''y''" for k
  proof -
    have "sections ?s = [(''f'', [''y''])]" by code_simp
    with demo_tagged [OF g, of "''f''" k] show ?thesis by (simp add: lookup_name_def)
  qed
  have names: "\<forall>k. tagged ?s (lookup_name [''f'']) k \<longrightarrow> CHR 0x00 \<notin> set k" unfolding only by simp
  have kernel: "\<forall>r v s'. run demo_os (Getxattr [''f''] ''tags'' (replicate HEUR_SIZE (CHR 0x00)) HEUR_SIZE) ?s = Some (RetBuf (int r) v, s') \<longrightarrow>
      demo_kernel ''m/f'' ''tags'' HEUR_SIZE ?s = (Inr (r, take (min r HEUR_SIZE) v), s')"
    by (simp add: demo_kernel_def del: run.simps)
  from ls_tags_prints_tags [where getxattr = demo_kernel and filename = "''m/f''", OF demo_after_reachable [OF g] demo_components(1) ok names kernel] obtain ks s' where
    ks: "set ks = {k. tagged ?s (lookup_name [''f'']) k}" "distinct ks"
    and out: "length (join ks) < HEUR_SIZE \<longrightarrow>
      ls_tags demo_kernel ''m/f'' ?s = Some (Printed (''m/f'' @ '': '' @ join ks @ [newline]), s')" by blast
  have "set ks = {''y''}" using ks(1) unfolding only by auto
  with ks(2) have "ks = [''y'']" by (cases ks) (auto simp: subset_singleton_iff)
  with out show ?thesis by (simp add: HEUR_SIZE_def)
qed

end
