(* ===== verification/Err_Ptr.thy ===== *)
theory Err_Ptr
  imports "HOL-Library.Word"
begin

text \<open>
  The error pointers of \<^verbatim>\<open>include/err.h\<close>, which \<^verbatim>\<open>fuse\<close> returns from \<^verbatim>\<open>fd_open\<close>: a pointer is a 64-bit
  word, a \<^verbatim>\<open>long\<close> is read from such a word with its sign, and the last 4095 addresses stand for errors.
  Theories \<open>Fuse_Path\<close> and \<open>Fuse_Tagfs\<close> write a sum instead of such a pointer; the theorem on it
  says that nothing is lost by that for the error numbers of the system.
\<close>

type_synonym pointer = "64 word"

definition MAX_ERRNO :: int where "MAX_ERRNO = 4095"

definition IS_ERR_VALUE :: "64 word \<Rightarrow> bool" where
  "IS_ERR_VALUE x \<longleftrightarrow> x \<ge> word_of_int (- MAX_ERRNO)"

definition ERR_PTR :: "int \<Rightarrow> pointer" where
  "ERR_PTR error = word_of_int error"

definition PTR_ERR :: "pointer \<Rightarrow> int" where
  "PTR_ERR ptr = sint ptr"

definition IS_ERR :: "pointer \<Rightarrow> bool" where
  "IS_ERR ptr \<longleftrightarrow> IS_ERR_VALUE ptr"

definition IS_ERR_OR_NULL :: "pointer \<Rightarrow> bool" where
  "IS_ERR_OR_NULL ptr \<longleftrightarrow> ptr = 0 \<or> IS_ERR_VALUE ptr"

definition ERR_CAST :: "pointer \<Rightarrow> pointer" where
  "ERR_CAST ptr = ptr"

text \<open>The \<^verbatim>\<open>long\<close> is cut to an \<^verbatim>\<open>int\<close>.\<close>

definition PTR_ERR_OR_ZERO :: "pointer \<Rightarrow> int" where
  "PTR_ERR_OR_ZERO ptr = (if IS_ERR ptr then sint (word_of_int (PTR_ERR ptr) :: 32 word) else 0)"

lemma err_value_iff: "IS_ERR_VALUE p \<longleftrightarrow> - 4095 \<le> sint p \<and> sint p < 0"
proof -
  have u: "0 \<le> uint p" "uint p < 2 ^ 64" using uint_range_size [of p] by (simp_all add: word_size)
  then have "(uint p + 2 ^ 63) mod 2 ^ 64 = (if uint p < 2 ^ 63 then uint p + 2 ^ 63 else uint p - 2 ^ 63)"
    using mod_pos_pos_trivial [of "uint p + 2 ^ 63" "2 ^ 64"] minus_mod_self2 [of "uint p + 2 ^ 63" "2 ^ 64"]
      mod_pos_pos_trivial [of "uint p - 2 ^ 63" "2 ^ 64"] by auto
  then have s: "sint p = (if uint p < 2 ^ 63 then uint p else uint p - 2 ^ 64)"
    using int_word_sint [of "uint p", where 'a = 64] by simp
  have "uint (word_of_int (- MAX_ERRNO) :: 64 word) = 2 ^ 64 - 4095" by (simp add: MAX_ERRNO_def)
  then show ?thesis using u unfolding IS_ERR_VALUE_def word_le_def s by auto
qed

text \<open>
  A pointer is an error exactly if it reads as one of the numbers from -4095 to -1; reading and
  writing give the same pointer, and the same number for every \<^verbatim>\<open>long\<close>; and the cut to an \<^verbatim>\<open>int\<close> keeps the number
  of every error.
\<close>
theorem err_pointers:
  "(IS_ERR p \<longleftrightarrow> PTR_ERR p \<in> {- MAX_ERRNO..-1}) \<and> ERR_PTR (PTR_ERR p) = p \<and>
   PTR_ERR (ERR_PTR i) = signed_take_bit 63 i \<and> (IS_ERR_OR_NULL p \<longleftrightarrow> PTR_ERR p \<in> {- MAX_ERRNO..0}) \<and>
   PTR_ERR_OR_ZERO p = (if PTR_ERR p \<in> {- MAX_ERRNO..-1} then PTR_ERR p else 0)"
proof -
  have err: "IS_ERR p \<longleftrightarrow> PTR_ERR p \<in> {- MAX_ERRNO..-1}"
    by (auto simp: IS_ERR_def err_value_iff PTR_ERR_def MAX_ERRNO_def)
  have cut: "signed_take_bit 31 (PTR_ERR p) = PTR_ERR p" if "IS_ERR p"
    using that unfolding err by (intro signed_take_bit_int_eq_self) (auto simp: MAX_ERRNO_def)
  have same: "word_of_int (sint p) = p" by simp
  have zero: "sint p < 0" if "sint p \<le> 0" "p \<noteq> 0"
  proof (rule ccontr)
    assume "\<not> sint p < 0"
    with that(1) have "sint p = 0" by simp
    with same that(2) show False by simp
  qed
  have "PTR_ERR_OR_ZERO p = (if IS_ERR p then PTR_ERR p else 0)"
    using cut by (simp add: PTR_ERR_OR_ZERO_def sint_sbintrunc')
  moreover have "IS_ERR_OR_NULL p \<longleftrightarrow> PTR_ERR p \<in> {- MAX_ERRNO..0}"
    using zero by (auto simp: IS_ERR_OR_NULL_def err_value_iff PTR_ERR_def MAX_ERRNO_def)
  moreover have "ERR_PTR (PTR_ERR p) = p" by (simp add: ERR_PTR_def PTR_ERR_def)
  moreover have "PTR_ERR (ERR_PTR i) = signed_take_bit 63 i" by (simp add: ERR_PTR_def PTR_ERR_def sint_sbintrunc')
  ultimately show ?thesis by (simp only: err)
qed

end
