(* ===== verification/Spec2Isabelle.thy ===== *)
theory Spec2Isabelle
  imports Uthash_Check Cutil_Props Fuse_Race Ll_Props Ll_Start Sq_Props Clients Err_Ptr
begin

text \<open>
  A verification of the tag file systems. A directory of real files is shown as a tree whose
  directories are tags: the path \<^verbatim>\<open>/red/round/f\<close> is the real file \<^verbatim>\<open>f\<close> if it carries both tags. Making a
  directory makes a tag, a hard link into a directory adds tags to a file, \<^verbatim>\<open>unlink\<close> takes them
  away, and the file \<^verbatim>\<open>.tags\<close> of the root is the text of the relation of files and tags. The repository has
  this system three times, over a common library, and small client programs.

  \<^bold>\<open>Conventions.\<close> A C function that may run into undefined behaviour (freed, null or uninitialised
  memory) is a function into \<open>option\<close>, and \<open>None\<close> is that fault; so \<open>\<exists>r. f x = Some r\<close> states memory
  safety. Structs on the heap are records behind explicit addresses, in maps that forget an address when
  it is freed. C strings are lists of characters without their null. The operating system and the
  FUSE library are parameters (records of functions over a world of any type); nothing is assumed
  of them except what a theorem names. System error numbers are \<open>Inl\<close> values; the functions answer
  with the numbers the code computes, also where these are wrong.

  \<^bold>\<open>The common library\<close> (\<^verbatim>\<open>cutil/\<close>). \<open>Cutil_Hash\<close> models \<^verbatim>\<open>hash_table.c\<close>: a table is the list of its
  entries in the order of insertion; the locale \<open>string_table\<close> is the contract its users rely on. This is
  the table the file systems are modelled with. \<open>Cutil_Lock\<close> adds the reader/writer lock of a table, for a traversal that writes to
  the table it iterates: a call that waits for ever is a result of its own (\<open>Waits\<close>), apart from undefined behaviour. \<open>Uthash\<close> models what is below it, the macros of \<^verbatim>\<open>uthash.h\<close> with the
  links of the entries, the buckets and their doubling and the hash function on 32-bit words, and the
  functions of \<^verbatim>\<open>hash_table.c\<close> over them (\<open>uh_\<close>). \<open>Uthash_Inv\<close> is the invariant \<open>uok\<close> and the relation \<open>repr\<close> to the list of
  entries, \<open>Uthash_Expand\<close>, \<open>Uthash_Add\<close> and \<open>Uthash_Del\<close> carry it through the doubling, the insertion and the
  deletion, \<open>Uthash_Props\<close> relates the functions, and \<open>Uthash_Check\<close> has the properties and the integrity check of
  debugging builds. A key that is in a table twice is where the two levels differ: in the lists the younger entry is
  found, and in the buckets only as long as they are not doubled. The file systems look up and remove by key only in tables
  with unique keys; \<open>Fuse_Race\<close>, where a key is repeated, states the lookup on the buckets. \<open>Cutil_List\<close> models
  \<^verbatim>\<open>list.c\<close> with its sentinels, its node heap and the cursor that remembers the last position.
  \<open>Cutil_String\<close> models \<^verbatim>\<open>string2.c\<close> and the path helpers. \<open>Cutil_Props\<close> shows that lists refine
  sequences, tables with unique keys are maps, that the loops end, what splitting returns and
  that joining gives the text back. \<open>Err_Ptr\<close> models the error pointers of \<^verbatim>\<open>include/err.h\<close> on 64-bit words.

  \<^bold>\<open>The variant over paths\<close> (\<^verbatim>\<open>fuse/\<close>). \<open>Fuse_State\<close> is the global state (the tables \<^verbatim>\<open>tags\<close> and
  \<^verbatim>\<open>files\<close>, the structs, the descriptors), \<open>Fuse_Tag\<close> is \<^verbatim>\<open>tag.c\<close> and \<^verbatim>\<open>file.c\<close> with the two-way association
  and the reference counts, \<open>Fuse_Path\<close> is \<^verbatim>\<open>path.c\<close> and \<^verbatim>\<open>file_descriptor.c\<close>, \<open>Fuse_Tagfs\<close> the
  operations of \<^verbatim>\<open>tagfs.c\<close>, \<open>Fuse_Db\<close> the writer and reader of the tag database, and \<open>Fuse_Step\<close> the
  table of operations as a step relation. A request is \<open>well_formed\<close> if its paths have ordinary components and its
  descriptors are open. Nothing is asked about the directories on a path, for \<^verbatim>\<open>getattr\<close> answers success for
  unknown names. \<open>faulty\<close> lists the well-formed requests that are undefined behaviour, among them \<^verbatim>\<open>unlink\<close> and \<^verbatim>\<open>rename\<close> below
  a name that is not a tag; a request is \<open>orderly\<close> unless it opens a descriptor below such a name, after which the
  tables can get out of step. The reachable states are those after \<^verbatim>\<open>set_root_directory\<close> with any text as database
  and well-formed, orderly requests. \<open>Fuse_Inv\<close>, \<open>Fuse_View\<close>, \<open>Fuse_Safe\<close>, \<open>Fuse_Refs\<close>, \<open>Fuse_Ops\<close>, \<open>Fuse_Fd\<close>, \<open>Fuse_Readdir\<close> and
  \<open>Fuse_Text\<close> carry the proofs: the invariant, what path objects do to it, the reference counts exactly, the effect and safety of
  each operation, listings and texts. \<open>Fuse_Props\<close> and \<open>Fuse_Report\<close> hold the properties: which requests are undefined,
  that the association stays consistent, what link, unlink, rename, lookup and listing do to
  the relation, what the attribute, the \<^verbatim>\<open>ioctl\<close> and the tag file tell of it, and that a mount on a
  saved database gives the same relation. \<open>Fuse_Race\<close> runs two threads through \<^verbatim>\<open>file_get_or_create\<close>, whose steps
  interleave between the locks of the table.

  \<^bold>\<open>The variant over inodes\<close> (\<^verbatim>\<open>fuse_lowlevel/\<close>). \<open>Ll_State\<close> is its state with \<^verbatim>\<open>inode.c\<close>, \<^verbatim>\<open>tag.c\<close>,
  \<^verbatim>\<open>file.c\<close>, \<^verbatim>\<open>parse.c\<close> and \<^verbatim>\<open>real.c\<close>, \<open>Ll_Ops\<close> the callbacks of \<^verbatim>\<open>fuse_callback.c\<close>, which answer by appending to
  a log of replies. \<open>Ll_Reply\<close> shows which callbacks answer how often, \<open>Ll_Inv\<close> and \<open>Ll_Rel\<close> the
  invariant and the relation, \<open>Ll_Text\<close> the database, \<open>Ll_Dir\<close> directories and lookup counts, and
  \<open>Ll_Props\<close> the properties. \<open>Ll_Start\<close> is the process around them, \<^verbatim>\<open>main.c\<close>: the calls of the FUSE
  library are recorded with what they acquire and release, and its theorem says what is still held at each end. The inode counter has 64 bits and the function that draws from it 32, as in the code.

  \<^bold>\<open>The variant over a database\<close> (\<^verbatim>\<open>fuse_sqlite3/\<close>). \<open>Sq_State\<close> has the three tables of \<^verbatim>\<open>schema.sql\<close> as
  lists of rows, each statement of \<^verbatim>\<open>db.c\<close> as the function that its text says, and \<^verbatim>\<open>tag.c\<close> and
  \<^verbatim>\<open>file.c\<close>; \<open>Sq_Ops\<close> has the operations of \<^verbatim>\<open>tagfs.c\<close>. \<open>Sq_Inv\<close> and \<open>Sq_Rel\<close> are its invariant and
  relation, \<open>Sq_Step\<close> the requests and the reachable states, and \<open>Sq_Props\<close> the properties, the
  last of which compares its lookups with those of \<^verbatim>\<open>fuse\<close>.

  \<^bold>\<open>Interfaces.\<close> The locale \<open>string_table\<close> (\<open>Cutil_Hash\<close>) is interpreted on the hash table; \<open>db_reader\<close>
  (\<open>Fuse_Text\<close>), the reader of the database over any function that looks a file up, on the callback of \<^verbatim>\<open>fuse\<close>;
  \<open>tag_routine\<close> and \<open>tag_store\<close> (\<open>Tag_Store\<close>), the routines that tag and untag one file with the
  loops over a table of selected tags, on \<^verbatim>\<open>fuse_lowlevel\<close> (\<open>Ll_Rel\<close>) and on \<^verbatim>\<open>fuse_sqlite3\<close> (\<open>Sq_Rel\<close>).

  \<^bold>\<open>The clients\<close> (\<^verbatim>\<open>ls_tags/\<close>, \<^verbatim>\<open>print_tags/\<close>, \<^verbatim>\<open>poll_files/\<close>). \<open>Clients\<close> models them over system calls as
  parameters, and composes \<^verbatim>\<open>ls_tags\<close> with the attribute of \<^verbatim>\<open>fuse\<close>.

  \<^bold>\<open>Bounds.\<close> No function of the file systems needs fuel: the readers of the database are total, for
  \<^verbatim>\<open>fgets\<close> with its buffer of 1000 bytes makes progress on a non-empty text. Paths have fewer than
  \<open>2 ^ 32 - 2\<close> components and the tables fewer than \<open>2 ^ 32 - 2\<close> entries (\<open>components\<close>, \<open>bounded\<close>) where the code
  counts in 32 bits. In \<open>Uthash\<close> keys have fewer than \<open>2 ^ 32\<close> characters and tables fewer than \<open>2 ^ 31\<close> entries, the
  buckets are fewer than \<open>2 ^ 31\<close> (\<open>roomy\<close>), and allocation succeeds. The loop of \<^verbatim>\<open>poll_files\<close> never ends, and \<open>poll_rounds\<close> is its first rounds. The
  ids of \<^verbatim>\<open>fuse_sqlite3\<close> are taken not to overflow an \<^verbatim>\<open>int\<close>, and the rows of a query to come in the
  order of insertion, which SQL leaves open.

  \<^bold>\<open>Not modelled.\<close> \<^verbatim>\<open>kmod/\<close>: an unfinished port to the kernel that consists of copies of the lowlevel
  callbacks and of another file system's inode code and does not compile. Of \<^verbatim>\<open>cutil/uthash.h\<close> the
  other hash functions, the Bloom filter, sorting, selecting, replacing and clearing, and all of \<^verbatim>\<open>cutil/queue.h\<close>:
  macros that nothing uses. The table of a file's descriptors, which \<^verbatim>\<open>fuse/file.c\<close> keeps with the macros directly,
  is a list in \<open>Fuse_State\<close>.
  \<^verbatim>\<open>cutil/error.c\<close> and the files \<^verbatim>\<open>log.c\<close>: output of messages. The functions \<^verbatim>\<open>main\<close> of \<^verbatim>\<open>fuse\<close>
  and \<^verbatim>\<open>fuse_sqlite3\<close>, which leave the session to one call of the library; the start and the end of a session (reading and saving the
  database) are modelled. The measuring programs of \<^verbatim>\<open>tests/\<close> and the scripts. Threads, except in \<open>Fuse_Race\<close>: the locks of the
  hash tables serialise single calls, and a run is sequential.
\<close>

end
